(* ===== verification/GcPrelude.thy ===== *)
theory GcPrelude
  imports Main "HOL-Library.Word"
begin

text \<open>
  Shared vocabulary of the development: machine types, the outcome of running Go code
  (a value, a run-time panic, or no return at all), error values, and the list facts about
  reading and overwriting byte ranges that the file layer and its specification share.
\<close>

section \<open>Types\<close>

type_synonym byte = "8 word"
type_synonym bytes = "byte list"
type_synonym uint64 = "64 word"
type_synonym uint32 = "32 word"

named_theorems go_simps \<open>evaluation of outcomes and of guarded results\<close>
named_theorems slice_simps \<open>facts on slices, splices and zero blocks\<close>
named_theorems unat_simps \<open>the numeric value of the word-level offset functions\<close>

section \<open>Errors\<close>

text \<open>The system errors the code tests for or returns, and the other error values of Go.\<close>

datatype errno =
    EINTR | ENOENT | EEXIST | ENOTEMPTY | EBADMSG | ENAMETOOLONG | EINVAL | EIO | ENOSPC
  | EOPNOTSUPP | ENOTDIR | EISDIR | ELOOP | EBADF | EFBIG | EACCES | EBADR

datatype err =
    Errno errno          \<comment> \<open>a syscall.Errno\<close>
  | EOF                  \<comment> \<open>io.EOF\<close>
  | ErrMsg string        \<comment> \<open>errors.New, fmt.Errorf: an error known by its message only\<close>
  | ErrAuth              \<comment> \<open>authentication failure of an AEAD cipher\<close>
  | Coded string nat     \<comment> \<open>exitcodes.Err: a message with an exit code\<close>

section \<open>Outcomes of Go code\<close>

text \<open>
  A call returns, panics (nil dereference, index or slice bounds, division by zero,
  \<open>log.Panic\<close>, stack overflow, \<open>os.Exit\<close>; the process ends), or never returns
  (a deadlock or an endless loop).
\<close>

datatype panic = NilDeref | OutOfRange | DivByZero | LogPanic | StackOverflow | Exit nat

datatype 'a go = Ret 'a | Panic panic | Hang

fun go_bind :: "'a go \<Rightarrow> ('a \<Rightarrow> 'b go) \<Rightarrow> 'b go" where
  "go_bind (Ret x) f = f x"
| "go_bind (Panic p) f = Panic p"
| "go_bind Hang f = Hang"

declare go_bind.simps [go_simps]

definition deref :: "'a option \<Rightarrow> 'a go" where
  "deref p = (case p of None \<Rightarrow> Panic NilDeref | Some x \<Rightarrow> Ret x)"

definition go_guard :: "bool \<Rightarrow> panic \<Rightarrow> unit go" where
  "go_guard b p = (if b then Ret () else Panic p)"

lemma deref_simps [simp, go_simps]:
  "deref None = Panic NilDeref" "deref (Some x) = Ret x"
  by (simp_all add: deref_def)

lemma go_guard_simps [simp, go_simps]:
  "b \<Longrightarrow> go_guard b p = Ret ()" "\<not> b \<Longrightarrow> go_guard b p = Panic p"
  by (simp_all add: go_guard_def)

lemma go_bind_eq_Ret:
  "go_bind m f = Ret y \<longleftrightarrow> (\<exists>x. m = Ret x \<and> f x = Ret y)"
  by (cases m) auto

lemma go_bind_RetE:
  assumes "go_bind m f = Ret y"
  obtains x where "m = Ret x" and "f x = Ret y"
  using assms by (auto simp: go_bind_eq_Ret)

lemma deref_eq_Ret [simp]: "deref p = Ret x \<longleftrightarrow> p = Some x"
  by (cases p) auto

lemma go_guard_eq_Ret [simp]: "go_guard b p = Ret u \<longleftrightarrow> b"
  by (cases b) auto

lemma go_bind_assoc:
  "go_bind (go_bind m f) g = go_bind m (\<lambda>x. go_bind (f x) g)"
  by (cases m) auto

fun returns :: "'a go \<Rightarrow> bool" where
  "returns (Ret x) = True"
| "returns _ = False"

lemma returns_iff: "returns m \<longleftrightarrow> (\<exists>x. m = Ret x)"
  by (cases m) auto

section \<open>Go integers\<close>

text \<open>\<open>int(x)\<close> for an unsigned 64-bit value \<open>x\<close>: the two's complement reading.\<close>

definition go_int :: "uint64 \<Rightarrow> int" where
  "go_int x = sint x"

lemma go_int_small:
  assumes "unat x < 2 ^ 63"
  shows "go_int x = int (unat x)"
proof -
  have "int (unat x) < int (2 ^ 63)"
    using assms by (simp only: of_nat_less_iff)
  then have u: "uint x < 2 ^ 63"
    by (simp only: of_nat_power of_nat_numeral uint_nat)
  have l: "- (2 ^ 63) \<le> uint x"
    by (rule order_trans [of _ 0]) simp_all
  have "sint x = signed_take_bit 63 (uint x)"
    by (simp add: sint_uint)
  also have "\<dots> = uint x"
    by (rule signed_take_bit_int_eq_self [OF l u])
  finally show ?thesis
    by (simp only: go_int_def uint_nat)
qed

text \<open>Unsigned arithmetic that does not wrap.\<close>

lemma unat_add_small:
  fixes a b :: uint64
  assumes "unat a + unat b < 2 ^ 64"
  shows "unat (a + b) = unat a + unat b"
  using assms by (simp add: unat_word_ariths)

lemma unat_mult_small:
  fixes a b :: uint64
  assumes "unat a * unat b < 2 ^ 64"
  shows "unat (a * b) = unat a * unat b"
  using assms by (simp add: unat_word_ariths)

lemma unat_diff_small:
  fixes a b :: uint64
  assumes "unat b \<le> unat a"
  shows "unat (a - b) = unat a - unat b"
  using assms by (intro unat_sub) (simp add: word_le_nat_alt)

lemma div_mod_block:
  fixes r n q :: nat
  assumes "r < n"
  shows "(q * n + r) div n = q" "(q * n + r) mod n = r"
  using assms by simp_all

text \<open>Slicing \<open>s[lo:hi]\<close> with the bounds check of the language.\<close>

definition go_slice :: "'a list \<Rightarrow> int \<Rightarrow> int \<Rightarrow> 'a list go" where
  "go_slice xs lo hi =
     (if 0 \<le> lo \<and> lo \<le> hi \<and> hi \<le> int (length xs)
      then Ret (take (nat hi - nat lo) (drop (nat lo) xs)) else Panic OutOfRange)"

lemma go_slice_ok [go_simps]:
  "lo \<le> hi \<Longrightarrow> hi \<le> length xs \<Longrightarrow>
     go_slice xs (int lo) (int hi) = Ret (take (hi - lo) (drop lo xs))"
  by (simp add: go_slice_def)

section \<open>Byte ranges\<close>

abbreviation zeros :: "nat \<Rightarrow> bytes" where
  "zeros n \<equiv> replicate n 0"

text \<open>
  Overwriting a range, extending with zeros when it starts past the end. An empty
  overwrite changes nothing. This is both what \<open>WriteAt\<close> does to a regular file and
  the specification of a write to the plaintext.
\<close>

definition overwrite :: "nat \<Rightarrow> bytes \<Rightarrow> bytes \<Rightarrow> bytes" where
  "overwrite off d xs =
     (if d = [] then xs
      else take off xs @ zeros (off - length xs) @ d @ drop (off + length d) xs)"

text \<open>Truncating or zero-extending to a length, as \<open>ftruncate\<close> does.\<close>

definition resize :: "nat \<Rightarrow> bytes \<Rightarrow> bytes" where
  "resize n xs = take n xs @ zeros (n - length xs)"

definition range_of :: "nat \<Rightarrow> nat \<Rightarrow> 'a list \<Rightarrow> 'a list" where
  "range_of off n xs = take n (drop off xs)"

lemma length_range_of [simp, slice_simps]:
  "length (range_of off n xs) = min n (length xs - off)"
  by (simp add: range_of_def)

lemma range_of_zero [simp]: "range_of off 0 xs = []"
  by (simp add: range_of_def)

lemma range_of_beyond [simp]: "length xs \<le> off \<Longrightarrow> range_of off n xs = []"
  by (simp add: range_of_def)

lemma nth_range_of [simp]:
  "i < n \<Longrightarrow> off + i < length xs \<Longrightarrow> range_of off n xs ! i = xs ! (off + i)"
  by (simp add: range_of_def)

lemma range_of_range_of:
  "range_of a n (range_of b m xs) = range_of (b + a) (min n (m - a)) xs"
proof -
  have "take n (drop a (take m ys)) = take (min n (m - a)) (drop a ys)" for ys :: "'a list"
    by (cases "a \<le> m") (simp_all add: drop_take min.commute)
  then show ?thesis by (simp add: range_of_def add.commute)
qed

lemma range_of_split:
  "range_of off (m + n) xs = range_of off m xs @ range_of (off + m) n xs"
  by (simp add: range_of_def take_add add.commute)

lemma length_overwrite [simp, slice_simps]:
  "length (overwrite off d xs) = (if d = [] then length xs else max (length xs) (off + length d))"
  by (auto simp: overwrite_def)

lemma nth_overwrite:
  assumes "i < length (overwrite off d xs)"
  shows "overwrite off d xs ! i =
     (if off \<le> i \<and> i < off + length d then d ! (i - off)
      else if i < length xs then xs ! i else 0)"
  using assms by (auto simp: overwrite_def nth_append min_def not_less)

lemma overwrite_Nil [simp]: "overwrite off [] xs = xs"
  by (simp add: overwrite_def)

lemma length_resize [simp, slice_simps]: "length (resize n xs) = n"
  by (simp add: resize_def)

lemma nth_resize:
  "i < n \<Longrightarrow> resize n xs ! i = (if i < length xs then xs ! i else 0)"
  by (simp add: resize_def nth_append)

lemma resize_shrink: "n \<le> length xs \<Longrightarrow> resize n xs = take n xs"
  by (simp add: resize_def)

lemma resize_self [simp]: "resize (length xs) xs = xs"
  by (simp add: resize_def)

lemma range_of_overwrite_same:
  "d \<noteq> [] \<Longrightarrow> range_of off (length d) (overwrite off d xs) = d"
  by (rule nth_equalityI) (auto simp: nth_overwrite)

lemma overwrite_append:
  assumes "d1 \<noteq> []" "d2 \<noteq> []"
  shows "overwrite off (d1 @ d2) xs = overwrite (off + length d1) d2 (overwrite off d1 xs)"
proof (rule nth_equalityI)
  show len: "length (overwrite off (d1 @ d2) xs)
      = length (overwrite (off + length d1) d2 (overwrite off d1 xs))"
    using assms by auto
  fix i assume i: "i < length (overwrite off (d1 @ d2) xs)"
  have i2: "i < length (overwrite off d1 xs)" if "\<not> (off + length d1 \<le> i)" 
    using that assms by simp
  show "overwrite off (d1 @ d2) xs ! i
      = overwrite (off + length d1) d2 (overwrite off d1 xs) ! i"
    unfolding nth_overwrite [OF i] nth_overwrite [OF i [unfolded len]]
    using assms i2 by (auto simp: nth_append nth_overwrite)
qed

lemma range_of_overwrite_gap:
  assumes "d \<noteq> []" "length xs \<le> a" "a + n \<le> off"
  shows "range_of a n (overwrite off d xs) = zeros n"
  using assms by (intro nth_equalityI) (auto simp: nth_overwrite)

lemma range_of_clip:
  assumes "length xs \<le> off + n" "n \<le> m"
  shows "range_of off m xs = range_of off n xs"
  using assms by (simp add: range_of_def)

lemma range_of_overwrite_disjoint:
  assumes "off' + n \<le> off \<or> off + length d \<le> off'"
    and "off' + n \<le> length xs \<or> length xs \<le> off' \<and> off + length d \<le> off' \<or> off \<le> length xs"
  shows "range_of off' n (overwrite off d xs) = range_of off' n xs"
proof (cases "d = []")
  case False
  then have "length (range_of off' n (overwrite off d xs)) = length (range_of off' n xs)"
    using assms by auto
  then show ?thesis
    using assms by (intro nth_equalityI) (auto simp: nth_overwrite)
qed simp

lemma range_of_resize:
  "off + n \<le> m \<Longrightarrow> off + n \<le> length xs \<Longrightarrow> range_of off n (resize m xs) = range_of off n xs"
  "off + n \<le> m \<Longrightarrow> length xs \<le> off \<Longrightarrow> range_of off n (resize m xs) = zeros n"
  "m \<le> off \<Longrightarrow> range_of off n (resize m xs) = []"
proof -
  assume m: "off + n \<le> m"
  have len: "length (range_of off n (resize m xs)) = n" using m by simp
  show "range_of off n (resize m xs) = range_of off n xs" if "off + n \<le> length xs"
    using m that len by (intro nth_equalityI) (simp_all add: nth_resize)
  show "range_of off n (resize m xs) = zeros n" if "length xs \<le> off"
    using m that len by (intro nth_equalityI) (simp_all add: nth_resize)
qed simp

lemma range_of_take:
  "off + n \<le> m \<Longrightarrow> range_of off n (take m xs) = range_of off n xs"
  "m \<le> off \<Longrightarrow> range_of off n (take m xs) = []"
  by (simp_all add: range_of_def drop_take min_def)

text \<open>Two byte strings are equal when all their blocks of a fixed size are.\<close>

lemma eq_by_blocks:
  assumes "0 < n" and "length xs = length ys"
    and "\<And>i. range_of (i * n) n xs = range_of (i * n) n ys"
  shows "xs = ys"
proof (rule nth_equalityI)
  show "length xs = length ys" by fact
next
  fix k assume k: "k < length xs"
  have eq: "k = (k div n) * n + k mod n" by simp
  have m: "k mod n < n" using assms(1) by simp
  have "xs ! k = range_of ((k div n) * n) n xs ! (k mod n)"
    using m k eq by (metis nth_range_of)
  also have "\<dots> = range_of ((k div n) * n) n ys ! (k mod n)"
    using assms(3) by simp
  also have "\<dots> = ys ! k"
    using m k eq assms(2) by (metis nth_range_of)
  finally show "xs ! k = ys ! k" .
qed

section \<open>Bytes and strings\<close>

text \<open>Go strings are byte strings: a \<open>string\<close> here has one character per byte.\<close>

definition byte_of_char :: "char \<Rightarrow> byte" where
  "byte_of_char c = word_of_nat (of_char c)"

definition char_of_byte :: "byte \<Rightarrow> char" where
  "char_of_byte b = char_of (unat b)"

abbreviation to_bytes :: "string \<Rightarrow> bytes" where
  "to_bytes s \<equiv> map byte_of_char s"

abbreviation to_string :: "bytes \<Rightarrow> string" where
  "to_string b \<equiv> map char_of_byte b"

lemma char_of_byte_of_char [simp]: "char_of_byte (byte_of_char c) = c"
proof -
  have "(of_char c :: nat) < 256" by simp
  then have "unat (word_of_nat (of_char c) :: byte) = of_char c"
    by (simp add: unat_of_nat)
  then show ?thesis by (simp add: char_of_byte_def byte_of_char_def)
qed

lemma byte_of_char_of_byte [simp]: "byte_of_char (char_of_byte b) = b"
proof -
  have "unat b < 256" using unsigned_less [of b, where ?'a=nat] by simp
  then show ?thesis by (simp add: byte_of_char_def char_of_byte_def)
qed

lemma to_string_to_bytes [simp]: "to_string (to_bytes s) = s"
  by (simp add: comp_def)

lemma to_bytes_to_string [simp]: "to_bytes (to_string b) = b"
  by (simp add: comp_def)

end
