(* ===== verification/Randomness.thy ===== *)
theory Randomness
  imports GcPrelude
begin

unbundle bit_operations_syntax

text \<open>
  Random bytes and nonces (\<^verbatim>\<open>internal/cryptocore/nonce.go\<close>,
  \<^verbatim>\<open>randprefetch.go\<close>) and the big-endian integers of \<^verbatim>\<open>encoding/binary\<close>.

  The operating system's random source is an arbitrary stream of bytes and a position in
  it: the model says nothing about the bytes, so every theorem holds for every stream.
  The prefetch buffer is part of the state. The worker goroutine of the code draws a block
  when the channel is received from.
\<close>

section \<open>Big-endian integers\<close>

definition put_uint64_be :: "uint64 \<Rightarrow> bytes" where
  "put_uint64_be x = map (\<lambda>k. ucast (drop_bit (8 * (7 - k)) x)) [0..<8]"

definition get_uint64_be :: "bytes \<Rightarrow> uint64" where
  "get_uint64_be b = foldl (\<lambda>a y. push_bit 8 a OR ucast y) 0 (take 8 b)"

definition put_uint16_be :: "16 word \<Rightarrow> bytes" where
  "put_uint16_be x = [ucast (drop_bit 8 x), ucast x]"

definition get_uint16_be :: "bytes \<Rightarrow> 16 word" where
  "get_uint16_be b = push_bit 8 (ucast (b ! 0)) OR ucast (b ! 1)"

lemma length_put_uint64_be [simp]: "length (put_uint64_be x) = 8"
  by (simp add: put_uint64_be_def)

lemma length_put_uint16_be [simp]: "length (put_uint16_be x) = 2"
  by (simp add: put_uint16_be_def)

lemma get_put_uint16 [simp]: "get_uint16_be (put_uint16_be x @ rest) = x"
  by (rule bit_word_eqI)
     (auto simp: get_uint16_be_def put_uint16_be_def bit_simps)

section \<open>The random source\<close>

record rng =
  stream :: "nat \<Rightarrow> byte"   \<comment> \<open>what the system's source delivers\<close>
  pos :: nat                       \<comment> \<open>how much of it has been consumed\<close>
  prefetched :: bytes              \<comment> \<open>\<open>randPrefetcher.buf\<close>\<close>

definition RandBytes :: "nat \<Rightarrow> rng \<Rightarrow> bytes \<times> rng" where
  "RandBytes n r = (map (\<lambda>i. stream r (pos r + i)) [0..<n], r\<lparr>pos := pos r + n\<rparr>)"

definition RandUint64 :: "rng \<Rightarrow> uint64 \<times> rng" where
  "RandUint64 r = (let (b, r') = RandBytes 8 r in (get_uint64_be b, r'))"

definition prefetchN :: nat where
  "prefetchN = 512"

text \<open>
  \<open>randPrefetcherT.read\<close>: a request the buffer can satisfy is served from it; otherwise
  what is left in the buffer is dropped, a fresh block is received, and the request is
  served from that.
\<close>

definition prefetch_read :: "nat \<Rightarrow> rng \<Rightarrow> (bytes \<times> rng) go" where
  "prefetch_read want r =
     (if want \<le> length (prefetched r)
      then Ret (take want (prefetched r), r\<lparr>prefetched := drop want (prefetched r)\<rparr>)
      else (let (fresh, r') = RandBytes prefetchN r
            in if length fresh \<noteq> prefetchN then Panic LogPanic
               else if want \<le> length fresh
               then Ret (take want fresh, r'\<lparr>prefetched := drop want fresh\<rparr>)
               else Panic LogPanic))"

text \<open>\<open>nonceGenerator.Get\<close> for a generator of \<open>nonceLen\<close> bytes.\<close>

definition nonce_Get :: "nat \<Rightarrow> rng \<Rightarrow> (bytes \<times> rng) go" where
  "nonce_Get nonceLen r = prefetch_read nonceLen r"

lemma RandBytes_simps [simp]:
  "length (fst (RandBytes n r)) = n"
  "stream (snd (RandBytes n r)) = stream r"
  "pos (snd (RandBytes n r)) = pos r + n"
  "prefetched (snd (RandBytes n r)) = prefetched r"
  by (simp_all add: RandBytes_def)

lemma prefetch_read_returns:
  assumes "want \<le> prefetchN"
  shows "\<exists>b r'. prefetch_read want r = Ret (b, r') \<and> length b = want \<and> stream r' = stream r"
  using assms by (simp add: prefetch_read_def RandBytes_def)

section \<open>No random byte is handed out twice\<close>

text \<open>
  The buffer always holds stream bytes at positions that have been consumed from the
  source and not been handed out: it is a stretch of the stream ending at or before the
  current position. \<open>buf_at r p\<close> says where it starts.
\<close>

definition buf_at :: "rng \<Rightarrow> nat \<Rightarrow> bool" where
  "buf_at r p \<longleftrightarrow> p + length (prefetched r) \<le> pos r \<and>
     prefetched r = map (\<lambda>i. stream r (p + i)) [0..<length (prefetched r)]"

text \<open>Draw \<open>k\<close> nonces of \<open>n\<close> bytes.\<close>

fun draw_nonces :: "nat \<Rightarrow> nat \<Rightarrow> rng \<Rightarrow> (bytes list \<times> rng) go" where
  "draw_nonces n 0 r = Ret ([], r)"
| "draw_nonces n (Suc k) r =
     go_bind (nonce_Get n r) (\<lambda>(b, r').
     go_bind (draw_nonces n k r') (\<lambda>(bs, r''). Ret (b # bs, r'')))"

text \<open>
  One read hands out the \<open>want\<close> bytes at some position \<open>q\<close> that is not before the
  buffer, and afterwards the buffer starts right behind them.
\<close>

lemma prefetch_read_fresh:
  assumes "buf_at r p" and "prefetch_read want r = Ret (b, r')"
  shows "\<exists>q. p \<le> q \<and> b = map (\<lambda>i. stream r (q + i)) [0..<want] \<and>
     buf_at r' (q + want) \<and> stream r' = stream r"
proof (cases "want \<le> length (prefetched r)")
  case True
  have pre: "prefetched r = map (\<lambda>i. stream r (p + i)) [0..<length (prefetched r)]"
    using assms(1) by (simp add: buf_at_def)
  have b: "b = take want (prefetched r)" and r': "r' = r\<lparr>prefetched := drop want (prefetched r)\<rparr>"
    using True assms(2) by (auto simp: prefetch_read_def)
  have "b = map (\<lambda>i. stream r (p + i)) [0..<want]"
    using True by (subst b, subst pre) (simp add: take_map)
  moreover have "drop want (prefetched r)
      = map (\<lambda>i. stream r (p + want + i)) [0..<length (prefetched r) - want]"
    by (subst pre) (rule nth_equalityI, simp_all add: ac_simps less_diff_conv)
  then have "buf_at r' (p + want)"
    using True assms(1) by (auto simp: buf_at_def r')
  ultimately show ?thesis using r' by (intro exI [of _ p]) simp
next
  case False
  let ?f = "map (\<lambda>i. stream r (pos r + i)) [0..<prefetchN]"
  from False assms(2) have w: "want \<le> prefetchN" and b: "b = take want ?f"
    and r': "r' = r\<lparr>pos := pos r + prefetchN, prefetched := drop want ?f\<rparr>"
    by (auto simp: prefetch_read_def RandBytes_def split: if_splits)
  have "drop want ?f = map (\<lambda>i. stream r (pos r + want + i)) [0..<prefetchN - want]"
    by (rule nth_equalityI) (simp_all add: ac_simps less_diff_conv)
  then have "buf_at r' (pos r + want)"
    using w by (auto simp: buf_at_def r')
  moreover have "p \<le> pos r" using assms(1) by (simp add: buf_at_def)
  ultimately show ?thesis
    using w b r' by (intro exI [of _ "pos r"]) (simp add: take_map)
qed

text \<open>
  Successive nonces come from disjoint, increasing stretches of the random stream:
  nonce number \<open>j\<close> is the \<open>n\<close> bytes at \<open>qs ! j\<close>, and each starts at or behind the end of
  the one before.
\<close>

lemma draw_nonces_disjoint:
  assumes "buf_at r p" and "draw_nonces n k r = Ret (bs, r')"
  shows "\<exists>qs. length qs = k \<and> length bs = k \<and>
     (\<forall>j < k. bs ! j = map (\<lambda>i. stream r (qs ! j + i)) [0..<n] \<and> p \<le> qs ! j) \<and>
     (\<forall>i j. i < j \<and> j < k \<longrightarrow> qs ! i + n \<le> qs ! j)"
  using assms
proof (induction k arbitrary: r p bs)
  case 0
  then show ?case by simp
next
  case (Suc k)
  from Suc.prems(2) obtain b r1 bs' where
    b: "prefetch_read n r = Ret (b, r1)" and bs': "draw_nonces n k r1 = Ret (bs', r')"
    and bs: "bs = b # bs'"
    by (auto simp: go_bind_eq_Ret nonce_Get_def split: prod.splits)
  from prefetch_read_fresh [OF Suc.prems(1) b] obtain q where
    q: "p \<le> q" "b = map (\<lambda>i. stream r (q + i)) [0..<n]" "buf_at r1 (q + n)"
      "stream r1 = stream r"
    by blast
  from Suc.IH [OF q(3) bs'] obtain qs where
    qs: "length qs = k" "length bs' = k"
      "\<forall>j < k. bs' ! j = map (\<lambda>i. stream r (qs ! j + i)) [0..<n] \<and> q + n \<le> qs ! j"
      "\<forall>i j. i < j \<and> j < k \<longrightarrow> qs ! i + n \<le> qs ! j"
    unfolding q(4) by blast
  show ?case
  proof (intro exI [of _ "q # qs"] conjI)
    show "\<forall>j < Suc k. bs ! j = map (\<lambda>i. stream r ((q # qs) ! j + i)) [0..<n] \<and> p \<le> (q # qs) ! j"
      using qs(3) q bs by (fastforce simp: nth_Cons split: nat.splits)
    show "\<forall>i j. i < j \<and> j < Suc k \<longrightarrow> (q # qs) ! i + n \<le> (q # qs) ! j"
      using qs(3,4) by (auto simp: nth_Cons split: nat.splits)
  qed (use qs bs in simp_all)
qed

section \<open>Usable nonces\<close>

text \<open>
  The next \<open>k\<close> nonces exist and none is all zero (the code treats an all-zero nonce on
  disk as corruption; a random 16-byte nonce is zero with probability \<open>2 ^ -128\<close>), and
  the state after drawing them.
\<close>

fun nonces_ok :: "nat \<Rightarrow> nat \<Rightarrow> rng \<Rightarrow> bool" where
  "nonces_ok n 0 r = True"
| "nonces_ok n (Suc k) r =
     (case nonce_Get n r of Ret (b, r') \<Rightarrow> b \<noteq> zeros n \<and> nonces_ok n k r' | _ \<Rightarrow> False)"

fun rng_after :: "nat \<Rightarrow> nat \<Rightarrow> rng \<Rightarrow> rng" where
  "rng_after n 0 r = r"
| "rng_after n (Suc k) r = (case nonce_Get n r of Ret (b, r') \<Rightarrow> rng_after n k r' | _ \<Rightarrow> r)"

lemma nonces_ok_SucD:
  assumes "nonces_ok n (Suc k) r"
  obtains b r' where "nonce_Get n r = Ret (b, r')" "b \<noteq> zeros n" "nonces_ok n k r'"
    "rng_after n (Suc k) r = rng_after n k r'"
  using assms by (auto split: go.splits)

lemma nonces_ok_add:
  "nonces_ok n (j + k) r \<longleftrightarrow> nonces_ok n j r \<and> nonces_ok n k (rng_after n j r)"
proof (induction j arbitrary: r)
  case (Suc j)
  then show ?case by (auto split: go.splits)
qed simp

lemma rng_after_add:
  "nonces_ok n j r \<Longrightarrow> rng_after n (j + k) r = rng_after n k (rng_after n j r)"
proof (induction j arbitrary: r)
  case (Suc j)
  then show ?case by (auto split: go.splits)
qed simp

lemma nonce_Get_length: "nonce_Get n r = Ret (b, r') \<Longrightarrow> length b = n"
  by (auto simp: nonce_Get_def prefetch_read_def Let_def split: if_splits prod.splits)

end
