(* ===== verification/CryptoCore.thy ===== *)
theory CryptoCore
  imports Randomness
begin

text \<open>
  Keys and ciphers: \<^verbatim>\<open>internal/cryptocore/cryptocore.go\<close> and \<^verbatim>\<open>hkdf.go\<close>,
  the AEAD wrappers \<^verbatim>\<open>internal/siv_aead\<close> and \<^verbatim>\<open>internal/stupidgcm\<close>, and the
  choice of backend in \<^verbatim>\<open>stupidgcm/prefer.go\<close>.

  The cryptographic primitives themselves (AES, GCM, ChaCha20-Poly1305, SIV, EME, HKDF,
  scrypt, SHA-2) are libraries outside the repository: they are the fields of \<open>prims\<close>, a
  parameter of every definition that uses them. \<open>prims_ok\<close> is what the code relies on.
\<close>

section \<open>The primitives, a parameter\<close>

record prims =
  gcm_seal :: "bytes \<Rightarrow> bytes \<Rightarrow> bytes \<Rightarrow> bytes \<Rightarrow> bytes"            \<comment> \<open>key, nonce, plaintext, associated data\<close>
  gcm_open :: "bytes \<Rightarrow> bytes \<Rightarrow> bytes \<Rightarrow> bytes \<Rightarrow> bytes option"
  evp_gcm_seal :: "bytes \<Rightarrow> bytes \<Rightarrow> bytes \<Rightarrow> bytes \<Rightarrow> bytes"        \<comment> \<open>OpenSSL EVP_aes_256_gcm\<close>
  evp_gcm_open :: "bytes \<Rightarrow> bytes \<Rightarrow> bytes \<Rightarrow> bytes \<Rightarrow> bytes option"
  evp_chacha_seal :: "bytes \<Rightarrow> bytes \<Rightarrow> bytes \<Rightarrow> bytes \<Rightarrow> bytes"     \<comment> \<open>OpenSSL EVP_chacha20_poly1305\<close>
  evp_chacha_open :: "bytes \<Rightarrow> bytes \<Rightarrow> bytes \<Rightarrow> bytes \<Rightarrow> bytes option"
  xchacha_seal :: "bytes \<Rightarrow> bytes \<Rightarrow> bytes \<Rightarrow> bytes \<Rightarrow> bytes"        \<comment> \<open>x/crypto NewX\<close>
  xchacha_open :: "bytes \<Rightarrow> bytes \<Rightarrow> bytes \<Rightarrow> bytes \<Rightarrow> bytes option"
  hchacha20 :: "bytes \<Rightarrow> bytes \<Rightarrow> bytes"
  siv_encrypt :: "bytes \<Rightarrow> bytes \<Rightarrow> bytes list \<Rightarrow> bytes option"       \<comment> \<open>key, plaintext, associated\<close>
  siv_decrypt :: "bytes \<Rightarrow> bytes \<Rightarrow> bytes list \<Rightarrow> bytes option"
  hkdf_sha256 :: "bytes \<Rightarrow> string \<Rightarrow> nat \<Rightarrow> bytes"                    \<comment> \<open>key, info, length\<close>
  sha512 :: "bytes \<Rightarrow> bytes"
  sha256 :: "bytes \<Rightarrow> bytes"
  scrypt_key :: "bytes \<Rightarrow> bytes \<Rightarrow> int \<Rightarrow> int \<Rightarrow> int \<Rightarrow> int \<Rightarrow> bytes option"
  eme_encrypt :: "bytes \<Rightarrow> bytes \<Rightarrow> bytes \<Rightarrow> bytes"                 \<comment> \<open>key, tweak, data\<close>
  eme_decrypt :: "bytes \<Rightarrow> bytes \<Rightarrow> bytes \<Rightarrow> bytes"
  num_cpu :: nat                                                   \<comment> \<open>\<open>runtime.NumCPU()\<close>\<close>
  schedule :: "nat \<Rightarrow> bool list"                                   \<comment> \<open>interleavings of two goroutines\<close>
  path_match :: "string \<Rightarrow> string \<Rightarrow> bool option"                 \<comment> \<open>\<open>filepath.Match\<close>; \<open>None\<close>: bad pattern\<close>

text \<open>
  An AEAD primitive: sealing adds the 16-byte tag, and opening accepts exactly what
  sealing produces. Opening recomputes the tag, so there is one valid ciphertext for each
  key, nonce, plaintext and associated data.
\<close>

definition aead_law ::
  "(bytes \<Rightarrow> bytes \<Rightarrow> bytes \<Rightarrow> bytes \<Rightarrow> bytes) \<Rightarrow> (bytes \<Rightarrow> bytes \<Rightarrow> bytes \<Rightarrow> bytes \<Rightarrow> bytes option) \<Rightarrow> bool"
where
  "aead_law sl opn \<longleftrightarrow>
     (\<forall>k n p ad. length (sl k n p ad) = length p + 16) \<and>
     (\<forall>k n c ad p. opn k n c ad = Some p \<longleftrightarrow> c = sl k n p ad)"

definition siv_law ::
  "(bytes \<Rightarrow> bytes \<Rightarrow> bytes list \<Rightarrow> bytes option) \<Rightarrow> (bytes \<Rightarrow> bytes \<Rightarrow> bytes list \<Rightarrow> bytes option) \<Rightarrow> bool"
where
  "siv_law enc dec \<longleftrightarrow>
     (\<forall>k as p. length k = 64 \<longrightarrow> (\<exists>c. enc k p as = Some c \<and> length c = length p + 16)) \<and>
     (\<forall>k as p c. length k = 64 \<longrightarrow> (dec k c as = Some p \<longleftrightarrow> enc k p as = Some c))"

text \<open>
  The EME library accepts a 16-byte tweak and 1 to 128 blocks of 16 bytes, and panics on
  anything else; on what it accepts it is a length-preserving permutation.
\<close>

definition eme_data :: "bytes \<Rightarrow> bytes \<Rightarrow> bool" where
  "eme_data iv d \<longleftrightarrow>
     length iv = 16 \<and> 0 < length d \<and> length d mod 16 = 0 \<and> length d \<le> 2048"

definition eme_law ::
  "(bytes \<Rightarrow> bytes \<Rightarrow> bytes \<Rightarrow> bytes) \<Rightarrow> (bytes \<Rightarrow> bytes \<Rightarrow> bytes \<Rightarrow> bytes) \<Rightarrow> bool"
where
  "eme_law enc dec \<longleftrightarrow>
     (\<forall>k iv d. eme_data iv d \<longrightarrow>
        length (enc k iv d) = length d \<and> length (dec k iv d) = length d \<and>
        dec k iv (enc k iv d) = d \<and> enc k iv (dec k iv d) = d)"

definition prims_ok :: "prims \<Rightarrow> bool" where
  "prims_ok P \<longleftrightarrow>
     aead_law (gcm_seal P) (gcm_open P) \<and>
     aead_law (evp_gcm_seal P) (evp_gcm_open P) \<and>
     aead_law (evp_chacha_seal P) (evp_chacha_open P) \<and>
     aead_law (xchacha_seal P) (xchacha_open P) \<and>
     siv_law (siv_encrypt P) (siv_decrypt P) \<and>
     eme_law (eme_encrypt P) (eme_decrypt P) \<and>
     (\<forall>k n. length (hchacha20 P k n) = 32) \<and>
     (\<forall>k i n. length (hkdf_sha256 P k i n) = n) \<and>
     (\<forall>d. length (sha512 P d) = 64) \<and> (\<forall>d. length (sha256 P d) = 32)"

section \<open>AEAD objects\<close>

datatype evp_cipher = EVP_aes_256_gcm | EVP_chacha20_poly1305

text \<open>\<open>stupidAEADCommon\<close>: the OpenSSL wrapper.\<close>

record stupidAEADCommon =
  wiped :: bool
  sc_key :: bytes
  openSSLEVPCipher :: evp_cipher
  sc_nonceSize :: nat

text \<open>The values a \<open>cipher.AEAD\<close> interface can hold here.\<close>

datatype aead =
    GoGCM bytes nat                    \<comment> \<open>\<open>cipher.NewGCMWithNonceSize\<close>: key, nonce size\<close>
  | StupidGCM stupidAEADCommon         \<comment> \<open>\<open>stupidgcm.NewAES256GCM\<close>\<close>
  | SivAead bytes                      \<comment> \<open>\<open>siv_aead.New\<close>: key, empty after Wipe\<close>
  | GoXChaCha bytes                    \<comment> \<open>\<open>chacha20poly1305.NewX\<close>\<close>
  | StupidXChaCha bytes bool           \<comment> \<open>\<open>stupidgcm.NewXchacha20poly1305\<close>: key, wiped\<close>

definition tagLen :: nat where "tagLen = 16"
definition KeyLen :: nat where "KeyLen = 32"
definition AuthTagLen :: nat where "AuthTagLen = 16"

definition NewAES256GCM :: "bytes \<Rightarrow> aead go" where
  "NewAES256GCM keyIn =
     (if length keyIn \<noteq> 32 then Panic LogPanic
      else Ret (StupidGCM \<lparr>wiped = False, sc_key = keyIn,
             openSSLEVPCipher = EVP_aes_256_gcm, sc_nonceSize = 16\<rparr>))"

definition NewChacha20poly1305 :: "bytes \<Rightarrow> stupidAEADCommon go" where
  "NewChacha20poly1305 key =
     (if length key \<noteq> 32 then Panic LogPanic
      else Ret \<lparr>wiped = False, sc_key = key,
             openSSLEVPCipher = EVP_chacha20_poly1305, sc_nonceSize = 12\<rparr>)"

definition NewXchacha20poly1305 :: "bytes \<Rightarrow> aead go" where
  "NewXchacha20poly1305 key =
     (if length key \<noteq> 32 then Panic LogPanic else Ret (StupidXChaCha key False))"

definition siv_New :: "bytes \<Rightarrow> aead go" where
  "siv_New key = (if length key \<noteq> 64 then Panic LogPanic else Ret (SivAead key))"

text \<open>\<open>stupidAEADCommon.Wiped\<close>.\<close>

definition stupid_Wiped :: "stupidAEADCommon \<Rightarrow> bool go" where
  "stupid_Wiped c =
     (if wiped c then Ret True
      else if length (sc_key c) \<noteq> 32 then Panic LogPanic else Ret False)"

text \<open>The C functions, on the primitive the EVP cipher names.\<close>

definition evp_seal :: "prims \<Rightarrow> evp_cipher \<Rightarrow> bytes \<Rightarrow> bytes \<Rightarrow> bytes \<Rightarrow> bytes \<Rightarrow> bytes" where
  "evp_seal P e = (case e of EVP_aes_256_gcm \<Rightarrow> evp_gcm_seal P
     | EVP_chacha20_poly1305 \<Rightarrow> evp_chacha_seal P)"

definition evp_open :: "prims \<Rightarrow> evp_cipher \<Rightarrow> bytes \<Rightarrow> bytes \<Rightarrow> bytes \<Rightarrow> bytes \<Rightarrow> bytes option" where
  "evp_open P e = (case e of EVP_aes_256_gcm \<Rightarrow> evp_gcm_open P
     | EVP_chacha20_poly1305 \<Rightarrow> evp_chacha_open P)"

text \<open>
  \<open>openSSLSeal\<close> and \<open>openSSLOpen\<close>. Taking the address of \<open>authData[0]\<close> panics when
  the slice is empty. Whether the result is written in place or appended, the caller sees
  \<open>dst\<close> followed by the output.
\<close>

definition openSSLSeal ::
  "prims \<Rightarrow> stupidAEADCommon \<Rightarrow> bytes \<Rightarrow> bytes \<Rightarrow> bytes \<Rightarrow> bytes \<Rightarrow> bytes go" where
  "openSSLSeal P a dst iv input authData =
     go_bind (stupid_Wiped a) (\<lambda>w.
     if w then Panic LogPanic
     else if length iv \<noteq> sc_nonceSize a then Panic LogPanic
     else if authData = [] then Panic OutOfRange
     else let out = evp_seal P (openSSLEVPCipher a) (sc_key a) iv input authData
       in if length out \<noteq> length input + tagLen then Panic LogPanic else Ret (dst @ out))"

definition openSSLOpen ::
  "prims \<Rightarrow> stupidAEADCommon \<Rightarrow> bytes \<Rightarrow> bytes \<Rightarrow> bytes \<Rightarrow> bytes \<Rightarrow> (err + bytes) go" where
  "openSSLOpen P a dst iv input authData =
     go_bind (stupid_Wiped a) (\<lambda>w.
     if w then Panic LogPanic
     else if length iv \<noteq> sc_nonceSize a then Panic LogPanic
     else if length input < tagLen then Ret (Inl (ErrMsg ''input data too short''))
     else if authData = [] then Panic OutOfRange
     else (case evp_open P (openSSLEVPCipher a) (sc_key a) iv input authData of
         None \<Rightarrow> Ret (Inl ErrAuth)
       | Some out \<Rightarrow> if length out \<noteq> length input - tagLen then Panic LogPanic
           else Ret (Inr (dst @ out))))"

text \<open>
  \<open>stupidXchacha20poly1305\<close>: HChaCha20 turns the key and the first 16 nonce bytes into
  the key of the inner cipher, whose nonce is 4 zero bytes and the other 8.
\<close>

definition xchacha_cNonce :: "bytes \<Rightarrow> bytes" where
  "xchacha_cNonce nonce = zeros 4 @ take 8 (drop 16 nonce)"

definition stupidX_Seal ::
  "prims \<Rightarrow> bytes \<Rightarrow> bool \<Rightarrow> bytes \<Rightarrow> bytes \<Rightarrow> bytes \<Rightarrow> bytes \<Rightarrow> bytes go" where
  "stupidX_Seal P key wpd dst nonce plaintext ad =
     (if wpd then Panic LogPanic
      else if length nonce \<noteq> 24 then Panic LogPanic
      else if length plaintext > 2 ^ 38 - 64 then Panic LogPanic
      else go_bind (NewChacha20poly1305 (hchacha20 P key (take 16 nonce))) (\<lambda>c.
        openSSLSeal P c dst (xchacha_cNonce nonce) plaintext ad))"

definition stupidX_Open ::
  "prims \<Rightarrow> bytes \<Rightarrow> bool \<Rightarrow> bytes \<Rightarrow> bytes \<Rightarrow> bytes \<Rightarrow> bytes \<Rightarrow> (err + bytes) go" where
  "stupidX_Open P key wpd dst nonce ciphertext ad =
     (if wpd then Panic LogPanic
      else if length nonce \<noteq> 24 then Panic LogPanic
      else if length ciphertext < 16 then Ret (Inl (ErrMsg ''message too short''))
      else if length ciphertext > 2 ^ 38 - 48 then Panic LogPanic
      else go_bind (NewChacha20poly1305 (hchacha20 P key (take 16 nonce))) (\<lambda>c.
        openSSLOpen P c dst (xchacha_cNonce nonce) ciphertext ad))"

text \<open>\<open>sivAead\<close>: the nonce is the last associated-data element.\<close>

definition siv_Seal :: "prims \<Rightarrow> bytes \<Rightarrow> bytes \<Rightarrow> bytes \<Rightarrow> bytes \<Rightarrow> bytes \<Rightarrow> bytes go" where
  "siv_Seal P key dst nonce plaintext authData =
     (if length nonce \<noteq> 16 then Panic LogPanic
      else if length key = 0 then Panic LogPanic
      else (case siv_encrypt P key plaintext [authData, nonce] of
          None \<Rightarrow> Panic LogPanic
        | Some out \<Rightarrow> Ret (dst @ out)))"

definition siv_Open ::
  "prims \<Rightarrow> bytes \<Rightarrow> bytes \<Rightarrow> bytes \<Rightarrow> bytes \<Rightarrow> bytes \<Rightarrow> (err + bytes) go" where
  "siv_Open P key dst nonce ciphertext authData =
     (if length nonce \<noteq> 16 then Panic LogPanic
      else if length key = 0 then Panic LogPanic
      else (case siv_decrypt P key ciphertext [authData, nonce] of
          None \<Rightarrow> Ret (Inl ErrAuth)
        | Some dec \<Rightarrow> Ret (Inr (dst @ dec))))"

fun aead_NonceSize :: "aead \<Rightarrow> nat" where
  "aead_NonceSize (GoGCM k n) = n"
| "aead_NonceSize (StupidGCM c) = sc_nonceSize c"
| "aead_NonceSize (SivAead k) = 16"
| "aead_NonceSize (GoXChaCha k) = 24"
| "aead_NonceSize (StupidXChaCha k w) = 24"

fun aead_Seal :: "prims \<Rightarrow> aead \<Rightarrow> bytes \<Rightarrow> bytes \<Rightarrow> bytes \<Rightarrow> bytes \<Rightarrow> bytes go" where
  "aead_Seal P (GoGCM k n) dst nonce p ad =
     (if length nonce \<noteq> n then Panic LogPanic else Ret (dst @ gcm_seal P k nonce p ad))"
| "aead_Seal P (StupidGCM c) dst nonce p ad = openSSLSeal P c dst nonce p ad"
| "aead_Seal P (SivAead k) dst nonce p ad = siv_Seal P k dst nonce p ad"
| "aead_Seal P (GoXChaCha k) dst nonce p ad =
     (if length nonce \<noteq> 24 then Panic LogPanic else Ret (dst @ xchacha_seal P k nonce p ad))"
| "aead_Seal P (StupidXChaCha k w) dst nonce p ad = stupidX_Seal P k w dst nonce p ad"

fun aead_Open :: "prims \<Rightarrow> aead \<Rightarrow> bytes \<Rightarrow> bytes \<Rightarrow> bytes \<Rightarrow> bytes \<Rightarrow> (err + bytes) go" where
  "aead_Open P (GoGCM k n) dst nonce c ad =
     (if length nonce \<noteq> n then Panic LogPanic
      else (case gcm_open P k nonce c ad of
          None \<Rightarrow> Ret (Inl ErrAuth) | Some p \<Rightarrow> Ret (Inr (dst @ p))))"
| "aead_Open P (StupidGCM s) dst nonce c ad = openSSLOpen P s dst nonce c ad"
| "aead_Open P (SivAead k) dst nonce c ad = siv_Open P k dst nonce c ad"
| "aead_Open P (GoXChaCha k) dst nonce c ad =
     (if length nonce \<noteq> 24 then Panic LogPanic
      else (case xchacha_open P k nonce c ad of
          None \<Rightarrow> Ret (Inl ErrAuth) | Some p \<Rightarrow> Ret (Inr (dst @ p))))"
| "aead_Open P (StupidXChaCha k w) dst nonce c ad = stupidX_Open P k w dst nonce c ad"

section \<open>The AEAD contract\<close>

text \<open>
  What the content layer needs of a cipher, whatever its backend: with a nonce of the
  right length and associated data, sealing returns the plaintext's length plus the tag,
  and opening returns a plaintext for exactly the ciphertext that sealing gives it.
\<close>

locale aead_scheme =
  fixes ok :: "'k \<Rightarrow> bool"
    and nlen :: "'k \<Rightarrow> nat"
    and sl :: "'k \<Rightarrow> bytes \<Rightarrow> bytes \<Rightarrow> bytes \<Rightarrow> bytes \<Rightarrow> bytes go"
    and opn :: "'k \<Rightarrow> bytes \<Rightarrow> bytes \<Rightarrow> bytes \<Rightarrow> bytes \<Rightarrow> (err + bytes) go"
  assumes seal_returns: "ok k \<Longrightarrow> length n = nlen k \<Longrightarrow> ad \<noteq> [] \<Longrightarrow> length p \<le> 2 ^ 37 \<Longrightarrow>
      \<exists>c. sl k dst n p ad = Ret (dst @ c) \<and> length c = length p + 16"
    and open_returns: "ok k \<Longrightarrow> length n = nlen k \<Longrightarrow> ad \<noteq> [] \<Longrightarrow> length c \<le> 2 ^ 37 \<Longrightarrow>
      (\<exists>e. opn k dst n c ad = Ret (Inl e)) \<or> (\<exists>p. opn k dst n c ad = Ret (Inr (dst @ p)))"
    and open_iff: "ok k \<Longrightarrow> length n = nlen k \<Longrightarrow> ad \<noteq> [] \<Longrightarrow> length c \<le> 2 ^ 37 \<Longrightarrow>
      opn k dst n c ad = Ret (Inr (dst @ p)) \<longleftrightarrow>
      length p + 16 = length c \<and> sl k dst' n p ad = Ret (dst' @ c)"
begin

lemma open_seal:
  assumes "ok k" "length n = nlen k" "ad \<noteq> []" "length p + 16 \<le> 2 ^ 37"
  obtains c where "sl k dst n p ad = Ret (dst @ c)" "length c = length p + 16"
    "opn k dst' n c ad = Ret (Inr (dst' @ p))"
proof -
  obtain c where c: "sl k dst n p ad = Ret (dst @ c)" "length c = length p + 16"
    using seal_returns [of k n ad p dst] assms by auto
  moreover have "opn k dst' n c ad = Ret (Inr (dst' @ p))"
    using open_iff [of k n ad c dst' p dst] assms c by simp
  ultimately show thesis by (rule that)
qed

text \<open>A ciphertext that is not the sealed one for any plaintext is rejected.\<close>

lemma open_rejects:
  assumes "ok k" "length n = nlen k" "ad \<noteq> []" "length c \<le> 2 ^ 37"
    and "\<And>p. sl k [] n p ad \<noteq> Ret c"
  shows "\<exists>e. opn k dst n c ad = Ret (Inl e)"
  using open_returns [of k n ad c dst] open_iff [of k n ad c dst _ "[]"] assms by fastforce

lemma open_length:
  assumes "ok k" "length n = nlen k" "ad \<noteq> []" "length c \<le> 2 ^ 37"
    and "opn k dst n c ad = Ret (Inr q)"
  shows "length q + 16 = length dst + length c"
  using open_returns [of k n ad c dst] open_iff [of k n ad c dst _ dst] assms by fastforce

end

section \<open>Backends\<close>

record AEADTypeEnum =
  Algo :: string
  Lib :: string
  NonceSize :: nat

definition AEADType_String :: "AEADTypeEnum \<Rightarrow> string" where
  "AEADType_String a = Algo a @ ''-'' @ Lib a"

definition BackendOpenSSL :: AEADTypeEnum where
  "BackendOpenSSL = \<lparr>Algo = ''AES-GCM-256'', Lib = ''OpenSSL'', NonceSize = 16\<rparr>"

definition BackendGoGCM :: AEADTypeEnum where
  "BackendGoGCM = \<lparr>Algo = ''AES-GCM-256'', Lib = ''Go'', NonceSize = 16\<rparr>"

definition BackendAESSIV :: AEADTypeEnum where
  "BackendAESSIV = \<lparr>Algo = ''AES-SIV-512'', Lib = ''Go'', NonceSize = 16\<rparr>"

definition BackendXChaCha20Poly1305 :: AEADTypeEnum where
  "BackendXChaCha20Poly1305 = \<lparr>Algo = ''XChaCha20-Poly1305'', Lib = ''Go'', NonceSize = 24\<rparr>"

definition BackendXChaCha20Poly1305OpenSSL :: AEADTypeEnum where
  "BackendXChaCha20Poly1305OpenSSL =
     \<lparr>Algo = ''XChaCha20-Poly1305'', Lib = ''OpenSSL'', NonceSize = 24\<rparr>"

lemmas backend_defs = BackendOpenSSL_def BackendGoGCM_def BackendAESSIV_def
  BackendXChaCha20Poly1305_def BackendXChaCha20Poly1305OpenSSL_def

text \<open>
  \<open>CryptoCore\<close>. The EME cipher is represented by its AES key; \<open>None\<close> is nil, which
  \<open>Wipe\<close> leaves behind.
\<close>

record cryptocore =
  EMECipher :: "bytes option"
  AEADCipher :: "aead option"
  AEADBackend :: AEADTypeEnum
  nonceLen :: nat              \<comment> \<open>\<open>IVGenerator.nonceLen\<close>\<close>
  IVLen :: nat

text \<open>\<open>hkdfDerive\<close> panics if the library delivers another length.\<close>

definition hkdfDerive :: "prims \<Rightarrow> bytes \<Rightarrow> string \<Rightarrow> nat \<Rightarrow> bytes go" where
  "hkdfDerive P masterkey info outLen =
     (let out = hkdf_sha256 P masterkey info outLen
      in if length out \<noteq> outLen then Panic LogPanic else Ret out)"

definition hkdfInfoEMENames :: string where
  "hkdfInfoEMENames = ''EME filename encryption''"
definition hkdfInfoGCMContent :: string where
  "hkdfInfoGCMContent = ''AES-GCM file content encryption''"
definition hkdfInfoSIVContent :: string where
  "hkdfInfoSIVContent = ''AES-SIV file content encryption''"
definition hkdfInfoXChaChaPoly1305Content :: string where
  "hkdfInfoXChaChaPoly1305Content = ''XChaCha20-Poly1305 file content encryption''"

text \<open>\<open>aes.NewCipher\<close> accepts 16, 24 and 32-byte keys.\<close>

definition aes_NewCipher :: "bytes \<Rightarrow> bytes go" where
  "aes_NewCipher key = (if length key \<in> {16, 24, 32} then Ret key else Panic LogPanic)"

text \<open>The content cipher \<open>New\<close> builds for a backend.\<close>

definition New_aead :: "prims \<Rightarrow> bytes \<Rightarrow> AEADTypeEnum \<Rightarrow> nat \<Rightarrow> bool \<Rightarrow> aead go" where
  "New_aead P key aeadType IVBitLen useHKDF =
     (if aeadType = BackendOpenSSL \<or> aeadType = BackendGoGCM then
        go_bind (if useHKDF then hkdfDerive P key hkdfInfoGCMContent KeyLen else Ret key) (\<lambda>gcmKey.
        if aeadType = BackendOpenSSL then
          (if IVBitLen \<noteq> 128 then Panic LogPanic else NewAES256GCM gcmKey)
        else go_bind (aes_NewCipher gcmKey) (\<lambda>k. Ret (GoGCM k (IVBitLen div 8))))
      else if aeadType = BackendAESSIV then
        (if IVBitLen \<noteq> 128 then Panic LogPanic
         else go_bind (if useHKDF then hkdfDerive P key hkdfInfoSIVContent 64
                       else Ret (sha512 P key)) siv_New)
      else if aeadType = BackendXChaCha20Poly1305 \<or> aeadType = BackendXChaCha20Poly1305OpenSSL then
        (if IVBitLen \<noteq> 24 * 8 then Panic LogPanic
         else if \<not> useHKDF then Panic LogPanic
         else go_bind (hkdfDerive P key hkdfInfoXChaChaPoly1305Content 32) (\<lambda>derivedKey.
           if aeadType = BackendXChaCha20Poly1305
           then (if length derivedKey = 32 then Ret (GoXChaCha derivedKey) else Panic LogPanic)
           else NewXchacha20poly1305 derivedKey))
      else Panic LogPanic)"

definition New_cryptocore :: "prims \<Rightarrow> bytes \<Rightarrow> AEADTypeEnum \<Rightarrow> nat \<Rightarrow> bool \<Rightarrow> cryptocore go" where
  "New_cryptocore P key aeadType IVBitLen useHKDF =
     (if length key \<noteq> KeyLen then Panic LogPanic
      else if IVBitLen \<noteq> 96 \<and> IVBitLen \<noteq> 128 \<and> IVBitLen \<noteq> 24 * 8 then Panic LogPanic
      else
        go_bind (if useHKDF then hkdfDerive P key hkdfInfoEMENames KeyLen else Ret key) (\<lambda>emeKey.
        go_bind (aes_NewCipher emeKey) (\<lambda>eme.
        go_bind (New_aead P key aeadType IVBitLen useHKDF) (\<lambda>aeadCipher.
        if aead_NonceSize aeadCipher * 8 \<noteq> IVBitLen then Panic LogPanic
        else Ret \<lparr>EMECipher = Some eme, AEADCipher = Some aeadCipher, AEADBackend = aeadType,
                  nonceLen = IVBitLen div 8, IVLen = IVBitLen div 8\<rparr>))))"

text \<open>
  \<open>Wipe\<close> of a cipher object, and \<open>CryptoCore.Wipe\<close>, which returns the object whose
  reference it drops. The type assertion to \<open>wiper\<close> panics on a nil interface and on the
  backends of the Go library.
\<close>

definition stupid_Wipe :: "stupidAEADCommon \<Rightarrow> stupidAEADCommon" where
  "stupid_Wipe c = c\<lparr>wiped := True, sc_key := []\<rparr>"

fun aead_Wipe :: "aead \<Rightarrow> aead go" where
  "aead_Wipe (StupidGCM c) = Ret (StupidGCM (stupid_Wipe c))"
| "aead_Wipe (SivAead k) = Ret (SivAead [])"
| "aead_Wipe (StupidXChaCha k w) = Ret (StupidXChaCha (zeros (length k)) True)"
| "aead_Wipe (GoGCM k n) = Panic NilDeref"
| "aead_Wipe (GoXChaCha k) = Panic NilDeref"

definition cryptocore_Wipe :: "cryptocore \<Rightarrow> (aead option \<times> cryptocore) go" where
  "cryptocore_Wipe c =
     (let be = AEADBackend c; c' = c\<lparr>AEADCipher := None, EMECipher := None\<rparr>
      in if be = BackendOpenSSL \<or> be = BackendAESSIV
         then go_bind (deref (AEADCipher c)) (\<lambda>a. go_bind (aead_Wipe a) (\<lambda>a'. Ret (Some a', c')))
         else Ret (AEADCipher c, c'))"

text \<open>Calls through the interface value of a core.\<close>

definition cc_Seal :: "prims \<Rightarrow> cryptocore \<Rightarrow> bytes \<Rightarrow> bytes \<Rightarrow> bytes \<Rightarrow> bytes \<Rightarrow> bytes go" where
  "cc_Seal P cc dst nonce p ad =
     go_bind (deref (AEADCipher cc)) (\<lambda>a. aead_Seal P a dst nonce p ad)"

definition cc_Open :: "prims \<Rightarrow> cryptocore \<Rightarrow> bytes \<Rightarrow> bytes \<Rightarrow> bytes \<Rightarrow> bytes \<Rightarrow> (err + bytes) go" where
  "cc_Open P cc dst nonce c ad =
     go_bind (deref (AEADCipher cc)) (\<lambda>a. aead_Open P a dst nonce c ad)"

section \<open>Every backend meets the contract\<close>

fun aead_live :: "aead \<Rightarrow> bool" where
  "aead_live (GoGCM k n) = True"
| "aead_live (StupidGCM c) = (\<not> wiped c \<and> length (sc_key c) = 32)"
| "aead_live (SivAead k) = (length k = 64)"
| "aead_live (GoXChaCha k) = True"
| "aead_live (StupidXChaCha k w) = (\<not> w)"

text \<open>A core whose cipher is present, not wiped, and agrees with it on the nonce length.\<close>

definition cc_ok :: "cryptocore \<Rightarrow> bool" where
  "cc_ok cc \<longleftrightarrow> (case AEADCipher cc of None \<Rightarrow> False
     | Some a \<Rightarrow> aead_live a \<and> aead_NonceSize a = IVLen cc) \<and>
     nonceLen cc = IVLen cc \<and> IVLen cc \<in> {12, 16, 24}"

lemma aead_law_length: "aead_law sl opn \<Longrightarrow> length (sl k n p ad) = length p + 16"
  by (simp add: aead_law_def)

lemma aead_law_iff: "aead_law sl opn \<Longrightarrow> opn k n c ad = Some p \<longleftrightarrow> c = sl k n p ad"
  by (simp add: aead_law_def)

lemma evp_law: "prims_ok P \<Longrightarrow> aead_law (evp_seal P e) (evp_open P e)"
  by (cases e) (simp_all add: prims_ok_def evp_seal_def evp_open_def)

lemma prims_laws:
  assumes "prims_ok P"
  shows "aead_law (gcm_seal P) (gcm_open P)" "aead_law (xchacha_seal P) (xchacha_open P)"
    "siv_law (siv_encrypt P) (siv_decrypt P)" "eme_law (eme_encrypt P) (eme_decrypt P)"
    "length (hchacha20 P k n) = 32" "length (hkdf_sha256 P k i m) = m"
    "length (sha512 P d) = 64" "length (sha256 P d) = 32"
  using assms by (simp_all add: prims_ok_def)

text \<open>
  The laws of one cipher object, in the form both directions of the contract need.
\<close>

definition aead_contract :: "prims \<Rightarrow> aead \<Rightarrow> nat \<Rightarrow> bool" where
  "aead_contract P a m \<longleftrightarrow>
     (\<forall>n p ad. length n = m \<longrightarrow> ad \<noteq> [] \<longrightarrow> length p \<le> 2 ^ 37 \<longrightarrow>
        (\<exists>c. length c = length p + 16 \<and> (\<forall>dst. aead_Seal P a dst n p ad = Ret (dst @ c)))) \<and>
     (\<forall>n c ad. length n = m \<longrightarrow> ad \<noteq> [] \<longrightarrow> length c \<le> 2 ^ 37 \<longrightarrow>
        (\<exists>r. (\<forall>dst. aead_Open P a dst n c ad
               = Ret (case r of Inl e \<Rightarrow> Inl e | Inr p \<Rightarrow> Inr (dst @ p))) \<and>
             (\<forall>p. r = Inr p \<longleftrightarrow> length p + 16 = length c \<and> aead_Seal P a [] n p ad = Ret c)))"

text \<open>
  It is enough that sealing appends \<open>sl\<close> and opening decides by \<open>opn\<close>, for a pair that
  satisfies the law of the primitive.
\<close>

lemma contractI:
  fixes sl :: "bytes \<Rightarrow> bytes \<Rightarrow> bytes \<Rightarrow> bytes" and opn :: "bytes \<Rightarrow> bytes \<Rightarrow> bytes \<Rightarrow> bytes option"
  assumes S: "\<And>n p ad dst. length n = m \<Longrightarrow> ad \<noteq> [] \<Longrightarrow> length p \<le> 2 ^ 37 \<Longrightarrow>
      aead_Seal P a dst n p ad = Ret (dst @ sl n p ad)"
    and O: "\<And>n c ad. length n = m \<Longrightarrow> ad \<noteq> [] \<Longrightarrow> length c \<le> 2 ^ 37 \<Longrightarrow>
      \<exists>e. \<forall>dst. aead_Open P a dst n c ad
        = (case opn n c ad of None \<Rightarrow> Ret (Inl e) | Some p \<Rightarrow> Ret (Inr (dst @ p)))"
    and len: "\<And>n p ad. length (sl n p ad) = length p + 16"
    and iff: "\<And>n c ad p. opn n c ad = Some p \<longleftrightarrow> c = sl n p ad"
  shows "aead_contract P a m"
  unfolding aead_contract_def
proof (intro conjI allI impI)
  fix n p ad :: bytes assume "length n = m" "ad \<noteq> []" "length p \<le> 2 ^ 37"
  then have "\<forall>dst. aead_Seal P a dst n p ad = Ret (dst @ sl n p ad)"
    by (intro allI S)
  with len show "\<exists>c. length c = length p + 16 \<and> (\<forall>dst. aead_Seal P a dst n p ad = Ret (dst @ c))"
    by blast
next
  fix n c ad :: bytes assume h: "length n = m" "ad \<noteq> []" "length c \<le> 2 ^ 37"
  from O [OF h] obtain e where e: "\<And>dst. aead_Open P a dst n c ad
      = (case opn n c ad of None \<Rightarrow> Ret (Inl e) | Some p \<Rightarrow> Ret (Inr (dst @ p)))"
    by blast
  have seal: "length p + 16 = length c \<and> aead_Seal P a [] n p ad = Ret c \<longleftrightarrow> opn n c ad = Some p" for p
  proof
    assume "length p + 16 = length c \<and> aead_Seal P a [] n p ad = Ret c"
    then show "opn n c ad = Some p" using S [of n ad p "[]"] h iff by auto
  next
    assume "opn n c ad = Some p"
    then have c: "c = sl n p ad" by (simp only: iff)
    then have "length p + 16 = length c" by (simp only: len)
    with c show "length p + 16 = length c \<and> aead_Seal P a [] n p ad = Ret c"
      using S [of n ad p "[]"] h by simp
  qed
  let ?r = "case opn n c ad of None \<Rightarrow> Inl e | Some p \<Rightarrow> Inr p"
  have "(\<forall>dst. aead_Open P a dst n c ad
          = Ret (case ?r of Inl e \<Rightarrow> Inl e | Inr p \<Rightarrow> Inr (dst @ p)))"
    by (simp add: e split: option.split)
  moreover have "\<forall>p. ?r = Inr p \<longleftrightarrow> length p + 16 = length c \<and> aead_Seal P a [] n p ad = Ret c"
    unfolding seal by (simp split: option.split)
  ultimately show "\<exists>r. (\<forall>dst. aead_Open P a dst n c ad
        = Ret (case r of Inl e \<Rightarrow> Inl e | Inr p \<Rightarrow> Inr (dst @ p))) \<and>
      (\<forall>p. r = Inr p \<longleftrightarrow> length p + 16 = length c \<and> aead_Seal P a [] n p ad = Ret c)"
    by blast
qed

lemma contract_GoGCM:
  assumes "prims_ok P" shows "aead_contract P (GoGCM k m) m"
proof (rule contractI [where sl = "gcm_seal P k" and opn = "gcm_open P k"])
  fix n c ad :: bytes assume "length n = m"
  then show "\<exists>e. \<forall>dst. aead_Open P (GoGCM k m) dst n c ad
      = (case gcm_open P k n c ad of None \<Rightarrow> Ret (Inl e) | Some p \<Rightarrow> Ret (Inr (dst @ p)))"
    by (cases "gcm_open P k n c ad") auto
qed (simp_all only: aead_Seal.simps aead_law_length [OF prims_laws(1) [OF assms]]
       aead_law_iff [OF prims_laws(1) [OF assms]] if_False simp_thms)

lemma contract_GoXChaCha:
  assumes "prims_ok P" shows "aead_contract P (GoXChaCha k) 24"
proof (rule contractI [where sl = "xchacha_seal P k" and opn = "xchacha_open P k"])
  fix n c ad :: bytes assume "length n = 24"
  then show "\<exists>e. \<forall>dst. aead_Open P (GoXChaCha k) dst n c ad
      = (case xchacha_open P k n c ad of None \<Rightarrow> Ret (Inl e) | Some p \<Rightarrow> Ret (Inr (dst @ p)))"
    by (cases "xchacha_open P k n c ad") auto
qed (simp_all only: aead_Seal.simps aead_law_length [OF prims_laws(2) [OF assms]]
       aead_law_iff [OF prims_laws(2) [OF assms]] if_False simp_thms)

text \<open>The OpenSSL wrapper around any EVP cipher, for a live object.\<close>

lemma openSSLSeal_live:
  assumes "prims_ok P" "\<not> wiped c" "length (sc_key c) = 32" "length iv = sc_nonceSize c" "ad \<noteq> []"
  shows "openSSLSeal P c dst iv p ad
    = Ret (dst @ evp_seal P (openSSLEVPCipher c) (sc_key c) iv p ad)"
  using assms
  by (simp add: openSSLSeal_def stupid_Wiped_def tagLen_def aead_law_length [OF evp_law])

lemma openSSLOpen_live:
  assumes "prims_ok P" "\<not> wiped c" "length (sc_key c) = 32" "length iv = sc_nonceSize c" "ad \<noteq> []"
  shows "openSSLOpen P c dst iv d ad
    = (case evp_open P (openSSLEVPCipher c) (sc_key c) iv d ad of
         None \<Rightarrow> Ret (Inl (if length d < 16 then ErrMsg ''input data too short'' else ErrAuth))
       | Some p \<Rightarrow> Ret (Inr (dst @ p)))"
proof (cases "evp_open P (openSSLEVPCipher c) (sc_key c) iv d ad")
  case None
  with assms show ?thesis by (simp add: openSSLOpen_def stupid_Wiped_def tagLen_def)
next
  case (Some p)
  then have "d = evp_seal P (openSSLEVPCipher c) (sc_key c) iv p ad"
    using aead_law_iff [OF evp_law [OF assms(1)]] by blast
  then have "length d = length p + 16"
    by (simp only: aead_law_length [OF evp_law [OF assms(1)]])
  with Some assms show ?thesis by (simp add: openSSLOpen_def stupid_Wiped_def tagLen_def)
qed

lemma contract_StupidGCM:
  assumes "prims_ok P" "\<not> wiped c" "length (sc_key c) = 32"
  shows "aead_contract P (StupidGCM c) (sc_nonceSize c)"
  by (rule contractI [where sl = "evp_seal P (openSSLEVPCipher c) (sc_key c)"
        and opn = "evp_open P (openSSLEVPCipher c) (sc_key c)"])
     (auto simp: openSSLSeal_live openSSLOpen_live assms
        aead_law_length [OF evp_law [OF assms(1)]] aead_law_iff [OF evp_law [OF assms(1)]])

lemma contract_StupidXChaCha:
  assumes P: "prims_ok P"
  shows "aead_contract P (StupidXChaCha k False) 24"
proof (rule contractI [where
      sl = "\<lambda>n. evp_seal P EVP_chacha20_poly1305 (hchacha20 P k (take 16 n)) (xchacha_cNonce n)" and
      opn = "\<lambda>n. evp_open P EVP_chacha20_poly1305 (hchacha20 P k (take 16 n)) (xchacha_cNonce n)"])
  fix n p ad dst :: bytes assume h: "length n = 24" "ad \<noteq> []" "length p \<le> 2 ^ 37"
  then have "length (xchacha_cNonce n) = 12" by (simp add: xchacha_cNonce_def)
  with h show "aead_Seal P (StupidXChaCha k False) dst n p ad
      = Ret (dst @ evp_seal P EVP_chacha20_poly1305 (hchacha20 P k (take 16 n)) (xchacha_cNonce n) p ad)"
    by (simp add: stupidX_Seal_def NewChacha20poly1305_def prims_laws(5) [OF P] openSSLSeal_live P)
next
  fix n c ad :: bytes assume h: "length n = 24" "ad \<noteq> []" "length c \<le> 2 ^ 37"
  have l: "length (xchacha_cNonce n) = 12" using h by (simp add: xchacha_cNonce_def)
  let ?o = "evp_open P EVP_chacha20_poly1305 (hchacha20 P k (take 16 n)) (xchacha_cNonce n) c ad"
  have short: "?o = None" if "length c < 16"
    using that aead_law_iff [OF evp_law [OF P]] aead_law_length [OF evp_law [OF P]]
    by (metis add_leD2 linorder_not_less option.exhaust order_refl)
  show "\<exists>e. \<forall>dst. aead_Open P (StupidXChaCha k False) dst n c ad
      = (case ?o of None \<Rightarrow> Ret (Inl e) | Some p \<Rightarrow> Ret (Inr (dst @ p)))"
  proof (cases "length c < 16")
    case True
    with h short show ?thesis by (simp add: stupidX_Open_def)
  next
    case False
    with h l show ?thesis
      by (simp add: stupidX_Open_def NewChacha20poly1305_def prims_laws(5) [OF P] openSSLOpen_live P)
         blast
  qed
qed (simp_all only: aead_law_length [OF evp_law [OF P]] aead_law_iff [OF evp_law [OF P]])

lemma contract_SivAead:
  assumes P: "prims_ok P" and k: "length k = 64"
  shows "aead_contract P (SivAead k) 16"
proof -
  note L = prims_laws(3) [OF P, unfolded siv_law_def]
  let ?sl = "\<lambda>n p ad. the (siv_encrypt P k p [ad, n])"
  have some: "siv_encrypt P k p [ad, n] = Some (?sl n p ad)" for n p ad
    using L k by (metis option.sel)
  show ?thesis
  proof (rule contractI [where sl = ?sl and opn = "\<lambda>n c ad. siv_decrypt P k c [ad, n]"])
    fix n p ad dst :: bytes assume "length n = 16"
    then show "aead_Seal P (SivAead k) dst n p ad = Ret (dst @ ?sl n p ad)"
      using k some [of p ad n]
      by (cases "siv_encrypt P k p [ad, n]") (auto simp: siv_Seal_def)
  next
    fix n c ad :: bytes assume "length n = 16"
    then show "\<exists>e. \<forall>dst. aead_Open P (SivAead k) dst n c ad
        = (case siv_decrypt P k c [ad, n] of None \<Rightarrow> Ret (Inl e) | Some p \<Rightarrow> Ret (Inr (dst @ p)))"
      using k by (auto simp: siv_Open_def split: option.split)
  next
    fix n p ad show "length (?sl n p ad) = length p + 16"
      using L k by (metis option.sel)
  next
    fix n c ad p show "siv_decrypt P k c [ad, n] = Some p \<longleftrightarrow> c = ?sl n p ad"
      using L k some by (metis option.inject)
  qed
qed

lemma aead_live_contract:
  assumes "prims_ok P" "aead_live a"
  shows "aead_contract P a (aead_NonceSize a)"
  using assms
  by (cases a) (auto simp: contract_GoGCM contract_StupidGCM contract_SivAead contract_GoXChaCha
      contract_StupidXChaCha)

text \<open>A usable pair of primitives and core is an AEAD scheme.\<close>

definition core_ok :: "prims \<times> cryptocore \<Rightarrow> bool" where
  "core_ok k \<longleftrightarrow> prims_ok (fst k) \<and> cc_ok (snd k)"

lemma core_contract:
  assumes "core_ok (P, cc)"
  obtains a where "AEADCipher cc = Some a" "aead_contract P a (IVLen cc)"
proof -
  from assms obtain a where a: "AEADCipher cc = Some a" "aead_live a" "aead_NonceSize a = IVLen cc"
    by (auto simp: core_ok_def cc_ok_def split: option.splits)
  from assms have "prims_ok P" by (simp add: core_ok_def)
  from aead_live_contract [OF this a(2)] a show thesis by (intro that) simp_all
qed

interpretation core: aead_scheme
  core_ok "\<lambda>k. IVLen (snd k)" "\<lambda>k. cc_Seal (fst k) (snd k)" "\<lambda>k. cc_Open (fst k) (snd k)"
proof (unfold_locales, goal_cases)
  case (1 k n ad p dst)
  then obtain a where "AEADCipher (snd k) = Some a" "aead_contract (fst k) a (IVLen (snd k))"
    by (metis core_contract prod.collapse)
  then obtain c where "length c = length p + 16"
    "\<forall>dst. aead_Seal (fst k) a dst n p ad = Ret (dst @ c)"
    using 1 unfolding aead_contract_def by blast
  with \<open>AEADCipher (snd k) = Some a\<close> show ?case by (simp add: cc_Seal_def)
next
  case (2 k n ad c dst)
  then obtain a where a: "AEADCipher (snd k) = Some a" "aead_contract (fst k) a (IVLen (snd k))"
    by (metis core_contract prod.collapse)
  then obtain r where "\<forall>dst. aead_Open (fst k) a dst n c ad
      = Ret (case r of Inl e \<Rightarrow> Inl e | Inr p \<Rightarrow> Inr (dst @ p))"
    using 2 unfolding aead_contract_def by blast
  with a show ?case by (cases r) (simp_all add: cc_Open_def)
next
  case (3 k n ad c dst p dst')
  then obtain a where a: "AEADCipher (snd k) = Some a" "aead_contract (fst k) a (IVLen (snd k))"
    by (metis core_contract prod.collapse)
  then obtain r where r: "\<forall>dst. aead_Open (fst k) a dst n c ad
      = Ret (case r of Inl e \<Rightarrow> Inl e | Inr p \<Rightarrow> Inr (dst @ p))"
    "\<And>p. r = Inr p \<longleftrightarrow> length p + 16 = length c \<and> aead_Seal (fst k) a [] n p ad = Ret c"
    using 3 unfolding aead_contract_def by blast
  have "aead_Seal (fst k) a dst' n p ad = Ret (dst' @ c) \<longleftrightarrow> aead_Seal (fst k) a [] n p ad = Ret c"
    if l: "length p + 16 = length c"
  proof -
    have "length p \<le> 2 ^ 37" using l 3(4) by simp
    then obtain c0 where "\<forall>dst. aead_Seal (fst k) a dst n p ad = Ret (dst @ c0)"
      using a(2) 3(2,3) unfolding aead_contract_def by blast
    then show ?thesis by simp
  qed
  then have "r = Inr p \<longleftrightarrow> length p + 16 = length c \<and> aead_Seal (fst k) a dst' n p ad = Ret (dst' @ c)"
    using r(2) by blast
  moreover have "cc_Open (fst k) (snd k) dst n c ad = Ret (Inr (dst @ p)) \<longleftrightarrow> r = Inr p"
    using a(1) r(1) by (cases r) (simp_all add: cc_Open_def)
  ultimately show ?case using a(1) by (simp add: cc_Seal_def)
qed

section \<open>Construction and wiping\<close>

text \<open>The combinations of backend, nonce size and key derivation that \<open>New\<close> accepts.\<close>

definition supported :: "AEADTypeEnum \<Rightarrow> nat \<Rightarrow> bool \<Rightarrow> bool" where
  "supported t bits useHKDF \<longleftrightarrow>
     t = BackendOpenSSL \<and> bits = 128 \<or>
     t = BackendGoGCM \<and> bits \<in> {96, 128, 192} \<or>
     t = BackendAESSIV \<and> bits = 128 \<or>
     (t = BackendXChaCha20Poly1305 \<or> t = BackendXChaCha20Poly1305OpenSSL) \<and> bits = 192 \<and> useHKDF"

lemma hkdfDerive_ok [simp]:
  "prims_ok P \<Longrightarrow> hkdfDerive P k i n = Ret (hkdf_sha256 P k i n)"
  by (simp add: hkdfDerive_def prims_laws)

lemma backend_distinct [simp]:
  "BackendOpenSSL \<noteq> BackendGoGCM" "BackendOpenSSL \<noteq> BackendAESSIV"
  "BackendOpenSSL \<noteq> BackendXChaCha20Poly1305" "BackendOpenSSL \<noteq> BackendXChaCha20Poly1305OpenSSL"
  "BackendGoGCM \<noteq> BackendOpenSSL" "BackendGoGCM \<noteq> BackendAESSIV"
  "BackendGoGCM \<noteq> BackendXChaCha20Poly1305" "BackendGoGCM \<noteq> BackendXChaCha20Poly1305OpenSSL"
  "BackendAESSIV \<noteq> BackendOpenSSL" "BackendAESSIV \<noteq> BackendGoGCM"
  "BackendAESSIV \<noteq> BackendXChaCha20Poly1305" "BackendAESSIV \<noteq> BackendXChaCha20Poly1305OpenSSL"
  "BackendXChaCha20Poly1305 \<noteq> BackendOpenSSL" "BackendXChaCha20Poly1305 \<noteq> BackendGoGCM"
  "BackendXChaCha20Poly1305 \<noteq> BackendAESSIV"
  "BackendXChaCha20Poly1305 \<noteq> BackendXChaCha20Poly1305OpenSSL"
  "BackendXChaCha20Poly1305OpenSSL \<noteq> BackendOpenSSL"
  "BackendXChaCha20Poly1305OpenSSL \<noteq> BackendGoGCM"
  "BackendXChaCha20Poly1305OpenSSL \<noteq> BackendAESSIV"
  "BackendXChaCha20Poly1305OpenSSL \<noteq> BackendXChaCha20Poly1305"
  by (simp_all add: backend_defs)

lemmas New_aead_simps = New_aead_def supported_def KeyLen_def NewAES256GCM_def
  aes_NewCipher_def siv_New_def NewXchacha20poly1305_def

text \<open>One backend at a time.\<close>

lemma New_aead_cases:
  assumes "prims_ok P" "length key = 32" "bits = 96 \<or> bits = 128 \<or> bits = 192"
  shows "case New_aead P key t bits h of
      Ret a \<Rightarrow> aead_live a \<and> (aead_NonceSize a * 8 = bits \<longleftrightarrow> supported t bits h)
    | _ \<Rightarrow> \<not> supported t bits h"
proof -
  consider "t = BackendOpenSSL" | "t = BackendGoGCM" | "t = BackendAESSIV"
    | "t = BackendXChaCha20Poly1305" | "t = BackendXChaCha20Poly1305OpenSSL"
    | "t \<notin> {BackendOpenSSL, BackendGoGCM, BackendAESSIV, BackendXChaCha20Poly1305,
        BackendXChaCha20Poly1305OpenSSL}" by blast
  then show ?thesis
  proof cases
    case 1 with assms show ?thesis by (cases h) (auto simp: New_aead_simps prims_laws)
  next
    case 2 with assms show ?thesis by (cases h) (auto simp: New_aead_simps prims_laws)
  next
    case 3 with assms show ?thesis by (cases h) (auto simp: New_aead_simps prims_laws)
  next
    case 4 with assms show ?thesis by (cases h) (auto simp: New_aead_simps prims_laws)
  next
    case 5 with assms show ?thesis by (cases h) (auto simp: New_aead_simps prims_laws)
  next
    case 6 then show ?thesis by (simp add: New_aead_def supported_def)
  qed
qed

lemma New_aead_spec:
  assumes "prims_ok P" "length key = 32" "bits = 96 \<or> bits = 128 \<or> bits = 192"
  shows "(\<exists>a. New_aead P key t bits h = Ret a \<and> aead_NonceSize a * 8 = bits) \<longleftrightarrow> supported t bits h"
    "New_aead P key t bits h = Ret a \<Longrightarrow> aead_live a"
  using New_aead_cases [OF assms, of t h] by (auto split: go.splits)

lemma New_cryptocore_spec:
  assumes "prims_ok P"
  shows "returns (New_cryptocore P key t bits h) \<longleftrightarrow> length key = 32 \<and> supported t bits h"
    and "New_cryptocore P key t bits h = Ret cc \<Longrightarrow>
      cc_ok cc \<and> IVLen cc * 8 = bits \<and> AEADBackend cc = t \<and> EMECipher cc \<noteq> None"
proof -
  let ?eme = "if h then hkdfDerive P key hkdfInfoEMENames KeyLen else Ret key"
  have eme: "length key = 32 \<Longrightarrow> \<exists>k. ?eme = Ret k \<and> aes_NewCipher k = Ret k"
    using assms by (auto simp: KeyLen_def aes_NewCipher_def prims_laws)
  have bits: "supported t bits h \<Longrightarrow> bits = 96 \<or> bits = 128 \<or> bits = 192"
    by (auto simp: supported_def)
  show "returns (New_cryptocore P key t bits h) \<longleftrightarrow> length key = 32 \<and> supported t bits h"
  proof (cases "length key = 32 \<and> (bits = 96 \<or> bits = 128 \<or> bits = 192)")
    case False
    then show ?thesis using bits by (auto simp: New_cryptocore_def KeyLen_def)
  next
    case True
    with eme obtain k where "?eme = Ret k" "aes_NewCipher k = Ret k" by blast
    with True have "returns (New_cryptocore P key t bits h) \<longleftrightarrow>
        (\<exists>a. New_aead P key t bits h = Ret a \<and> aead_NonceSize a * 8 = bits)"
      by (cases "New_aead P key t bits h") (auto simp: New_cryptocore_def KeyLen_def)
    then show ?thesis using New_aead_spec(1) [OF assms, of key bits t h] True by blast
  qed
  show "cc_ok cc \<and> IVLen cc * 8 = bits \<and> AEADBackend cc = t \<and> EMECipher cc \<noteq> None"
    if r: "New_cryptocore P key t bits h = Ret cc"
  proof -
    from r have k: "length key = 32" and b: "bits = 96 \<or> bits = 128 \<or> bits = 192"
      by (auto simp: New_cryptocore_def KeyLen_def split: if_splits)
    from r obtain a eme' where a: "New_aead P key t bits h = Ret a" "aead_NonceSize a * 8 = bits"
      and cc: "cc = \<lparr>EMECipher = Some eme', AEADCipher = Some a, AEADBackend = t,
        nonceLen = bits div 8, IVLen = bits div 8\<rparr>"
      by (auto simp: New_cryptocore_def go_bind_eq_Ret split: if_splits)
    from New_aead_spec(2) [OF assms k b a(1)] show ?thesis
      using a(2) b by (auto simp: cc cc_ok_def)
  qed
qed

text \<open>After \<open>Wipe\<close> the core seals and opens nothing any more.\<close>

lemma wiped_core_panics:
  assumes "cryptocore_Wipe cc = Ret (a, cc')"
  shows "cc_Seal P cc' dst n p ad = Panic NilDeref" "cc_Open P cc' dst n c ad = Panic NilDeref"
    "EMECipher cc' = None"
  using assms
  by (auto simp: cryptocore_Wipe_def Let_def cc_Seal_def cc_Open_def go_bind_eq_Ret split: if_splits)

text \<open>The key material left in the object whose reference \<open>Wipe\<close> drops.\<close>

fun aead_key :: "aead \<Rightarrow> bytes" where
  "aead_key (GoGCM k n) = k"
| "aead_key (StupidGCM c) = sc_key c"
| "aead_key (SivAead k) = k"
| "aead_key (GoXChaCha k) = k"
| "aead_key (StupidXChaCha k w) = k"

end
