(* ===== verification/Blocks.thy ===== *)
theory Blocks
  imports CryptoCore
begin

text \<open>
  The geometry of an encrypted file: the \<open>ContentEnc\<close> object of
  \<^verbatim>\<open>internal/contentenc/content.go\<close>, the offset and size translation of
  \<^verbatim>\<open>offsets.go\<close> and the partial blocks of \<^verbatim>\<open>intrablock.go\<close>. Offsets are 64-bit
  words and wrap around as in the code; the \<open>unat_simps\<close> lemmas give their value where
  nothing wraps.
\<close>

section \<open>ContentEnc\<close>

definition MAX_KERNEL_WRITE :: nat where "MAX_KERNEL_WRITE = 131072"
definition DefaultBS :: uint64 where "DefaultBS = 4096"
definition DefaultIVBits :: nat where "DefaultIVBits = 128"
definition HeaderLen :: nat where "HeaderLen = 18"

text \<open>A byte pool is represented by the length of the slices it hands out.\<close>

record contentEnc =
  cryptoCore :: cryptocore
  plainBS :: uint64
  cipherBS :: uint64
  allZeroBlock :: bytes
  allZeroNonce :: bytes
  cBlockPool :: nat
  pBlockPool :: nat
  CReqPool :: nat
  PReqPool :: nat

definition contentenc_New :: "cryptocore \<Rightarrow> uint64 \<Rightarrow> contentEnc go" where
  "contentenc_New cc bs =
     (if bs = 0 then Panic DivByZero
      else if of_nat MAX_KERNEL_WRITE mod bs \<noteq> 0 then Panic LogPanic
      else let cbs = bs + of_nat (IVLen cc) + of_nat AuthTagLen;
               cReqSize = unat (of_nat MAX_KERNEL_WRITE div bs * cbs) + unat cbs;
               pReqSize = MAX_KERNEL_WRITE + unat bs
        in Ret \<lparr>cryptoCore = cc, plainBS = bs, cipherBS = cbs,
                allZeroBlock = zeros (unat cbs), allZeroNonce = zeros (IVLen cc),
                cBlockPool = unat cbs, pBlockPool = unat bs,
                CReqPool = cReqSize, PReqPool = pReqSize\<rparr>)"

section \<open>offsets.go\<close>

definition BlockOverhead :: "contentEnc \<Rightarrow> uint64" where
  "BlockOverhead be = cipherBS be - plainBS be"

definition PlainOffToBlockNo :: "contentEnc \<Rightarrow> uint64 \<Rightarrow> uint64" where
  "PlainOffToBlockNo be plainOffset = plainOffset div plainBS be"

definition CipherOffToBlockNo :: "contentEnc \<Rightarrow> uint64 \<Rightarrow> uint64 go" where
  "CipherOffToBlockNo be cipherOffset =
     (if cipherOffset < of_nat HeaderLen then Panic LogPanic
      else Ret ((cipherOffset - of_nat HeaderLen) div cipherBS be))"

definition BlockNoToCipherOff :: "contentEnc \<Rightarrow> uint64 \<Rightarrow> uint64" where
  "BlockNoToCipherOff be blockNo = of_nat HeaderLen + blockNo * cipherBS be"

definition BlockNoToPlainOff :: "contentEnc \<Rightarrow> uint64 \<Rightarrow> uint64" where
  "BlockNoToPlainOff be blockNo = blockNo * plainBS be"

definition CipherSizeToPlainSize :: "contentEnc \<Rightarrow> uint64 \<Rightarrow> uint64 go" where
  "CipherSizeToPlainSize be cipherSize0 =
     (if cipherSize0 = 0 then Ret 0
      else if cipherSize0 = of_nat HeaderLen then Ret 0
      else if cipherSize0 < of_nat HeaderLen then Ret 0
      else
        let lastBlockSize = (cipherSize0 - of_nat HeaderLen) mod cipherBS be;
            cipherSize =
              (if lastBlockSize > 0 \<and> lastBlockSize \<le> BlockOverhead be
               then cipherSize0 - lastBlockSize + BlockOverhead be + 1 else cipherSize0)
        in go_bind (CipherOffToBlockNo be (cipherSize - 1)) (\<lambda>blockNo.
           let blockCount = blockNo + 1;
               overhead = BlockOverhead be * blockCount + of_nat HeaderLen
           in if overhead > cipherSize then Ret 0 else Ret (cipherSize - overhead)))"

definition PlainOffToCipherOff :: "contentEnc \<Rightarrow> uint64 \<Rightarrow> uint64" where
  "PlainOffToCipherOff be plainOff =
     BlockNoToCipherOff be (PlainOffToBlockNo be plainOff) + plainOff mod plainBS be
       + BlockOverhead be"

definition PlainSizeToCipherSize :: "contentEnc \<Rightarrow> uint64 \<Rightarrow> uint64" where
  "PlainSizeToCipherSize be plainSize =
     (if plainSize = 0 then 0 else PlainOffToCipherOff be (plainSize - 1) + 1)"

definition MinUint64 :: "uint64 \<Rightarrow> uint64 \<Rightarrow> uint64" where
  "MinUint64 x y = (if x < y then x else y)"

section \<open>intrablock.go\<close>

text \<open>The back pointer \<open>fs\<close> is passed as an argument.\<close>

record intraBlock =
  BlockNo :: uint64
  Skip :: uint64
  Length :: uint64

definition IsPartial :: "contentEnc \<Rightarrow> intraBlock \<Rightarrow> bool" where
  "IsPartial fs ib \<longleftrightarrow> Skip ib > 0 \<or> Length ib < plainBS fs"

definition BlockCipherOff :: "contentEnc \<Rightarrow> intraBlock \<Rightarrow> uint64" where
  "BlockCipherOff fs ib = BlockNoToCipherOff fs (BlockNo ib)"

definition BlockPlainOff :: "contentEnc \<Rightarrow> intraBlock \<Rightarrow> uint64" where
  "BlockPlainOff fs ib = BlockNoToPlainOff fs (BlockNo ib)"

definition CropBlock :: "intraBlock \<Rightarrow> bytes \<Rightarrow> bytes go" where
  "CropBlock ib d =
     (let lenHave = int (length d); lenWant = go_int (Skip ib + Length ib)
      in if lenHave < lenWant then go_slice d (uint (Skip ib)) lenHave
         else go_slice d (uint (Skip ib)) lenWant)"

definition JointCiphertextRange :: "contentEnc \<Rightarrow> intraBlock list \<Rightarrow> (uint64 \<times> uint64) go" where
  "JointCiphertextRange fs blocks =
     (if blocks = [] then Panic OutOfRange
      else let offset = BlockNoToCipherOff fs (BlockNo (hd blocks));
               offsetLast = BlockNoToCipherOff fs (BlockNo (last blocks))
           in Ret (offset, offsetLast + cipherBS fs - offset))"

definition JointPlaintextRange :: "contentEnc \<Rightarrow> intraBlock list \<Rightarrow> (uint64 \<times> uint64) go" where
  "JointPlaintextRange fs blocks =
     (if blocks = [] then Panic OutOfRange
      else let offset = BlockPlainOff fs (hd blocks)
           in Ret (offset, BlockPlainOff fs (last blocks) + plainBS fs - offset))"

section \<open>Splitting a range into blocks\<close>

text \<open>
  The loop of \<open>ExplodePlainRange\<close>. Each round takes at least one byte off \<open>length\<close>,
  whatever the offset does, because the space left in a block is never zero. A zero block
  size, which the constructor rejects, would divide by zero; the guard keeps the function
  total there.
\<close>

lemma word_space_left:
  fixes bs off :: "'a::len word"
  assumes "bs \<noteq> 0"
  shows "unat (bs - (off - off div bs * bs)) = unat bs - unat off mod unat bs"
    and "0 < unat bs - unat off mod unat bs"
proof -
  have m: "off - off div bs * bs = off mod bs"
    by (simp add: minus_div_mult_eq_mod)
  have pos: "0 < unat bs" using assms by (simp add: unat_gt_0)
  have lt: "unat off mod unat bs < unat bs" using pos by simp
  have "unat (off mod bs) = unat off mod unat bs" by (rule unat_mod)
  moreover have "unat (bs - off mod bs) = unat bs - unat (off mod bs)"
    using lt calculation by (intro unat_sub) (simp add: word_le_nat_alt)
  ultimately show "unat (bs - (off - off div bs * bs)) = unat bs - unat off mod unat bs"
    by (simp add: m)
  show "0 < unat bs - unat off mod unat bs" using lt by simp
qed

lemma unat_MinUint64 [unat_simps]: "unat (MinUint64 x y) = min (unat x) (unat y)"
  by (auto simp: MinUint64_def word_less_nat_alt min_def)

text \<open>
  The loop of \<open>ExplodePlainRange\<close>. \<open>New\<close> never returns a \<open>ContentEnc\<close> with a block size of
  zero, on which the code would divide; the loop is cut off there to be total.
\<close>

function ExplodePlainRange :: "contentEnc \<Rightarrow> uint64 \<Rightarrow> uint64 \<Rightarrow> intraBlock list" where
  "ExplodePlainRange be offset len =
     (if len = 0 \<or> plainBS be = 0 then []
      else let blockNo = PlainOffToBlockNo be offset;
               skip = offset - BlockNoToPlainOff be blockNo;
               l = MinUint64 len (plainBS be - skip)
           in \<lparr>BlockNo = blockNo, Skip = skip, Length = l\<rparr>
              # ExplodePlainRange be (offset + l) (len - l))"
  by pat_completeness auto
termination
proof (relation "measure (\<lambda>(be, offset, len). unat len)", goal_cases)
  case 1
  then show ?case by simp
next
  case (2 be offset len bno skip l)
  have "unat l = min (unat len) (unat (plainBS be) - unat offset mod unat (plainBS be))"
    using 2 word_space_left(1) [of "plainBS be" offset]
    by (simp add: unat_MinUint64 PlainOffToBlockNo_def BlockNoToPlainOff_def)
  moreover have "0 < unat len" using 2 by (simp add: unat_gt_0)
  ultimately have l: "0 < unat l" "unat l \<le> unat len"
    using 2 word_space_left(2) [of "plainBS be" offset] by auto
  then have "unat (len - l) = unat len - unat l"
    by (intro unat_sub) (simp add: word_le_nat_alt)
  with l show ?case by simp
qed

declare ExplodePlainRange.simps [simp del]

text \<open>\<open>ExplodeCipherRange\<close>, the counterpart for ciphertext ranges (reverse mode).\<close>

function ExplodeCipherRange :: "contentEnc \<Rightarrow> uint64 \<Rightarrow> uint64 \<Rightarrow> intraBlock list go" where
  "ExplodeCipherRange be offset len =
     (if len = 0 then Ret []
      else if cipherBS be = 0 then Panic DivByZero
      else case CipherOffToBlockNo be offset of
        Ret blockNo \<Rightarrow>
          (let skip = offset - BlockNoToCipherOff be blockNo;
               maxLen = cipherBS be - skip;
               l = (if len < maxLen then len else maxLen)
           in go_bind (ExplodeCipherRange be (offset + l) (len - l)) (\<lambda>rest.
                Ret (\<lparr>BlockNo = blockNo, Skip = skip, Length = l\<rparr> # rest)))
      | Panic p \<Rightarrow> Panic p
      | Hang \<Rightarrow> Hang)"
  by pat_completeness auto
termination
proof (relation "measure (\<lambda>(be, offset, len). unat len)", goal_cases)
  case 1
  then show ?case by simp
next
  case (2 be offset len bno skip maxLen l)
  from 2(3) have b: "bno = (offset - of_nat HeaderLen) div cipherBS be"
    by (auto simp: CipherOffToBlockNo_def split: if_splits)
  have "unat maxLen = unat (cipherBS be) - unat (offset - of_nat HeaderLen) mod unat (cipherBS be)"
    using 2 word_space_left(1) [of "cipherBS be" "offset - of_nat HeaderLen"]
    by (simp add: b BlockNoToCipherOff_def diff_diff_eq)
  moreover have "unat l = min (unat len) (unat maxLen)"
    using 2 by (auto simp: word_less_nat_alt)
  moreover have "0 < unat len" using 2 by (simp add: unat_gt_0)
  ultimately have l: "0 < unat l" "unat l \<le> unat len"
    using 2 word_space_left(2) [of "cipherBS be" "offset - of_nat HeaderLen"] by auto
  then have "unat (len - l) = unat len - unat l"
    by (intro unat_sub) (simp add: word_le_nat_alt)
  with l show ?case by simp
qed

declare ExplodeCipherRange.simps [simp del]

section \<open>Values without wrap-around\<close>

text \<open>An object the constructor made, with a usable core.\<close>

definition be_ok :: "contentEnc \<Rightarrow> bool" where
  "be_ok be \<longleftrightarrow> cc_ok (cryptoCore be) \<and> contentenc_New (cryptoCore be) (plainBS be) = Ret be"

abbreviation BS :: "contentEnc \<Rightarrow> nat" where
  "BS be \<equiv> unat (plainBS be)"

abbreviation OH :: "contentEnc \<Rightarrow> nat" where
  "OH be \<equiv> IVLen (cryptoCore be) + 16"

abbreviation CS :: "contentEnc \<Rightarrow> nat" where
  "CS be \<equiv> BS be + OH be"

lemma contentenc_New_fields:
  assumes "contentenc_New cc bs = Ret be" and "IVLen cc \<le> 24"
  shows "cryptoCore be = cc" "plainBS be = bs" "0 < unat bs" "unat bs dvd 131072"
    "unat (cipherBS be) = unat bs + IVLen cc + 16"
    "allZeroBlock be = zeros (unat bs + IVLen cc + 16)" "allZeroNonce be = zeros (IVLen cc)"
    "cBlockPool be = unat bs + IVLen cc + 16" "pBlockPool be = unat bs"
    "CReqPool be = 131072 div unat bs * (unat bs + IVLen cc + 16) + (unat bs + IVLen cc + 16)"
    "PReqPool be = 131072 + unat bs"
proof -
  from assms(1) have nz: "bs \<noteq> 0" and m: "of_nat MAX_KERNEL_WRITE mod bs = 0"
    by (auto simp: contentenc_New_def split: if_splits)
  have big: "unat (of_nat MAX_KERNEL_WRITE :: uint64) = 131072"
    by (simp add: MAX_KERNEL_WRITE_def)
  from m have "131072 mod unat bs = 0"
    using unat_mod [of "of_nat MAX_KERNEL_WRITE" bs] big by simp
  then show dv: "unat bs dvd 131072" by (simp add: dvd_eq_mod_eq_0)
  show pos: "0 < unat bs" using nz by (simp add: unat_gt_0)
  have le: "unat bs \<le> 131072" using dv by (simp add: dvd_imp_le)
  let ?c = "bs + of_nat (IVLen cc) + of_nat AuthTagLen"
  have iv: "unat (of_nat (IVLen cc) :: uint64) = IVLen cc"
    using assms(2) by (simp add: unat_of_nat)
  have tag: "unat (of_nat AuthTagLen :: uint64) = 16" by (simp add: AuthTagLen_def)
  have c: "unat ?c = unat bs + IVLen cc + 16"
    using le assms(2) by (simp add: unat_word_ariths iv tag)
  have d: "131072 div unat bs \<le> 131072" by (rule div_le_dividend)
  have prod: "131072 div unat bs * (unat bs + IVLen cc + 16) \<le> 131072 * 131112"
    using d le assms(2) by (intro mult_le_mono) auto
  have q: "unat (of_nat MAX_KERNEL_WRITE div bs * ?c)
      = 131072 div unat bs * (unat bs + IVLen cc + 16)"
    using prod by (simp add: unat_word_ariths(2) unat_div big c del: of_nat_add)
  from assms(1) nz m show "cryptoCore be = cc" "plainBS be = bs"
    "unat (cipherBS be) = unat bs + IVLen cc + 16"
    "allZeroBlock be = zeros (unat bs + IVLen cc + 16)" "allZeroNonce be = zeros (IVLen cc)"
    "cBlockPool be = unat bs + IVLen cc + 16" "pBlockPool be = unat bs"
    "CReqPool be = 131072 div unat bs * (unat bs + IVLen cc + 16) + (unat bs + IVLen cc + 16)"
    "PReqPool be = 131072 + unat bs"
    using c q by (auto simp: contentenc_New_def Let_def MAX_KERNEL_WRITE_def)
qed

lemma be_okD:
  assumes "be_ok be"
  shows "cc_ok (cryptoCore be)" "IVLen (cryptoCore be) \<in> {12, 16, 24}"
    "0 < BS be" "BS be dvd 131072" "BS be \<le> 131072" "plainBS be \<noteq> 0" "cipherBS be \<noteq> 0"
    "unat (cipherBS be) = CS be" "unat (BlockOverhead be) = OH be"
    "allZeroBlock be = zeros (CS be)" "allZeroNonce be = zeros (IVLen (cryptoCore be))"
    "cBlockPool be = CS be" "pBlockPool be = BS be"
    "CReqPool be = 131072 div BS be * CS be + CS be" "PReqPool be = 131072 + BS be"
    "28 \<le> OH be" "OH be \<le> 40" "CS be \<le> 131112"
proof -
  from assms have cc: "cc_ok (cryptoCore be)"
    and n: "contentenc_New (cryptoCore be) (plainBS be) = Ret be"
    by (simp_all add: be_ok_def)
  then show "cc_ok (cryptoCore be)" "IVLen (cryptoCore be) \<in> {12, 16, 24}"
    by (simp_all add: cc_ok_def)
  then have iv: "IVLen (cryptoCore be) \<le> 24" and ivs: "28 \<le> OH be" "OH be \<le> 40" by auto
  then show "28 \<le> OH be" "OH be \<le> 40" by simp_all
  note f = contentenc_New_fields [OF n iv]
  from f(3,4) show pos: "0 < BS be" and "BS be dvd 131072" by simp_all
  then show le: "BS be \<le> 131072" by (simp add: dvd_imp_le)
  with ivs show "CS be \<le> 131112" by simp
  show c: "unat (cipherBS be) = CS be" using f(5) by simp
  show "plainBS be \<noteq> 0" using pos by auto
  show "cipherBS be \<noteq> 0" using c pos by auto
  have "unat (BlockOverhead be) = unat (cipherBS be) - unat (plainBS be)"
    unfolding BlockOverhead_def using c by (intro unat_sub) (simp add: word_le_nat_alt)
  with c show "unat (BlockOverhead be) = OH be" by simp
  show "allZeroBlock be = zeros (CS be)" "allZeroNonce be = zeros (IVLen (cryptoCore be))"
    "cBlockPool be = CS be" "pBlockPool be = BS be"
    "CReqPool be = 131072 div BS be * CS be + CS be" "PReqPool be = 131072 + BS be"
    using f by (simp_all add: add.assoc)
qed

text \<open>Where a block lies, as numbers.\<close>

lemma unat_HeaderLen [simp]: "unat (of_nat HeaderLen :: uint64) = 18"
  by (simp add: HeaderLen_def)

lemma unat_PlainOffToBlockNo [unat_simps]:
  "unat (PlainOffToBlockNo be off) = unat off div BS be"
  by (simp add: PlainOffToBlockNo_def unat_div)

lemma unat_BlockNoToCipherOff [unat_simps]:
  assumes "be_ok be" "18 + unat b * CS be < 2 ^ 64"
  shows "unat (BlockNoToCipherOff be b) = 18 + unat b * CS be"
proof -
  have m: "unat (b * cipherBS be) = unat b * CS be"
    using assms by (simp only: unat_word_ariths(2) be_okD(8)) simp
  show ?thesis
    using assms(2) by (simp only: BlockNoToCipherOff_def unat_word_ariths(1) m unat_HeaderLen) simp
qed

lemma unat_BlockNoToPlainOff [unat_simps]:
  assumes "unat b * BS be < 2 ^ 64"
  shows "unat (BlockNoToPlainOff be b) = unat b * BS be"
  using assms by (simp add: BlockNoToPlainOff_def unat_word_ariths)

text \<open>Sizes: what a file of \<open>p\<close> plaintext bytes takes, and the converse.\<close>

definition csize :: "nat \<Rightarrow> nat \<Rightarrow> nat \<Rightarrow> nat" where
  "csize B V p = (if p = 0 then 0 else 18 + p + ((p - 1) div B + 1) * V)"

definition psize :: "nat \<Rightarrow> nat \<Rightarrow> nat \<Rightarrow> nat" where
  "psize B V c =
     (if c \<le> 18 then 0
      else let q = (c - 18) div (B + V); r = (c - 18) mod (B + V)
           in q * B + (if r = 0 then 0 else if r \<le> V then 1 else r - V))"

lemma csize_block:
  assumes "r < B"
  shows "csize B V (q * B + r + 1) = 18 + q * (B + V) + (r + V + 1)"
proof -
  have "(q * B + r) div B = q" using assms by simp
  then show ?thesis by (simp add: csize_def algebra_simps)
qed

lemma psize_csize:
  assumes "0 < B"
  shows "psize B V (csize B V p) = p"
proof (cases "p = 0")
  case False
  define q where "q = (p - 1) div B"
  define r where "r = (p - 1) mod B"
  have r: "r < B" using assms by (simp add: r_def)
  have p: "p = q * B + r + 1"
    using False div_mult_mod_eq [of "p - 1" B] by (simp add: q_def r_def)
  have c: "csize B V p - 18 = q * (B + V) + (r + V + 1)"
    using csize_block [OF r, of V q] unfolding p by simp
  have gt: "18 < csize B V p"
    using False by (simp add: csize_def)
  show ?thesis
  proof (cases "r + V + 1 = B + V")
    case True
    then have "csize B V p - 18 = (q + 1) * (B + V)" using c by (simp add: algebra_simps)
    moreover have "p = (q + 1) * B" using p True by (simp add: algebra_simps)
    ultimately show ?thesis using gt assms by (simp add: psize_def)
  next
    case False
    then have lt: "r + V + 1 < B + V" using r by simp
    then have "(csize B V p - 18) div (B + V) = q" "(csize B V p - 18) mod (B + V) = r + V + 1"
      unfolding c using div_mod_block [OF lt, of q] by simp_all
    then show ?thesis using gt p by (simp add: psize_def)
  qed
qed (simp add: csize_def psize_def)

lemma csize_mono: "p \<le> p' \<Longrightarrow> csize B V p \<le> csize B V p'"
  by (auto simp: csize_def intro!: add_mono mult_le_mono1 div_le_mono)

lemma csize_bound:
  assumes "0 < B" "V \<le> 40"
  shows "csize B V p \<le> 18 + p * 41"
proof (cases "p = 0")
  case False
  have "(p - 1) div B \<le> p - 1" by (rule div_le_dividend)
  then have "(p - 1) div B + 1 \<le> p" using False by linarith
  then have "((p - 1) div B + 1) * V \<le> p * 40"
    using assms(2) by (rule mult_le_mono)
  then show ?thesis using False by (simp add: csize_def)
qed (simp add: csize_def)

lemma psize_le: "psize B V c \<le> c"
proof (cases "c \<le> 18")
  case False
  define n where "n = c - 18"
  have "n = n div (B + V) * (B + V) + n mod (B + V)"
    by (rule div_mult_mod_eq [symmetric])
  moreover have "n div (B + V) * B \<le> n div (B + V) * (B + V)" by simp
  ultimately have "n div (B + V) * B + n mod (B + V) \<le> n" by linarith
  with False show ?thesis
    by (auto simp: psize_def Let_def n_def)
qed (simp add: psize_def)

section \<open>The size translation is the arithmetic one\<close>

lemma unat_PlainSizeToCipherSize [unat_simps]:
  assumes "be_ok be" "unat p < 2 ^ 57"
  shows "unat (PlainSizeToCipherSize be p) = csize (BS be) (OH be) (unat p)"
proof (cases "p = 0")
  case False
  note B = be_okD [OF assms(1)]
  have p1: "unat (p - 1) = unat p - 1" using False by (simp add: unat_minus_one)
  have pos: "0 < unat p" using False by (simp add: unat_gt_0)
  define q where "q = (unat p - 1) div BS be"
  define r where "r = (unat p - 1) mod BS be"
  have p: "unat p = q * BS be + r + 1"
    using pos div_mult_mod_eq [of "unat p - 1" "BS be"] by (simp add: q_def r_def)
  have "r < BS be" using B(3) by (simp add: r_def)
  then have c: "csize (BS be) (OH be) (unat p) = 18 + q * CS be + r + OH be + 1"
    using csize_block [of r "BS be" "OH be" q] unfolding p by simp
  have "csize (BS be) (OH be) (unat p) \<le> 18 + unat p * 41"
    using B by (intro csize_bound) auto
  then have lt: "18 + q * CS be + r + OH be + 1 < 2 ^ 63" using assms(2) unfolding c by simp
  have bno: "unat (PlainOffToBlockNo be (p - 1)) = q"
    by (simp add: unat_PlainOffToBlockNo p1 q_def)
  have "18 + q * CS be < 2 ^ 64" using lt by simp
  then have s: "unat (BlockNoToCipherOff be (PlainOffToBlockNo be (p - 1))) = 18 + q * CS be"
    using unat_BlockNoToCipherOff [OF assms(1)] bno by metis
  have m: "unat ((p - 1) mod plainBS be) = r" by (simp add: unat_mod p1 r_def)
  define K where "K = q * CS be"
  note lt' = lt [folded K_def] and s' = s [folded K_def]
  have "unat (BlockNoToCipherOff be (PlainOffToBlockNo be (p - 1)) + (p - 1) mod plainBS be)
      = 18 + K + r"
    using lt' by (subst unat_add_small) (simp_all only: s' m, simp)
  then have "unat (PlainOffToCipherOff be (p - 1)) = 18 + K + r + OH be"
    unfolding PlainOffToCipherOff_def
    using lt' by (subst unat_add_small) (simp_all only: B(9), simp)
  then have "unat (PlainOffToCipherOff be (p - 1) + 1) = 18 + q * CS be + r + OH be + 1"
    using lt' by (subst unat_add_small) (simp_all only: K_def unat_1, simp)
  then show ?thesis using False by (simp add: PlainSizeToCipherSize_def c)
qed (simp add: PlainSizeToCipherSize_def csize_def)

lemma CipherSizeToPlainSize_spec:
  assumes "be_ok be" "unat c < 2 ^ 63"
  shows "\<exists>p. CipherSizeToPlainSize be c = Ret p \<and> unat p = psize (BS be) (OH be) (unat c)"
proof (cases "unat c \<le> 18")
  case True
  then have "c = 0 \<or> c = of_nat HeaderLen \<or> c < of_nat HeaderLen"
    by (metis le_neq_implies_less unat_HeaderLen word_less_nat_alt word_unat_eq_iff)
  with True show ?thesis by (auto simp: CipherSizeToPlainSize_def psize_def)
next
  case False
  note B = be_okD [OF assms(1)]
  let ?h = "of_nat HeaderLen :: uint64"
  have c18: "c \<noteq> 0" "c \<noteq> ?h" "\<not> c < ?h" using False by (auto simp: word_less_nat_alt)
  have sub: "unat (c - ?h) = unat c - 18"
    using False by (subst unat_sub) (simp_all add: word_le_nat_alt)
  define q where "q = (unat c - 18) div CS be"
  define r where "r = (unat c - 18) mod CS be"
  have c: "unat c = 18 + q * CS be + r"
    using False div_mult_mod_eq [of "unat c - 18" "CS be"] unfolding q_def r_def by linarith
  have r: "r < CS be" using B(3) by (simp add: r_def)
  let ?l = "(c - ?h) mod cipherBS be"
  have l: "unat ?l = r" by (simp add: unat_mod sub B(8) r_def)
  \<comment> \<open>the size after a too short last block is padded to one byte of payload\<close>
  define r' where "r' = (if 0 < r \<and> r \<le> OH be then OH be + 1 else r)"
  let ?c = "if ?l > 0 \<and> ?l \<le> BlockOverhead be then c - ?l + BlockOverhead be + 1 else c"
  have sub2: "unat (c - ?l) = 18 + q * CS be" using c l
    by (subst unat_sub) (simp_all add: word_le_nat_alt)
  have c': "unat ?c = 18 + q * CS be + r'"
    using c l sub2 assms(2) B(9,17)
    by (auto simp: r'_def word_less_nat_alt word_le_nat_alt unat_word_ariths)
  have r': "r' \<le> CS be" using r B(3,16) by (auto simp: r'_def)
  have pos: "0 < q * CS be + r'" using c False by (auto simp: r'_def)
  have lt: "18 + q * CS be + r' < 2 ^ 64" using assms(2) c r' B(18) by simp
  have c1: "unat (?c - 1) = 18 + q * CS be + r' - 1"
    using c' by (subst unat_minus_one) auto
  define k where "k = (q * CS be + r' - 1) div CS be"
  have bno: "CipherOffToBlockNo be (?c - 1) = Ret ((?c - 1 - ?h) div cipherBS be)"
    using c1 pos by (simp add: CipherOffToBlockNo_def word_less_nat_alt)
  have "unat ?h \<le> unat (?c - 1)" unfolding c1 unat_HeaderLen using pos by linarith
  from unat_diff_small [OF this] have "unat (?c - 1 - ?h) = q * CS be + r' - 1"
    unfolding c1 unat_HeaderLen using pos by linarith
  then have bnk: "unat ((?c - 1 - ?h) div cipherBS be) = k"
    by (simp add: unat_div B(8) k_def)
  have k: "k + 1 = (if r' = 0 then q else q + 1)"
  proof (cases "r' = 0")
    case True
    then obtain q' where "q = Suc q'" using pos by (cases q) auto
    moreover have "(CS be + q' * CS be - 1) div CS be = q'"
      using B(3) by (intro div_nat_eqI) (auto simp: algebra_simps)
    ultimately show ?thesis using True by (simp add: k_def)
  next
    case False
    then have "k = q" using r' unfolding k_def by (intro div_nat_eqI) (auto simp: algebra_simps)
    then show ?thesis using False by simp
  qed
  have ov: "OH be * (k + 1) + 18 \<le> 18 + q * CS be + r'"
  proof (cases "r' = 0")
    case False
    then have "OH be \<le> r'" by (cases "r = 0") (simp_all add: r'_def)
    then show ?thesis using k False by (simp add: algebra_simps)
  qed (use k in \<open>simp add: algebra_simps\<close>)
  let ?o = "BlockOverhead be * ((?c - 1 - ?h) div cipherBS be + 1) + ?h"
  define M where "M = OH be * (k + 1)"
  note ov' = ov [folded M_def]
  define K where "K = q * CS be"
  have lt': "18 + K + r' < 2 ^ 64" and c'': "unat ?c = 18 + K + r'"
    and ovK: "M + 18 \<le> 18 + K + r'"
    using lt c' ov' by (simp_all only: K_def)
  have "k + 1 \<le> M" using B(16) mult_le_mono1 [of 1 "OH be" "k + 1"] by (simp add: M_def)
  then have k64: "k + 1 < 2 ^ 64" "M < 2 ^ 64" using ovK lt' by linarith+
  let ?n = "(?c - 1 - ?h) div cipherBS be + 1"
  have n: "unat ?n = k + 1"
    using k64 bnk by (subst unat_add_small) (simp_all only: unat_1)
  have M: "unat (BlockOverhead be * ?n) = M"
    using k64 by (subst unat_mult_small) (simp_all only: n B(9) M_def)
  have o: "unat ?o = M + 18"
    using unat_add_small [of "BlockOverhead be * ?n" ?h, unfolded M unat_HeaderLen] ovK lt'
    by linarith
  have no: "\<not> ?o > ?c" using ovK o c'' word_less_nat_alt [of ?c ?o] by linarith
  have "unat (?c - ?o) = 18 + K + r' - (M + 18)"
    using unat_diff_small [of ?o ?c, unfolded o c''] ovK by linarith
  moreover have "\<dots> = psize (BS be) (OH be) (unat c)"
  proof -
    have ps: "psize (BS be) (OH be) (unat c)
        = q * BS be + (if r = 0 then 0 else if r \<le> OH be then 1 else r - OH be)"
      using False by (simp add: psize_def Let_def q_def r_def)
    have "r' = 0 \<longleftrightarrow> r = 0" by (simp add: r'_def)
    then show ?thesis
      unfolding ps using k by (auto simp: M_def K_def r'_def algebra_simps)
  qed
  moreover have "CipherSizeToPlainSize be c = Ret (?c - ?o)"
    using c18 bno no by (simp only: CipherSizeToPlainSize_def Let_def go_bind.simps if_False)
  ultimately show ?thesis by metis
qed

section \<open>The range split, as numbers\<close>

text \<open>The same loop on naturals: block number, offset in the block, length.\<close>

function explode :: "nat \<Rightarrow> nat \<Rightarrow> nat \<Rightarrow> (nat \<times> nat \<times> nat) list" where
  "explode B off len =
     (if len = 0 \<or> B = 0 then []
      else let l = min len (B - off mod B)
           in (off div B, off mod B, l) # explode B (off + l) (len - l))"
  by pat_completeness auto
termination
  by (relation "measure (\<lambda>(B, off, len). len)") auto

declare explode.simps [simp del]

lemma explode_Nil [simp]: "explode B off 0 = []"
  by (simp add: explode.simps)

lemma explode_last:
  assumes "0 < B" "0 < len" "len \<le> B - off mod B"
  shows "explode B off len = [(off div B, off mod B, len)]"
  using assms by (simp add: explode.simps [of B off len] min_def)

lemma next_block:
  fixes B off :: nat
  assumes "0 < B"
  shows "off + (B - off mod B) = (off div B + 1) * B"
proof -
  have "off = off div B * B + off mod B" by (rule div_mult_mod_eq [symmetric])
  moreover have "off mod B < B" using assms by simp
  ultimately have "off + (B - off mod B) = off div B * B + B" by linarith
  then show ?thesis by simp
qed

lemma explode_step:
  assumes "0 < B" "B - off mod B < len"
  shows "explode B off len = (off div B, off mod B, B - off mod B)
     # explode B ((off div B + 1) * B) (len - (B - off mod B))"
proof -
  have m: "min len (B - off mod B) = B - off mod B" and c: "\<not> (len = 0 \<or> B = 0)"
    using assms by auto
  show ?thesis
    by (simp only: explode.simps [of B off len] c m if_False Let_def next_block [OF assms(1)])
qed

text \<open>Induction over the blocks of a range: none, the last one, or a full rest and more.\<close>

lemma explode_induct [consumes 1, case_names none last step]:
  fixes B off len :: nat
  assumes "0 < B"
    and "\<And>off. Q off 0"
    and "\<And>off len. 0 < len \<Longrightarrow> len \<le> B - off mod B \<Longrightarrow> Q off len"
    and "\<And>off len. B - off mod B < len \<Longrightarrow>
      Q ((off div B + 1) * B) (len - (B - off mod B)) \<Longrightarrow> Q off len"
  shows "Q off len"
proof (induction len arbitrary: off rule: less_induct)
  case (less len)
  have m: "off mod B < B" using assms(1) by simp
  consider "len = 0" | "0 < len" "len \<le> B - off mod B" | "B - off mod B < len" by linarith
  then show ?case
  proof cases
    case 3
    then have "len - (B - off mod B) < len" using m by linarith
    from less [OF this] show ?thesis using 3 assms(4) by blast
  qed (use assms(2,3) in auto)
qed

lemma div_last_block:
  fixes B off len :: nat
  assumes "0 < len" "len \<le> B - off mod B"
  shows "(off + len - 1) div B = off div B"
proof -
  have "off = off div B * B + off mod B" by (rule div_mult_mod_eq [symmetric])
  then have "off + len - 1 = off div B * B + (off mod B + (len - 1))" using assms(1) by linarith
  moreover have "off mod B + (len - 1) < B" using assms by linarith
  ultimately show ?thesis using div_mod_block(1) by metis
qed

lemma explode_blocks:
  assumes "0 < B"
  shows "map fst (explode B off len) = (if len = 0 then [] else [off div B ..< (off + len - 1) div B + 1])"
  using assms
proof (induction off len rule: explode_induct)
  case (last off len)
  then show ?case using assms div_last_block [OF last] by (simp add: explode_last)
next
  case (step off len)
  have e: "(off div B + 1) * B + (len - (B - off mod B)) = off + len"
    using step.hyps(1) next_block [OF assms, of off] by linarith
  have le: "off div B + 1 \<le> (off + len - 1) div B"
  proof -
    have "(off div B + 1) * B \<le> off + len - 1"
      using step.hyps(1) next_block [OF assms, of off] by linarith
    then show ?thesis using assms by (metis div_le_mono nonzero_mult_div_cancel_right not_less0)
  qed
  then have "off div B < (off + len - 1) div B + 1" by linarith
  moreover have "(off div B + 1) * B div B = off div B + 1" using assms by simp
  ultimately show ?case
    using step assms e by (simp add: explode_step upt_conv_Cons)
qed simp

lemma explode_lengths:
  assumes "0 < B"
  shows "(\<Sum>(b, s, l)\<leftarrow>explode B off len. l) = len"
  using assms
  by (induction off len rule: explode_induct) (use assms in \<open>simp_all add: explode_last explode_step\<close>)

lemma explode_in_block:
  assumes "0 < B" "(b, s, l) \<in> set (explode B off len)"
  shows "0 < l \<and> s + l \<le> B"
proof -
  have "\<forall>(b, s, l) \<in> set (explode B off len). 0 < l \<and> s + l \<le> B" using assms(1)
  proof (induction off len rule: explode_induct)
    case (step off len)
    then show ?case using assms(1) by (simp add: explode_step)
  qed (use assms(1) in \<open>auto simp: explode_last\<close>)
  with assms(2) show ?thesis by blast
qed

text \<open>Each piece starts where the pieces before it end.\<close>

lemma explode_contiguous:
  assumes "0 < B" "i < length (explode B off len)"
  shows "(case explode B off len ! i of (b, s, l) \<Rightarrow> b * B + s)
     = off + (\<Sum>(b, s, l)\<leftarrow>take i (explode B off len). l)"
  using assms
proof (induction off len arbitrary: i rule: explode_induct)
  case (last off len)
  then show ?case using assms(1) by (simp add: explode_last)
next
  case (step off len)
  show ?case
  proof (cases i)
    case 0
    then show ?thesis using step.hyps assms(1) by (simp add: explode_step)
  next
    case (Suc j)
    then have "j < length (explode B ((off div B + 1) * B) (len - (B - off mod B)))"
      using step.prems step.hyps assms(1) by (simp add: explode_step)
    from step.IH [OF this] have "(case explode B off len ! i of (b, s, l) \<Rightarrow> b * B + s)
        = (off div B + 1) * B + (\<Sum>(b, s, l)\<leftarrow>take j (explode B ((off div B + 1) * B)
            (len - (B - off mod B))). l)"
      using Suc step.hyps assms(1) by (simp add: explode_step)
    also have "\<dots> = off + ((B - off mod B) + (\<Sum>(b, s, l)\<leftarrow>take j
        (explode B ((off div B + 1) * B) (len - (B - off mod B))). l))"
      unfolding next_block [OF assms(1), of off, symmetric] by (rule add.assoc)
    also have "\<dots> = off + (\<Sum>(b, s, l)\<leftarrow>take i (explode B off len). l)"
      unfolding Suc explode_step [OF assms(1) step.hyps(1)] by simp
    finally show ?thesis .
  qed
qed simp

text \<open>The loop on words computes the one on numbers.\<close>

definition ib_nat :: "intraBlock \<Rightarrow> nat \<times> nat \<times> nat" where
  "ib_nat ib = (unat (BlockNo ib), unat (Skip ib), unat (Length ib))"

lemma ExplodePlainRange_nat:
  assumes "plainBS be \<noteq> 0" "unat off + unat len < 2 ^ 64"
  shows "map ib_nat (ExplodePlainRange be off len) = explode (BS be) (unat off) (unat len)"
  using assms
proof (induction be off len rule: ExplodePlainRange.induct)
  case (1 be off len)
  show ?case
  proof (cases "len = 0")
    case False
    define skip where "skip = off - BlockNoToPlainOff be (PlainOffToBlockNo be off)"
    define l where "l = MinUint64 len (plainBS be - skip)"
    have pos: "0 < BS be" using 1(2) by (simp add: unat_gt_0)
    have len0: "0 < unat len" using False by (simp add: unat_gt_0)
    have skip: "skip = off mod plainBS be"
      by (simp add: skip_def PlainOffToBlockNo_def BlockNoToPlainOff_def minus_div_mult_eq_mod)
    have l: "unat l = min (unat len) (BS be - unat off mod BS be)"
      using word_space_left(1) [OF 1(2), of off]
      by (simp add: l_def unat_MinUint64 skip_def PlainOffToBlockNo_def BlockNoToPlainOff_def)
    have off': "unat (off + l) = unat off + unat l"
      using 1(3) l by (intro unat_add_small) linarith
    have len': "unat (len - l) = unat len - unat l"
      using l by (intro unat_diff_small) simp
    have small: "unat (off + l) + unat (len - l) < 2 ^ 64"
      using 1(3) l unfolding off' len' by linarith
    have IH: "map ib_nat (ExplodePlainRange be (off + l) (len - l))
        = explode (BS be) (unat off + unat l) (unat len - unat l)"
      using 1(1) [OF _ refl refl refl, folded skip_def, folded l_def] 1(2) False small
      by (simp add: off' len')
    have "ExplodePlainRange be off len = \<lparr>BlockNo = PlainOffToBlockNo be off, Skip = skip, Length = l\<rparr>
        # ExplodePlainRange be (off + l) (len - l)"
      using False 1(2) by (simp add: ExplodePlainRange.simps [of be off len] Let_def skip_def l_def)
    moreover have "explode (BS be) (unat off) (unat len) = (unat off div BS be, unat off mod BS be, unat l)
        # explode (BS be) (unat off + unat l) (unat len - unat l)"
      using len0 pos by (simp add: explode.simps [of "BS be" "unat off" "unat len"] l Let_def)
    moreover have "ib_nat \<lparr>BlockNo = PlainOffToBlockNo be off, Skip = skip, Length = l\<rparr>
        = (unat off div BS be, unat off mod BS be, unat l)"
      by (simp add: ib_nat_def unat_PlainOffToBlockNo skip unat_mod)
    ultimately show ?thesis
      using IH by simp
  qed (simp add: ExplodePlainRange.simps)
qed

text \<open>The ciphertext range of the blocks a plaintext range touches.\<close>

definition nblocks :: "nat \<Rightarrow> nat \<Rightarrow> nat \<Rightarrow> nat" where
  "nblocks B off len = (if len = 0 then 0 else (off + len - 1) div B + 1 - off div B)"

lemma length_explode: "0 < B \<Longrightarrow> length (explode B off len) = nblocks B off len"
  using explode_blocks [of B off len, THEN arg_cong [where f = length]]
  by (simp only: length_map nblocks_def) (simp add: Suc_diff_le)

lemma nblocks_pos: "0 < len \<Longrightarrow> 0 < nblocks B off len"
  by (auto simp: nblocks_def Suc_diff_le div_le_mono)

lemma nblocks_bound:
  assumes "0 < B" "B dvd m" "len \<le> m"
  shows "nblocks B off len \<le> m div B + 1"
proof (cases "len = 0")
  case False
  from assms(2) obtain k where k: "m = B * k" by auto
  have "off + len - 1 \<le> off + k * B" using assms(3) k by (simp add: mult.commute)
  then have "(off + len - 1) div B \<le> (off + k * B) div B" by (rule div_le_mono)
  also have "\<dots> = off div B + k" using assms(1) by simp
  finally show ?thesis using False k assms(1) by (simp add: nblocks_def)
qed (simp add: nblocks_def)

end
