(* ===== verification/BlockFile.thy ===== *)
theory BlockFile
  imports Blocks
begin

text \<open>
  What it means for a sequence of encrypted blocks to stand for a plaintext, and what
  overwriting, truncating and extending the blocks does to the plaintext. This is the
  abstract side of the file layer: it knows the block codec only through the interface
  \<open>block_codec\<close>.
\<close>

section \<open>Lengths\<close>

text \<open>The length of the encrypted blocks of \<open>n\<close> plaintext bytes.\<close>

definition body_len :: "nat \<Rightarrow> nat \<Rightarrow> nat \<Rightarrow> nat" where
  "body_len B V n = n div B * (B + V) + (if n mod B = 0 then 0 else n mod B + V)"

lemma body_len_0 [simp]: "body_len B V 0 = 0"
  by (simp add: body_len_def)

lemma body_len_block:
  "r < B \<Longrightarrow> body_len B V (m * B + r) = m * (B + V) + (if r = 0 then 0 else r + V)"
  by (simp add: body_len_def)

lemma body_len_aligned: "0 < B \<Longrightarrow> body_len B V (m * B) = m * (B + V)"
  by (simp add: body_len_def)

lemma body_len_last:
  assumes "0 < s" "s \<le> B"
  shows "body_len B V (m * B + s) = m * (B + V) + s + V"
proof (cases "s = B")
  case True
  then have "m * B + s = (m + 1) * B" by simp
  moreover have "0 < B" using assms by linarith
  ultimately have "body_len B V (m * B + s) = (m + 1) * (B + V)"
    using body_len_aligned by metis
  then show ?thesis using True by simp
qed (use assms body_len_block in auto)

lemma csize_body_len:
  assumes "0 < B"
  shows "csize B V n = (if n = 0 then 0 else 18 + body_len B V n)"
proof (cases "n = 0")
  case False
  define m r where "m = n div B" and "r = n mod B"
  have n: "n = m * B + r" by (simp add: m_def r_def)
  have r: "r < B" using assms by (simp add: r_def)
  show ?thesis
  proof (cases "r = 0")
    case True
    with n False obtain m' where "m = Suc m'" by (cases m) auto
    then have "n = m' * B + (B - 1) + 1" using n True assms by simp
    then have "csize B V n = 18 + m' * (B + V) + (B - 1 + V + 1)"
      using csize_block [of "B - 1" B V m'] assms by simp
    moreover have "body_len B V n = m * (B + V)"
      using n True body_len_aligned [OF assms, of V m] by simp
    ultimately show ?thesis using \<open>m = Suc m'\<close> False assms by simp
  next
    case r0: False
    then have "n = m * B + (r - 1) + 1" using n by simp
    then have "csize B V n = 18 + m * (B + V) + (r - 1 + V + 1)"
      using csize_block [of "r - 1" B V m] r by simp
    then show ?thesis using n r0 False r body_len_block [of r B V m] by simp
  qed
qed (simp add: csize_def)

lemma body_len_ge: "n \<le> body_len B V n"
proof -
  have "n = n div B * B + n mod B" by (rule div_mult_mod_eq [symmetric])
  moreover have "n div B * B \<le> n div B * (B + V)" by simp
  moreover have "n mod B \<le> (if n mod B = 0 then 0 else n mod B + V)" by simp
  ultimately show ?thesis unfolding body_len_def by linarith
qed

lemma body_len_pos: "0 < n \<Longrightarrow> 0 < body_len B V n"
  using body_len_ge [of n B V] by linarith

lemma body_len_mono:
  assumes "0 < B" "n \<le> n'"
  shows "body_len B V n \<le> body_len B V n'"
proof (cases "n = 0")
  case False
  have "csize B V n \<le> csize B V n'" by (rule csize_mono) fact
  then show ?thesis using False assms by (simp add: csize_body_len)
qed simp

lemma body_len_strict:
  assumes "0 < B" "n < n'"
  shows "body_len B V n < body_len B V n'"
proof (cases "n = 0")
  case False
  have le: "((n - 1) div B + 1) * V \<le> ((n' - 1) div B + 1) * V"
    using assms(2) by (intro mult_le_mono1 add_le_mono1 div_le_mono) simp
  then have "csize B V n < csize B V n'"
  proof -
    have "n' \<noteq> 0" using assms(2) by simp
    with False assms(2) le show ?thesis unfolding csize_def by (simp only: if_False)
  qed
  then show ?thesis using False assms by (simp add: csize_body_len)
qed (use assms body_len_pos in auto)

text \<open>A block that lies wholly in the plaintext has its whole ciphertext in the body.\<close>

lemma full_block_le:
  assumes "0 < B" "(i + 1) * B \<le> n"
  shows "(i + 1) * (B + V) \<le> body_len B V n"
  using body_len_mono [OF assms, of V] body_len_aligned [OF assms(1), of V "i + 1"] by simp

lemma div_bounds:
  fixes B :: nat
  assumes "0 < B"
  shows "off div B * B \<le> off" "off < (off div B + 1) * B"
proof -
  have "off = off div B * B + off mod B" by (rule div_mult_mod_eq [symmetric])
  moreover have "off mod B < B" using assms by simp
  ultimately show "off div B * B \<le> off" "off < (off div B + 1) * B" by (simp_all, linarith)
qed

section \<open>The interface of a block codec\<close>

text \<open>
  \<open>dec k i c\<close> is the plaintext of ciphertext block number \<open>i\<close>. An empty block decodes to
  nothing, a hole (a full block of zero bytes) to a full block of zeros, and every other
  block is longer than its plaintext by the overhead.
\<close>

locale block_codec =
  fixes ok :: "'k \<Rightarrow> bool"
    and B :: "'k \<Rightarrow> nat" and V :: "'k \<Rightarrow> nat"
    and dec :: "'k \<Rightarrow> nat \<Rightarrow> bytes \<Rightarrow> bytes option"
  assumes B_pos: "ok k \<Longrightarrow> 0 < B k"
    and V_pos: "ok k \<Longrightarrow> 0 < V k"
    and dec_empty: "ok k \<Longrightarrow> dec k i [] = Some []"
    and dec_hole: "ok k \<Longrightarrow> dec k i (zeros (B k + V k)) = Some (zeros (B k))"
    and dec_length: "ok k \<Longrightarrow> dec k i c = Some p \<Longrightarrow> c \<noteq> [] \<Longrightarrow> length c \<le> B k + V k \<Longrightarrow>
      length p + V k = length c"
begin

definition pblk :: "'k \<Rightarrow> nat \<Rightarrow> bytes \<Rightarrow> bytes" where
  "pblk k i p = range_of (i * B k) (B k) p"

definition cblk :: "'k \<Rightarrow> nat \<Rightarrow> bytes \<Rightarrow> bytes" where
  "cblk k i c = range_of (i * (B k + V k)) (B k + V k) c"

text \<open>The body \<open>c\<close> represents the plaintext \<open>p\<close>.\<close>

definition rep :: "'k \<Rightarrow> bytes \<Rightarrow> bytes \<Rightarrow> bool" where
  "rep k c p \<longleftrightarrow> length c = body_len (B k) (V k) (length p) \<and>
     (\<forall>i. dec k i (cblk k i c) = Some (pblk k i p))"

lemma rep_length: "rep k c p \<Longrightarrow> length c = body_len (B k) (V k) (length p)"
  by (simp add: rep_def)

lemma rep_block: "rep k c p \<Longrightarrow> dec k i (cblk k i c) = Some (pblk k i p)"
  by (simp add: rep_def)

lemma rep_empty: "ok k \<Longrightarrow> rep k [] []"
  by (simp add: rep_def cblk_def pblk_def dec_empty)

text \<open>A body stands for at most one plaintext.\<close>

lemma rep_unique:
  assumes "ok k" "rep k c p" "rep k c q"
  shows "p = q"
proof -
  have blocks: "pblk k i p = pblk k i q" for i
    using rep_block [OF assms(2), of i] rep_block [OF assms(3), of i] by simp
  have "length p = length q"
    using body_len_strict [OF B_pos [OF assms(1)]] rep_length [OF assms(2)] rep_length [OF assms(3)]
    by (metis less_irrefl linorder_neqE_nat)
  then show ?thesis
    using blocks B_pos [OF assms(1)] eq_by_blocks [of "B k" p q] by (simp add: pblk_def)
qed

text \<open>
  Cutting at a block boundary, and extending a block-aligned plaintext by whole holes.
\<close>

lemma rep_take_blocks:
  assumes "ok k" "rep k c p" "m * B k \<le> length p"
  shows "rep k (take (m * (B k + V k)) c) (take (m * B k) p)"
proof -
  note pos = B_pos [OF assms(1)]
  have "body_len (B k) (V k) (m * B k) \<le> length c"
    using rep_length [OF assms(2)] body_len_mono [OF pos assms(3)] by simp
  then have le: "m * (B k + V k) \<le> length c" by (simp add: body_len_aligned pos)
  have "dec k i (cblk k i (take (m * (B k + V k)) c)) = Some (pblk k i (take (m * B k) p))" for i
  proof (cases "i < m")
    case True
    then have "(i + 1) * B k \<le> m * B k" "(i + 1) * (B k + V k) \<le> m * (B k + V k)"
      by (simp_all only: mult_le_mono1)
    then have "pblk k i (take (m * B k) p) = pblk k i p"
      "cblk k i (take (m * (B k + V k)) c) = cblk k i c"
      by (simp_all add: pblk_def cblk_def range_of_take(1))
    then show ?thesis using rep_block [OF assms(2)] by simp
  next
    case False
    then have "m * B k \<le> i * B k" "m * (B k + V k) \<le> i * (B k + V k)" by simp_all
    then show ?thesis
      using dec_empty [OF assms(1)] by (simp only: pblk_def cblk_def range_of_take(2))
  qed
  then show ?thesis using le assms(3) by (simp add: rep_def body_len_aligned pos)
qed

lemma range_of_zeros:
  assumes "off + n \<le> m"
  shows "range_of off n (zeros m) = zeros n"
  using assms by (simp add: range_of_def)

lemma rep_extend_holes:
  assumes "ok k" "rep k c p" "length p = m * B k" "m \<le> m'"
  shows "rep k (resize (m' * (B k + V k)) c) (resize (m' * B k) p)"
proof -
  note pos = B_pos [OF assms(1)]
  have lc: "length c = m * (B k + V k)"
    using rep_length [OF assms(2)] assms(3) by (simp add: body_len_aligned pos)
  have part: "range_of (i * n) n (resize (m' * n) xs)
      = (if i < m then range_of (i * n) n xs else if i < m' then zeros n else [])"
    if "length xs = m * n" for i n and xs :: bytes
  proof -
    have le: "(i + 1) * n \<le> m * n" if "i < m" using that by (intro mult_le_mono1) simp
    have le': "(i + 1) * n \<le> m' * n" if "i < m'" using that by (intro mult_le_mono1) simp
    have ge: "m * n \<le> i * n" if "\<not> i < m" using that by simp
    have ge': "m' * n \<le> i * n" if "\<not> i < m'" using that by simp
    show ?thesis
    proof (cases "i < m")
      case True
      with le le' assms(4) that show ?thesis by (simp add: range_of_resize(1))
    next
      case False
      with ge le' ge' that show ?thesis
        by (cases "i < m'") (simp_all add: range_of_resize(2,3))
    qed
  qed
  have "dec k i (cblk k i (resize (m' * (B k + V k)) c)) = Some (pblk k i (resize (m' * B k) p))" for i
    using rep_block [OF assms(2), of i] dec_hole [OF assms(1)] dec_empty [OF assms(1)]
    unfolding pblk_def cblk_def part [OF lc] part [OF assms(3)] by simp
  then show ?thesis by (simp add: rep_def body_len_aligned pos)
qed

text \<open>
  Writing inside one block. The new ciphertext block decodes to the block of the changed
  plaintext. A write that starts behind the block of the old end of the plaintext is
  allowed only if that end is block-aligned: otherwise the old last block would have to be
  padded first.
\<close>

definition no_gap :: "'k \<Rightarrow> nat \<Rightarrow> bytes \<Rightarrow> bool" where
  "no_gap k off p \<longleftrightarrow> length p mod B k = 0 \<or> off div B k \<le> length p div B k"

lemma rep_write_block:
  assumes k: "ok k" and r: "rep k c p"
    and d: "d \<noteq> []" "off mod B k + length d \<le> B k" and gap: "no_gap k off p"
    and new: "dec k (off div B k) nb = Some (pblk k (off div B k) (overwrite off d p))"
    and len: "nb \<noteq> []" "length nb \<le> B k + V k"
  shows "rep k (overwrite (off div B k * (B k + V k)) nb c) (overwrite off d p)"
proof -
  define b where "b = off div B k"
  define C where "C = B k + V k"
  define p' where "p' = overwrite off d p"
  define c' where "c' = overwrite (b * C) nb c"
  note pos = B_pos [OF k] and lenc = rep_length [OF r]
  have off: "off = b * B k + off mod B k" unfolding b_def by (rule div_mult_mod_eq [symmetric])
  have bb: "b * B k \<le> off" "off + length d \<le> (b + 1) * B k" using off d(2) by simp_all
  have lp': "length p' = max (length p) (off + length d)" using d(1) by (simp add: p'_def)
  have nbl: "length nb = min (B k) (length p' - b * B k) + V k"
    using dec_length [OF k new len] by (simp add: pblk_def b_def p'_def)
  have other: "pblk k i p' = pblk k i p" if "i \<noteq> b" "(i + 1) * B k \<le> length p \<or> b < i" for i
  proof -
    have "(i + 1) * B k \<le> off \<or> off + length d \<le> i * B k"
      using that(1) bb mult_le_mono1 [of "i + 1" b "B k"] mult_le_mono1 [of "b + 1" i "B k"]
      by (cases "i < b") linarith+
    moreover have "(i + 1) * B k \<le> length p \<or> length p \<le> i * B k \<and> off + length d \<le> i * B k
        \<or> off \<le> length p"
      using that bb mult_le_mono1 [of "b + 1" i "B k"] by linarith
    ultimately show ?thesis
      unfolding pblk_def p'_def using range_of_overwrite_disjoint [of "i * B k" "B k" off d p]
      by (simp add: add.commute)
  qed
  show ?thesis
  proof (cases "(b + 1) * B k \<le> length p")
    case True
    \<comment> \<open>the block lies wholly inside the plaintext: lengths stay as they are\<close>
    have same: "length p' = length p" using lp' bb True by simp
    have nbC: "length nb = C" using nbl True by (simp add: same C_def min_def)
    have fit: "(b + 1) * C \<le> length c"
      using full_block_le [OF pos True, of "V k"] lenc by (simp add: C_def)
    have lc': "length c' = length c" using fit len(1) nbC by (simp add: c'_def)
    have "dec k i (cblk k i c') = Some (pblk k i p')" for i
    proof (cases "i = b")
      case True
      then have "cblk k i c' = nb"
        using range_of_overwrite_same [OF len(1), of "b * C" c] nbC
        by (simp add: cblk_def c'_def flip: C_def)
      with new True show ?thesis by (simp add: b_def p'_def)
    next
      case False
      then have "(i + 1) * C \<le> b * C \<or> (b + 1) * C \<le> i * C"
        using mult_le_mono1 [of "i + 1" b C] mult_le_mono1 [of "b + 1" i C] by linarith
      then have "cblk k i c' = cblk k i c"
        using range_of_overwrite_disjoint [of "i * C" C "b * C" nb c] nbC fit
        by (simp add: cblk_def c'_def add.commute flip: C_def)
      moreover have "pblk k i p' = pblk k i p"
        using False \<open>(b + 1) * B k \<le> length p\<close> mult_le_mono1 [of "i + 1" b "B k"]
        by (intro other) (auto, linarith?)
      ultimately show ?thesis using rep_block [OF r, of i] by simp
    qed
    then show ?thesis
      unfolding rep_def using lc' lenc same by (simp add: c'_def p'_def b_def C_def)
  next
    case False
    \<comment> \<open>the block becomes the last one\<close>
    have "0 < length d" using d(1) by simp
    then have L: "b * B k < length p'" "length p' \<le> (b + 1) * B k"
      using lp' bb False by linarith+
    have bl: "body_len (B k) (V k) (length p') = b * C + length nb"
    proof -
      define s where "s = length p' - b * B k"
      have s: "length p' = b * B k + s" using L(1) by (simp add: s_def)
      have s1: "0 < s" "s \<le> B k" using L unfolding s by simp_all
      have s2: "length nb = s + V k" using nbl s1 unfolding s by simp
      show ?thesis
        unfolding s s2 C_def body_len_last [OF s1, of "V k" b] by simp
    qed
    have lc': "length c' = b * C + length nb"
      using body_len_mono [OF pos, of "length p" "length p'" "V k"] lenc lp' len(1) bl
      by (simp add: c'_def max_def)
    have "dec k i (cblk k i c') = Some (pblk k i p')" for i
    proof -
      consider "i = b" | "b < i" | "i < b" "(i + 1) * B k \<le> length p"
        | "i < b" "length p < (i + 1) * B k" by linarith
      then show ?thesis
      proof cases
        case 1
        have "cblk k i c' = range_of (b * C) (length nb) c'"
          unfolding cblk_def 1 C_def [symmetric]
          by (rule range_of_clip) (use lc' len(2) in \<open>simp_all add: C_def\<close>)
        then have "cblk k i c' = nb"
          using range_of_overwrite_same [OF len(1)] by (simp add: c'_def)
        with new 1 show ?thesis by (simp add: b_def p'_def)
      next
        case 2
        have "length c' \<le> (b + 1) * C" using lc' len(2) by (simp add: C_def)
        then have "length c' \<le> i * C" "length p' \<le> i * B k"
          using 2 L mult_le_mono1 [of "b + 1" i C] mult_le_mono1 [of "b + 1" i "B k"] by linarith+
        then show ?thesis using dec_empty [OF k] by (simp add: cblk_def pblk_def C_def)
      next
        case 3
        have "(i + 1) * C \<le> length c" "(i + 1) * C \<le> b * C"
          using full_block_le [OF pos 3(2), of "V k"] lenc mult_le_mono1 [of "i + 1" b C] 3(1)
          by (simp_all add: C_def)
        then have "cblk k i c' = cblk k i c"
          using range_of_overwrite_disjoint [of "i * C" C "b * C" nb c]
          by (simp add: cblk_def c'_def add.commute flip: C_def)
        then show ?thesis using rep_block [OF r, of i] other [of i] 3 by simp
      next
        case 4
        \<comment> \<open>a hole between the old end, which is aligned, and the new block\<close>
        have m: "length p div B k \<le> i"
          using 4(2) pos by (metis div_less_iff_less_mult less_Suc_eq_le Suc_eq_plus1)
        then have "length p mod B k = 0" using gap 4(1) by (auto simp: no_gap_def b_def)
        then have lp: "length p = length p div B k * B k" by auto
        then have "length c = length p div B k * C"
          using lenc body_len_aligned [OF pos, of "V k" "length p div B k"] by (simp add: C_def)
        then have "length c \<le> i * C" "length p \<le> i * B k"
          using m lp mult_le_mono1 [OF m, of C] mult_le_mono1 [OF m, of "B k"] by linarith+
        moreover have "(i + 1) * C \<le> b * C" "(i + 1) * B k \<le> b * B k"
          using mult_le_mono1 [of "i + 1" b] 4(1) by simp_all
        ultimately have "cblk k i c' = zeros C" "pblk k i p' = zeros (B k)"
          using len(1) d(1) bb(1)
          by (simp_all add: cblk_def pblk_def c'_def p'_def range_of_overwrite_gap flip: C_def)
        then show ?thesis using dec_hole [OF k] by (simp add: C_def)
      qed
    qed
    then show ?thesis
      unfolding rep_def using lc' bl by (simp add: c'_def p'_def b_def C_def)
  qed
qed

text \<open>
  Writing a range: the ciphertext blocks of every block the range touches, each decoding
  to the block of the final plaintext, written in one go.
\<close>

lemma rep_write:
  assumes "ok k" "rep k c p" "d \<noteq> []" "no_gap k off p"
    and "length cs = nblocks (B k) off (length d)"
    and "\<And>j. j < length cs \<Longrightarrow>
      dec k (off div B k + j) (cs ! j) = Some (pblk k (off div B k + j) (overwrite off d p)) \<and>
      cs ! j \<noteq> [] \<and> length (cs ! j) \<le> B k + V k"
  shows "rep k (overwrite (off div B k * (B k + V k)) (concat cs) c) (overwrite off d p)"
  using B_pos [OF assms(1)] assms(2-)
proof (induction off "length d" arbitrary: c p d cs rule: explode_induct)
  case (last off)
  have "nblocks (B k) off (length d) = 1"
    using last.hyps B_pos [OF assms(1)] by (simp add: explode_last flip: length_explode)
  then obtain c0 where cs: "cs = [c0]" using last.prems(4) by (auto simp: length_Suc_conv)
  have "off mod B k < B k" using B_pos [OF assms(1)] by simp
  then have "off mod B k + length d \<le> B k" using last.hyps(2) by linarith
  with last.prems(5) [of 0] show ?case
    using rep_write_block [OF assms(1) last.prems(1,2) _ last.prems(3)] by (simp add: cs)
next
  case (step off)
  note pos = B_pos [OF assms(1)]
  define b l where "b = off div B k" and "l = B k - off mod B k"
  define p' where "p' = overwrite off d p"
  have l: "off + l = (b + 1) * B k" "0 < l" "l < length d" "off mod B k + l = B k"
    using next_block [OF pos, of off] pos step.hyps(1) by (simp_all add: b_def l_def)
  define p1 where "p1 = overwrite off (take l d) p"
  have ne: "take l d \<noteq> []" "drop l d \<noteq> []" using l by auto
  have p': "p' = overwrite (off + l) (drop l d) p1"
    using overwrite_append [OF ne, of off p] l by (simp add: p'_def p1_def)
  have lp1: "(b + 1) * B k \<le> length p1" using ne l by (simp add: p1_def)
  have n: "nblocks (B k) off (length d) = Suc (nblocks (B k) ((b + 1) * B k) (length d - l))"
    using explode_step [OF pos step.hyps(1)] pos by (simp add: b_def l_def flip: length_explode)
  then obtain c0 cs' where cs: "cs = c0 # cs'"
    and ncs: "length cs' = nblocks (B k) ((b + 1) * B k) (length (drop l d))"
    using step.prems(4) by (cases cs) auto
  have c0: "dec k b c0 = Some (pblk k b p')" "c0 \<noteq> []" "length c0 \<le> B k + V k"
    using step.prems(5) [of 0] by (simp_all add: cs b_def p'_def)
  have same: "pblk k b p1 = pblk k b p'"
    unfolding pblk_def p'
    by (rule range_of_overwrite_disjoint [symmetric]) (use l lp1 in \<open>simp_all add: add.commute\<close>)
  have "length (pblk k b p1) = B k" using lp1 by (simp add: pblk_def)
  then have lc0: "length c0 = B k + V k" using dec_length [OF assms(1) c0(1) c0(2,3)] same by simp
  have r1: "rep k (overwrite (b * (B k + V k)) c0 c) p1"
    using rep_write_block [OF assms(1) step.prems(1) ne(1) _ step.prems(3), of c0] c0 same l
    by (simp add: b_def p1_def)
  have b1: "(b + 1) * B k div B k = b + 1" using pos by simp
  then have b2: "(off + l) div B k = Suc b" unfolding l(1) by simp
  have gap: "no_gap k ((b + 1) * B k) p1"
    using div_le_mono [OF lp1, of "B k"] pos unfolding no_gap_def by simp
  have blocks: "dec k (b + 1 + j) (cs' ! j) = Some (pblk k (b + 1 + j) p') \<and>
      cs' ! j \<noteq> [] \<and> length (cs' ! j) \<le> B k + V k" if "j < length cs'" for j
    using step.prems(5) [of "Suc j"] that by (simp add: cs b_def p'_def)
  have "length (drop l d) = length d - (B k - off mod B k)" by (simp add: l_def)
  then have r2: "rep k (overwrite ((b + 1) * (B k + V k)) (concat cs')
        (overwrite (b * (B k + V k)) c0 c)) p'"
    using step.hyps(2) [of "drop l d", OF _ r1 ne(2), folded b_def] gap ncs blocks
    unfolding b1 l(1) [symmetric] p'[symmetric] by (simp add: p' b2 flip: l(1))
  have "concat cs' \<noteq> []"
  proof -
    have "0 < length cs'" unfolding ncs using ne(2) by (intro nblocks_pos) simp
    then show ?thesis using blocks [of 0] by (cases cs') auto
  qed
  then have "overwrite (b * (B k + V k)) (concat cs) c
      = overwrite ((b + 1) * (B k + V k)) (concat cs') (overwrite (b * (B k + V k)) c0 c)"
    using overwrite_append [OF c0(2)] lc0 by (simp add: cs add.commute)
  with r2 show ?case by (simp add: b_def p'_def)
qed simp

end

end
