(* ===== verification/FileHeader.thy ===== *)
theory FileHeader
  imports Randomness
begin

text \<open>
  The 18-byte header of a non-empty encrypted file
  (\<^verbatim>\<open>internal/contentenc/file_header.go\<close>): a big-endian version and a random file ID.
\<close>

definition CurrentVersion :: "16 word" where "CurrentVersion = 2"
definition headerVersionLen :: nat where "headerVersionLen = 2"
definition headerIDLen :: nat where "headerIDLen = 16"

record fileHeader =
  Version :: "16 word"
  ID :: bytes

definition allZeroFileID :: bytes where "allZeroFileID = zeros headerIDLen"
definition allZeroHeader :: bytes where "allZeroHeader = zeros (headerVersionLen + headerIDLen)"

definition Pack :: "fileHeader \<Rightarrow> bytes go" where
  "Pack h =
     (if length (ID h) \<noteq> headerIDLen \<or> Version h \<noteq> CurrentVersion then Panic LogPanic
      else Ret (put_uint16_be (Version h) @ ID h))"

definition ParseHeader :: "bytes \<Rightarrow> err + fileHeader" where
  "ParseHeader buf =
     (if length buf \<noteq> headerVersionLen + headerIDLen then Inl (ErrMsg ''ParseHeader: invalid length'')
      else if buf = allZeroHeader then Inl (ErrMsg ''ParseHeader: header is all-zero'')
      else let v = get_uint16_be (take headerVersionLen buf)
        in if v \<noteq> CurrentVersion then Inl (ErrMsg ''ParseHeader: invalid version'')
        else let i = drop headerVersionLen buf
          in if i = allZeroFileID then Inl (ErrMsg ''ParseHeader: file id is all-zero'')
             else Inr \<lparr>Version = v, ID = i\<rparr>)"

definition RandomHeader :: "rng \<Rightarrow> fileHeader \<times> rng" where
  "RandomHeader r = (let (i, r') = RandBytes headerIDLen r
     in (\<lparr>Version = CurrentVersion, ID = i\<rparr>, r'))"

lemmas header_lens = headerVersionLen_def headerIDLen_def

text \<open>A header that \<open>Pack\<close> accepts and that is not all zero.\<close>

definition header_ok :: "fileHeader \<Rightarrow> bool" where
  "header_ok h \<longleftrightarrow> Version h = CurrentVersion \<and> length (ID h) = headerIDLen \<and> ID h \<noteq> allZeroFileID"

lemma put_get_uint16:
  assumes "length b = 2"
  shows "put_uint16_be (get_uint16_be b) = b"
proof -
  from assms obtain x y where b: "b = [x, y]"
    by (auto simp: numeral_2_eq_2 length_Suc_conv)
  have "ucast (drop_bit 8 (push_bit 8 (ucast x) OR ucast y :: 16 word)) = x"
    by (rule bit_word_eqI) (auto simp: bit_simps dest: bit_imp_le_length)
  moreover have "ucast (push_bit 8 (ucast x) OR ucast y :: 16 word) = y"
    by (rule bit_word_eqI) (auto simp: bit_simps)
  ultimately show ?thesis by (simp add: b put_uint16_be_def get_uint16_be_def)
qed

lemma Pack_RandomHeader:
  assumes "RandomHeader r = (h, r')"
  shows "\<exists>b. Pack h = Ret b \<and> length b = 18" "Version h = CurrentVersion" "length (ID h) = headerIDLen"
    "r' = snd (RandBytes headerIDLen r)"
  using assms by (auto simp: RandomHeader_def Pack_def header_lens split: prod.splits)
     (metis RandBytes_simps(1) fst_conv)+

lemma ParseHeader_Pack:
  assumes "Pack h = Ret b"
  shows "ParseHeader b = (if ID h = allZeroFileID
      then Inl (ErrMsg ''ParseHeader: file id is all-zero'') else Inr h)"
proof -
  from assms have l: "length (ID h) = 16" and v: "Version h = CurrentVersion"
    and b: "b = put_uint16_be CurrentVersion @ ID h"
    by (auto simp: Pack_def header_lens split: if_splits)
  have two: "put_uint16_be CurrentVersion = [0, 2]"
    by (simp add: put_uint16_be_def CurrentVersion_def)
  have z: "zeros 18 = 0 # 0 # zeros 16" by (simp add: numeral_eq_Suc)
  have "b \<noteq> allZeroHeader" by (simp add: b two allZeroHeader_def header_lens z)
  moreover have "get_uint16_be (take 2 b) = CurrentVersion"
    using get_put_uint16 [of CurrentVersion "[]"] by (simp add: b)
  ultimately show ?thesis
    using l v by (simp add: ParseHeader_def header_lens b)
qed

lemma ParseHeader_iff:
  "ParseHeader b = Inr h \<longleftrightarrow> header_ok h \<and> Pack h = Ret b"
proof
  assume p: "ParseHeader b = Inr h"
  then have l: "length b = 18" and v: "get_uint16_be (take 2 b) = CurrentVersion"
    and i: "drop 2 b \<noteq> allZeroFileID" and h: "h = \<lparr>Version = CurrentVersion, ID = drop 2 b\<rparr>"
    by (auto simp: ParseHeader_def Let_def header_lens split: if_splits)
  have "put_uint16_be CurrentVersion = take 2 b"
    using put_get_uint16 [of "take 2 b"] l v by simp
  then show "header_ok h \<and> Pack h = Ret b"
    using l i h by (simp add: header_ok_def Pack_def header_lens)
next
  assume "header_ok h \<and> Pack h = Ret b"
  then show "ParseHeader b = Inr h"
    using ParseHeader_Pack [of h b] by (simp add: header_ok_def)
qed

end
