(* ===== verification/ContentEnc.thy ===== *)
theory ContentEnc
  imports BlockFile FileHeader
begin

text \<open>
  Encryption of file content (\<^verbatim>\<open>internal/contentenc/content.go\<close>, \<^verbatim>\<open>bpool.go\<close>):
  blocks with their nonce, tag and associated data, runs of blocks, the parallel encryption
  of large writes, and the merging of partial writes.

  A pooled slice is its content; its capacity is the pool's slice length until an append
  outgrows it, and returning an outgrown slice to its pool panics.
\<close>

section \<open>Byte pools\<close>

text \<open>The capacity of a pooled slice of capacity \<open>n\<close> after it was filled with \<open>len\<close> bytes.\<close>

definition grown :: "nat \<Rightarrow> nat \<Rightarrow> nat" where
  "grown n len = (if len \<le> n then n else len)"

definition bPool_Put :: "nat \<Rightarrow> nat \<Rightarrow> unit go" where
  "bPool_Put sliceLen capacity = (if capacity \<noteq> sliceLen then Panic LogPanic else Ret ())"

lemma bPool_Put_grown [simp]:
  "len \<le> n \<Longrightarrow> bPool_Put n (grown n len) = Ret ()"
  by (simp add: bPool_Put_def grown_def)

section \<open>One block\<close>

text \<open>A nil file ID is \<open>None\<close>.\<close>

definition concatAD :: "uint64 \<Rightarrow> bytes option \<Rightarrow> bytes go" where
  "concatAD blockNo fileID =
     (case fileID of
        None \<Rightarrow> Ret (put_uint64_be blockNo)
      | Some i \<Rightarrow> if length i \<noteq> headerIDLen then Panic LogPanic
          else Ret (put_uint64_be blockNo @ i))"

definition DecryptBlock ::
  "prims \<Rightarrow> contentEnc \<Rightarrow> bytes \<Rightarrow> uint64 \<Rightarrow> bytes option \<Rightarrow> (err + bytes) go" where
  "DecryptBlock P be ciphertext blockNo fileID =
     (let cc = cryptoCore be
      in if length ciphertext = 0 then Ret (Inr ciphertext)
         else if ciphertext = allZeroBlock be then Ret (Inr (zeros (unat (plainBS be))))
         else if length ciphertext < IVLen cc then Ret (Inl (ErrMsg ''block is too short''))
         else let nonce = take (IVLen cc) ciphertext
           in if nonce = allZeroNonce be then Ret (Inl (ErrMsg ''all-zero nonce''))
              else go_bind (concatAD blockNo fileID) (\<lambda>aData.
                cc_Open P cc [] nonce (drop (IVLen cc) ciphertext) aData))"

definition doEncryptBlock ::
  "prims \<Rightarrow> contentEnc \<Rightarrow> bytes \<Rightarrow> uint64 \<Rightarrow> bytes option \<Rightarrow> bytes \<Rightarrow> bytes go" where
  "doEncryptBlock P be plaintext blockNo fileID nonce =
     (let cc = cryptoCore be
      in if length plaintext = 0 then Ret plaintext
         else if length nonce \<noteq> IVLen cc then Panic LogPanic
         else go_bind (concatAD blockNo fileID) (\<lambda>aData.
           go_bind (cc_Seal P cc nonce nonce plaintext aData) (\<lambda>ciphertext.
           if length plaintext + unat (BlockOverhead be) \<noteq> length ciphertext
           then Panic LogPanic else Ret ciphertext)))"

definition EncryptBlock ::
  "prims \<Rightarrow> contentEnc \<Rightarrow> bytes \<Rightarrow> uint64 \<Rightarrow> bytes option \<Rightarrow> rng \<Rightarrow> (bytes \<times> rng) go" where
  "EncryptBlock P be plaintext blockNo fileID r =
     go_bind (nonce_Get (nonceLen (cryptoCore be)) r) (\<lambda>(nonce, r').
     go_bind (doEncryptBlock P be plaintext blockNo fileID nonce) (\<lambda>c. Ret (c, r')))"

definition EncryptBlockNonce ::
  "prims \<Rightarrow> contentEnc \<Rightarrow> bytes \<Rightarrow> uint64 \<Rightarrow> bytes option \<Rightarrow> bytes \<Rightarrow> bytes go" where
  "EncryptBlockNonce P be plaintext blockNo fileID nonce =
     (if AEADBackend (cryptoCore be) \<noteq> BackendAESSIV then Panic LogPanic
      else doEncryptBlock P be plaintext blockNo fileID nonce)"

section \<open>Runs of blocks\<close>

text \<open>
  The loop of \<open>DecryptBlocks\<close>: block by block until the input is used up or a block fails,
  with the plaintext so far in \<open>pBuf\<close>. The result is that plaintext and the error, if any.
  With a zero block size \<open>Next\<close> would make no progress.
\<close>

function DecryptBlocks_loop ::
  "prims \<Rightarrow> contentEnc \<Rightarrow> bytes \<Rightarrow> uint64 \<Rightarrow> bytes option \<Rightarrow> bytes \<Rightarrow> (bytes \<times> err option) go" where
  "DecryptBlocks_loop P be cBuf blockNo fileID pBuf =
     (if cBuf = [] then Ret (pBuf, None)
      else if cipherBS be = 0 then Hang
      else case DecryptBlock P be (take (unat (cipherBS be)) cBuf) blockNo fileID of
          Panic p \<Rightarrow> Panic p
        | Hang \<Rightarrow> Hang
        | Ret (Inl e) \<Rightarrow> Ret (pBuf, Some e)
        | Ret (Inr pBlock) \<Rightarrow>
            go_bind (bPool_Put (pBlockPool be) (grown (pBlockPool be) (length pBlock))) (\<lambda>_.
            DecryptBlocks_loop P be (drop (unat (cipherBS be)) cBuf) (blockNo + 1) fileID
              (pBuf @ pBlock)))"
  by pat_completeness auto
termination
  by (relation "measure (\<lambda>(P, be, cBuf, blockNo, fileID, pBuf). length cBuf)")
     (auto simp: unat_gt_0)

declare DecryptBlocks_loop.simps [simp del]

definition DecryptBlocks ::
  "prims \<Rightarrow> contentEnc \<Rightarrow> bytes \<Rightarrow> uint64 \<Rightarrow> bytes option \<Rightarrow> (bytes \<times> err option) go" where
  "DecryptBlocks P be ciphertext firstBlockNo fileID =
     DecryptBlocks_loop P be ciphertext firstBlockNo fileID []"

fun doEncryptBlocks ::
  "prims \<Rightarrow> contentEnc \<Rightarrow> bytes list \<Rightarrow> uint64 \<Rightarrow> bytes option \<Rightarrow> rng \<Rightarrow> (bytes list \<times> rng) go" where
  "doEncryptBlocks P be [] firstBlockNo fileID r = Ret ([], r)"
| "doEncryptBlocks P be (v # vs) firstBlockNo fileID r =
     go_bind (EncryptBlock P be v firstBlockNo fileID r) (\<lambda>(c, r').
     go_bind (doEncryptBlocks P be vs (firstBlockNo + 1) fileID r') (\<lambda>(cs, r'').
     Ret (c # cs, r'')))"

text \<open>
  The two goroutines of \<open>encryptBlocksParallel\<close>. Each encrypts its own blocks in order;
  they share the nonce generator, which is locked, so an execution is an interleaving of
  whole \<open>EncryptBlock\<close> calls. \<open>False\<close> schedules the first goroutine, \<open>True\<close> the second;
  when the schedule is used up they finish one after the other.
\<close>

fun interleave ::
  "prims \<Rightarrow> contentEnc \<Rightarrow> bytes option \<Rightarrow> bool list \<Rightarrow> bytes list \<Rightarrow> uint64 \<Rightarrow> bytes list \<Rightarrow> uint64
   \<Rightarrow> rng \<Rightarrow> (bytes list \<times> bytes list \<times> rng) go" where
  "interleave P be fileID (False # s) (x # xs) m ys n r =
     go_bind (EncryptBlock P be x m fileID r) (\<lambda>(c, r1).
     go_bind (interleave P be fileID s xs (m + 1) ys n r1) (\<lambda>(cs, ds, r2). Ret (c # cs, ds, r2)))"
| "interleave P be fileID (True # s) xs m (y # ys) n r =
     go_bind (EncryptBlock P be y n fileID r) (\<lambda>(d, r1).
     go_bind (interleave P be fileID s xs m ys (n + 1) r1) (\<lambda>(cs, ds, r2). Ret (cs, d # ds, r2)))"
| "interleave P be fileID (False # s) [] m ys n r = interleave P be fileID s [] m ys n r"
| "interleave P be fileID (True # s) xs m [] n r = interleave P be fileID s xs m [] n r"
| "interleave P be fileID [] xs m ys n r =
     go_bind (doEncryptBlocks P be xs m fileID r) (\<lambda>(cs, r1).
     go_bind (doEncryptBlocks P be ys n fileID r1) (\<lambda>(ds, r2). Ret (cs, ds, r2)))"

definition encryptMaxSplit :: nat where "encryptMaxSplit = 2"

definition encryptBlocksParallel ::
  "prims \<Rightarrow> contentEnc \<Rightarrow> bytes list \<Rightarrow> uint64 \<Rightarrow> bytes option \<Rightarrow> rng \<Rightarrow> (bytes list \<times> rng) go" where
  "encryptBlocksParallel P be plaintextBlocks firstBlockNo fileID r =
     (let ncpu = min (num_cpu P) encryptMaxSplit
      in if ncpu = 0 then Panic DivByZero
         else if ncpu = 1 then doEncryptBlocks P be plaintextBlocks firstBlockNo fileID r
         else let low = length plaintextBlocks div ncpu
           in go_bind (interleave P be fileID (schedule P (pos r))
                  (take low plaintextBlocks) firstBlockNo
                  (drop low plaintextBlocks) (firstBlockNo + of_nat low) r) (\<lambda>(cs, ds, r').
              Ret (cs @ ds, r')))"

text \<open>
  Returning the block slices to their pool: the slice of an empty block is not a pooled
  one.
\<close>

fun put_blocks :: "contentEnc \<Rightarrow> bytes list \<Rightarrow> unit go" where
  "put_blocks be [] = Ret ()"
| "put_blocks be (v # vs) =
     go_bind (bPool_Put (cBlockPool be) (if v = [] then 0 else grown (cBlockPool be) (length v)))
       (\<lambda>_. put_blocks be vs)"

definition EncryptBlocks ::
  "prims \<Rightarrow> contentEnc \<Rightarrow> bytes list \<Rightarrow> uint64 \<Rightarrow> bytes option \<Rightarrow> rng \<Rightarrow> (bytes \<times> rng) go" where
  "EncryptBlocks P be plaintextBlocks firstBlockNo fileID r =
     go_bind (if 32 \<le> length plaintextBlocks \<and> 2 \<le> num_cpu P
              then encryptBlocksParallel P be plaintextBlocks firstBlockNo fileID r
              else doEncryptBlocks P be plaintextBlocks firstBlockNo fileID r)
       (\<lambda>(ciphertextBlocks, r').
     go_bind (put_blocks be ciphertextBlocks) (\<lambda>_. Ret (concat ciphertextBlocks, r')))"

definition MergeBlocks :: "contentEnc \<Rightarrow> bytes \<Rightarrow> bytes \<Rightarrow> int \<Rightarrow> bytes go" where
  "MergeBlocks be oldData newData offset =
     (if length oldData = 0 \<and> offset = 0 then Ret newData
      else let n = unat (plainBS be);
               out1 = resize n oldData;
               l = int (length newData)
        in if \<not> (0 \<le> offset \<and> offset + l \<le> int n) then Panic OutOfRange
           else let out2 = overwrite (nat offset) newData out1;
                    outLen = max (int (length oldData)) (offset + l)
             in go_slice out2 0 outLen)"

definition ContentEnc_Wipe :: "contentEnc \<Rightarrow> (aead option \<times> cryptocore) go" where
  "ContentEnc_Wipe be = cryptocore_Wipe (cryptoCore be)"

section \<open>Encrypted blocks decrypt\<close>

definition id_ok :: "bytes option \<Rightarrow> bool" where
  "id_ok fileID \<longleftrightarrow> (case fileID of None \<Rightarrow> True | Some i \<Rightarrow> length i = headerIDLen)"

text \<open>Primitives, object and file ID that the block operations can work with.\<close>

definition codec_ok :: "prims \<times> contentEnc \<times> bytes option \<Rightarrow> bool" where
  "codec_ok k = (case k of (P, be, fileID) \<Rightarrow> prims_ok P \<and> be_ok be \<and> id_ok fileID)"

lemma codec_core: "codec_ok (P, be, i) \<Longrightarrow> core_ok (P, cryptoCore be)"
  by (simp add: codec_ok_def core_ok_def be_ok_def)

lemma concatAD_ok:
  assumes "id_ok i"
  obtains ad where "concatAD b i = Ret ad" "ad \<noteq> []"
proof -
  have "put_uint64_be b \<noteq> []" by (metis length_put_uint64_be list.size(3) zero_neq_numeral)
  then show thesis
    using assms that by (cases i) (auto simp: concatAD_def id_ok_def)
qed

lemma doEncryptBlock_spec:
  assumes k: "codec_ok (P, be, i)" and p: "p \<noteq> []" "length p \<le> BS be"
    and n: "length n = IVLen (cryptoCore be)" "n \<noteq> zeros (IVLen (cryptoCore be))"
  shows "\<exists>c. doEncryptBlock P be p b i n = Ret c \<and> length c = length p + OH be \<and>
     take (IVLen (cryptoCore be)) c = n \<and> DecryptBlock P be c b i = Ret (Inr p)"
proof -
  from k have be: "be_ok be" and i: "id_ok i" by (simp_all add: codec_ok_def)
  note B = be_okD [OF be]
  obtain ad where ad: "concatAD b i = Ret ad" "ad \<noteq> []" using concatAD_ok [OF i] .
  have small: "length p + 16 \<le> 2 ^ 37" using p(2) B(5) by simp
  obtain c where c: "cc_Seal P (cryptoCore be) n n p ad = Ret (n @ c)" "length c = length p + 16"
    "cc_Open P (cryptoCore be) [] n c ad = Ret (Inr ([] @ p))"
    using core.open_seal [OF codec_core [OF k], of n ad p n "[]"] n(1) ad(2) small by auto
  have "n @ c \<noteq> allZeroBlock be"
  proof
    assume "n @ c = allZeroBlock be"
    then have "take (IVLen (cryptoCore be)) (n @ c) = take (IVLen (cryptoCore be)) (zeros (CS be))"
      using B(10) by simp
    then show False using n by (simp add: min_def)
  qed
  then have "DecryptBlock P be (n @ c) b i = Ret (Inr p)"
    using n c ad B(11) p by (simp add: DecryptBlock_def)
  moreover have "doEncryptBlock P be p b i n = Ret (n @ c)"
    using p n c ad B(9) by (simp add: doEncryptBlock_def)
  ultimately show ?thesis using n c by (intro exI [of _ "n @ c"]) simp
qed

text \<open>Decryption of a block always returns, and takes the overhead off.\<close>

lemma DecryptBlock_returns:
  assumes k: "codec_ok (P, be, i)" and c: "length c \<le> 2 ^ 37"
  shows "\<exists>r. DecryptBlock P be c b i = Ret r"
proof -
  from k have i: "id_ok i" by (simp add: codec_ok_def)
  obtain ad where ad: "concatAD b i = Ret ad" "ad \<noteq> []" using concatAD_ok [OF i] .
  let ?n = "IVLen (cryptoCore be)"
  have "\<exists>r. cc_Open P (cryptoCore be) [] (take ?n c) (drop ?n c) ad = Ret r" if "?n \<le> length c"
  proof -
    have "length (drop ?n c) \<le> 2 ^ 37" using c unfolding length_drop by linarith
    moreover have "length (take ?n c) = ?n" using that by simp
    ultimately show ?thesis
      using core.open_returns [OF codec_core [OF k], of "take ?n c" ad "drop ?n c" "[]"] ad(2)
      by (simp only: fst_conv snd_conv) blast
  qed
  then show ?thesis using ad by (auto simp: DecryptBlock_def Let_def not_less)
qed

lemma DecryptBlock_length:
  assumes k: "codec_ok (P, be, i)" and c: "c \<noteq> []" "length c \<le> CS be"
    and d: "DecryptBlock P be c b i = Ret (Inr p)"
  shows "length p + OH be = length c"
proof (cases "c = allZeroBlock be")
  case True
  from k have be: "be_ok be" by (simp add: codec_ok_def)
  have "p = zeros (BS be)" using True c(1) d by (simp add: DecryptBlock_def)
  with True be_okD(10) [OF be] show ?thesis by simp
next
  case False
  from k have be: "be_ok be" and i: "id_ok i" by (simp_all add: codec_ok_def)
  obtain ad where ad: "concatAD b i = Ret ad" "ad \<noteq> []" using concatAD_ok [OF i] .
  let ?n = "IVLen (cryptoCore be)"
  have n: "?n \<le> length c" and o: "cc_Open P (cryptoCore be) [] (take ?n c) (drop ?n c) ad = Ret (Inr p)"
    using d c False ad by (auto simp: DecryptBlock_def Let_def split: if_splits)
  have "length (drop ?n c) \<le> 2 ^ 37" using c(2) be_okD(18) [OF be] by simp
  then have "length p + 16 = length (drop ?n c)"
    using core.open_length [OF codec_core [OF k], of "take ?n c" ad "drop ?n c" "[]" p] n o ad(2)
    by simp
  with n show ?thesis by simp
qed

section \<open>The block codec of a file\<close>

definition file_dec :: "prims \<times> contentEnc \<times> bytes option \<Rightarrow> nat \<Rightarrow> bytes \<Rightarrow> bytes option" where
  "file_dec k i c = (case k of (P, be, fileID) \<Rightarrow>
     (case DecryptBlock P be c (of_nat i) fileID of Ret (Inr p) \<Rightarrow> Some p | _ \<Rightarrow> None))"

lemma file_dec_Some:
  "file_dec (P, be, i) b c = Some p \<longleftrightarrow> DecryptBlock P be c (of_nat b) i = Ret (Inr p)"
  by (auto simp: file_dec_def split: go.splits sum.splits)

interpretation fb: block_codec
  codec_ok "\<lambda>(P, be, i). BS be" "\<lambda>(P, be, i). OH be" file_dec
proof (unfold_locales, goal_cases)
  case (1 k)
  then show ?case by (auto simp: codec_ok_def dest: be_okD(3) split: prod.splits)
next
  case (2 k)
  then show ?case by (auto split: prod.splits)
next
  case (3 k i)
  then show ?case by (cases k) (simp add: file_dec_Some DecryptBlock_def)
next
  case (4 k i)
  obtain P be f where k: "k = (P, be, f)" by (cases k)
  then have be: "be_ok be" using 4 by (simp add: codec_ok_def)
  then show ?case
    using be_okD(3,10) [OF be] by (simp add: k file_dec_Some DecryptBlock_def)
next
  case (5 k i c p)
  then show ?case by (cases k) (auto simp: file_dec_Some dest: DecryptBlock_length)
qed

section \<open>Encrypting runs of blocks\<close>

text \<open>
  Ciphertext blocks \<open>cs\<close> for the plaintext blocks \<open>vs\<close> from block number \<open>b\<close> on: each
  decrypts, under its own block number, to its plaintext.
\<close>

definition sealed ::
  "prims \<times> contentEnc \<times> bytes option \<Rightarrow> uint64 \<Rightarrow> bytes list \<Rightarrow> bytes list \<Rightarrow> bool" where
  "sealed k b vs cs = (case k of (P, be, i) \<Rightarrow>
     length cs = length vs \<and>
     (\<forall>j < length vs. length (cs ! j) = length (vs ! j) + OH be \<and>
        DecryptBlock P be (cs ! j) (b + of_nat j) i = Ret (Inr (vs ! j))))"

definition blocks_ok :: "contentEnc \<Rightarrow> bytes list \<Rightarrow> bool" where
  "blocks_ok be vs \<longleftrightarrow> (\<forall>v \<in> set vs. v \<noteq> [] \<and> length v \<le> BS be)"

lemma blocks_ok_simps [simp]:
  "blocks_ok be []" "blocks_ok be (v # vs) \<longleftrightarrow> v \<noteq> [] \<and> length v \<le> BS be \<and> blocks_ok be vs"
  by (auto simp: blocks_ok_def)

lemma sealed_Nil [simp]: "sealed k b [] cs \<longleftrightarrow> cs = []"
  by (auto simp: sealed_def split: prod.splits)

lemma sealed_Cons:
  assumes "length c = length v + OH be" "DecryptBlock P be c b i = Ret (Inr v)"
    "sealed (P, be, i) (b + 1) vs cs"
  shows "sealed (P, be, i) b (v # vs) (c # cs)"
  using assms by (auto simp: sealed_def nth_Cons algebra_simps split: nat.splits)

lemma sealed_append:
  assumes "sealed (P, be, i) b vs cs" "sealed (P, be, i) (b + of_nat (length vs)) ws ds"
  shows "sealed (P, be, i) b (vs @ ws) (cs @ ds)"
proof -
  have "length ((cs @ ds) ! j) = length ((vs @ ws) ! j) + OH be \<and>
    DecryptBlock P be ((cs @ ds) ! j) (b + of_nat j) i = Ret (Inr ((vs @ ws) ! j))"
    if j: "j < length (vs @ ws)" for j
  proof (cases "j < length vs")
    case True
    then show ?thesis using assms(1) by (simp add: sealed_def nth_append)
  next
    case False
    define l where "l = j - length vs"
    with False have l: "j = length vs + l" by simp
    then show ?thesis
      using assms j by (simp add: sealed_def nth_append add.assoc)
  qed
  then show ?thesis using assms by (simp add: sealed_def)
qed

lemma EncryptBlock_spec:
  assumes k: "codec_ok (P, be, i)" and v: "v \<noteq> []" "length v \<le> BS be"
    and n: "nonce_Get (IVLen (cryptoCore be)) r = Ret (n, r')" "n \<noteq> zeros (IVLen (cryptoCore be))"
  shows "\<exists>c. EncryptBlock P be v b i r = Ret (c, r') \<and> length c = length v + OH be \<and>
     DecryptBlock P be c b i = Ret (Inr v)"
proof -
  from k have "nonceLen (cryptoCore be) = IVLen (cryptoCore be)"
    by (simp add: codec_ok_def be_ok_def cc_ok_def)
  moreover from doEncryptBlock_spec [OF k v nonce_Get_length [OF n(1)] n(2), of b]
  obtain c where "doEncryptBlock P be v b i n = Ret c" "length c = length v + OH be"
    "DecryptBlock P be c b i = Ret (Inr v)" by blast
  ultimately show ?thesis using n(1) by (simp add: EncryptBlock_def)
qed

lemma doEncryptBlocks_spec:
  assumes k: "codec_ok (P, be, i)" and "blocks_ok be vs"
    and "nonces_ok (IVLen (cryptoCore be)) (length vs) r"
  shows "\<exists>cs. doEncryptBlocks P be vs b i r = Ret (cs, rng_after (IVLen (cryptoCore be)) (length vs) r)
     \<and> sealed (P, be, i) b vs cs"
  using assms(2-)
proof (induction vs arbitrary: b r)
  case (Cons v vs)
  from Cons.prems(2) have "nonces_ok (IVLen (cryptoCore be)) (Suc (length vs)) r" by simp
  then obtain n r' where n: "nonce_Get (IVLen (cryptoCore be)) r = Ret (n, r')"
    "n \<noteq> zeros (IVLen (cryptoCore be))" "nonces_ok (IVLen (cryptoCore be)) (length vs) r'"
    "rng_after (IVLen (cryptoCore be)) (Suc (length vs)) r = rng_after (IVLen (cryptoCore be)) (length vs) r'"
    by (rule nonces_ok_SucD)
  from Cons.prems(1) have v: "v \<noteq> []" "length v \<le> BS be" "blocks_ok be vs" by simp_all
  from EncryptBlock_spec [OF k v(1,2) n(1,2)] obtain c where
    c: "EncryptBlock P be v b i r = Ret (c, r')" "length c = length v + OH be"
      "DecryptBlock P be c b i = Ret (Inr v)" by blast
  from Cons.IH [OF v(3) n(3)] obtain cs where
    cs: "doEncryptBlocks P be vs (b + 1) i r' = Ret (cs, rng_after (IVLen (cryptoCore be)) (length vs) r')"
      "sealed (P, be, i) (b + 1) vs cs" by blast
  show ?case using c cs n(4) sealed_Cons [OF c(2,3) cs(2)] by (intro exI [of _ "c # cs"]) simp
qed simp

text \<open>Whatever the scheduler does, both goroutines produce blocks that decrypt.\<close>

lemma interleave_spec:
  assumes k: "codec_ok (P, be, i)" and "blocks_ok be xs" "blocks_ok be ys"
    and "nonces_ok (IVLen (cryptoCore be)) (length xs + length ys) r"
  shows "\<exists>cs ds. interleave P be i s xs m ys n r
       = Ret (cs, ds, rng_after (IVLen (cryptoCore be)) (length xs + length ys) r)
     \<and> sealed (P, be, i) m xs cs \<and> sealed (P, be, i) n ys ds"
  using assms
proof (induction P be i s xs m ys n r rule: interleave.induct)
  case (1 P be i s x xs m ys n r)
  let ?n = "IVLen (cryptoCore be)"
  from "1.prems"(4) have "nonces_ok ?n (Suc (length xs + length ys)) r" by simp
  then obtain b r' where b: "nonce_Get ?n r = Ret (b, r')" "b \<noteq> zeros ?n"
    "nonces_ok ?n (length xs + length ys) r'"
    "rng_after ?n (Suc (length xs + length ys)) r = rng_after ?n (length xs + length ys) r'"
    by (rule nonces_ok_SucD)
  from "1.prems"(2) have x: "x \<noteq> []" "length x \<le> BS be" "blocks_ok be xs" by simp_all
  from EncryptBlock_spec [OF "1.prems"(1) x(1,2) b(1,2)] obtain c where
    c: "EncryptBlock P be x m i r = Ret (c, r')" "length c = length x + OH be"
      "DecryptBlock P be c m i = Ret (Inr x)" by blast
  from "1.IH" [OF "1.prems"(1) x(3) "1.prems"(3) b(3)] obtain cs ds where
    "interleave P be i s xs (m + 1) ys n r' = Ret (cs, ds, rng_after ?n (length xs + length ys) r')"
    "sealed (P, be, i) (m + 1) xs cs" "sealed (P, be, i) n ys ds" by blast
  then show ?case
    using c b(4) sealed_Cons [OF c(2,3)] by (intro exI [of _ "c # cs"] exI [of _ ds]) simp
next
  case (2 P be i s xs m y ys n r)
  let ?n = "IVLen (cryptoCore be)"
  from "2.prems"(4) have "nonces_ok ?n (Suc (length xs + length ys)) r" by simp
  then obtain b r' where b: "nonce_Get ?n r = Ret (b, r')" "b \<noteq> zeros ?n"
    "nonces_ok ?n (length xs + length ys) r'"
    "rng_after ?n (Suc (length xs + length ys)) r = rng_after ?n (length xs + length ys) r'"
    by (rule nonces_ok_SucD)
  from "2.prems"(3) have y: "y \<noteq> []" "length y \<le> BS be" "blocks_ok be ys" by simp_all
  from EncryptBlock_spec [OF "2.prems"(1) y(1,2) b(1,2)] obtain c where
    c: "EncryptBlock P be y n i r = Ret (c, r')" "length c = length y + OH be"
      "DecryptBlock P be c n i = Ret (Inr y)" by blast
  from "2.IH" [OF "2.prems"(1,2) y(3) b(3)] obtain cs ds where
    "interleave P be i s xs m ys (n + 1) r' = Ret (cs, ds, rng_after ?n (length xs + length ys) r')"
    "sealed (P, be, i) m xs cs" "sealed (P, be, i) (n + 1) ys ds" by blast
  then show ?case
    using c b(4) sealed_Cons [OF c(2,3)] by (intro exI [of _ cs] exI [of _ "c # ds"]) simp
next
  case (5 P be i xs m ys n r)
  let ?n = "IVLen (cryptoCore be)"
  have r: "nonces_ok ?n (length xs) r" "nonces_ok ?n (length ys) (rng_after ?n (length xs) r)"
    using "5.prems"(4) by (simp_all add: nonces_ok_add)
  from doEncryptBlocks_spec [OF "5.prems"(1,2) r(1), of m]
    doEncryptBlocks_spec [OF "5.prems"(1,3) r(2), of n]
  show ?case using rng_after_add [OF r(1), of "length ys"] by auto
qed simp_all

lemma encryptBlocksParallel_spec:
  assumes k: "codec_ok (P, be, i)" and v: "blocks_ok be vs" and cpu: "0 < num_cpu P"
    and r: "nonces_ok (IVLen (cryptoCore be)) (length vs) r"
  shows "\<exists>cs. encryptBlocksParallel P be vs b i r
       = Ret (cs, rng_after (IVLen (cryptoCore be)) (length vs) r) \<and> sealed (P, be, i) b vs cs"
proof (cases "min (num_cpu P) encryptMaxSplit = 1")
  case True
  then show ?thesis using doEncryptBlocks_spec [OF k v r] by (simp add: encryptBlocksParallel_def)
next
  case False
  define low where "low = length vs div min (num_cpu P) encryptMaxSplit"
  have low: "low \<le> length vs" by (simp add: low_def)
  have parts: "blocks_ok be (take low vs)" "blocks_ok be (drop low vs)"
    using v by (auto simp: blocks_ok_def dest: in_set_takeD in_set_dropD)
  have len: "length (take low vs) + length (drop low vs) = length vs" using low by simp
  from interleave_spec [OF k parts, unfolded len, OF r, of "schedule P (pos r)" b "b + of_nat low"]
  obtain cs ds where "interleave P be i (schedule P (pos r)) (take low vs) b (drop low vs)
      (b + of_nat low) r = Ret (cs, ds, rng_after (IVLen (cryptoCore be)) (length vs) r)"
    "sealed (P, be, i) b (take low vs) cs" "sealed (P, be, i) (b + of_nat low) (drop low vs) ds"
    by blast
  moreover from this have "sealed (P, be, i) b (take low vs @ drop low vs) (cs @ ds)"
    using low by (intro sealed_append) (simp_all add: min.absorb2)
  ultimately show ?thesis
    using False cpu by (simp add: encryptBlocksParallel_def encryptMaxSplit_def low_def Let_def)
qed

lemma put_blocks_ok:
  assumes "be_ok be" "sealed (P, be, i) b vs cs" "blocks_ok be vs"
  shows "put_blocks be cs = Ret ()"
  using assms(2,3)
proof (induction cs arbitrary: b vs)
  case (Cons c cs)
  then obtain v vs' where vs: "vs = v # vs'" by (cases vs) (auto simp: sealed_def)
  have "length c = length v + OH be" "sealed (P, be, i) (b + 1) vs' cs"
    using Cons.prems(1) unfolding vs by (fastforce simp: sealed_def algebra_simps)+
  then show ?case
    using Cons.IH [of "b + 1" vs'] Cons.prems(2) be_okD(12) [OF assms(1)] vs by auto
qed simp

lemma EncryptBlocks_spec:
  assumes k: "codec_ok (P, be, i)" and v: "blocks_ok be vs"
    and r: "nonces_ok (IVLen (cryptoCore be)) (length vs) r"
  shows "\<exists>cs. EncryptBlocks P be vs b i r
       = Ret (concat cs, rng_after (IVLen (cryptoCore be)) (length vs) r) \<and> sealed (P, be, i) b vs cs"
proof -
  let ?e = "if 32 \<le> length vs \<and> 2 \<le> num_cpu P then encryptBlocksParallel P be vs b i r
    else doEncryptBlocks P be vs b i r"
  obtain cs where cs: "?e = Ret (cs, rng_after (IVLen (cryptoCore be)) (length vs) r)"
    "sealed (P, be, i) b vs cs"
    using encryptBlocksParallel_spec [OF k v _ r, of b] doEncryptBlocks_spec [OF k v r, of b]
    by (cases "32 \<le> length vs \<and> 2 \<le> num_cpu P") auto
  have "put_blocks be cs = Ret ()"
    using put_blocks_ok [OF _ cs(2) v] k by (simp add: codec_ok_def)
  with cs show ?thesis by (intro exI [of _ cs]) (simp only: EncryptBlocks_def go_bind.simps prod.case)
qed

section \<open>Decrypting runs of blocks\<close>

lemma DecryptBlocks_loop_ok:
  assumes be: "be_ok be" and "length c \<le> m * CS be"
    and "\<And>j. j < m \<Longrightarrow> DecryptBlock P be (range_of (j * CS be) (CS be) c) (b + of_nat j) i = Ret (Inr (f j))
      \<and> length (f j) \<le> BS be"
  shows "DecryptBlocks_loop P be c b i acc = Ret (acc @ concat (map f [0..<m]), None)"
  using assms(2-)
proof (induction m arbitrary: c b acc f)
  case (Suc m)
  have f0: "DecryptBlock P be (take (CS be) c) b i = Ret (Inr (f 0))" "length (f 0) \<le> BS be"
    using Suc.prems(2) [of 0] by (simp_all add: range_of_def)
  have l: "length (drop (CS be) c) \<le> m * CS be" using Suc.prems(1) by simp
  have r: "range_of (j * CS be) (CS be) (drop (CS be) c) = range_of (Suc j * CS be) (CS be) c" for j
    by (simp add: range_of_def add.commute)
  have "DecryptBlock P be (range_of (j * CS be) (CS be) (drop (CS be) c)) (b + 1 + of_nat j) i
      = Ret (Inr (f (Suc j))) \<and> length (f (Suc j)) \<le> BS be" if "j < m" for j
    using Suc.prems(2) [of "Suc j"] that unfolding r by (simp add: algebra_simps)
  note IH = Suc.IH [OF l, of "b + 1" "\<lambda>j. f (Suc j)", OF this]
  have up: "concat (map f [0..<Suc m]) = f 0 @ concat (map (\<lambda>j. f (Suc j)) [0..<m])"
    by (simp only: upt_conv_Cons zero_less_Suc map_Suc_upt [symmetric] list.map map_map comp_def concat.simps)
  show ?case
  proof (cases "c = []")
    case True
    then have "f 0 = []" using f0(1) by (simp add: DecryptBlock_def)
    moreover have "concat (map (\<lambda>j. f (Suc j)) [0..<m]) = []"
      using IH [of acc] True by (simp add: DecryptBlocks_loop.simps)
    ultimately show ?thesis using True up by (simp add: DecryptBlocks_loop.simps)
  next
    case False
    then show ?thesis
      using f0 IH be_okD(7,8,13) [OF be] up
      by (subst DecryptBlocks_loop.simps) (simp del: upt_Suc)
  qed
qed (simp add: DecryptBlocks_loop.simps)

lemma concat_pblk:
  "concat (map (\<lambda>j. range_of ((b + j) * n) n p) [0..<m]) = range_of (b * n) (m * n) p"
proof (induction m)
  case (Suc m)
  then show ?case
    using range_of_split [of "b * n" "m * n" n p] by (simp add: algebra_simps)
qed simp

text \<open>
  Decrypting the ciphertext range of \<open>m\<close> blocks of a body gives the plaintext range.
\<close>

lemma DecryptBlocks_rep:
  assumes k: "codec_ok (P, be, i)" and r: "fb.rep (P, be, i) c p"
  shows "DecryptBlocks P be (range_of (b * CS be) (m * CS be) c) (of_nat b) i
     = Ret (range_of (b * BS be) (m * BS be) p, None)"
proof -
  have be: "be_ok be" using k by (simp add: codec_ok_def)
  let ?d = "range_of (b * CS be) (m * CS be) c"
  have "DecryptBlock P be (range_of (j * CS be) (CS be) ?d) (of_nat b + of_nat j) i
      = Ret (Inr (range_of ((b + j) * BS be) (BS be) p))" if "j < m" for j
  proof -
    have "(j + 1) * CS be \<le> m * CS be" using that by (intro mult_le_mono1) simp
    then have "range_of (j * CS be) (CS be) ?d = range_of ((b + j) * CS be) (CS be) c"
      by (simp add: range_of_range_of algebra_simps min_def)
    then show ?thesis
      using fb.rep_block [OF r, of "b + j"] by (simp add: file_dec_Some fb.cblk_def fb.pblk_def)
  qed
  then show ?thesis
    using DecryptBlocks_loop_ok [OF be, of ?d m P "of_nat b" i "\<lambda>j. range_of ((b + j) * BS be) (BS be) p" "[]"]
    by (simp add: DecryptBlocks_def concat_pblk)
qed

section \<open>Merging\<close>

lemma MergeBlocks_overwrite:
  assumes "length old \<le> BS be" "off + length new \<le> BS be" "new \<noteq> []"
  shows "MergeBlocks be old new (int off) = Ret (overwrite off new old)"
proof (cases "old = [] \<and> off = 0")
  case True
  then show ?thesis by (simp add: MergeBlocks_def overwrite_def)
next
  case False
  define n where "n = max (length old) (off + length new)"
  have n: "n \<le> BS be" using assms by (simp add: n_def)
  have len: "length (overwrite off new (resize (BS be) old)) = BS be" using assms by simp
  have "take n (overwrite off new (resize (BS be) old)) = overwrite off new old"
    using n assms by (intro nth_equalityI) (auto simp: n_def nth_overwrite nth_resize)
  moreover have "max (int (length old)) (int off + int (length new)) = int n"
    by (simp add: n_def)
  moreover have "go_slice (overwrite off new (resize (BS be) old)) 0 (int n)
      = Ret (take n (overwrite off new (resize (BS be) old)))"
    using go_slice_ok [of 0 n "overwrite off new (resize (BS be) old)"] n len by simp
  moreover have "int off + int (length new) \<le> int (BS be)" using assms(2) by linarith
  moreover have "\<not> (length old = 0 \<and> int off = 0)" using False by simp
  ultimately show ?thesis
    unfolding MergeBlocks_def Let_def by (simp only: if_False nat_int) simp
qed

end
