(* ===== verification/PosixOS.thy ===== *)
theory PosixOS
  imports GcPrelude
begin

unbundle bit_operations_syntax

text \<open>
  The operating system as the code sees it: inodes, open file descriptors and the calls of
  the packages \<^verbatim>\<open>syscall\<close>, \<^verbatim>\<open>os\<close> and \<^verbatim>\<open>x/sys/unix\<close> that the code makes, and the wrappers of
  \<^verbatim>\<open>internal/syscallcompat\<close> around them.

  Every system call may fail. The field \<open>faults\<close> lists the outcomes of the calls to come:
  \<open>None\<close> lets a call run, \<open>Some (e, k)\<close> makes it fail with \<open>e\<close>, in the case of a read or a
  write after \<open>k\<close> bytes were transferred. When the list is used up calls no longer fail by
  chance. The theorems hold for every list, so for every sequence of failures.

  Not modelled: permission bits (a denied access is a fault), hard links, the umask, path
  lookup through symbolic links, concurrent changes by other processes.
\<close>

section \<open>State\<close>

datatype node = RegF bytes | DirF "(string \<times> nat) list" | LnkF bytes

record inode =
  inode_node :: node
  inode_perm :: uint32
  inode_mtime :: int

record open_file =
  of_ino :: nat
  of_pos :: nat
  of_wr :: bool

record os =
  inodes :: "inode list"
  fds :: "open_file option list"           \<comment> \<open>indexed by the descriptor number\<close>
  host :: "(string \<times> nat) list"            \<comment> \<open>the directories reachable by an absolute path\<close>
  now :: int
  faults :: "(errno \<times> nat) option list"

definition get_fd :: "os \<Rightarrow> int \<Rightarrow> open_file option" where
  "get_fd s fd = (if 0 \<le> fd \<and> nat fd < length (fds s) then fds s ! nat fd else None)"

definition get_inode :: "os \<Rightarrow> nat \<Rightarrow> inode option" where
  "get_inode s i = (if i < length (inodes s) then Some (inodes s ! i) else None)"

definition set_node :: "nat \<Rightarrow> node \<Rightarrow> os \<Rightarrow> os" where
  "set_node i nd s = s\<lparr>inodes := (inodes s)[i := (inodes s ! i)\<lparr>inode_node := nd, inode_mtime := now s\<rparr>]\<rparr>"

definition new_inode :: "node \<Rightarrow> uint32 \<Rightarrow> os \<Rightarrow> nat \<times> os" where
  "new_inode nd perm s = (length (inodes s),
     s\<lparr>inodes := inodes s @ [\<lparr>inode_node = nd, inode_perm = perm, inode_mtime = now s\<rparr>]\<rparr>)"

text \<open>A new descriptor takes the lowest free number.\<close>

fun free_slot :: "'a option list \<Rightarrow> nat" where
  "free_slot [] = 0"
| "free_slot (None # xs) = 0"
| "free_slot (Some x # xs) = Suc (free_slot xs)"

definition alloc_fd :: "open_file \<Rightarrow> os \<Rightarrow> int \<times> os" where
  "alloc_fd e s = (let n = free_slot (fds s)
     in (int n, s\<lparr>fds := (if n < length (fds s) then (fds s)[n := Some e] else fds s @ [Some e])\<rparr>))"

section \<open>System calls and their failures\<close>

definition next_fault :: "os \<Rightarrow> (errno \<times> nat) option \<times> os" where
  "next_fault s = (case faults s of [] \<Rightarrow> (None, s) | f # fs \<Rightarrow> (f, s\<lparr>faults := fs\<rparr>))"

definition sys :: "(os \<Rightarrow> (errno + 'a) \<times> os) \<Rightarrow> os \<Rightarrow> (errno + 'a) \<times> os" where
  "sys f s = (case next_fault s of (None, s') \<Rightarrow> f s' | (Some (e, k), s') \<Rightarrow> (Inl e, s'))"

text \<open>
  \<open>retryEINTR\<close> and \<open>retryEINTR2\<close>: repeat a call until its error is not \<open>EINTR\<close>. An
  interruption uses up a fault; an operation interrupted for ever would make the loop
  endless.
\<close>

function retryEINTR :: "(os \<Rightarrow> (errno + 'a) \<times> os) \<Rightarrow> os \<Rightarrow> ((errno + 'a) \<times> os) go" where
  "retryEINTR op s = (case op s of
       (Inl EINTR, s') \<Rightarrow> if length (faults s') < length (faults s) then retryEINTR op s' else Hang
     | r \<Rightarrow> Ret r)"
  by pat_completeness auto
termination
  by (relation "measure (\<lambda>(op, s). length (faults s))") auto

declare retryEINTR.simps [simp del]

fun skip_eintr :: "(errno \<times> nat) option list \<Rightarrow> (errno \<times> nat) option list" where
  "skip_eintr (Some (EINTR, k) # fs) = skip_eintr fs"
| "skip_eintr fs = fs"

definition interrupted :: "os \<Rightarrow> os" where
  "interrupted s = s\<lparr>faults := skip_eintr (faults s)\<rparr>"

lemma retryEINTR_done:
  "fst (op s) \<noteq> Inl EINTR \<Longrightarrow> retryEINTR op s = Ret (op s)"
  by (subst retryEINTR.simps) (auto split: prod.splits sum.splits errno.splits)

lemma skip_eintr_cases:
  obtains k fs' where "fs = Some (EINTR, k) # fs'" | "skip_eintr fs = fs" "\<And>k fs'. fs \<noteq> Some (EINTR, k) # fs'"
  by (cases fs rule: skip_eintr.cases) auto

text \<open>The retry loop around a call ends: the interruptions are skipped.\<close>

lemma retryEINTR_sys:
  assumes "\<And>s. fst (f s) \<noteq> Inl EINTR"
  shows "retryEINTR (sys f) s = Ret (sys f (interrupted s))"
proof (induction s rule: measure_induct_rule [of "\<lambda>s. length (faults s)"])
  case (less s)
  show ?case
  proof (cases "faults s" rule: skip_eintr_cases)
    case (1 k fs)
    then have "retryEINTR (sys f) (s\<lparr>faults := fs\<rparr>) = Ret (sys f (interrupted (s\<lparr>faults := fs\<rparr>)))"
      using less by simp
    moreover have "interrupted (s\<lparr>faults := fs\<rparr>) = interrupted s"
      using 1 by (simp add: interrupted_def)
    ultimately show ?thesis
      using 1 by (subst retryEINTR.simps) (simp add: sys_def next_fault_def)
  next
    case 2
    then have "interrupted s = s" by (simp add: interrupted_def)
    moreover have "fst (sys f s) \<noteq> Inl EINTR"
      using 2(2) assms by (auto simp: sys_def next_fault_def split: list.splits option.splits)
    ultimately show ?thesis using retryEINTR_done by metis
  qed
qed

section \<open>Reading and writing file content\<close>

text \<open>The largest file size, \<open>MaxInt64\<close>.\<close>

definition maxbytes :: nat where "maxbytes = 2 ^ 63 - 1"

text \<open>
  \<open>os.File.ReadAt\<close> reads until the buffer is full, the file ends (\<open>io.EOF\<close>) or the system
  reports an error; interruptions are retried by the Go runtime.
\<close>

definition File_ReadAt :: "int \<Rightarrow> nat \<Rightarrow> int \<Rightarrow> os \<Rightarrow> (bytes \<times> err option) \<times> os" where
  "File_ReadAt fd n off s =
     (if off < 0 then (([], Some (ErrMsg ''negative offset'')), s)
      else if n = 0 then (([], None), s)
      else case get_fd s fd of
          None \<Rightarrow> (([], Some (Errno EBADF)), s)
        | Some e \<Rightarrow> (case inode_node (inodes s ! of_ino e) of
            RegF c \<Rightarrow>
              (let got = range_of (nat off) n c
               in case next_fault (interrupted s) of
                    (Some (er, k), s') \<Rightarrow> ((take k got, Some (Errno er)), s')
                  | (None, s') \<Rightarrow> ((got, if length got < n then Some EOF else None), s'))
          | _ \<Rightarrow> (([], Some (Errno EISDIR)), s)))"

text \<open>
  \<open>os.File.WriteAt\<close>: everything is written, or an error is reported after some prefix.
\<close>

definition File_WriteAt :: "int \<Rightarrow> bytes \<Rightarrow> int \<Rightarrow> os \<Rightarrow> err option \<times> os" where
  "File_WriteAt fd data off s =
     (if off < 0 then (Some (ErrMsg ''negative offset''), s)
      else if data = [] then (None, s)
      else case get_fd s fd of
          None \<Rightarrow> (Some (Errno EBADF), s)
        | Some e \<Rightarrow> (case inode_node (inodes s ! of_ino e) of
            RegF c \<Rightarrow>
              if \<not> of_wr e then (Some (Errno EBADF), s)
              else if nat off + length data > maxbytes then (Some (Errno EFBIG), s)
              else (case next_fault (interrupted s) of
                    (Some (er, k), s') \<Rightarrow>
                      (Some (Errno er), set_node (of_ino e) (RegF (overwrite (nat off) (take k data) c)) s')
                  | (None, s') \<Rightarrow> (None, set_node (of_ino e) (RegF (overwrite (nat off) data c)) s'))
          | _ \<Rightarrow> (Some (Errno EBADF), s)))"

definition raw_ftruncate :: "int \<Rightarrow> int \<Rightarrow> os \<Rightarrow> (errno + unit) \<times> os" where
  "raw_ftruncate fd n s =
     (case get_fd s fd of
        None \<Rightarrow> (Inl EBADF, s)
      | Some e \<Rightarrow> (case inode_node (inodes s ! of_ino e) of
          RegF c \<Rightarrow> if \<not> of_wr e \<or> n < 0 then (Inl EINVAL, s)
            else (Inr (), set_node (of_ino e) (RegF (resize (nat n) c)) s)
        | _ \<Rightarrow> (Inl EINVAL, s)))"

text \<open>\<open>syscall.Ftruncate\<close> is called without a retry.\<close>

definition Ftruncate :: "int \<Rightarrow> int \<Rightarrow> os \<Rightarrow> (errno + unit) \<times> os" where
  "Ftruncate fd n = sys (raw_ftruncate fd n)"

text \<open>\<open>fallocate\<close> with \<open>FALLOC_FL_KEEP_SIZE\<close> reserves space and changes no content.\<close>

definition raw_fallocate_keep_size :: "int \<Rightarrow> int \<Rightarrow> int \<Rightarrow> os \<Rightarrow> (errno + unit) \<times> os" where
  "raw_fallocate_keep_size fd off len s =
     (if off < 0 \<or> len \<le> 0 then (Inl EINVAL, s)
      else case get_fd s fd of
          None \<Rightarrow> (Inl EBADF, s)
        | Some e \<Rightarrow> if \<not> of_wr e then (Inl EBADF, s)
            else if nat off + nat len > maxbytes then (Inl EFBIG, s) else (Inr (), s))"

text \<open>\<open>syscallcompat.EnospcPrealloc\<close>: a file system without \<open>fallocate\<close> is accepted.\<close>

definition EnospcPrealloc :: "int \<Rightarrow> int \<Rightarrow> int \<Rightarrow> os \<Rightarrow> (err option \<times> os) go" where
  "EnospcPrealloc fd off len s =
     go_bind (retryEINTR (sys (raw_fallocate_keep_size fd off len)) s) (\<lambda>(r, s').
       Ret (case r of Inr _ \<Rightarrow> None | Inl e \<Rightarrow> if e = EOPNOTSUPP then None else Some (Errno e), s'))"

section \<open>The effect of a call on one file\<close>

text \<open>The descriptor \<open>fd\<close> is open for writing on inode \<open>i\<close>, a regular file with content \<open>c\<close>.\<close>

definition file_at :: "os \<Rightarrow> int \<Rightarrow> nat \<Rightarrow> bytes \<Rightarrow> bool" where
  "file_at s fd i c \<longleftrightarrow> i < length (inodes s) \<and> inode_node (inodes s ! i) = RegF c \<and>
     (case get_fd s fd of None \<Rightarrow> False | Some e \<Rightarrow> of_ino e = i \<and> of_wr e)"

text \<open>
  Between \<open>s\<close> and \<open>s'\<close> nothing but inode \<open>i\<close> and the pending failures changed, and no
  failures came out of nowhere.
\<close>

definition only_file :: "nat \<Rightarrow> os \<Rightarrow> os \<Rightarrow> bool" where
  "only_file i s s' \<longleftrightarrow> fds s' = fds s \<and> host s' = host s \<and> now s' = now s \<and>
     length (inodes s') = length (inodes s) \<and> (\<forall>j. j \<noteq> i \<longrightarrow> inodes s' ! j = inodes s ! j) \<and>
     set (faults s') \<subseteq> set (faults s)"

lemma only_file_refl [simp]: "only_file i s s"
  by (simp add: only_file_def)

lemma only_file_trans: "only_file i s s' \<Longrightarrow> only_file i s' s'' \<Longrightarrow> only_file i s s''"
  by (auto simp: only_file_def)

lemma only_file_quiet: "only_file i s s' \<Longrightarrow> set (faults s) \<subseteq> {None} \<Longrightarrow> set (faults s') \<subseteq> {None}"
  by (auto simp: only_file_def)

lemma set_skip_eintr: "set (skip_eintr fs) \<subseteq> set fs"
  by (induction fs rule: skip_eintr.induct) auto

lemma next_fault_interrupted:
  assumes "next_fault (interrupted s) = (f, s')"
  shows "\<exists>fs. s' = s\<lparr>faults := fs\<rparr> \<and> set fs \<subseteq> set (faults s)"
    and "set (faults s) \<subseteq> {None} \<Longrightarrow> f = None"
  using assms set_skip_eintr [of "faults s"]
  by (auto simp: next_fault_def interrupted_def split: list.splits option.splits)

lemma only_file_faults [intro]:
  "set fs \<subseteq> set (faults s) \<Longrightarrow> only_file i s (s\<lparr>faults := fs\<rparr>)"
  by (simp add: only_file_def)

lemma file_at_faults [simp]: "file_at (s\<lparr>faults := fs\<rparr>) fd i c = file_at s fd i c"
  by (simp add: file_at_def get_fd_def)

lemma get_fd_faults [simp]: "get_fd (s\<lparr>faults := fs\<rparr>) fd = get_fd s fd"
  by (simp add: get_fd_def)

lemma get_fd_set_node [simp]: "get_fd (set_node i nd s) fd = get_fd s fd"
  by (simp add: get_fd_def set_node_def)

lemma file_at_set_node:
  assumes "file_at s fd i c"
  shows "file_at (set_node i (RegF c') s) fd i c'"
    "only_file i s0 s \<Longrightarrow> only_file i s0 (set_node i nd s)"
  using assms by (simp_all add: file_at_def, auto simp: set_node_def only_file_def)

abbreviation quiet :: "os \<Rightarrow> bool" where
  "quiet s \<equiv> set (faults s) \<subseteq> {None}"

lemma ReadAt_file:
  assumes f: "file_at s fd i c" and off: "0 \<le> off" and n: "0 < n"
  obtains d er s' where "File_ReadAt fd n off s = ((d, er), s')"
    "file_at s' fd i c" "only_file i s s'"
    "er = None \<or> er = Some EOF \<Longrightarrow> d = range_of (nat off) n c"
    "er = None \<Longrightarrow> length d = n" "er = Some EOF \<Longrightarrow> length d < n"
    "quiet s \<Longrightarrow> er = None \<or> er = Some EOF"
proof -
  obtain e where e: "get_fd s fd = Some e" "of_ino e = i" and c: "inode_node (inodes s ! i) = RegF c"
    using f by (auto simp: file_at_def split: option.splits)
  obtain g s' where g: "next_fault (interrupted s) = (g, s')" by (cases "next_fault (interrupted s)")
  obtain fs where fs: "s' = s\<lparr>faults := fs\<rparr>" "set fs \<subseteq> set (faults s)"
    using next_fault_interrupted(1) [OF g] by blast
  have q: "quiet s \<Longrightarrow> g = None" using next_fault_interrupted(2) [OF g] .
  let ?d = "range_of (nat off) n c"
  show thesis
  proof (cases g)
    case None
    show thesis
      by (rule that [of ?d "if length ?d < n then Some EOF else None" s'])
         (use None e c g off n f fs in \<open>auto simp: File_ReadAt_def split: if_splits\<close>)
  next
    case (Some ek)
    then show thesis
      by (cases ek, intro that [of "take (snd ek) ?d" "Some (Errno (fst ek))" s'])
         (use Some e c g off n f fs q in \<open>auto simp: File_ReadAt_def\<close>)
  qed
qed

lemma WriteAt_file:
  assumes f: "file_at s fd i c" and off: "0 \<le> off" and d: "d \<noteq> []"
  obtains er c' s' where "File_WriteAt fd d off s = (er, s')"
    "file_at s' fd i c'" "only_file i s s'"
    "er = None \<Longrightarrow> c' = overwrite (nat off) d c"
    "\<exists>k. c' = overwrite (nat off) (take k d) c"
    "quiet s \<Longrightarrow> nat off + length d \<le> maxbytes \<Longrightarrow> er = None"
proof -
  obtain e where e: "get_fd s fd = Some e" "of_ino e = i" "of_wr e"
    and c: "inode_node (inodes s ! i) = RegF c"
    using f by (auto simp: file_at_def split: option.splits)
  obtain g s' where g: "next_fault (interrupted s) = (g, s')" by (cases "next_fault (interrupted s)")
  obtain fs where fs: "s' = s\<lparr>faults := fs\<rparr>" "set fs \<subseteq> set (faults s)"
    using next_fault_interrupted(1) [OF g] by blast
  have q: "quiet s \<Longrightarrow> g = None" using next_fault_interrupted(2) [OF g] .
  have f': "file_at s' fd i c" and o': "only_file i s s'" using f fs by auto
  show thesis
  proof (cases "nat off + length d > maxbytes")
    case True
    show thesis
      by (rule that [of "Some (Errno EFBIG)" s c])
         (use True e c off d f in \<open>auto simp: File_WriteAt_def intro: exI [of _ 0]\<close>)
  next
    case fits: False
    show thesis
    proof (cases g)
      case None
      show thesis
        by (rule that [of None "set_node i (RegF (overwrite (nat off) d c)) s'" "overwrite (nat off) d c"])
           (use None fits e c g off d file_at_set_node [OF f'] o' in
             \<open>auto simp: File_WriteAt_def intro: exI [of _ "length d"]\<close>)
    next
      case (Some ek)
      show thesis
        by (rule that [of "Some (Errno (fst ek))"
              "set_node i (RegF (overwrite (nat off) (take (snd ek) d) c)) s'"
              "overwrite (nat off) (take (snd ek) d) c"])
           (use Some fits e c g off d file_at_set_node [OF f'] o' q in
             \<open>auto simp: File_WriteAt_def split: prod.splits\<close>)
    qed
  qed
qed

lemma Ftruncate_file:
  assumes f: "file_at s fd i c" and n: "0 \<le> n"
  obtains r c' s' where "Ftruncate fd n s = (r, s')" "file_at s' fd i c'" "only_file i s s'"
    "r = Inr () \<Longrightarrow> c' = resize (nat n) c" "r \<noteq> Inr () \<Longrightarrow> c' = c" "quiet s \<Longrightarrow> r = Inr ()"
proof -
  obtain e where e: "get_fd s fd = Some e" "of_ino e = i" "of_wr e"
    and c: "inode_node (inodes s ! i) = RegF c"
    using f by (auto simp: file_at_def split: option.splits)
  obtain g s' where g: "next_fault s = (g, s')" by (cases "next_fault s")
  have s': "s' = s\<lparr>faults := tl (faults s)\<rparr>" "quiet s \<Longrightarrow> g = None"
    using g by (auto simp: next_fault_def split: list.splits)
  have sub: "set (tl (faults s)) \<subseteq> set (faults s)" by (cases "faults s") auto
  then have f': "file_at s' fd i c" and o': "only_file i s s'" using f s' by auto
  show thesis
  proof (cases g)
    case None
    show thesis
      by (rule that [of "Inr ()" "set_node i (RegF (resize (nat n) c)) s'" "resize (nat n) c"])
         (use None e c g n file_at_set_node [OF f'] o' s' in
           \<open>auto simp: Ftruncate_def sys_def raw_ftruncate_def\<close>)
  next
    case (Some ek)
    show thesis
      by (rule that [of "Inl (fst ek)" s' c])
         (use Some g f' o' s' in \<open>auto simp: Ftruncate_def sys_def split: prod.splits\<close>)
  qed
qed

lemma EnospcPrealloc_file:
  assumes f: "file_at s fd i c" and len: "0 \<le> off" "0 < len"
  obtains er s' where "EnospcPrealloc fd off len s = Ret (er, s')"
    "file_at s' fd i c" "only_file i s s'" "er \<noteq> Some EOF"
    "quiet s \<Longrightarrow> nat off + nat len \<le> maxbytes \<Longrightarrow> er = None"
proof -
  obtain e where e: "get_fd s fd = Some e" "of_ino e = i" "of_wr e"
    using f by (auto simp: file_at_def split: option.splits)
  obtain g s' where g: "next_fault (interrupted s) = (g, s')" by (cases "next_fault (interrupted s)")
  obtain fs where fs: "s' = s\<lparr>faults := fs\<rparr>" "set fs \<subseteq> set (faults s)"
    using next_fault_interrupted(1) [OF g] by blast
  have q: "quiet s \<Longrightarrow> g = None" using next_fault_interrupted(2) [OF g] .
  have f': "file_at s' fd i c" and o': "only_file i s s'" using f fs by auto
  let ?op = "raw_fallocate_keep_size fd off len"
  have op: "snd (?op s') = s'" "nat off + nat len \<le> maxbytes \<Longrightarrow> fst (?op s') = Inr ()"
    using e len fs by (simp_all add: raw_fallocate_keep_size_def split: option.splits)
  have "fst (?op t) \<noteq> Inl EINTR" for t
    by (auto simp: raw_fallocate_keep_size_def split: option.splits)
  then have r: "retryEINTR (sys ?op) s = Ret (sys ?op (interrupted s))"
    by (rule retryEINTR_sys)
  have sy: "sys ?op (interrupted s) = (case g of None \<Rightarrow> ?op s' | Some (er, k) \<Rightarrow> (Inl er, s'))"
    by (simp add: sys_def g split: option.splits)
  have s2: "snd (sys ?op (interrupted s)) = s'" using op sy by (auto split: option.splits)
  show thesis
    by (rule that [of "case fst (sys ?op (interrupted s)) of Inr _ \<Rightarrow> None
          | Inl e \<Rightarrow> if e = EOPNOTSUPP then None else Some (Errno e)" s'])
       (use r s2 f' o' q op sy in
         \<open>auto simp: EnospcPrealloc_def split: sum.splits prod.splits option.splits\<close>)
qed

end
