(* ===== verification/FileContent.thy ===== *)
theory FileContent
  imports ContentEnc PosixOS
begin

text \<open>
  Reading and writing the plaintext of one open file (\<^verbatim>\<open>file.go\<close>): the file ID in the
  header, \<open>doRead\<close> and \<open>doWrite\<close> with their read-modify-write cycles. \<open>holds\<close> says when a
  ciphertext file stands for a plaintext; the main lemmas are that \<open>doRead\<close> returns the
  range of that plaintext and that \<open>doWrite\<close> overwrites it.
\<close>

section \<open>Open files\<close>

text \<open>\<open>fdReaders\<close> counts the read locks held on \<open>fdLock\<close>. A nil ID is \<open>None\<close>.\<close>

record File =
  file_fd :: int
  file_path :: string
  file_ID :: "bytes option"
  fdReaders :: nat

definition readFileID :: "int \<Rightarrow> os \<Rightarrow> (err + bytes) \<times> os" where
  "readFileID fd s =
     (case File_ReadAt fd (HeaderLen + 1) 0 s of
        ((buf, Some e), s') \<Rightarrow> (Inl e, s')
      | ((buf, None), s') \<Rightarrow>
          (case ParseHeader (take HeaderLen buf) of
             Inl e \<Rightarrow> (Inl e, s')
           | Inr h \<Rightarrow> (Inr (fileHeader.ID h), s')))"

definition createHeader :: "int \<Rightarrow> os \<Rightarrow> rng \<Rightarrow> ((err + bytes) \<times> os \<times> rng) go" where
  "createHeader fd s r =
     (let (h, r') = RandomHeader r
      in go_bind (Pack h) (\<lambda>buf.
         go_bind (EnospcPrealloc fd 0 (int HeaderLen) s) (\<lambda>(er, s1).
         case er of Some e \<Rightarrow> Ret (Inl e, s1, r')
         | None \<Rightarrow> (case File_WriteAt fd buf 0 s1 of
               (Some e, s2) \<Rightarrow> Ret (Inl e, s2, r')
             | (None, s2) \<Rightarrow> Ret (Inr (fileHeader.ID h), s2, r')))))"

section \<open>doRead\<close>

definition MaxInt64 :: nat where "MaxInt64 = 2 ^ 63 - 1"

text \<open>The part of the decrypted blocks that was asked for.\<close>

definition crop_plain :: "bytes \<Rightarrow> uint64 \<Rightarrow> uint64 \<Rightarrow> bytes go" where
  "crop_plain plaintext skip len =
     (let lenHave = int (length plaintext); lenWant = go_int (skip + len)
      in if lenHave > lenWant then go_slice plaintext (uint skip) lenWant
         else if lenHave > go_int skip then go_slice plaintext (uint skip) lenHave
         else Ret [])"

text \<open>The result is \<open>None\<close> for \<open>(nil, false)\<close>.\<close>

definition doRead ::
  "prims \<Rightarrow> contentEnc \<Rightarrow> File \<Rightarrow> bytes \<Rightarrow> uint64 \<Rightarrow> uint64 \<Rightarrow> os \<Rightarrow> (bytes option \<times> File \<times> os) go"
where
  "doRead P be f dst off len s =
     (case (case file_ID f of Some i \<Rightarrow> (Inr i, s) | None \<Rightarrow> readFileID (file_fd f) s) of
        (Inl e, s1) \<Rightarrow> Ret (None, f, s1)
      | (Inr i, s1) \<Rightarrow>
          let f1 = f\<lparr>file_ID := Some i\<rparr>; blocks = ExplodePlainRange be off len
          in go_bind (JointCiphertextRange be blocks) (\<lambda>(alignedOffset, alignedLength).
             if unat alignedOffset > MaxInt64 then Ret (None, f1, s1)
             else let skip = Skip (hd blocks)
               in if \<not> (0 \<le> go_int alignedLength \<and> go_int alignedLength \<le> int (CReqPool be))
                  then Panic OutOfRange
                  else case File_ReadAt (file_fd f1) (nat (go_int alignedLength)) (go_int alignedOffset) s1 of
                    ((ciphertext, er), s2) \<Rightarrow>
                      if er \<noteq> None \<and> er \<noteq> Some EOF then Ret (None, f1, s2)
                      else if length ciphertext = 0 then Ret (Some dst, f1, s2)
                      else go_bind (DecryptBlocks P be ciphertext (BlockNo (hd blocks)) (Some i))
                        (\<lambda>(plaintext, er2).
                          if er2 \<noteq> None then Ret (None, f1, s2)
                          else go_bind (crop_plain plaintext skip len) (\<lambda>out.
                            go_bind (bPool_Put (PReqPool be) (grown (PReqPool be) (length plaintext)))
                              (\<lambda>_. Ret (Some (dst @ out), f1, s2))))))"

section \<open>doWrite\<close>

text \<open>
  The loop that collects the blocks to encrypt, with \<open>dataBuf\<close> the payload not yet taken.
  \<open>None\<close> is the early return after a failed read.
\<close>

fun toEncrypt_loop ::
  "prims \<Rightarrow> contentEnc \<Rightarrow> File \<Rightarrow> intraBlock list \<Rightarrow> bytes \<Rightarrow> os \<Rightarrow> (bytes list option \<times> File \<times> os) go"
where
  "toEncrypt_loop P be f [] dataBuf s = Ret (Some [], f, s)"
| "toEncrypt_loop P be f (b # bs) dataBuf s =
     (let n = nat (go_int (Length b)); blockData = take n dataBuf; rest = drop n dataBuf
      in go_bind
          (if IsPartial be b
           then go_bind (doRead P be f [] (BlockPlainOff be b) (plainBS be) s) (\<lambda>(oldData, f1, s1).
             case oldData of None \<Rightarrow> Ret (None, f1, s1)
             | Some old \<Rightarrow> go_bind (MergeBlocks be old blockData (go_int (Skip b)))
                 (\<lambda>merged. Ret (Some merged, f1, s1)))
           else Ret (Some blockData, f, s))
        (\<lambda>(bd, f1, s1). case bd of None \<Rightarrow> Ret (None, f1, s1)
           | Some v \<Rightarrow> go_bind (toEncrypt_loop P be f1 bs rest s1) (\<lambda>(vs, f2, s2).
               Ret (map_option ((#) v) vs, f2, s2))))"

text \<open>
  How a write ended: \<open>Written n\<close> is \<open>(n, true)\<close>, \<open>Failed\<close> is \<open>(0, false)\<close>, and
  \<open>Undone\<close> is \<open>(0, false)\<close> on the path that has truncated the new header away and goes on
  to close the handle.
\<close>

datatype write_result = Written uint32 | Failed | Undone

definition write_blocks ::
  "prims \<Rightarrow> contentEnc \<Rightarrow> File \<Rightarrow> bytes \<Rightarrow> bool \<Rightarrow> bytes \<Rightarrow> uint64 \<Rightarrow> os \<Rightarrow> rng \<Rightarrow>
   (write_result \<times> File \<times> os \<times> rng) go"
where
  "write_blocks P be f fileID fileWasEmpty data off s r =
     (let blocks = ExplodePlainRange be off (of_nat (length data))
      in go_bind (toEncrypt_loop P be f blocks data s) (\<lambda>(vs, f1, s1).
        case vs of None \<Rightarrow> Ret (Failed, f1, s1, r)
        | Some toEncrypt \<Rightarrow>
           if blocks = [] then Panic OutOfRange
           else go_bind (EncryptBlocks P be toEncrypt (BlockNo (hd blocks)) (Some fileID) r)
             (\<lambda>(ciphertext, r1).
               let cOff = BlockCipherOff be (hd blocks)
               in if unat cOff > MaxInt64 then Ret (Failed, f1, s1, r1)
                  else go_bind (EnospcPrealloc (file_fd f1) (go_int cOff) (int (length ciphertext)) s1)
                    (\<lambda>(er, s2). case er of
                       Some e \<Rightarrow>
                         if fileWasEmpty
                         then Ret (Undone, f1, snd (Ftruncate (file_fd f1) 0 s2), r1)
                         else Ret (Failed, f1, s2, r1)
                     | None \<Rightarrow>
                         (case File_WriteAt (file_fd f1) ciphertext (go_int cOff) s2 of (er2, s3) \<Rightarrow>
                            go_bind (bPool_Put (CReqPool be) (grown (CReqPool be) (length ciphertext)))
                              (\<lambda>_. Ret (if er2 = None then Written (of_nat (length data)) else Failed,
                                     f1, s3, r1)))))))"

definition doWrite_file ::
  "prims \<Rightarrow> contentEnc \<Rightarrow> File \<Rightarrow> bytes \<Rightarrow> uint64 \<Rightarrow> os \<Rightarrow> rng \<Rightarrow> (write_result \<times> File \<times> os \<times> rng) go"
where
  "doWrite_file P be f data off s r =
     (case file_ID f of
        Some i \<Rightarrow> write_blocks P be f i False data off s r
      | None \<Rightarrow>
          (case readFileID (file_fd f) s of
             (Inr i, s1) \<Rightarrow> write_blocks P be (f\<lparr>file_ID := Some i\<rparr>) i False data off s1 r
           | (Inl e, s1) \<Rightarrow>
               if e = EOF
               then go_bind (createHeader (file_fd f) s1 r) (\<lambda>(idr, s2, r1).
                 case idr of Inl e' \<Rightarrow> Ret (Failed, f, s2, r1)
                 | Inr i \<Rightarrow> write_blocks P be (f\<lparr>file_ID := Some i\<rparr>) i True data off s2 r1)
               else Ret (Failed, f, s1, r)))"

section \<open>What a ciphertext file stands for\<close>

definition has_header :: "bytes \<Rightarrow> bytes \<Rightarrow> bool" where
  "has_header i c \<longleftrightarrow> ParseHeader (take 18 c) = Inr \<lparr>Version = CurrentVersion, ID = i\<rparr>"

definition stored :: "prims \<Rightarrow> contentEnc \<Rightarrow> bytes \<Rightarrow> bytes \<Rightarrow> bytes \<Rightarrow> bool" where
  "stored P be i c p \<longleftrightarrow> has_header i c \<and> fb.rep (P, be, Some i) (drop 18 c) p"

text \<open>
  With the ID cached, the header is there and the body stands for \<open>p\<close>. Without, either the
  plaintext is empty and there is at most a header, or the ID in the header serves.
\<close>

definition holds :: "prims \<Rightarrow> contentEnc \<Rightarrow> bytes option \<Rightarrow> bytes \<Rightarrow> bytes \<Rightarrow> bool" where
  "holds P be fid c p = (case fid of
     Some i \<Rightarrow> stored P be i c p
   | None \<Rightarrow> p = [] \<and> length c \<le> 18 \<or> p \<noteq> [] \<and> (\<exists>i. stored P be i c p))"

lemma has_headerD:
  assumes "has_header i c"
  shows "18 \<le> length c" "length i = headerIDLen"
proof -
  have "length (take 18 c) = 18"
    using assms by (auto simp: has_header_def ParseHeader_def header_lens split: if_splits)
  then show "18 \<le> length c" by simp
  show "length i = headerIDLen"
    using assms by (simp add: has_header_def ParseHeader_iff header_ok_def)
qed

lemma stored_codec: "stored P be i c p \<Longrightarrow> prims_ok P \<Longrightarrow> be_ok be \<Longrightarrow> codec_ok (P, be, Some i)"
  by (auto simp: stored_def codec_ok_def id_ok_def dest: has_headerD)

lemma holds_Some [simp]: "holds P be (Some i) c p = stored P be i c p"
  by (simp add: holds_def)

lemma stored_holds: "stored P be i c p \<Longrightarrow> p \<noteq> [] \<Longrightarrow> holds P be fid c p \<or> fid \<noteq> None"
  by (cases fid) (auto simp: holds_def)

lemma stored_length:
  assumes "be_ok be" "stored P be i c p"
  shows "length c = 18 + body_len (BS be) (OH be) (length p)"
  using fb.rep_length [of "(P, be, Some i)" "drop 18 c" p] has_headerD(1) [of i c] assms(2)
  by (simp add: stored_def)

text \<open>The ciphertext size of a stored file is the translated plaintext size.\<close>

lemma holds_size:
  assumes "be_ok be" "holds P be None c p"
  shows "psize (BS be) (OH be) (length c) = length p"
    and "p \<noteq> [] \<Longrightarrow> length c = csize (BS be) (OH be) (length p)"
proof -
  note pos = be_okD(3) [OF assms(1)]
  show l: "length c = csize (BS be) (OH be) (length p)" if "p \<noteq> []"
    using assms that stored_length [OF assms(1)] by (auto simp: holds_def csize_body_len [OF pos])
  show "psize (BS be) (OH be) (length c) = length p"
  proof (cases "p = []")
    case True
    then show ?thesis using assms(2) by (simp add: holds_def psize_def)
  next
    case False
    then show ?thesis using l psize_csize [OF pos, of "OH be" "length p"] by simp
  qed
qed

lemma readFileID_spec:
  assumes f: "file_at s fd i c"
  obtains r s' where "readFileID fd s = (r, s')" "file_at s' fd i c" "only_file i s s'"
    "\<And>x. r = Inr x \<Longrightarrow> has_header x c \<and> 18 < length c"
    "r = Inl EOF \<Longrightarrow> length c \<le> 18"
    "quiet s \<Longrightarrow> length c \<le> 18 \<Longrightarrow> r = Inl EOF"
    "\<And>x. quiet s \<Longrightarrow> 18 < length c \<Longrightarrow> has_header x c \<Longrightarrow> r = Inr x"
proof -
  obtain d er s' where d: "File_ReadAt fd 19 0 s = ((d, er), s')" "file_at s' fd i c" "only_file i s s'"
    "er = None \<or> er = Some EOF \<Longrightarrow> d = range_of 0 19 c"
    "er = None \<Longrightarrow> length d = 19" "er = Some EOF \<Longrightarrow> length d < 19"
    "quiet s \<Longrightarrow> er = None \<or> er = Some EOF"
    using ReadAt_file [OF f, of 0 19] by auto
  let ?r = "case er of Some e \<Rightarrow> Inl e | None \<Rightarrow>
    (case ParseHeader (take 18 d) of Inl e \<Rightarrow> Inl e | Inr h \<Rightarrow> Inr (fileHeader.ID h))"
  have r: "readFileID fd s = (?r, s')"
    using d(1) by (simp add: readFileID_def HeaderLen_def split: option.splits sum.splits)
  have noEOF: "ParseHeader b \<noteq> Inl EOF" for b
    by (auto simp: ParseHeader_def Let_def split: if_splits)
  have ok: "take 18 d = take 18 c" "18 < length c" if "er = None"
    using d(4,5) that by (auto simp: range_of_def)
  have eof: "length c \<le> 18" if "er = Some EOF" using d(4,6) that by simp
  have pv: "ParseHeader b = Inr h \<Longrightarrow> h = \<lparr>Version = CurrentVersion, ID = fileHeader.ID h\<rparr>" for b h
    by (auto simp: ParseHeader_def Let_def split: if_splits)
  show thesis
  proof (rule that [OF r d(2,3)])
    show "has_header x c \<and> 18 < length c" if "?r = Inr x" for x
      using that ok pv by (auto simp: has_header_def split: option.splits sum.splits)
    show "length c \<le> 18" if "?r = Inl EOF"
      using that eof noEOF by (auto split: option.splits sum.splits)
    show "?r = Inl EOF" if "quiet s" "length c \<le> 18"
      using d(7) [OF that(1)] ok(2) that(2) by auto
    show "?r = Inr x" if "quiet s" "18 < length c" "has_header x c" for x
      using d(7) [OF that(1)] eof that ok(1) by (auto simp: has_header_def)
  qed
qed

text \<open>The ID that an operation works with, cached or read from the header.\<close>

lemma file_id_holds:
  assumes "holds P be None c p" "has_header x c" "18 < length c"
  shows "stored P be x c p"
  using assms by (auto simp: holds_def has_header_def stored_def)

section \<open>Reading\<close>

lemma hd_explode:
  assumes "plainBS be \<noteq> 0" "unat off + unat len < 2 ^ 64" "len \<noteq> 0"
  shows "ExplodePlainRange be off len \<noteq> []"
    "unat (BlockNo (hd (ExplodePlainRange be off len))) = unat off div BS be"
    "unat (Skip (hd (ExplodePlainRange be off len))) = unat off mod BS be"
    "unat (BlockNo (last (ExplodePlainRange be off len))) = (unat off + unat len - 1) div BS be"
proof -
  let ?bs = "ExplodePlainRange be off len"
  have pos: "0 < BS be" using assms(1) by (simp add: unat_gt_0)
  have l0: "0 < unat len" using assms(3) by (simp add: unat_gt_0)
  note e = ExplodePlainRange_nat [OF assms(1,2)]
  have ne: "explode (BS be) (unat off) (unat len) \<noteq> []"
    using l0 length_explode [OF pos, of "unat off" "unat len"] nblocks_pos [OF l0, of "BS be" "unat off"]
    by auto
  then show "?bs \<noteq> []" using e by auto
  have "ib_nat (hd ?bs) = hd (explode (BS be) (unat off) (unat len))"
    using e ne by (metis \<open>?bs \<noteq> []\<close> hd_map)
  also have "\<dots> = (unat off div BS be, unat off mod BS be, min (unat len) (BS be - unat off mod BS be))"
    using l0 pos by (simp add: explode.simps [of "BS be"] Let_def)
  finally show "unat (BlockNo (hd ?bs)) = unat off div BS be" "unat (Skip (hd ?bs)) = unat off mod BS be"
    by (simp_all add: ib_nat_def)
  have le: "unat off div BS be \<le> (unat off + unat len - 1) div BS be"
    using l0 by (intro div_le_mono) simp
  have "unat (BlockNo (last ?bs)) = last (map fst (map ib_nat ?bs))"
    using \<open>?bs \<noteq> []\<close> by (simp add: last_map ib_nat_def)
  also have "\<dots> = (unat off + unat len - 1) div BS be"
    unfolding e explode_blocks [OF pos] using l0 le by simp
  finally show "unat (BlockNo (last ?bs)) = (unat off + unat len - 1) div BS be" .
qed

text \<open>Offsets this side of \<open>2 ^ 57\<close> translate without overflow.\<close>

lemma block_offset_bound:
  assumes "be_ok be" "off < 2 ^ 57"
  shows "18 + off div BS be * CS be < 2 ^ 63 - 2 ^ 61"
proof -
  note B = be_okD [OF assms(1)]
  have "CS be \<le> 41 * BS be" using B(3,17) by simp
  then have "off div BS be * CS be \<le> off div BS be * (41 * BS be)" by (rule mult_le_mono2)
  also have "\<dots> = 41 * (off div BS be * BS be)" by simp
  also have "\<dots> \<le> 41 * off" using div_bounds(1) [OF B(3), of off] by simp
  finally show ?thesis using assms(2) by simp
qed

lemma JointCiphertextRange_spec:
  assumes be: "be_ok be" and len: "len \<noteq> 0" "unat len \<le> 131072" and off: "unat off + unat len \<le> 2 ^ 57"
  obtains aOff aLen where
    "JointCiphertextRange be (ExplodePlainRange be off len) = Ret (aOff, aLen)"
    "unat aOff = 18 + unat off div BS be * CS be" "unat aOff < 2 ^ 63 - 2 ^ 61"
    "go_int aOff = int (unat aOff)"
    "unat aLen = nblocks (BS be) (unat off) (unat len) * CS be"
    "go_int aLen = int (unat aLen)" "unat aLen \<le> CReqPool be"
proof -
  note B = be_okD [OF be]
  have l0: "0 < unat len" using len(1) by (simp add: unat_gt_0)
  have small: "unat off + unat len < 2 ^ 64" using off by simp
  note h = hd_explode [OF B(6) small len(1)]
  define b0 where "b0 = unat off div BS be"
  define b1 where "b1 = (unat off + unat len - 1) div BS be"
  define n where "n = nblocks (BS be) (unat off) (unat len)"
  let ?o = "BlockNoToCipherOff be (BlockNo (hd (ExplodePlainRange be off len)))"
  let ?l = "BlockNoToCipherOff be (BlockNo (last (ExplodePlainRange be off len)))"
  have s0: "18 + b0 * CS be < 2 ^ 63 - 2 ^ 61"
    unfolding b0_def using off l0 by (intro block_offset_bound [OF be]) linarith
  have s1: "18 + b1 * CS be < 2 ^ 63 - 2 ^ 61"
    unfolding b1_def using off l0 by (intro block_offset_bound [OF be]) linarith
  have o: "unat ?o = 18 + b0 * CS be"
    using unat_BlockNoToCipherOff [OF be, of "BlockNo (hd (ExplodePlainRange be off len))"] s0
    unfolding h(2) b0_def [symmetric] by simp
  have l: "unat ?l = 18 + b1 * CS be"
    using unat_BlockNoToCipherOff [OF be, of "BlockNo (last (ExplodePlainRange be off len))"] s1
    unfolding h(4) b1_def [symmetric] by simp
  have le: "b0 \<le> b1" unfolding b0_def b1_def using l0 by (intro div_le_mono) simp
  have n: "n = b1 + 1 - b0" using l0 by (simp add: n_def nblocks_def b0_def b1_def)
  have nb: "n \<le> 131072 div BS be + 1"
    unfolding n_def by (rule nblocks_bound [OF B(3,4) len(2)])
  have cap: "n * CS be \<le> CReqPool be"
    using mult_le_mono1 [OF nb, of "CS be"] by (simp add: B(14))
  have "131072 div BS be * CS be \<le> 131072 * 131112"
    using B(18) by (intro mult_le_mono div_le_dividend) simp_all
  then have cap2: "CReqPool be < 2 ^ 40" using B(14,18) by simp
  have mono: "b0 * CS be \<le> b1 * CS be" using le by (rule mult_le_mono1)
  have diff: "b0 * CS be + n * CS be = b1 * CS be + CS be"
    unfolding add_mult_distrib [symmetric] using n le by simp
  have e1: "unat (?l + cipherBS be) = 18 + b1 * CS be + CS be"
    using l s1 B(8,18) by (subst unat_add_small) simp_all
  have e2: "unat (?l + cipherBS be - ?o) = n * CS be"
    using e1 o mono diff by (subst unat_diff_small) linarith+
  show thesis
  proof (rule that)
    show "JointCiphertextRange be (ExplodePlainRange be off len) = Ret (?o, ?l + cipherBS be - ?o)"
      using h(1) by (simp add: JointCiphertextRange_def Let_def)
    show "unat ?o = 18 + unat off div BS be * CS be" using o by (simp add: b0_def)
    show "unat ?o < 2 ^ 63 - 2 ^ 61" using o s0 by simp
    show "go_int ?o = int (unat ?o)" by (rule go_int_small) (use o s0 in simp)
    show "unat (?l + cipherBS be - ?o) = nblocks (BS be) (unat off) (unat len) * CS be"
      using e2 by (simp add: n_def)
    show "go_int (?l + cipherBS be - ?o) = int (unat (?l + cipherBS be - ?o))"
      by (rule go_int_small) (use e2 cap cap2 in simp)
    show "unat (?l + cipherBS be - ?o) \<le> CReqPool be" using e2 cap by simp
  qed
qed

text \<open>Cropping the decrypted blocks leaves the range that was asked for.\<close>

lemma nblocks_cover:
  assumes "0 < B" "0 < len"
  shows "off div B * B \<le> off" "off + len \<le> (off div B + nblocks B off len) * B"
proof -
  show "off div B * B \<le> off" by simp
  have le: "off div B \<le> (off + len - 1) div B" using assms(2) by (intro div_le_mono) simp
  then have "off div B + nblocks B off len = (off + len - 1) div B + 1"
    using assms(2) by (simp add: nblocks_def)
  then show "off + len \<le> (off div B + nblocks B off len) * B"
    using div_bounds(2) [OF assms(1), of "off + len - 1"] assms(2) by simp
qed

lemma crop_plain_spec:
  assumes be: "be_ok be" and len: "len \<noteq> 0" "unat len \<le> 131072" and off: "unat off + unat len \<le> 2 ^ 57"
    and skip: "unat skip = unat off mod BS be"
    and plain: "plain = range_of (unat off div BS be * BS be)
      (nblocks (BS be) (unat off) (unat len) * BS be) p"
  shows "crop_plain plain skip len = Ret (range_of (unat off) (unat len) p)"
proof -
  note B = be_okD [OF be]
  let ?B = "BS be"
  define n where "n = nblocks ?B (unat off) (unat len) * ?B"
  define a where "a = unat off div ?B * ?B"
  have l0: "0 < unat len" using len(1) by (simp add: unat_gt_0)
  have off_eq: "a + unat skip = unat off" unfolding a_def skip by (rule div_mult_mod_eq)
  have cover: "unat skip + unat len \<le> n"
    using nblocks_cover(2) [OF B(3) l0, of "unat off"] off_eq
    unfolding a_def n_def add_mult_distrib by linarith
  have small: "unat skip + unat len < 300000"
    using B(5) len(2) mod_less_divisor [OF B(3), of "unat off"] skip by linarith
  then have s: "unat (skip + len) = unat skip + unat len" by (intro unat_add_small) simp
  have g: "go_int (skip + len) = int (unat skip + unat len)" "go_int skip = int (unat skip)"
    using s small by (simp_all add: go_int_small)
  define sk ln where "sk = unat skip" and "ln = unat len"
  note g = g [folded sk_def ln_def]
  have u: "uint skip = int sk" by (simp add: sk_def)
  have out: "range_of (unat off) ln p = range_of sk ln plain"
    using cover unfolding plain n_def [symmetric] a_def [symmetric] sk_def ln_def
    by (simp add: range_of_range_of off_eq min_def)
  consider "sk + ln < length plain"
    | "sk < length plain" "length plain \<le> sk + ln" | "length plain \<le> sk" by linarith
  then have "crop_plain plain skip len = Ret (range_of sk ln plain)"
  proof cases
    case 1
    then show ?thesis
      unfolding crop_plain_def g u Let_def
      by (simp del: of_nat_add add: go_slice_ok range_of_def)
  next
    case 2
    then show ?thesis
      unfolding crop_plain_def g u Let_def
      by (simp del: of_nat_add add: go_slice_ok range_of_def)
  next
    case 3
    then show ?thesis
      unfolding crop_plain_def g u Let_def by (simp del: of_nat_add)
  qed
  then show ?thesis using out by (simp add: ln_def)
qed

lemma doRead_spec:
  assumes P: "prims_ok P" and be: "be_ok be" and f: "file_at s (file_fd f) i c"
    and h: "holds P be (file_ID f) c p"
    and len: "len \<noteq> 0" "unat len \<le> 131072" and off: "unat off + unat len \<le> 2 ^ 57"
  shows "\<exists>res f' s'. doRead P be f dst off len s = Ret (res, f', s') \<and>
     file_at s' (file_fd f) i c \<and> only_file i s s' \<and>
     (\<exists>fid. f' = f\<lparr>file_ID := fid\<rparr> \<and> holds P be fid c p \<and> (file_ID f \<noteq> None \<longrightarrow> fid = file_ID f)) \<and>
     (res = None \<or> res = Some (dst @ range_of (unat off) (unat len) p)) \<and>
     (quiet s \<and> (file_ID f \<noteq> None \<or> p \<noteq> []) \<longrightarrow> res \<noteq> None)"
proof -
  note B = be_okD [OF be]
  obtain r1 s1 where r1: "(case file_ID f of Some x \<Rightarrow> (Inr x, s) | None \<Rightarrow> readFileID (file_fd f) s) = (r1, s1)"
    "file_at s1 (file_fd f) i c" "only_file i s s1"
    "\<And>x. r1 = Inr x \<Longrightarrow> stored P be x c p \<and> (file_ID f \<noteq> None \<longrightarrow> file_ID f = Some x)"
    "quiet s \<Longrightarrow> file_ID f \<noteq> None \<or> p \<noteq> [] \<Longrightarrow> \<exists>x. r1 = Inr x"
  proof (cases "file_ID f")
    case (Some x)
    show thesis by (rule that [of "Inr x" s]) (use Some f h in simp_all)
  next
    case None
    obtain r s' where r: "readFileID (file_fd f) s = (r, s')" "file_at s' (file_fd f) i c"
      "only_file i s s'" "\<And>x. r = Inr x \<Longrightarrow> has_header x c \<and> 18 < length c"
      "\<And>x. quiet s \<Longrightarrow> 18 < length c \<Longrightarrow> has_header x c \<Longrightarrow> r = Inr x"
      using readFileID_spec [OF f] by metis
    have "\<exists>x. r = Inr x" if "quiet s" "p \<noteq> []"
    proof -
      from that h None obtain x where x: "stored P be x c p" by (auto simp: holds_def)
      then have "18 < length c"
        using stored_length [OF be x] body_len_pos [of "length p" "BS be" "OH be"] that(2) by simp
      with r(5) that(1) x show ?thesis by (auto simp: stored_def)
    qed
    note inr = this
    show thesis
    proof (rule that [OF _ r(2,3)])
      show "(case file_ID f of Some x \<Rightarrow> (Inr x, s) | None \<Rightarrow> readFileID (file_fd f) s) = (r, s')"
        by (simp add: None r(1))
      show "stored P be x c p \<and> (file_ID f \<noteq> None \<longrightarrow> file_ID f = Some x)" if "r = Inr x" for x
        using r(4) [OF that] h None file_id_holds by simp
      show "\<exists>x. r = Inr x" if "quiet s" "file_ID f \<noteq> None \<or> p \<noteq> []"
        using that inr None by simp
    qed
  qed
  show ?thesis
  proof (cases r1)
    case (Inl e)
    then have "doRead P be f dst off len s = Ret (None, f, s1)"
      by (simp add: doRead_def r1(1))
    moreover have "\<not> (quiet s \<and> (file_ID f \<noteq> None \<or> p \<noteq> []))" using r1(5) Inl by blast
    moreover have "\<exists>fid. f = f\<lparr>file_ID := fid\<rparr> \<and> holds P be fid c p \<and> (file_ID f \<noteq> None \<longrightarrow> fid = file_ID f)"
      using h by (intro exI [of _ "file_ID f"]) simp
    ultimately show ?thesis using r1(2,3) by blast
  next
    case (Inr x)
    then have st: "stored P be x c p" and fx: "file_ID f \<noteq> None \<longrightarrow> file_ID f = Some x"
      using r1(4) by auto
    define f1 where "f1 = f\<lparr>file_ID := Some x\<rparr>"
    have keep: "\<exists>fid. f1 = f\<lparr>file_ID := fid\<rparr> \<and> holds P be fid c p \<and> (file_ID f \<noteq> None \<longrightarrow> fid = file_ID f)"
      using st fx by (auto simp: f1_def)
    have fd1: "file_fd f1 = file_fd f" by (simp add: f1_def)
    obtain aOff aLen where j: "JointCiphertextRange be (ExplodePlainRange be off len) = Ret (aOff, aLen)"
      "unat aOff = 18 + unat off div BS be * CS be" "unat aOff < 2 ^ 63 - 2 ^ 61"
      "go_int aOff = int (unat aOff)"
      "unat aLen = nblocks (BS be) (unat off) (unat len) * CS be"
      "go_int aLen = int (unat aLen)" "unat aLen \<le> CReqPool be"
      using JointCiphertextRange_spec [OF be len off] .
    have l0: "0 < unat len" using len(1) by (simp add: unat_gt_0)
    have n0: "0 < nblocks (BS be) (unat off) (unat len)" by (rule nblocks_pos) fact
    then have a0: "0 < unat aLen" using j(5) B(3) by simp
    have small: "unat off + unat len < 2 ^ 64" using off by simp
    note hd = hd_explode [OF B(6) small len(1)]
    let ?bs = "ExplodePlainRange be off len"
    let ?b = "unat off div BS be" and ?n = "nblocks (BS be) (unat off) (unat len)"
    obtain d er s2 where d: "File_ReadAt (file_fd f) (unat aLen) (int (unat aOff)) s1 = ((d, er), s2)"
      "file_at s2 (file_fd f) i c" "only_file i s1 s2"
      "er = None \<or> er = Some EOF \<Longrightarrow> d = range_of (unat aOff) (unat aLen) c"
      "quiet s1 \<Longrightarrow> er = None \<or> er = Some EOF"
      using ReadAt_file [OF r1(2), of "int (unat aOff)" "unat aLen"] a0 by (metis of_nat_0_le_iff nat_int)
    have max: "\<not> unat aOff > MaxInt64" using j(3) by (simp add: MaxInt64_def)
    have only: "only_file i s s2" using r1(3) d(3) by (rule only_file_trans)
    define rest where "rest = (if er \<noteq> None \<and> er \<noteq> Some EOF then Ret (None, f1, s2)
      else if length d = 0 then Ret (Some dst, f1, s2)
      else go_bind (DecryptBlocks P be d (BlockNo (hd ?bs)) (Some x)) (\<lambda>(plaintext, er2).
        if er2 \<noteq> None then Ret (None, f1, s2)
        else go_bind (crop_plain plaintext (Skip (hd ?bs)) len) (\<lambda>out.
          go_bind (bPool_Put (PReqPool be) (grown (PReqPool be) (length plaintext)))
            (\<lambda>_. Ret (Some (dst @ out), f1, s2)))))"
    define aO aL where "aO = unat aOff" and "aL = unat aLen"
    have eq: "doRead P be f dst off len s = rest"
      unfolding doRead_def r1(1) Inr
      using j(1) j(4,6,7) [folded aO_def aL_def] d(1) [folded aO_def aL_def] max [folded aO_def]
      by (simp add: aO_def [symmetric] f1_def [symmetric] fd1 rest_def Let_def)
    show ?thesis
    proof (cases "er \<noteq> None \<and> er \<noteq> Some EOF")
      case True
      then have "rest = Ret (None, f1, s2)" unfolding rest_def by (simp only: simp_thms if_True)
      moreover have "\<not> quiet s" using True d(5) only_file_quiet [OF r1(3)] by blast
      ultimately show ?thesis using eq d(2) only keep by blast
    next
      case False
      then have dd: "d = range_of (?b * CS be) (?n * CS be) (drop 18 c)"
        using d(4) j(2,5) by (auto simp: range_of_def add.commute)
      have rp: "fb.rep (P, be, Some x) (drop 18 c) p" using st by (simp add: stored_def)
      note k = stored_codec [OF st P be]
      have bno: "BlockNo (hd ?bs) = of_nat ?b" unfolding hd(2) [symmetric] by simp
      have dec: "DecryptBlocks P be d (BlockNo (hd ?bs)) (Some x)
          = Ret (range_of (?b * BS be) (?n * BS be) p, None)"
        unfolding dd bno by (rule DecryptBlocks_rep [OF k rp])
      have crop: "crop_plain (range_of (?b * BS be) (?n * BS be) p) (Skip (hd ?bs)) len
          = Ret (range_of (unat off) (unat len) p)"
        by (rule crop_plain_spec [OF be len off hd(3) refl])
      have "?n * BS be \<le> PReqPool be"
        using mult_le_mono1 [OF nblocks_bound [OF B(3,4) len(2), of "unat off"], of "BS be"] B(4)
        by (simp add: B(15))
      then have put: "bPool_Put (PReqPool be) (grown (PReqPool be) (length (range_of (?b * BS be) (?n * BS be) p)))
          = Ret ()" by (intro bPool_Put_grown) simp
      have "rest = Ret (Some (dst @ range_of (unat off) (unat len) p), f1, s2)"
      proof (cases "length d = 0")
        case True
        then have "length (drop 18 c) \<le> ?b * CS be" using n0 B(3) unfolding dd by (simp add: min_def split: if_splits)
        have "length p \<le> ?b * BS be"
        proof (rule ccontr)
          assume "\<not> ?thesis"
          then have "body_len (BS be) (OH be) (?b * BS be) < length (drop 18 c)"
            using fb.rep_length [OF rp] body_len_strict [OF B(3), of "?b * BS be" "length p"] by simp
          then show False
            using \<open>length (drop 18 c) \<le> ?b * CS be\<close> body_len_aligned [OF B(3), of "OH be" ?b] by simp
        qed
        then have "length p \<le> unat off" using div_bounds(1) [OF B(3), of "unat off"] by linarith
        then have "range_of (unat off) (unat len) p = []" by simp
        with True False show ?thesis unfolding rest_def by auto
      next
        case False
        with \<open>\<not> (er \<noteq> None \<and> er \<noteq> Some EOF)\<close> show ?thesis
          unfolding rest_def dec by (simp only: if_False go_bind.simps prod.case simp_thms crop put)
      qed
      then show ?thesis using eq d(2) only keep by blast
    qed
  qed
qed

end
