(* ===== verification/Names.thy ===== *)
theory Names
  imports CryptoCore
begin

text \<open>
  Names of files (\<^verbatim>\<open>internal/nametransform\<close>: \<^verbatim>\<open>valid.go\<close>, \<^verbatim>\<open>pad16.go\<close>, \<^verbatim>\<open>names.go\<close>,
  the pure part of \<^verbatim>\<open>longnames.go\<close>) with the URL-safe base64 of \<^verbatim>\<open>encoding/base64\<close>. Each stage
  of the name encryption (padding, EME, base64) is a \<open>codec\<close>: what it decodes is exactly
  what it encodes. So is their composition.
\<close>

section \<open>The contract of a codec\<close>

locale codec =
  fixes ok :: "'k \<Rightarrow> bool" and dom :: "'k \<Rightarrow> 'a \<Rightarrow> bool"
    and enc :: "'k \<Rightarrow> 'a \<Rightarrow> 'b" and dec :: "'k \<Rightarrow> 'b \<Rightarrow> 'a option"
  assumes dec_enc: "ok k \<Longrightarrow> dom k x \<Longrightarrow> dec k (enc k x) = Some x"
    and enc_dec: "ok k \<Longrightarrow> dec k y = Some x \<Longrightarrow> dom k x \<and> enc k x = y"
begin

lemma dec_iff: "ok k \<Longrightarrow> dec k y = Some x \<longleftrightarrow> dom k x \<and> enc k x = y"
  using dec_enc enc_dec by blast

lemma enc_inj: "ok k \<Longrightarrow> dom k x \<Longrightarrow> dom k x' \<Longrightarrow> enc k x = enc k x' \<Longrightarrow> x = x'"
  using dec_enc by (metis option.inject)

lemma dec_inj: "ok k \<Longrightarrow> dec k y = Some x \<Longrightarrow> dec k y' = Some x \<Longrightarrow> y = y'"
  using enc_dec by blast

end

text \<open>Two codecs with the same keys, the second running on what the first delivers.\<close>

locale codec_pair = first: codec ok dom1 enc1 dec1 + second: codec ok dom2 enc2 dec2
  for ok :: "'k \<Rightarrow> bool"
    and dom1 :: "'k \<Rightarrow> 'a \<Rightarrow> bool" and enc1 :: "'k \<Rightarrow> 'a \<Rightarrow> 'b" and dec1 :: "'k \<Rightarrow> 'b \<Rightarrow> 'a option"
    and dom2 :: "'k \<Rightarrow> 'b \<Rightarrow> bool" and enc2 :: "'k \<Rightarrow> 'b \<Rightarrow> 'c" and dec2 :: "'k \<Rightarrow> 'c \<Rightarrow> 'b option" +
  assumes feeds: "ok k \<Longrightarrow> dom1 k x \<Longrightarrow> dom2 k (enc1 k x)"

sublocale codec_pair \<subseteq> both: codec ok dom1 "\<lambda>k x. enc2 k (enc1 k x)" "\<lambda>k z. Option.bind (dec2 k z) (dec1 k)"
proof (unfold_locales, goal_cases)
  case (1 k x)
  then show ?case using feeds first.dec_enc second.dec_enc by simp
next
  case (2 k z x)
  then show ?case using first.enc_dec second.enc_dec by (fastforce simp: bind_eq_Some_conv)
qed

section \<open>PKCS#7 padding to 16 bytes\<close>

definition aes_BlockSize :: nat where "aes_BlockSize = 16"

definition pad16 :: "bytes \<Rightarrow> bytes go" where
  "pad16 orig =
     (let oldLen = length orig
      in if oldLen = 0 then Panic LogPanic
         else let padLen0 = aes_BlockSize - oldLen mod aes_BlockSize;
                  padLen = (if padLen0 = 0 then aes_BlockSize else padLen0)
           in Ret (orig @ replicate padLen (of_nat padLen)))"

definition unPad16 :: "bytes \<Rightarrow> err + bytes" where
  "unPad16 padded =
     (let oldLen = length padded
      in if oldLen = 0 then Inl (ErrMsg ''empty input'')
         else if oldLen mod aes_BlockSize \<noteq> 0 then Inl (ErrMsg ''unaligned size'')
         else let padByte = padded ! (oldLen - 1); padLen = unat padByte
           in if padLen = 0 then Inl (ErrMsg ''padding cannot be zero-length'')
              else if padLen > aes_BlockSize then Inl (ErrMsg ''padding too long (block)'')
              else if padLen \<ge> oldLen then Inl (ErrMsg ''padding too long (input)'')
              else if list_ex (\<lambda>b. b \<noteq> padByte) (drop (oldLen - padLen) padded)
              then Inl (ErrMsg ''padding byte is invalid'')
              else Inr (take (oldLen - padLen) padded))"

definition pad_bytes :: "bytes \<Rightarrow> bytes" where
  "pad_bytes d = d @ replicate (16 - length d mod 16) (of_nat (16 - length d mod 16))"

lemma pad16_pad_bytes: "pad16 d = (if d = [] then Panic LogPanic else Ret (pad_bytes d))"
proof -
  have "16 - length d mod 16 \<noteq> 0"
    using mod_less_divisor [of 16 "length d"] by linarith
  then show ?thesis by (simp add: pad16_def pad_bytes_def aes_BlockSize_def Let_def)
qed

lemma length_pad_bytes: "length (pad_bytes d) = (length d div 16 + 1) * 16"
proof -
  have "length (pad_bytes d) = length d + (16 - length d mod 16)" by (simp add: pad_bytes_def)
  then show ?thesis by presburger
qed

definition unpad_opt :: "bytes \<Rightarrow> bytes option" where
  "unpad_opt p = (case unPad16 p of Inr d \<Rightarrow> Some d | Inl e \<Rightarrow> None)"

lemma unpad_pad: "d \<noteq> [] \<Longrightarrow> unpad_opt (pad_bytes d) = Some d"
proof -
  assume 1: "d \<noteq> []"
  define n where "n = 16 - length d mod 16"
  have n: "0 < n" "n \<le> 16" using mod_less_divisor [of 16 "length d"] by (simp_all add: n_def)
  then have u: "unat (of_nat n :: byte) = n" by (simp add: unat_of_nat)
  have p: "pad_bytes d = d @ replicate n (of_nat n)" by (simp add: pad_bytes_def n_def)
  have l: "length (pad_bytes d) mod 16 = 0" by (simp add: length_pad_bytes)
  have last: "pad_bytes d ! (length (pad_bytes d) - 1) = of_nat n"
  proof -
    have "length (pad_bytes d) - 1 = length d + (n - 1)" using n by (simp add: p)
    then have "pad_bytes d ! (length (pad_bytes d) - 1) = pad_bytes d ! (length d + (n - 1))" by (rule arg_cong)
    also have "\<dots> = of_nat n" unfolding p nth_append_length_plus using n by simp
    finally show ?thesis .
  qed
  have "unPad16 (pad_bytes d) = Inr d"
    unfolding unPad16_def Let_def aes_BlockSize_def last u
    using n 1 l by (simp add: p list_ex_iff)
  then show ?thesis by (simp add: unpad_opt_def)
qed

lemma pad_unpad: "unpad_opt y = Some d \<Longrightarrow> d \<noteq> [] \<and> pad_bytes d = y"
proof -
  assume 2: "unpad_opt y = Some d"
  define n where "n = unat (y ! (length y - 1))"
  from 2 have l: "y \<noteq> []" "length y mod 16 = 0" and n: "0 < n" "n \<le> 16" "n < length y"
    and all: "\<forall>b \<in> set (drop (length y - n) y). b = y ! (length y - 1)" and d: "d = take (length y - n) y"
    by (auto simp: unpad_opt_def unPad16_def Let_def n_def aes_BlockSize_def list_ex_iff
        split: if_splits sum.splits)
  have "drop (length y - n) y = replicate n (of_nat n)"
    using all n by (intro replicate_eqI) (auto simp: n_def)
  then have y: "y = d @ replicate n (of_nat n)" using d by (metis append_take_drop_id)
  have ld: "length d = length y - n" using d n by simp
  have "(length d + n) mod 16 = 0" using l n ld by simp
  then have "16 - length d mod 16 = n"
  proof -
    obtain q where q: "length d + n = q * 16" using \<open>(length d + n) mod 16 = 0\<close> by auto
    obtain k where k: "q = Suc k" using q n by (cases q) auto
    have "length d = k * 16 + (16 - n)" using q k n by simp
    moreover have "16 - n < 16" using n by simp
    ultimately have "length d mod 16 = 16 - n" by simp
    then show ?thesis using n by simp
  qed
  then have "pad_bytes d = y" unfolding pad_bytes_def using y by simp
  moreover have "d \<noteq> []" using ld n(3) by auto
  ultimately show ?thesis by simp
qed

section \<open>URL-safe base64\<close>

text \<open>
  \<open>base64.URLEncoding\<close> (\<open>raw = False\<close>) and \<open>base64.RawURLEncoding\<close> (\<open>raw = True\<close>), both
  \<open>Strict()\<close>. Decoding skips CR and LF wherever they occur.
\<close>

definition b64_alphabet :: string where
  "b64_alphabet = ''ABCDEFGHIJKLMNOPQRSTUVWXYZabcdefghijklmnopqrstuvwxyz0123456789-_''"

fun index_of :: "'a \<Rightarrow> 'a list \<Rightarrow> nat option" where
  "index_of c [] = None"
| "index_of c (x # xs) = (if c = x then Some 0 else map_option Suc (index_of c xs))"

definition b64_char :: "nat \<Rightarrow> char" where "b64_char n = b64_alphabet ! n"
definition b64_val :: "char \<Rightarrow> nat option" where "b64_val c = index_of c b64_alphabet"

fun b64_encode :: "bool \<Rightarrow> bytes \<Rightarrow> string" where
  "b64_encode raw (a # b # c # r) =
     b64_char (unat a div 4) # b64_char (unat a mod 4 * 16 + unat b div 16)
     # b64_char (unat b mod 16 * 4 + unat c div 64) # b64_char (unat c mod 64) # b64_encode raw r"
| "b64_encode raw [a, b] =
     [b64_char (unat a div 4), b64_char (unat a mod 4 * 16 + unat b div 16), b64_char (unat b mod 16 * 4)]
     @ (if raw then [] else ''='')"
| "b64_encode raw [a] =
     [b64_char (unat a div 4), b64_char (unat a mod 4 * 16)] @ (if raw then [] else ''=='')"
| "b64_encode raw [] = []"

definition b64_two :: "char \<Rightarrow> char \<Rightarrow> bytes option" where
  "b64_two w x = (case (b64_val w, b64_val x) of
     (Some i, Some j) \<Rightarrow> if j mod 16 = 0 then Some [of_nat (i * 4 + j div 16)] else None
   | _ \<Rightarrow> None)"

definition b64_three :: "char \<Rightarrow> char \<Rightarrow> char \<Rightarrow> bytes option" where
  "b64_three w x y = (case (b64_val w, b64_val x, b64_val y) of
     (Some i, Some j, Some k) \<Rightarrow>
       if k mod 4 = 0 then Some [of_nat (i * 4 + j div 16), of_nat (j mod 16 * 16 + k div 4)] else None
   | _ \<Rightarrow> None)"

definition b64_four :: "char \<Rightarrow> char \<Rightarrow> char \<Rightarrow> char \<Rightarrow> bytes option" where
  "b64_four w x y z = (case (b64_val w, b64_val x, b64_val y, b64_val z) of
     (Some i, Some j, Some k, Some l) \<Rightarrow>
       Some [of_nat (i * 4 + j div 16), of_nat (j mod 16 * 16 + k div 4), of_nat (k mod 4 * 64 + l)]
   | _ \<Rightarrow> None)"

fun b64_quanta :: "bool \<Rightarrow> string \<Rightarrow> bytes option" where
  "b64_quanta raw (w # x # y # z # r) =
     (if \<not> raw \<and> z = CHR ''=''
      then if r \<noteq> [] then None else if y = CHR ''='' then b64_two w x else b64_three w x y
      else Option.bind (b64_four w x y z) (\<lambda>q. map_option ((@) q) (b64_quanta raw r)))"
| "b64_quanta raw [w, x, y] = (if raw then b64_three w x y else None)"
| "b64_quanta raw [w, x] = (if raw then b64_two w x else None)"
| "b64_quanta raw [w] = None"
| "b64_quanta raw [] = Some []"

definition is_newline :: "char \<Rightarrow> bool" where
  "is_newline c \<longleftrightarrow> c = CHR 0x0D \<or> c = CHR 0x0A"

definition b64_decode :: "bool \<Rightarrow> string \<Rightarrow> err + bytes" where
  "b64_decode raw s = (case b64_quanta raw (filter (\<lambda>c. \<not> is_newline c) s) of
     Some b \<Rightarrow> Inr b | None \<Rightarrow> Inl (ErrMsg ''illegal base64 data''))"

lemma index_of_nth: "distinct xs \<Longrightarrow> n < length xs \<Longrightarrow> index_of (xs ! n) xs = Some n"
  by (induction xs arbitrary: n) (auto simp: nth_Cons split: nat.splits)

lemma index_of_Some: "index_of c xs = Some n \<Longrightarrow> n < length xs \<and> xs ! n = c"
  by (induction xs arbitrary: n) (auto split: if_splits)

lemma alphabet: "distinct b64_alphabet" "length b64_alphabet = 64" "CHR ''='' \<notin> set b64_alphabet"
    "\<forall>c \<in> set b64_alphabet. \<not> is_newline c"
  by code_simp+

lemma b64_val_char [simp]: "n < 64 \<Longrightarrow> b64_val (b64_char n) = Some n"
  by (simp add: b64_val_def b64_char_def index_of_nth alphabet)

lemma b64_val_Some: "b64_val c = Some n \<longleftrightarrow> n < 64 \<and> c = b64_char n"
  using index_of_Some [of c b64_alphabet n] alphabet(2) b64_val_char
  by (auto simp: b64_val_def b64_char_def)

lemma b64_char_not_pad: "n < 64 \<Longrightarrow> b64_char n \<noteq> CHR ''='' \<and> \<not> is_newline (b64_char n)"
  using alphabet nth_mem [of n b64_alphabet] unfolding b64_char_def by metis

lemma unat_byte: "unat (b :: byte) < 256"
  using unsigned_less [of b, where ?'a=nat] by simp

lemma unat_of_nat_byte: "n < 256 \<Longrightarrow> unat (of_nat n :: byte) = n"
  by (simp add: unat_of_nat)

lemma split_bounds:
  fixes n :: nat
  assumes "n < 256"
  shows "n div 4 < 64" "n div 16 < 16" "n div 64 < 4"
  using assms by (simp_all add: div_less_iff_less_mult less_mult_imp_div_less)

lemma digit_parts:
  fixes h l m :: nat
  assumes "l < m"
  shows "(h * m + l) div m = h" "(h * m + l) mod m = l"
  using assms by simp_all

text \<open>The groups decode to the bytes they were made from, and only they do.\<close>

lemma b64_two_iff:
  "b64_two w x = Some q \<longleftrightarrow>
     (\<exists>a. q = [a] \<and> w = b64_char (unat a div 4) \<and> x = b64_char (unat a mod 4 * 16))"
proof
  assume "b64_two w x = Some q"
  then obtain i j where w: "b64_val w = Some i" "b64_val x = Some j" and m: "j mod 16 = 0"
    and q: "q = [of_nat (i * 4 + j div 16)]"
    by (auto simp: b64_two_def split: option.splits if_splits)
  from w have i: "i < 64" "w = b64_char i" and j: "j < 64" "x = b64_char j"
    by (simp_all add: b64_val_Some)
  have d: "j div 16 < 4" using j(1) by (simp add: less_mult_imp_div_less)
  have u: "unat (of_nat (i * 4 + j div 16) :: byte) = i * 4 + j div 16"
    using i(1) d by (intro unat_of_nat_byte) linarith
  have "j div 16 * 16 = j" using m by auto
  then show "\<exists>a. q = [a] \<and> w = b64_char (unat a div 4) \<and> x = b64_char (unat a mod 4 * 16)"
    using i(2) j(2) digit_parts [OF d, of i] by (intro exI [of _ "of_nat (i * 4 + j div 16)"]) (simp only: q u)
next
  assume "\<exists>a. q = [a] \<and> w = b64_char (unat a div 4) \<and> x = b64_char (unat a mod 4 * 16)"
  then obtain a where a: "q = [a]" "w = b64_char (unat a div 4)" "x = b64_char (unat a mod 4 * 16)" by blast
  have "unat a div 4 < 64" "unat a mod 4 * 16 < 64"
    using split_bounds(1) [OF unat_byte, of a] mod_less_divisor [of 4 "unat a"] by simp_all
  then show "b64_two w x = Some q" using a by (simp add: b64_two_def)
qed

lemma b64_three_iff:
  "b64_three w x y = Some q \<longleftrightarrow>
     (\<exists>a b. q = [a, b] \<and> w = b64_char (unat a div 4) \<and>
        x = b64_char (unat a mod 4 * 16 + unat b div 16) \<and> y = b64_char (unat b mod 16 * 4))"
proof
  assume "b64_three w x y = Some q"
  then obtain i j k where w: "b64_val w = Some i" "b64_val x = Some j" "b64_val y = Some k"
    and m: "k mod 4 = 0" and q: "q = [of_nat (i * 4 + j div 16), of_nat (j mod 16 * 16 + k div 4)]"
    by (auto simp: b64_three_def split: option.splits if_splits)
  from w have i: "i < 64" "w = b64_char i" and j: "j < 64" "x = b64_char j" and k: "k < 64" "y = b64_char k"
    by (simp_all add: b64_val_Some)
  have d: "j div 16 < 4" "k div 4 < 16" "j mod 16 < 16"
    using j(1) k(1) by (simp_all add: less_mult_imp_div_less)
  have u: "unat (of_nat (i * 4 + j div 16) :: byte) = i * 4 + j div 16"
    "unat (of_nat (j mod 16 * 16 + k div 4) :: byte) = j mod 16 * 16 + k div 4"
    using i(1) d by (intro unat_of_nat_byte, linarith)+
  have "k div 4 * 4 = k" using m by auto
  moreover have "j div 16 * 16 + j mod 16 = j" by simp
  ultimately show "\<exists>a b. q = [a, b] \<and> w = b64_char (unat a div 4) \<and>
        x = b64_char (unat a mod 4 * 16 + unat b div 16) \<and> y = b64_char (unat b mod 16 * 4)"
    using i(2) j(2) k(2) digit_parts [OF d(1), of i] digit_parts [OF d(2), of "j mod 16"]
    by (intro exI [of _ "of_nat (i * 4 + j div 16)"] exI [of _ "of_nat (j mod 16 * 16 + k div 4)"])
       (simp only: q u)
next
  assume "\<exists>a b. q = [a, b] \<and> w = b64_char (unat a div 4) \<and>
        x = b64_char (unat a mod 4 * 16 + unat b div 16) \<and> y = b64_char (unat b mod 16 * 4)"
  then obtain a b where a: "q = [a, b]" "w = b64_char (unat a div 4)"
    "x = b64_char (unat a mod 4 * 16 + unat b div 16)" "y = b64_char (unat b mod 16 * 4)" by blast
  have l: "unat a div 4 < 64" "unat a mod 4 < 4" "unat b div 16 < 16" "unat b mod 16 < 16"
    using split_bounds [OF unat_byte, of a] split_bounds [OF unat_byte, of b] by simp_all
  then have "unat a mod 4 * 16 + unat b div 16 < 64" "unat b mod 16 * 4 < 64" by linarith+
  then show "b64_three w x y = Some q"
    using a l digit_parts [OF l(3), of "unat a mod 4"] by (simp add: b64_three_def)
qed

lemma b64_four_iff:
  "b64_four w x y z = Some q \<longleftrightarrow>
     (\<exists>a b c. q = [a, b, c] \<and> w = b64_char (unat a div 4) \<and>
        x = b64_char (unat a mod 4 * 16 + unat b div 16) \<and>
        y = b64_char (unat b mod 16 * 4 + unat c div 64) \<and> z = b64_char (unat c mod 64))"
proof
  assume "b64_four w x y z = Some q"
  then obtain i j k l where w: "b64_val w = Some i" "b64_val x = Some j" "b64_val y = Some k"
    "b64_val z = Some l"
    and q: "q = [of_nat (i * 4 + j div 16), of_nat (j mod 16 * 16 + k div 4), of_nat (k mod 4 * 64 + l)]"
    by (auto simp: b64_four_def split: option.splits if_splits)
  from w have i: "i < 64" "w = b64_char i" and j: "j < 64" "x = b64_char j" and k: "k < 64" "y = b64_char k"
    and l: "l < 64" "z = b64_char l"
    by (simp_all add: b64_val_Some)
  have d: "j div 16 < 4" "k div 4 < 16" "j mod 16 < 16" "k mod 4 < 4"
    using j(1) k(1) by (simp_all add: less_mult_imp_div_less)
  have u: "unat (of_nat (i * 4 + j div 16) :: byte) = i * 4 + j div 16"
    "unat (of_nat (j mod 16 * 16 + k div 4) :: byte) = j mod 16 * 16 + k div 4"
    "unat (of_nat (k mod 4 * 64 + l) :: byte) = k mod 4 * 64 + l"
    using i(1) d l(1) by (intro unat_of_nat_byte, linarith)+
  have "k div 4 * 4 + k mod 4 = k" "j div 16 * 16 + j mod 16 = j" by simp_all
  then show "\<exists>a b c. q = [a, b, c] \<and> w = b64_char (unat a div 4) \<and>
        x = b64_char (unat a mod 4 * 16 + unat b div 16) \<and>
        y = b64_char (unat b mod 16 * 4 + unat c div 64) \<and> z = b64_char (unat c mod 64)"
    using i(2) j(2) k(2) l digit_parts [OF d(1), of i] digit_parts [OF d(2), of "j mod 16"]
      digit_parts [OF l(1), of "k mod 4"]
    by (intro exI [of _ "of_nat (i * 4 + j div 16)"] exI [of _ "of_nat (j mod 16 * 16 + k div 4)"]
          exI [of _ "of_nat (k mod 4 * 64 + l)"])
       (simp only: q u)
next
  assume "\<exists>a b c. q = [a, b, c] \<and> w = b64_char (unat a div 4) \<and>
        x = b64_char (unat a mod 4 * 16 + unat b div 16) \<and>
        y = b64_char (unat b mod 16 * 4 + unat c div 64) \<and> z = b64_char (unat c mod 64)"
  then obtain a b c where a: "q = [a, b, c]" "w = b64_char (unat a div 4)"
    "x = b64_char (unat a mod 4 * 16 + unat b div 16)"
    "y = b64_char (unat b mod 16 * 4 + unat c div 64)" "z = b64_char (unat c mod 64)" by blast
  have l: "unat a div 4 < 64" "unat a mod 4 < 4" "unat b div 16 < 16" "unat b mod 16 < 16"
    "unat c div 64 < 4" "unat c mod 64 < 64"
    using split_bounds [OF unat_byte, of a] split_bounds [OF unat_byte, of b]
      split_bounds [OF unat_byte, of c] by simp_all
  then have "unat a mod 4 * 16 + unat b div 16 < 64" "unat b mod 16 * 4 + unat c div 64 < 64" by linarith+
  then show "b64_four w x y z = Some q"
    using a l digit_parts [OF l(3), of "unat a mod 4"] digit_parts [OF l(5), of "unat b mod 16"]
    by (simp add: b64_four_def)
qed

lemma sextets:
  fixes a b :: byte
  shows "unat a div 4 < 64" "unat a mod 4 * 16 + unat b div 16 < 64"
    "unat a mod 16 * 4 + unat b div 64 < 64" "unat a mod 64 < 64"
    "unat a mod 4 * 16 < 64" "unat a mod 16 * 4 < 64"
proof -
  have m: "unat a mod 4 < 4" "unat a mod 16 < 16" by simp_all
  note d = split_bounds [OF unat_byte, of a] split_bounds [OF unat_byte, of b]
  show "unat a div 4 < 64" "unat a mod 64 < 64" using d by simp_all
  show "unat a mod 4 * 16 + unat b div 16 < 64" using m(1) d(5) by linarith
  show "unat a mod 16 * 4 + unat b div 64 < 64" using m(2) d(6) by linarith
  show "unat a mod 4 * 16 < 64" "unat a mod 16 * 4 < 64" using m by linarith+
qed

lemma b64_encode_chars: "c \<in> set (b64_encode raw d) \<Longrightarrow> \<not> is_newline c"
proof (induction raw d rule: b64_encode.induct)
  case (1 raw a b c' r)
  have "\<not> is_newline (b64_char (unat a div 4))"
    "\<not> is_newline (b64_char (unat a mod 4 * 16 + unat b div 16))"
    "\<not> is_newline (b64_char (unat b mod 16 * 4 + unat c' div 64))"
    "\<not> is_newline (b64_char (unat c' mod 64))"
    using b64_char_not_pad sextets by blast+
  with 1 show ?case by auto
next
  case (2 raw a b)
  have "\<not> is_newline (b64_char (unat a div 4))"
    "\<not> is_newline (b64_char (unat a mod 4 * 16 + unat b div 16))"
    "\<not> is_newline (b64_char (unat b mod 16 * 4))" "\<not> is_newline (CHR ''='')"
    using b64_char_not_pad sextets by (blast+, simp add: is_newline_def)
  with 2 show ?case by (auto split: if_splits)
next
  case (3 raw a)
  have "\<not> is_newline (b64_char (unat a div 4))"
    "\<not> is_newline (b64_char (unat a mod 4 * 16))" "\<not> is_newline (CHR ''='')"
    using b64_char_not_pad sextets by (blast+, simp add: is_newline_def)
  with 3 show ?case by (auto split: if_splits)
qed simp

lemma b64_quanta_encode: "b64_quanta raw (b64_encode raw d) = Some d"
proof (induction raw d rule: b64_encode.induct)
  case (1 raw a b c r)
  have "b64_four (b64_char (unat a div 4)) (b64_char (unat a mod 4 * 16 + unat b div 16))
      (b64_char (unat b mod 16 * 4 + unat c div 64)) (b64_char (unat c mod 64)) = Some [a, b, c]"
    by (simp only: b64_four_iff) blast
  moreover have "b64_char (unat c mod 64) \<noteq> CHR ''=''" using b64_char_not_pad sextets by blast
  ultimately show ?case using 1 by simp
next
  case (2 raw a b)
  have "b64_three (b64_char (unat a div 4)) (b64_char (unat a mod 4 * 16 + unat b div 16))
      (b64_char (unat b mod 16 * 4)) = Some [a, b]"
    by (simp only: b64_three_iff) blast
  moreover have "b64_char (unat b mod 16 * 4) \<noteq> CHR ''=''" using b64_char_not_pad sextets by blast
  ultimately show ?case by simp
next
  case (3 raw a)
  have "b64_two (b64_char (unat a div 4)) (b64_char (unat a mod 4 * 16)) = Some [a]"
    by (simp only: b64_two_iff) blast
  then show ?case by simp
qed simp

lemma b64_encode_quanta: "b64_quanta raw s = Some d \<Longrightarrow> b64_encode raw d = s"
proof (induction raw s arbitrary: d rule: b64_quanta.induct)
  case (1 raw w x y z r)
  show ?case
  proof (cases "\<not> raw \<and> z = CHR ''=''")
    case True
    then show ?thesis
      using "1.prems" by (auto simp: b64_two_iff b64_three_iff split: if_splits)
  next
    case False
    then obtain q d' where q: "b64_four w x y z = Some q" "b64_quanta raw r = Some d'" "d = q @ d'"
      using "1.prems" by (auto simp: bind_eq_Some_conv split: if_splits)
    have "b64_encode raw d' = r" using "1.IH" [OF False q(1,2)] .
    then show ?thesis using q(1,3) by (auto simp: b64_four_iff)
  qed
next
  case (2 raw w x y)
  then show ?case by (auto simp: b64_three_iff split: if_splits)
next
  case (3 raw w x)
  then show ?case by (auto simp: b64_two_iff split: if_splits)
qed simp_all

text \<open>Decoding that also refuses newlines, as the callers arrange.\<close>

definition b64_opt :: "bool \<Rightarrow> string \<Rightarrow> bytes option" where
  "b64_opt raw s = (if list_ex is_newline s then None else
     (case b64_decode raw s of Inr b \<Rightarrow> Some b | Inl e \<Rightarrow> None))"

lemma b64_opt_encode: "b64_opt raw (b64_encode raw d) = Some d"
proof -
  have f: "filter (\<lambda>c. \<not> is_newline c) (b64_encode raw d) = b64_encode raw d"
    using b64_encode_chars by (simp add: filter_id_conv)
  have "\<not> list_ex is_newline (b64_encode raw d)" using b64_encode_chars by (auto simp: list_ex_iff)
  then show ?thesis by (simp add: b64_opt_def b64_decode_def f b64_quanta_encode)
qed

lemma b64_encode_opt: "b64_opt raw s = Some d \<Longrightarrow> b64_encode raw d = s"
proof -
  assume "b64_opt raw s = Some d"
  then have n: "\<not> list_ex is_newline s" and b: "b64_decode raw s = Inr d"
    by (auto simp: b64_opt_def split: if_splits sum.splits)
  then have "filter (\<lambda>c. \<not> is_newline c) s = s" by (simp add: filter_id_conv list_ex_iff)
  with b have "b64_quanta raw s = Some d"
    by (simp add: b64_decode_def split: option.splits)
  then show ?thesis using b64_encode_quanta by simp
qed

section \<open>Valid names\<close>

definition NameMax :: nat where "NameMax = 255"

definition IsValidName :: "string \<Rightarrow> err option" where
  "IsValidName name =
     (if name = [] then Some (ErrMsg ''empty input'')
      else if length name > NameMax then Some (ErrMsg ''too long'')
      else if CHR 0x00 \<in> set name \<or> CHR ''/'' \<in> set name then Some (ErrMsg ''contains forbidden bytes'')
      else if name = ''.'' \<or> name = ''..'' then Some (ErrMsg ''. and .. are forbidden names'')
      else None)"

section \<open>Encrypting and decrypting names\<close>

text \<open>\<open>raw64\<close> says which base64 encoding \<open>B64\<close> is; the EME cipher is its key.\<close>

record NameTransform =
  emeCipher :: "bytes option"
  longNameMax :: int
  raw64 :: bool
  badnamePatterns :: "string list"
  deterministicNames :: bool

definition New_NameTransform ::
  "bytes option \<Rightarrow> bool \<Rightarrow> 8 word \<Rightarrow> bool \<Rightarrow> string list \<Rightarrow> bool \<Rightarrow> NameTransform" where
  "New_NameTransform e longNames lnMax raw badname deterministic =
     \<lparr>emeCipher = e,
      longNameMax = (if longNames then (if lnMax = 0 then int NameMax else uint lnMax)
                     else 2 ^ 31 - 1),
      raw64 = raw, badnamePatterns = badname, deterministicNames = deterministic\<rparr>"

text \<open>The EME library panics on a nil cipher and on data or tweaks of a wrong length.\<close>

definition eme_Encrypt :: "prims \<Rightarrow> bytes option \<Rightarrow> bytes \<Rightarrow> bytes \<Rightarrow> bytes go" where
  "eme_Encrypt P e iv d = go_bind (deref e) (\<lambda>k.
     if eme_data iv d then Ret (eme_encrypt P k iv d) else Panic LogPanic)"

definition eme_Decrypt :: "prims \<Rightarrow> bytes option \<Rightarrow> bytes \<Rightarrow> bytes \<Rightarrow> bytes go" where
  "eme_Decrypt P e iv d = go_bind (deref e) (\<lambda>k.
     if eme_data iv d then Ret (eme_decrypt P k iv d) else Panic LogPanic)"

definition encryptName :: "prims \<Rightarrow> NameTransform \<Rightarrow> string \<Rightarrow> bytes \<Rightarrow> string go" where
  "encryptName P n plainName iv =
     go_bind (pad16 (to_bytes plainName)) (\<lambda>bin.
     go_bind (eme_Encrypt P (emeCipher n) iv bin) (\<lambda>bin.
     Ret (b64_encode (raw64 n) bin)))"

definition EncryptName :: "prims \<Rightarrow> NameTransform \<Rightarrow> string \<Rightarrow> bytes \<Rightarrow> (err + string) go" where
  "EncryptName P n plainName iv =
     (if IsValidName plainName \<noteq> None then Ret (Inl (Errno EBADMSG))
      else go_bind (encryptName P n plainName iv) (\<lambda>c. Ret (Inr c)))"

definition decryptName :: "prims \<Rightarrow> NameTransform \<Rightarrow> string \<Rightarrow> bytes \<Rightarrow> (err + string) go" where
  "decryptName P n cipherName iv =
     (if list_ex is_newline cipherName then Ret (Inl (ErrMsg ''characters CR or LF in base64''))
      else case b64_decode (raw64 n) cipherName of
        Inl e \<Rightarrow> Ret (Inl e)
      | Inr bin \<Rightarrow>
          if length bin = 0 then Ret (Inl (Errno EBADMSG))
          else if length bin mod aes_BlockSize \<noteq> 0 then Ret (Inl (Errno EBADMSG))
          else go_bind (eme_Decrypt P (emeCipher n) iv bin) (\<lambda>bin.
            case unPad16 bin of
              Inl e \<Rightarrow> Ret (Inl (Errno EBADMSG))
            | Inr bin \<Rightarrow> Ret (Inr (to_string bin))))"

section \<open>The stages as codecs\<close>

text \<open>
  The key of a name: the primitives, the EME key, the IV of the directory and the base64
  variant. EME takes at most 128 blocks.
\<close>

type_synonym nkey = "prims \<times> bytes \<times> bytes \<times> bool"

definition nkey_ok :: "nkey \<Rightarrow> bool" where
  "nkey_ok k = (case k of (P, key, iv, raw) \<Rightarrow> prims_ok P \<and> length iv = 16)"

definition pad_dom :: "nkey \<Rightarrow> bytes \<Rightarrow> bool" where
  "pad_dom k d \<longleftrightarrow> d \<noteq> [] \<and> length d < 2048"

definition unpad_short :: "nkey \<Rightarrow> bytes \<Rightarrow> bytes option" where
  "unpad_short k y = (if length y \<le> 2048 then unpad_opt y else None)"

definition eme_dom :: "nkey \<Rightarrow> bytes \<Rightarrow> bool" where
  "eme_dom k d = (case k of (P, key, iv, raw) \<Rightarrow> eme_data iv d)"

definition eme_enc :: "nkey \<Rightarrow> bytes \<Rightarrow> bytes" where
  "eme_enc k d = (case k of (P, key, iv, raw) \<Rightarrow> eme_encrypt P key iv d)"

definition eme_dec :: "nkey \<Rightarrow> bytes \<Rightarrow> bytes option" where
  "eme_dec k d = (case k of (P, key, iv, raw) \<Rightarrow>
     if eme_data iv d then Some (eme_decrypt P key iv d) else None)"

lemma eme_laws:
  assumes "prims_ok P" "eme_data iv d"
  shows "eme_decrypt P k iv (eme_encrypt P k iv d) = d" "eme_encrypt P k iv (eme_decrypt P k iv d) = d"
    "eme_data iv (eme_encrypt P k iv d)" "eme_data iv (eme_decrypt P k iv d)"
  using assms by (auto simp: prims_ok_def eme_law_def eme_data_def)

lemma pad_fits: "pad_dom k d \<Longrightarrow> (length d div 16 + 1) * 16 \<le> 2048"
proof -
  assume "pad_dom k d"
  then have "length d < 2048" by (simp add: pad_dom_def)
  then show ?thesis by presburger
qed

interpretation pad_eme: codec_pair nkey_ok pad_dom "\<lambda>_. pad_bytes" unpad_short eme_dom eme_enc eme_dec
proof (unfold_locales, goal_cases)
  case (1 k d)
  have "(length d div 16 + 1) * 16 \<le> 2048" using pad_fits 1(2) .
  then show ?case using 1 unpad_pad by (simp add: unpad_short_def pad_dom_def length_pad_bytes)
next
  case (2 k y d)
  then have y: "length y \<le> 2048" "d \<noteq> []" "pad_bytes d = y"
    using pad_unpad by (auto simp: unpad_short_def split: if_splits)
  have "0 < 16 - length d mod 16" using mod_less_divisor [of 16 "length d"] by simp
  then have "length d < length y" using y(3) by (auto simp: pad_bytes_def)
  then show ?case using y by (simp add: pad_dom_def)
next
  case (3 k d)
  then show ?case by (auto simp: eme_dom_def eme_enc_def eme_dec_def nkey_ok_def eme_laws split: prod.splits)
next
  case (4 k y d)
  then show ?case
    by (auto simp: eme_dom_def eme_enc_def eme_dec_def nkey_ok_def eme_laws split: prod.splits if_splits)
next
  case (5 k d)
  have "(length d div 16 + 1) * 16 \<le> 2048" using pad_fits 5(2) .
  then show ?case
    using 5 by (auto simp: eme_dom_def eme_data_def length_pad_bytes nkey_ok_def split: prod.splits)
qed

definition b64_enc :: "nkey \<Rightarrow> bytes \<Rightarrow> string" where
  "b64_enc k d = (case k of (P, key, iv, raw) \<Rightarrow> b64_encode raw d)"

definition b64_dec :: "nkey \<Rightarrow> string \<Rightarrow> bytes option" where
  "b64_dec k s = (case k of (P, key, iv, raw) \<Rightarrow> b64_opt raw s)"

interpretation name_stages: codec_pair nkey_ok pad_dom "\<lambda>k d. eme_enc k (pad_bytes d)"
  "\<lambda>k z. Option.bind (eme_dec k z) (unpad_short k)" "\<lambda>_ _. True" b64_enc b64_dec
  by unfold_locales (auto simp: b64_enc_def b64_dec_def b64_opt_encode dest: b64_encode_opt split: prod.splits)

text \<open>The whole name encryption computes the composed stages.\<close>

lemma encryptName_stages:
  assumes "nkey_ok (P, key, iv, raw64 n)" "emeCipher n = Some key" "pad_dom k (to_bytes s)"
  shows "encryptName P n s iv = Ret (b64_enc (P, key, iv, raw64 n)
     (eme_enc (P, key, iv, raw64 n) (pad_bytes (to_bytes s))))"
  using assms pad_eme.feeds [OF assms(1), of "to_bytes s"]
  by (simp add: encryptName_def pad16_pad_bytes eme_Encrypt_def pad_dom_def eme_dom_def eme_enc_def b64_enc_def)

lemma decryptName_stages:
  assumes "nkey_ok (P, key, iv, raw64 n)" "emeCipher n = Some key"
  shows "decryptName P n c iv = Ret (Inr s) \<longleftrightarrow>
     Option.bind (b64_dec (P, key, iv, raw64 n) c) (\<lambda>z. Option.bind (eme_dec (P, key, iv, raw64 n) z)
       (unpad_short (P, key, iv, raw64 n))) = Some (to_bytes s)"
proof -
  have s: "to_string b = s \<longleftrightarrow> b = to_bytes s" for b by (metis to_bytes_to_string to_string_to_bytes)
  have iv: "length iv = 16" and P: "prims_ok P" using assms(1) by (simp_all add: nkey_ok_def)
  have dl: "length (eme_decrypt P key iv d) = length d" if "eme_data iv d" for d
    using P that by (simp add: prims_ok_def eme_law_def)
  let ?r = "Option.bind (b64_dec (P, key, iv, raw64 n) c) (\<lambda>z. Option.bind (eme_dec (P, key, iv, raw64 n) z)
       (unpad_short (P, key, iv, raw64 n)))"
  show ?thesis
  proof (cases "b64_opt (raw64 n) c")
    case None
    then have "?r = None" by (simp add: b64_dec_def)
    moreover have "\<exists>e. decryptName P n c iv = Ret (Inl e)"
      using None by (auto simp: b64_opt_def decryptName_def split: if_splits sum.splits)
    ultimately show ?thesis by auto
  next
    case (Some bin)
    then have d: "decryptName P n c iv = (if length bin = 0 then Ret (Inl (Errno EBADMSG))
          else if length bin mod 16 \<noteq> 0 then Ret (Inl (Errno EBADMSG))
          else go_bind (eme_Decrypt P (emeCipher n) iv bin) (\<lambda>bin.
            case unPad16 bin of
              Inl e \<Rightarrow> Ret (Inl (Errno EBADMSG))
            | Inr bin \<Rightarrow> Ret (Inr (to_string bin))))"
      by (auto simp: b64_opt_def decryptName_def aes_BlockSize_def split: if_splits sum.splits)
    show ?thesis
    proof (cases "eme_data iv bin")
      case False
      then have "?r = None" using Some by (simp add: b64_dec_def eme_dec_def)
      moreover have "decryptName P n c iv \<noteq> Ret (Inr s)"
        using False iv by (auto simp: d eme_Decrypt_def eme_data_def assms(2))
      ultimately show ?thesis by simp
    next
      case True
      then have l: "length bin \<noteq> 0" "length bin mod 16 = 0" "length (eme_decrypt P key iv bin) \<le> 2048"
        using dl by (auto simp: eme_data_def)
      have "?r = unpad_opt (eme_decrypt P key iv bin)"
        using Some True l(3) by (simp add: b64_dec_def eme_dec_def unpad_short_def)
      moreover have "decryptName P n c iv = (case unPad16 (eme_decrypt P key iv bin) of
          Inl e \<Rightarrow> Ret (Inl (Errno EBADMSG)) | Inr bin \<Rightarrow> Ret (Inr (to_string bin)))"
        using True l(1,2) by (simp add: d eme_Decrypt_def assms(2))
      ultimately show ?thesis by (auto simp: unpad_opt_def s split: sum.splits)
    qed
  qed
qed

text \<open>
  Encrypted names decrypt to the name, and a name that decrypts is the encryption of what
  it decrypts to: there is one encrypted name per name.
\<close>

lemma decryptName_iff:
  assumes "nkey_ok (P, key, iv, raw64 n)" "emeCipher n = Some key"
  shows "decryptName P n c iv = Ret (Inr s) \<longleftrightarrow>
     s \<noteq> [] \<and> length s < 2048 \<and> encryptName P n s iv = Ret c"
  using decryptName_stages [OF assms, of c s] name_stages.both.dec_iff [OF assms(1), of c "to_bytes s"]
    encryptName_stages [OF assms, of "(P, key, iv, raw64 n)" s]
  by (auto simp: pad_dom_def)

section \<open>Bad names\<close>

text \<open>\<^verbatim>\<open>badname.go\<close>, the part without I/O.\<close>

definition BadnameSuffix :: string where "BadnameSuffix = '' GOCRYPTFS_BAD_NAME''"

definition HaveBadnamePatterns :: "NameTransform \<Rightarrow> bool" where
  "HaveBadnamePatterns n \<longleftrightarrow> length (badnamePatterns n) > 0"

definition b64_EncodedLen :: "bool \<Rightarrow> nat \<Rightarrow> nat" where
  "b64_EncodedLen raw n = (if raw then n div 3 * 4 + (n mod 3 * 8 + 5) div 6 else (n + 2) div 3 * 4)"

text \<open>The longest decryptable proper prefix with at least \<open>nameMin\<close> characters.\<close>

primrec badname_prefix ::
  "prims \<Rightarrow> NameTransform \<Rightarrow> string \<Rightarrow> bytes \<Rightarrow> nat \<Rightarrow> nat \<Rightarrow> string option go" where
  "badname_prefix P n cipherName iv nameMin 0 = Ret None"
| "badname_prefix P n cipherName iv nameMin (Suc k) =
     (if Suc k < nameMin then Ret None
      else go_bind (decryptName P n (take (Suc k) cipherName) iv) (\<lambda>r. case r of
          Inr res \<Rightarrow> Ret (Some (res @ drop (Suc k) cipherName @ BadnameSuffix))
        | Inl e \<Rightarrow> badname_prefix P n cipherName iv nameMin k))"

fun decryptBadname_loop ::
  "prims \<Rightarrow> NameTransform \<Rightarrow> string \<Rightarrow> bytes \<Rightarrow> string list \<Rightarrow> (err + string) go" where
  "decryptBadname_loop P n cipherName iv [] = Ret (Inl (Errno EBADMSG))"
| "decryptBadname_loop P n cipherName iv (p # ps) =
     (if path_match P p cipherName = Some True
      then go_bind (badname_prefix P n cipherName iv (b64_EncodedLen (raw64 n) aes_BlockSize)
             (length cipherName - 1)) (\<lambda>r. case r of
             Some s \<Rightarrow> Ret (Inr s) | None \<Rightarrow> Ret (Inr (cipherName @ BadnameSuffix)))
      else decryptBadname_loop P n cipherName iv ps)"

definition decryptBadname :: "prims \<Rightarrow> NameTransform \<Rightarrow> string \<Rightarrow> bytes \<Rightarrow> (err + string) go" where
  "decryptBadname P n cipherName iv = decryptBadname_loop P n cipherName iv (badnamePatterns n)"

definition DecryptName :: "prims \<Rightarrow> NameTransform \<Rightarrow> string \<Rightarrow> bytes \<Rightarrow> (err + string) go" where
  "DecryptName P n cipherName iv =
     go_bind (decryptName P n cipherName iv) (\<lambda>r1.
     go_bind (case r1 of
         Inl e \<Rightarrow> if HaveBadnamePatterns n then decryptBadname P n cipherName iv else Ret r1
       | Inr s \<Rightarrow> Ret r1) (\<lambda>r2. case r2 of
         Inl e \<Rightarrow> Ret (Inl e)
       | Inr res \<Rightarrow> if IsValidName res \<noteq> None then Ret (Inl (Errno EBADMSG)) else Ret (Inr res)))"

section \<open>Long names\<close>

definition LongNameSuffix :: string where "LongNameSuffix = ''.name''"
definition longNamePrefix :: string where "longNamePrefix = ''gocryptfs.longname.''"

definition HashLongName :: "prims \<Rightarrow> NameTransform \<Rightarrow> string \<Rightarrow> string" where
  "HashLongName P n name = longNamePrefix @ b64_encode (raw64 n) (sha256 P (to_bytes name))"

datatype name_type = LongNameContent | LongNameFilename | LongNameNone

definition has_prefix :: "'a list \<Rightarrow> 'a list \<Rightarrow> bool" where
  "has_prefix s p \<longleftrightarrow> take (length p) s = p"

definition has_suffix :: "'a list \<Rightarrow> 'a list \<Rightarrow> bool" where
  "has_suffix s p \<longleftrightarrow> length p \<le> length s \<and> drop (length s - length p) s = p"

definition NameType :: "string \<Rightarrow> name_type" where
  "NameType cName =
     (if \<not> has_prefix cName longNamePrefix then LongNameNone
      else if has_suffix cName LongNameSuffix then LongNameFilename
      else LongNameContent)"

definition IsLongContent :: "string \<Rightarrow> bool" where
  "IsLongContent cName \<longleftrightarrow> NameType cName = LongNameContent"

definition RemoveLongNameSuffix :: "string \<Rightarrow> string go" where
  "RemoveLongNameSuffix cName = go_slice cName 0 (int (length cName) - int (length LongNameSuffix))"

definition EncryptAndHashName :: "prims \<Rightarrow> NameTransform \<Rightarrow> string \<Rightarrow> bytes \<Rightarrow> (err + string) go" where
  "EncryptAndHashName P n name iv =
     (if length name > NameMax then Ret (Inl (Errno ENAMETOOLONG))
      else go_bind (EncryptName P n name iv) (\<lambda>r. case r of
          Inl e \<Rightarrow> Ret (Inl e)
        | Inr cName \<Rightarrow> if int (length cName) > longNameMax n
            then Ret (Inr (HashLongName P n cName)) else Ret (Inr cName)))"

lemma length_b64_encode: "length (b64_encode raw d) = b64_EncodedLen raw (length d)"
proof (induction raw d rule: b64_encode.induct)
  case (1 raw a b c r)
  have "(length r + 3) div 3 = length r div 3 + 1" "(length r + 3) mod 3 = length r mod 3"
    "(length r + 3 + 2) div 3 = (length r + 2) div 3 + 1"
    by presburger+
  then have "b64_EncodedLen raw (length r + 3) = 4 + b64_EncodedLen raw (length r)"
    by (simp add: b64_EncodedLen_def)
  moreover have "length (a # b # c # r) = length r + 3" by simp
  ultimately have "b64_EncodedLen raw (length (a # b # c # r)) = 4 + b64_EncodedLen raw (length r)"
    by (simp only:)
  with 1 show ?case by simp
qed (simp_all add: b64_EncodedLen_def)

text \<open>The characters of encoded names: no dot, no slash.\<close>

lemma b64_encode_set: "c \<in> set (b64_encode raw d) \<Longrightarrow> c = CHR ''='' \<or> c \<in> set b64_alphabet"
proof -
  have a: "b64_char k \<in> set b64_alphabet" if "k < 64" for k
    using that alphabet(2) by (simp add: b64_char_def)
  show "c \<in> set (b64_encode raw d) \<Longrightarrow> c = CHR ''='' \<or> c \<in> set b64_alphabet"
  proof (induction raw d rule: b64_encode.induct)
    case (1 raw a' b c' r)
    then show ?case using a [OF sextets(1)] a [OF sextets(2)] a [OF sextets(3)] a [OF sextets(4)] by auto
  next
    case (2 raw a' b)
    then show ?case using a [OF sextets(1)] a [OF sextets(2)] a [OF sextets(6)] by (auto split: if_splits)
  next
    case (3 raw a')
    then show ?case using a [OF sextets(1)] a [OF sextets(5)] by (auto split: if_splits)
  qed simp
qed

lemma alphabet_no_dot: "CHR ''.'' \<notin> set b64_alphabet" "CHR ''/'' \<notin> set b64_alphabet"
  by code_simp+

lemma b64_encode_no_dot: "CHR ''.'' \<notin> set (b64_encode raw d)" "CHR ''/'' \<notin> set (b64_encode raw d)"
  using b64_encode_set alphabet_no_dot by fastforce+

text \<open>A name encrypts exactly when it is valid, and the result is its encryption.\<close>

lemma EncryptName_valid:
  assumes "nkey_ok (P, key, iv, raw64 n)" "emeCipher n = Some key"
  shows "IsValidName s = None \<Longrightarrow> \<exists>c. EncryptName P n s iv = Ret (Inr c) \<and> encryptName P n s iv = Ret c \<and>
      length c = b64_EncodedLen (raw64 n) ((length s div 16 + 1) * 16)
      \<and> CHR ''.'' \<notin> set c \<and> CHR ''/'' \<notin> set c"
    and "IsValidName s \<noteq> None \<Longrightarrow> EncryptName P n s iv = Ret (Inl (Errno EBADMSG))"
proof -
  show "\<exists>c. EncryptName P n s iv = Ret (Inr c) \<and> encryptName P n s iv = Ret c \<and>
      length c = b64_EncodedLen (raw64 n) ((length s div 16 + 1) * 16)
      \<and> CHR ''.'' \<notin> set c \<and> CHR ''/'' \<notin> set c" if v: "IsValidName s = None"
  proof -
    have d: "pad_dom (P, key, iv, raw64 n) (to_bytes s)"
      using v by (auto simp: IsValidName_def pad_dom_def NameMax_def split: if_splits)
    note e = encryptName_stages [OF assms d]
    have "eme_dom (P, key, iv, raw64 n) (pad_bytes (to_bytes s))" using pad_eme.feeds [OF assms(1) d] .
    then have "length (eme_enc (P, key, iv, raw64 n) (pad_bytes (to_bytes s))) = (length s div 16 + 1) * 16"
      using assms(1) by (simp add: eme_dom_def eme_enc_def nkey_ok_def prims_ok_def eme_law_def length_pad_bytes)
    then show ?thesis
      using v e by (simp add: EncryptName_def b64_enc_def length_b64_encode b64_encode_no_dot)
  qed
qed (simp add: EncryptName_def)

text \<open>An encrypted name is never taken for one of the files the program itself makes.\<close>

lemma NameType_no_dot: "CHR ''.'' \<notin> set c \<Longrightarrow> NameType c = LongNameNone"
proof -
  assume c: "CHR ''.'' \<notin> set c"
  have "\<not> has_prefix c longNamePrefix"
  proof
    assume "has_prefix c longNamePrefix"
    then have "set longNamePrefix \<subseteq> set c" unfolding has_prefix_def by (metis set_take_subset)
    moreover have "CHR ''.'' \<in> set longNamePrefix" by (simp add: longNamePrefix_def)
    ultimately show False using c by blast
  qed
  then show ?thesis by (simp add: NameType_def)
qed

lemma NameType_HashLongName:
  assumes "prims_ok P"
  shows "NameType (HashLongName P n s) = LongNameContent"
proof -
  let ?b = "b64_encode (raw64 n) (sha256 P (to_bytes s))"
  have "has_prefix (longNamePrefix @ ?b) longNamePrefix" by (simp add: has_prefix_def)
  moreover have "\<not> has_suffix (longNamePrefix @ ?b) LongNameSuffix"
  proof
    assume a: "has_suffix (longNamePrefix @ ?b) LongNameSuffix"
    define b where "b = ?b"
    have "length b = b64_EncodedLen (raw64 n) 32"
      using assms by (simp add: b_def length_b64_encode prims_ok_def)
    then have l: "5 \<le> length b" by (simp add: b64_EncodedLen_def)
    have "length LongNameSuffix = 5" by (simp add: LongNameSuffix_def)
    then have "drop (length longNamePrefix + length b - 5) (longNamePrefix @ b) = LongNameSuffix"
      using a unfolding has_suffix_def b_def [symmetric] by (simp only: length_append)
    moreover have "length longNamePrefix + length b - 5 = length longNamePrefix + (length b - 5)"
      using l by simp
    ultimately have "drop (length b - 5) b = LongNameSuffix" by simp
    then have "CHR ''.'' \<in> set b" by (metis LongNameSuffix_def in_set_dropD list.set_intros(1))
    then show False using b64_encode_no_dot unfolding b_def by blast
  qed
  ultimately show ?thesis by (simp add: NameType_def HashLongName_def)
qed

end
