(* ===== verification/PosixDir.thy ===== *)
theory PosixDir
  imports PosixOS
begin

unbundle bit_operations_syntax

text \<open>
  Directories: the system calls on names that the code makes, and their wrappers in
  \<^verbatim>\<open>internal/syscallcompat\<close> (\<^verbatim>\<open>eintr.go\<close>, \<^verbatim>\<open>sys_common.go\<close>, \<^verbatim>\<open>sys_linux.go\<close>). Names are single components; \<^verbatim>\<open>.\<close> is the directory itself.
\<close>

section \<open>Flags and file types (Linux, amd64)\<close>

definition O_RDONLY :: uint64 where "O_RDONLY = 0"
definition O_WRONLY :: uint64 where "O_WRONLY = 1"
definition O_RDWR :: uint64 where "O_RDWR = 2"
definition O_ACCMODE :: uint64 where "O_ACCMODE = 3"
definition O_CREAT :: uint64 where "O_CREAT = 0x40"
definition O_EXCL :: uint64 where "O_EXCL = 0x80"
definition O_APPEND :: uint64 where "O_APPEND = 0x400"
definition O_DIRECT :: uint64 where "O_DIRECT = 0x4000"
definition O_DIRECTORY :: uint64 where "O_DIRECTORY = 0x10000"
definition O_NOFOLLOW :: uint64 where "O_NOFOLLOW = 0x20000"
definition O_CLOEXEC :: uint64 where "O_CLOEXEC = 0x80000"
definition O_PATH :: uint64 where "O_PATH = 0x200000"

lemmas open_flags = O_RDONLY_def O_WRONLY_def O_RDWR_def O_ACCMODE_def O_CREAT_def O_EXCL_def
  O_APPEND_def O_DIRECT_def O_DIRECTORY_def O_NOFOLLOW_def O_CLOEXEC_def O_PATH_def

definition flag_set :: "uint64 \<Rightarrow> uint64 \<Rightarrow> bool" where
  "flag_set flags f \<longleftrightarrow> flags AND f \<noteq> 0"

definition S_IFMT :: uint32 where "S_IFMT = 0xF000"
definition S_IFREG :: uint32 where "S_IFREG = 0x8000"
definition S_IFDIR :: uint32 where "S_IFDIR = 0x4000"
definition S_IFLNK :: uint32 where "S_IFLNK = 0xA000"

fun node_type :: "node \<Rightarrow> uint32" where
  "node_type (RegF c) = S_IFREG"
| "node_type (DirF es) = S_IFDIR"
| "node_type (LnkF t) = S_IFLNK"

section \<open>Looking up names\<close>

definition dir_at :: "os \<Rightarrow> int \<Rightarrow> errno + (nat \<times> (string \<times> nat) list)" where
  "dir_at s fd = (case get_fd s fd of
     None \<Rightarrow> Inl EBADF
   | Some e \<Rightarrow> (case inode_node (inodes s ! of_ino e) of
       DirF es \<Rightarrow> Inr (of_ino e, es) | _ \<Rightarrow> Inl ENOTDIR))"

definition entry :: "os \<Rightarrow> nat \<Rightarrow> (string \<times> nat) list \<Rightarrow> string \<Rightarrow> errno + nat" where
  "entry s i es name =
     (if name = ''.'' then Inr i
      else if length name > 255 then Inl ENAMETOOLONG
      else case map_of es name of Some j \<Rightarrow> Inr j | None \<Rightarrow> Inl ENOENT)"

definition resolve :: "os \<Rightarrow> int \<Rightarrow> string \<Rightarrow> errno + nat" where
  "resolve s dirfd name = (case dir_at s dirfd of
     Inl e \<Rightarrow> Inl e | Inr (i, es) \<Rightarrow> entry s i es name)"

definition name_ok :: "string \<Rightarrow> bool" where
  "name_ok n \<longleftrightarrow> n \<noteq> [] \<and> n \<noteq> ''.'' \<and> n \<noteq> ''..'' \<and> CHR ''/'' \<notin> set n \<and> length n \<le> 255"

section \<open>The system calls\<close>

definition raw_open_inode :: "nat \<Rightarrow> uint64 \<Rightarrow> os \<Rightarrow> (errno + int) \<times> os" where
  "raw_open_inode j flags s =
     (let wr = flags AND O_ACCMODE \<noteq> O_RDONLY;
          opened = (let (fd, s') = alloc_fd \<lparr>of_ino = j, of_pos = 0, of_wr = wr\<rparr> s in (Inr fd, s'))
      in case inode_node (inodes s ! j) of
          LnkF t \<Rightarrow> (Inl (if flag_set flags O_DIRECTORY then ENOTDIR else ELOOP), s)
        | RegF c \<Rightarrow> if flag_set flags O_DIRECTORY then (Inl ENOTDIR, s) else opened
        | DirF es \<Rightarrow> if wr \<or> flag_set flags O_CREAT then (Inl EISDIR, s) else opened)"

definition open_in :: "nat \<Rightarrow> (string \<times> nat) list \<Rightarrow> string \<Rightarrow> uint64 \<Rightarrow> uint32 \<Rightarrow> os \<Rightarrow> (errno + int) \<times> os" where
  "open_in i es name flags mode s =
     (case entry s i es name of
        Inr j \<Rightarrow> if flag_set flags O_CREAT \<and> flag_set flags O_EXCL then (Inl EEXIST, s)
          else raw_open_inode j flags s
      | Inl e \<Rightarrow>
          if e = ENOENT \<and> flag_set flags O_CREAT \<and> name_ok name
          then let (j, s1) = new_inode (RegF []) mode s
            in raw_open_inode j flags (set_node i (DirF (es @ [(name, j)])) s1)
          else (Inl e, s))"

definition raw_openat :: "int \<Rightarrow> string \<Rightarrow> uint64 \<Rightarrow> uint32 \<Rightarrow> os \<Rightarrow> (errno + int) \<times> os" where
  "raw_openat dirfd name flags mode s =
     (case dir_at s dirfd of
        Inl e \<Rightarrow> (Inl e, s)
      | Inr (i, es) \<Rightarrow> open_in i es name flags mode s)"

record stat =
  st_mode :: uint32
  st_size :: uint64
  st_mtime :: int

definition stat_of :: "inode \<Rightarrow> stat" where
  "stat_of n = \<lparr>st_mode = node_type (inode_node n) OR inode_perm n,
     st_size = (case inode_node n of RegF c \<Rightarrow> of_nat (length c) | LnkF t \<Rightarrow> of_nat (length t) | DirF es \<Rightarrow> 4096),
     st_mtime = inode_mtime n\<rparr>"

definition raw_fstatat :: "int \<Rightarrow> string \<Rightarrow> os \<Rightarrow> (errno + stat) \<times> os" where
  "raw_fstatat dirfd name s = (case resolve s dirfd name of
     Inl e \<Rightarrow> (Inl e, s) | Inr j \<Rightarrow> (Inr (stat_of (inodes s ! j)), s))"

text \<open>\<open>rmdir\<close> stands for the flag \<open>AT_REMOVEDIR\<close>.\<close>

definition raw_unlinkat :: "int \<Rightarrow> string \<Rightarrow> bool \<Rightarrow> os \<Rightarrow> (errno + unit) \<times> os" where
  "raw_unlinkat dirfd name rmdir s =
     (case dir_at s dirfd of
        Inl e \<Rightarrow> (Inl e, s)
      | Inr (i, es) \<Rightarrow>
          if name = ''.'' then (Inl EINVAL, s)
          else (case entry s i es name of
            Inl e \<Rightarrow> (Inl e, s)
          | Inr j \<Rightarrow>
              (case inode_node (inodes s ! j) of
                 DirF es' \<Rightarrow> if \<not> rmdir then (Inl EISDIR, s)
                   else if es' \<noteq> [] then (Inl ENOTEMPTY, s)
                   else (Inr (), set_node i (DirF (filter (\<lambda>(n, _). n \<noteq> name) es)) s)
               | _ \<Rightarrow> if rmdir then (Inl ENOTDIR, s)
                   else (Inr (), set_node i (DirF (filter (\<lambda>(n, _). n \<noteq> name) es)) s))))"

text \<open>Whether inode \<open>j\<close> lies at or below inode \<open>i\<close>, by a search of bounded depth.\<close>

primrec below :: "nat \<Rightarrow> os \<Rightarrow> nat \<Rightarrow> nat \<Rightarrow> bool" where
  "below 0 s i j = (i = j)"
| "below (Suc d) s i j = (i = j \<or> (case inode_node (inodes s ! i) of
     DirF es \<Rightarrow> list_ex (\<lambda>(_, k). below d s k j) es | _ \<Rightarrow> False))"

definition rename_in ::
  "nat \<Rightarrow> (string \<times> nat) list \<Rightarrow> string \<Rightarrow> nat \<Rightarrow> (string \<times> nat) list \<Rightarrow> string \<Rightarrow> os \<Rightarrow> (errno + unit) \<times> os"
where
  "rename_in i es oldname k es' newname s =
     (if oldname = ''.'' \<or> newname = ''.'' then (Inl EINVAL, s)
      else case entry s i es oldname of
        Inl e \<Rightarrow> (Inl e, s)
      | Inr j \<Rightarrow>
          let move = (let s1 = set_node i (DirF (filter (\<lambda>(n, _). n \<noteq> oldname) es)) s;
                          es1 = (case inode_node (inodes s1 ! k) of DirF x \<Rightarrow> x | _ \<Rightarrow> [])
                      in (Inr (), set_node k
                           (DirF (filter (\<lambda>(n, _). n \<noteq> newname) es1 @ [(newname, j)])) s1));
              isdir = (\<lambda>x. case inode_node (inodes s ! x) of DirF _ \<Rightarrow> True | _ \<Rightarrow> False)
          in if isdir j \<and> below (length (inodes s)) s j k then (Inl EINVAL, s)
             else case entry s k es' newname of
               Inl e \<Rightarrow> if e = ENOENT \<and> name_ok newname then move else (Inl e, s)
             | Inr t \<Rightarrow>
                 if t = j then (Inr (), s)
                 else if isdir j then
                   (if \<not> isdir t then (Inl ENOTDIR, s)
                    else if inode_node (inodes s ! t) \<noteq> DirF [] then (Inl ENOTEMPTY, s) else move)
                 else if isdir t then (Inl EISDIR, s) else move)"

definition raw_renameat :: "int \<Rightarrow> string \<Rightarrow> int \<Rightarrow> string \<Rightarrow> os \<Rightarrow> (errno + unit) \<times> os" where
  "raw_renameat olddirfd oldname newdirfd newname s =
     (case (dir_at s olddirfd, dir_at s newdirfd) of
        (Inl e, _) \<Rightarrow> (Inl e, s)
      | (_, Inl e) \<Rightarrow> (Inl e, s)
      | (Inr (i, es), Inr (k, es')) \<Rightarrow> rename_in i es oldname k es' newname s)"

definition raw_mkdirat :: "int \<Rightarrow> string \<Rightarrow> uint32 \<Rightarrow> os \<Rightarrow> (errno + unit) \<times> os" where
  "raw_mkdirat dirfd name mode s =
     (case dir_at s dirfd of
        Inl e \<Rightarrow> (Inl e, s)
      | Inr (i, es) \<Rightarrow>
          (case entry s i es name of
             Inr j \<Rightarrow> (Inl EEXIST, s)
           | Inl e \<Rightarrow> if e = ENOENT \<and> name_ok name
               then let (j, s1) = new_inode (DirF []) mode s
                 in (Inr (), set_node i (DirF (es @ [(name, j)])) s1)
               else (Inl e, s)))"

definition raw_readlinkat :: "int \<Rightarrow> string \<Rightarrow> nat \<Rightarrow> os \<Rightarrow> (errno + bytes) \<times> os" where
  "raw_readlinkat dirfd name bufsz s = (case resolve s dirfd name of
     Inl e \<Rightarrow> (Inl e, s)
   | Inr j \<Rightarrow> (case inode_node (inodes s ! j) of
       LnkF t \<Rightarrow> (Inr (take bufsz t), s) | _ \<Rightarrow> (Inl EINVAL, s)))"

definition raw_utimensat :: "int \<Rightarrow> string \<Rightarrow> int \<Rightarrow> os \<Rightarrow> (errno + unit) \<times> os" where
  "raw_utimensat dirfd name mtime s = (case resolve s dirfd name of
     Inl e \<Rightarrow> (Inl e, s)
   | Inr j \<Rightarrow> (Inr (), s\<lparr>inodes := (inodes s)[j := (inodes s ! j)\<lparr>inode_mtime := mtime\<rparr>]\<rparr>))"

definition raw_fstat :: "int \<Rightarrow> os \<Rightarrow> (errno + stat) \<times> os" where
  "raw_fstat fd s = (case get_fd s fd of
     None \<Rightarrow> (Inl EBADF, s) | Some e \<Rightarrow> (Inr (stat_of (inodes s ! of_ino e)), s))"

definition raw_fchmod :: "int \<Rightarrow> uint32 \<Rightarrow> os \<Rightarrow> (errno + unit) \<times> os" where
  "raw_fchmod fd mode s = (case get_fd s fd of
     None \<Rightarrow> (Inl EBADF, s)
   | Some e \<Rightarrow> (Inr (), s\<lparr>inodes := (inodes s)[of_ino e := (inodes s ! of_ino e)\<lparr>inode_perm := mode AND 0xFFF\<rparr>]\<rparr>))"

definition raw_dup :: "int \<Rightarrow> os \<Rightarrow> (errno + int) \<times> os" where
  "raw_dup fd s = (case get_fd s fd of
     None \<Rightarrow> (Inl EBADF, s)
   | Some e \<Rightarrow> (let (fd', s') = alloc_fd e s in (Inr fd', s')))"

text \<open>Closing frees the descriptor even when it reports an error.\<close>

definition Close :: "int \<Rightarrow> os \<Rightarrow> (errno + unit) \<times> os" where
  "Close fd s = (case get_fd s fd of
     None \<Rightarrow> (Inl EBADF, s)
   | Some e \<Rightarrow> (case next_fault s of (f, s') \<Rightarrow>
       ((case f of None \<Rightarrow> Inr () | Some (er, k) \<Rightarrow> Inl er), s'\<lparr>fds := (fds s')[nat fd := None]\<rparr>)))"

definition close_quietly :: "int \<Rightarrow> os \<Rightarrow> os" where
  "close_quietly fd s = snd (Close fd s)"

section \<open>The wrappers\<close>

definition Dup :: "int \<Rightarrow> os \<Rightarrow> (errno + int) \<times> os" where
  "Dup fd = sys (raw_dup fd)"

text \<open>\<open>syscallcompat.Open\<close> of a directory, with the flags \<open>O_DIRECTORY|O_PATH\<close>.\<close>

definition raw_open_dir :: "string \<Rightarrow> os \<Rightarrow> (errno + int) \<times> os" where
  "raw_open_dir path s = (case map_of (host s) path of
     None \<Rightarrow> (Inl ENOENT, s) | Some i \<Rightarrow> raw_open_inode i (O_DIRECTORY OR O_PATH) s)"

definition Open_dir :: "string \<Rightarrow> os \<Rightarrow> ((errno + int) \<times> os) go" where
  "Open_dir path s = retryEINTR (sys (raw_open_dir path)) s"

definition Openat :: "int \<Rightarrow> string \<Rightarrow> uint64 \<Rightarrow> uint32 \<Rightarrow> os \<Rightarrow> ((errno + int) \<times> os) go" where
  "Openat dirfd path flags mode s =
     (let flags1 = (if flags AND O_CREAT = 0
                    then if flags AND O_NOFOLLOW = 0 then flags OR O_NOFOLLOW else flags
                    else flags)
      in retryEINTR (sys (raw_openat dirfd path (flags1 OR O_CLOEXEC) mode)) s)"

definition Fstatat :: "int \<Rightarrow> string \<Rightarrow> os \<Rightarrow> ((errno + stat) \<times> os) go" where
  "Fstatat dirfd path s = retryEINTR (sys (raw_fstatat dirfd path)) s"

definition Unlinkat :: "int \<Rightarrow> string \<Rightarrow> bool \<Rightarrow> os \<Rightarrow> ((errno + unit) \<times> os) go" where
  "Unlinkat dirfd path rmdir s = retryEINTR (sys (raw_unlinkat dirfd path rmdir)) s"

definition Renameat :: "int \<Rightarrow> string \<Rightarrow> int \<Rightarrow> string \<Rightarrow> os \<Rightarrow> ((errno + unit) \<times> os) go" where
  "Renameat olddirfd oldpath newdirfd newpath s =
     retryEINTR (sys (raw_renameat olddirfd oldpath newdirfd newpath)) s"

text \<open>The buffer doubles until the target is shorter than it.\<close>

definition link_len :: "int \<Rightarrow> string \<Rightarrow> os \<Rightarrow> nat" where
  "link_len dirfd path s = (case resolve s dirfd path of
     Inl e \<Rightarrow> 0 | Inr j \<Rightarrow> (case inode_node (inodes s ! j) of LnkF t \<Rightarrow> length t | _ \<Rightarrow> 0))"

lemma resolve_faults [simp]: "resolve (s\<lparr>faults := fs\<rparr>) d n = resolve s d n"
  by (simp add: resolve_def dir_at_def entry_def split: option.splits node.splits)

lemma link_len_faults [simp]: "link_len d n (s\<lparr>faults := fs\<rparr>) = link_len d n s"
  by (simp add: link_len_def split: sum.splits node.splits)

lemma sys_readlink:
  assumes "sys (raw_readlinkat dirfd path bufsz) s = (Inr b, s')"
  shows "link_len dirfd path s' = link_len dirfd path s"
    "length b = min bufsz (link_len dirfd path s)"
proof -
  obtain f s1 where f: "next_fault s = (f, s1)" by (cases "next_fault s")
  then have s1: "\<exists>fs. s1 = s\<lparr>faults := fs\<rparr>"
    by (auto simp: next_fault_def split: list.splits intro: exI [of _ "faults s"])
  have r: "raw_readlinkat dirfd path bufsz s1 = (Inr b, s')"
    using assms f by (auto simp: sys_def split: option.splits)
  then have "s' = s1" "length b = min bufsz (link_len dirfd path s1)"
    by (auto simp: raw_readlinkat_def link_len_def split: sum.splits node.splits)
  with s1 show "link_len dirfd path s' = link_len dirfd path s"
    "length b = min bufsz (link_len dirfd path s)" by auto
qed

function Readlinkat_loop :: "int \<Rightarrow> string \<Rightarrow> nat \<Rightarrow> os \<Rightarrow> ((errno + bytes) \<times> os) go" where
  "Readlinkat_loop dirfd path bufsz s =
     (if bufsz = 0 then Hang
      else case sys (raw_readlinkat dirfd path bufsz) s of
          (Inl e, s') \<Rightarrow> Ret (Inl e, s')
        | (Inr b, s') \<Rightarrow> if length b < bufsz then Ret (Inr b, s')
            else Readlinkat_loop dirfd path (2 * bufsz) s')"
  by pat_completeness auto
termination
proof (relation "measure (\<lambda>(dirfd, path, bufsz, s). link_len dirfd path s + 1 - bufsz)", goal_cases)
  case 1
  show ?case by simp
next
  case (2 dirfd path bufsz s r s' b)
  then have "sys (raw_readlinkat dirfd path bufsz) s = (Inr b, s')" by simp
  from sys_readlink [OF this] show ?case using 2 by simp
qed

declare Readlinkat_loop.simps [simp del]

definition Readlinkat :: "int \<Rightarrow> string \<Rightarrow> os \<Rightarrow> ((errno + bytes) \<times> os) go" where
  "Readlinkat dirfd path s = Readlinkat_loop dirfd path 128 s"

end
