(* ===== verification/GoPath.thy ===== *)
theory GoPath
  imports GcPrelude
begin

text \<open>
  The functions \<open>Clean\<close>, \<open>Base\<close>, \<open>Dir\<close> and \<open>Join\<close> of \<^verbatim>\<open>path/filepath\<close> on Linux, which the
  code uses to take paths apart, and \<open>getParentPath\<close> of \<^verbatim>\<open>helpers.go\<close>.
\<close>

abbreviation slash :: char where "slash \<equiv> CHR ''/''"

fun split_slash :: "string \<Rightarrow> string list" where
  "split_slash [] = [[]]"
| "split_slash (c # cs) = (if c = slash then [] # split_slash cs
     else case split_slash cs of [] \<Rightarrow> [[c]] | w # ws \<Rightarrow> (c # w) # ws)"

fun join_slash :: "string list \<Rightarrow> string" where
  "join_slash [] = []"
| "join_slash [w] = w"
| "join_slash (w # ws) = w @ slash # join_slash ws"

text \<open>The elements kept so far, the last one first.\<close>

definition clean_step :: "bool \<Rightarrow> string list \<Rightarrow> string \<Rightarrow> string list" where
  "clean_step rooted out c =
     (if c = [] \<or> c = ''.'' then out
      else if c = ''..'' then (case out of
          [] \<Rightarrow> if rooted then [] else [''..'']
        | w # ws \<Rightarrow> if w = ''..'' then ''..'' # out else ws)
      else c # out)"

definition path_Clean :: "string \<Rightarrow> string" where
  "path_Clean p =
     (if p = [] then ''.''
      else let rooted = (hd p = slash);
               out = rev (foldl (clean_step rooted) [] (split_slash p))
        in if rooted then slash # join_slash out
           else if out = [] then ''.'' else join_slash out)"

definition path_Base :: "string \<Rightarrow> string" where
  "path_Base p =
     (if p = [] then ''.''
      else let r = dropWhile (\<lambda>c. c = slash) (rev p)
        in if r = [] then ''/'' else rev (takeWhile (\<lambda>c. c \<noteq> slash) r))"

definition path_Dir :: "string \<Rightarrow> string" where
  "path_Dir p = path_Clean (rev (dropWhile (\<lambda>c. c \<noteq> slash) (rev p)))"

definition path_Join :: "string \<Rightarrow> string \<Rightarrow> string" where
  "path_Join a b = (if a = [] then (if b = [] then [] else path_Clean b) else path_Clean (a @ slash # b))"

definition getParentPath :: "string \<Rightarrow> string" where
  "getParentPath path = (let parent = path_Dir path in if parent = ''.'' then [] else parent)"

section \<open>The parent of an absolute path is shorter and absolute\<close>

definition is_abs :: "string \<Rightarrow> bool" where
  "is_abs p \<longleftrightarrow> p \<noteq> [] \<and> hd p = slash"

lemma split_slash_ne: "split_slash p \<noteq> []"
  by (induction p) (auto split: list.splits)

lemma split_slash_len: "sum_list (map (\<lambda>w. Suc (length w)) (split_slash p)) = Suc (length p)"
  by (induction p) (auto split: list.splits)

lemma clean_steps_len:
  "sum_list (map (\<lambda>w. Suc (length w)) (foldl (clean_step True) out ws))
     \<le> sum_list (map (\<lambda>w. Suc (length w)) out)
        + sum_list (map (\<lambda>w. Suc (length w)) (filter (\<lambda>w. w \<noteq> []) ws))"
proof (induction ws arbitrary: out)
  case (Cons w ws)
  have "sum_list (map (\<lambda>w. Suc (length w)) (clean_step True out w))
      \<le> sum_list (map (\<lambda>w. Suc (length w)) out) + (if w = [] then 0 else Suc (length w))"
  proof (cases "w = ''..''")
    case True
    then show ?thesis by (cases out) (auto simp: clean_step_def)
  next
    case False
    then show ?thesis by (auto simp: clean_step_def)
  qed
  with Cons [of "clean_step True out w"] show ?case by (auto split: if_splits)
qed simp

lemma join_slash_len: "ws \<noteq> [] \<Longrightarrow> Suc (length (join_slash ws)) = sum_list (map (\<lambda>w. Suc (length w)) ws)"
  by (induction ws rule: join_slash.induct) auto

lemma filter_len: "sum_list (map (\<lambda>w. Suc (length w)) (filter (\<lambda>w. w \<noteq> []) ws)) + length (filter (\<lambda>w. w = []) ws)
    = sum_list (map (\<lambda>w. Suc (length w)) (ws :: string list))"
  by (induction ws) auto

lemma clean_abs:
  assumes "is_abs p"
  shows "is_abs (path_Clean p)"
    "path_Clean p = ''/'' \<or> length (path_Clean p) + length (filter (\<lambda>w. w = []) (split_slash p)) \<le> Suc (length p)"
proof -
  let ?out = "rev (foldl (clean_step True) [] (split_slash p))"
  have c: "path_Clean p = slash # join_slash ?out"
    using assms by (simp add: path_Clean_def is_abs_def)
  show "is_abs (path_Clean p)" by (simp add: c is_abs_def)
  show "path_Clean p = ''/'' \<or> length (path_Clean p) + length (filter (\<lambda>w. w = []) (split_slash p)) \<le> Suc (length p)"
  proof (cases "?out = []")
    case True
    then show ?thesis by (simp add: c)
  next
    case False
    have "Suc (length (join_slash ?out)) = sum_list (map (\<lambda>w. Suc (length w)) ?out)"
      by (rule join_slash_len) fact
    also have "\<dots> = sum_list (map (\<lambda>w. Suc (length w)) (foldl (clean_step True) [] (split_slash p)))"
      by (simp add: rev_map [symmetric])
    also have "\<dots> \<le> sum_list (map (\<lambda>w. Suc (length w)) (filter (\<lambda>w. w \<noteq> []) (split_slash p)))"
      using clean_steps_len [of "[]" "split_slash p"] by simp
    finally show ?thesis
      using filter_len [of "split_slash p"] split_slash_len [of p] by (simp add: c)
  qed
qed

lemma split_snoc_slash: "split_slash (p @ [slash]) = split_slash p @ [[]]"
  by (induction p) (auto split: list.splits simp: split_slash_ne)

lemma empty_elements:
  assumes "is_abs p"
  shows "1 \<le> length (filter (\<lambda>w. w = []) (split_slash p))"
    "last p = slash \<Longrightarrow> 2 \<le> length (filter (\<lambda>w. w = []) (split_slash p)) \<or> p = ''/''"
proof -
  obtain q where p: "p = slash # q" using assms by (cases p) (auto simp: is_abs_def)
  then show "1 \<le> length (filter (\<lambda>w. w = []) (split_slash p))" by simp
  show "2 \<le> length (filter (\<lambda>w. w = []) (split_slash p)) \<or> p = ''/''" if "last p = slash"
  proof (cases "q = []")
    case False
    then have "q = butlast q @ [slash]" using that p by (metis append_butlast_last_id last_ConsR)
    then have "[] \<in> set (split_slash q)" using split_snoc_slash [of "butlast q"] by simp
    then have "0 < length (filter (\<lambda>w. w = []) (split_slash q))"
      by (auto simp: filter_empty_conv)
    then show ?thesis by (simp add: p Suc_le_eq)
  qed (simp add: p)
qed

lemma path_Dir_abs:
  assumes "is_abs p" "p \<noteq> ''/''"
  shows "is_abs (path_Dir p)" "length (path_Dir p) < length p" "getParentPath p = path_Dir p"
proof -
  define q where "q = rev (dropWhile (\<lambda>c. c \<noteq> slash) (rev p))"
  have sl: "slash \<in> set p" using assms(1) by (cases p) (auto simp: is_abs_def)
  then have r: "dropWhile (\<lambda>c. c \<noteq> slash) (rev p) \<noteq> []" by (auto simp: dropWhile_eq_Nil_conv)
  have pq: "p = q @ rev (takeWhile (\<lambda>c. c \<noteq> slash) (rev p))"
    unfolding q_def rev_append [symmetric] by simp
  have hdr: "hd (dropWhile (\<lambda>c. c \<noteq> slash) (rev p)) = slash" using hd_dropWhile [OF r] by simp
  then have lastq: "last q = slash" using r by (simp add: q_def last_rev)
  have q: "q \<noteq> []" using r by (simp add: q_def)
  then have aq: "is_abs q" using assms(1) pq by (metis hd_append2 is_abs_def)
  have d: "path_Dir p = path_Clean q" by (simp add: path_Dir_def q_def)
  show "is_abs (path_Dir p)" using clean_abs(1) [OF aq] by (simp add: d)
  then have "path_Dir p \<noteq> ''.''" by (auto simp: is_abs_def)
  then show "getParentPath p = path_Dir p" by (simp add: getParentPath_def)
  have lq: "length q \<le> length p" using pq by (metis length_append le_add1)
  have "1 < length p" using assms by (cases p; cases "tl p") (auto simp: is_abs_def)
  then show "length (path_Dir p) < length p"
    using clean_abs(2) [OF aq] empty_elements(2) [OF aq lastq] lq
    by (auto simp: d path_Clean_def is_abs_def)
qed

text \<open>A path without a slash has the empty parent, and so has the empty path.\<close>

lemma getParentPath_relative: "slash \<notin> set p \<Longrightarrow> getParentPath p = []"
  by (simp add: getParentPath_def path_Dir_def path_Clean_def dropWhile_eq_Nil_conv
      [THEN iffD2])

end
