(* ===== verification/NameFiles.thy ===== *)
theory NameFiles
  imports Names PosixDir GoPath
begin

unbundle bit_operations_syntax

text \<open>
  The files the name encryption keeps in the encrypted directories: \<^verbatim>\<open>gocryptfs.diriv\<close>
  (\<^verbatim>\<open>diriv.go\<close>) and the \<^verbatim>\<open>.name\<close> files of long names (\<^verbatim>\<open>longnames.go\<close>), and the search
  for badly named files on disk (\<^verbatim>\<open>badname.go\<close>).
\<close>

section \<open>Sequential reads and writes\<close>

definition set_pos :: "int \<Rightarrow> open_file \<Rightarrow> nat \<Rightarrow> os \<Rightarrow> os" where
  "set_pos fd e n s = s\<lparr>fds := (fds s)[nat fd := Some (e\<lparr>of_pos := n\<rparr>)]\<rparr>"

text \<open>One \<open>read\<close>; nothing to read is \<open>io.EOF\<close>.\<close>

definition File_Read :: "int \<Rightarrow> nat \<Rightarrow> os \<Rightarrow> (bytes \<times> err option) \<times> os" where
  "File_Read fd n s =
     (if n = 0 then (([], None), s)
      else case get_fd s fd of
          None \<Rightarrow> (([], Some (Errno EBADF)), s)
        | Some e \<Rightarrow> (case inode_node (inodes s ! of_ino e) of
            RegF c \<Rightarrow>
              (case next_fault (interrupted s) of
                 (Some (er, k), s') \<Rightarrow> (([], Some (Errno er)), s')
               | (None, s') \<Rightarrow>
                   (let got = range_of (of_pos e) n c
                    in ((got, if got = [] then Some EOF else None),
                        set_pos fd e (of_pos e + length got) s')))
          | _ \<Rightarrow> (([], Some (Errno EISDIR)), s)))"

text \<open>\<open>Write\<close> at the current position, everything or an error after some prefix.\<close>

definition File_Write :: "int \<Rightarrow> bytes \<Rightarrow> os \<Rightarrow> err option \<times> os" where
  "File_Write fd data s =
     (case get_fd s fd of
        None \<Rightarrow> (Some (Errno EBADF), s)
      | Some e \<Rightarrow>
          (case File_WriteAt fd data (int (of_pos e)) s of (er, s') \<Rightarrow>
             (er, set_pos fd e (of_pos e + length data) s')))"

section \<open>The directory IV\<close>

definition DirIVLen :: nat where "DirIVLen = 16"
definition DirIVFilename :: string where "DirIVFilename = ''gocryptfs.diriv''"
definition dirivPerms :: uint32 where "dirivPerms = 0x124"
definition namePerms :: uint32 where "namePerms = 0x124"
definition allZeroDirIV :: bytes where "allZeroDirIV = zeros DirIVLen"

definition fdReadDirIV :: "int \<Rightarrow> os \<Rightarrow> (err + bytes) \<times> os" where
  "fdReadDirIV fd s =
     (case File_Read fd (DirIVLen + 1) s of
        ((iv, er), s') \<Rightarrow>
          (if er \<noteq> None \<and> er \<noteq> Some EOF then Inl (ErrMsg ''read failed'')
           else if length iv \<noteq> DirIVLen then Inl (ErrMsg ''wanted 16 bytes'')
           else if iv = allZeroDirIV then Inl (ErrMsg ''diriv is all-zero'')
           else Inr iv, s'))"

definition ReadDirIVAt :: "NameTransform \<Rightarrow> int \<Rightarrow> os \<Rightarrow> ((err + bytes) \<times> os) go" where
  "ReadDirIVAt n dirfd s =
     (if deterministicNames n then Ret (Inr (zeros DirIVLen), s)
      else go_bind (Openat dirfd DirIVFilename (O_RDONLY OR O_NOFOLLOW) 0 s) (\<lambda>(r, s1). case r of
          Inl e \<Rightarrow> Ret (Inl (Errno e), s1)
        | Inr fd \<Rightarrow> (case fdReadDirIV fd s1 of (iv, s2) \<Rightarrow> Ret (iv, close_quietly fd s2))))"

text \<open>
  Creating a file with given content: what \<open>WriteDirIVAt\<close> and \<open>WriteLongNameAt\<close> do, with
  the incomplete file deleted when a step after the creation fails.
\<close>

definition create_small_file :: "int \<Rightarrow> string \<Rightarrow> uint32 \<Rightarrow> bytes \<Rightarrow> os \<Rightarrow> (err option \<times> os) go" where
  "create_small_file dirfd name perms data s =
     go_bind (Openat dirfd name (O_WRONLY OR O_CREAT OR O_EXCL) perms s) (\<lambda>(r, s1). case r of
         Inl e \<Rightarrow> Ret (Some (Errno e), s1)
       | Inr fd \<Rightarrow> (case File_Write fd data s1 of
             (Some e, s2) \<Rightarrow> go_bind (Unlinkat dirfd name False (close_quietly fd s2)) (\<lambda>(_, s3).
               Ret (Some e, s3))
           | (None, s2) \<Rightarrow> (case Close fd s2 of
                 (Inl e, s3) \<Rightarrow> go_bind (Unlinkat dirfd name False s3) (\<lambda>(_, s4). Ret (Some (Errno e), s4))
               | (Inr _, s3) \<Rightarrow> Ret (None, s3))))"

definition WriteDirIVAt :: "int \<Rightarrow> os \<Rightarrow> rng \<Rightarrow> (err option \<times> os \<times> rng) go" where
  "WriteDirIVAt dirfd s r =
     (case RandBytes DirIVLen r of (iv, r') \<Rightarrow>
        go_bind (create_small_file dirfd DirIVFilename dirivPerms iv s) (\<lambda>(er, s'). Ret (er, s', r')))"

section \<open>Long names\<close>

definition ReadLongNameAt :: "int \<Rightarrow> string \<Rightarrow> os \<Rightarrow> ((err + string) \<times> os) go" where
  "ReadLongNameAt dirfd cName s =
     go_bind (Openat dirfd (cName @ LongNameSuffix) (O_RDONLY OR O_NOFOLLOW) 0 s) (\<lambda>(r, s1). case r of
         Inl e \<Rightarrow> Ret (Inl (Errno e), s1)
       | Inr fd \<Rightarrow> (case File_ReadAt fd (344 + 1) 0 s1 of ((buf, er), s2) \<Rightarrow>
           Ret (if er \<noteq> None \<and> er \<noteq> Some EOF then Inl (the er)
                else if length buf = 0 then Inl (ErrMsg ''ReadLongName: empty file'')
                else if length buf > 344 then Inl (ErrMsg ''ReadLongName: size > limit'')
                else Inr (to_string buf), close_quietly fd s2)))"

definition DeleteLongNameAt :: "int \<Rightarrow> string \<Rightarrow> os \<Rightarrow> ((errno + unit) \<times> os) go" where
  "DeleteLongNameAt dirfd hashName s = Unlinkat dirfd (hashName @ LongNameSuffix) False s"

definition WriteLongNameAt ::
  "prims \<Rightarrow> NameTransform \<Rightarrow> int \<Rightarrow> string \<Rightarrow> string \<Rightarrow> os \<Rightarrow> (err option \<times> os) go" where
  "WriteLongNameAt P n dirfd hashName plainName0 s =
     (let plainName = path_Base plainName0
      in go_bind (ReadDirIVAt n dirfd s) (\<lambda>(iv, s1). case iv of
           Inl e \<Rightarrow> Ret (Some e, s1)
         | Inr dirIV \<Rightarrow> go_bind (EncryptName P n plainName dirIV) (\<lambda>c. case c of
             Inl e \<Rightarrow> Ret (Some e, s1)
           | Inr cName \<Rightarrow>
               create_small_file dirfd (hashName @ LongNameSuffix) namePerms (to_bytes cName) s1)))"

section \<open>Bad names on disk\<close>

text \<open>
  The search of \<open>EncryptAndHashBadName\<close>: \<open>found\<close> counts the matches, \<open>lastFound\<close> is the
  last one. The length test of the code looks at the named result \<open>cName\<close>, which is still
  empty here.
\<close>

primrec badname_search ::
  "prims \<Rightarrow> NameTransform \<Rightarrow> string \<Rightarrow> bytes \<Rightarrow> int \<Rightarrow> nat \<Rightarrow> nat \<times> string \<Rightarrow> os \<Rightarrow> ((nat \<times> string) \<times> os) go"
where
  "badname_search P n name iv dirfd 0 acc s = Ret (acc, s)"
| "badname_search P n name iv dirfd (Suc k) acc s =
     go_bind (EncryptName P n (take (Suc k) name) iv) (\<lambda>r. case r of
         Inl e \<Rightarrow> badname_search P n name iv dirfd k acc s
       | Inr cNamePart0 \<Rightarrow>
           let cName = '''';
               cNamePart = (if int (length cName) > longNameMax n then HashLongName P n cName else cNamePart0);
               cNameBadReverse = cNamePart
                 @ drop (Suc k) (take (length name - length BadnameSuffix) name)
           in go_bind (Fstatat dirfd cNameBadReverse s) (\<lambda>(st, s1). case st of
                Inr _ \<Rightarrow> badname_search P n name iv dirfd k (fst acc + 1, cNameBadReverse) s1
              | Inl _ \<Rightarrow> badname_search P n name iv dirfd k acc s1))"

definition EncryptAndHashBadName ::
  "prims \<Rightarrow> NameTransform \<Rightarrow> string \<Rightarrow> bytes \<Rightarrow> int \<Rightarrow> os \<Rightarrow> ((err + string) \<times> os) go" where
  "EncryptAndHashBadName P n name iv dirfd s =
     go_bind (EncryptAndHashName P n name iv) (\<lambda>r.
       if \<not> has_suffix name BadnameSuffix then Ret (r, s)
       else case r of
         Inl e \<Rightarrow> Ret (Inl e, s)
       | Inr c0 \<Rightarrow>
           go_bind (Fstatat dirfd c0 s) (\<lambda>(st, s1). case st of
             Inr _ \<Rightarrow> Ret (Inr c0, s1)
           | Inl _ \<Rightarrow>
               let plain = take (length name - length BadnameSuffix) name
               in go_bind (Fstatat dirfd plain s1) (\<lambda>(st2, s2).
                  go_bind (badname_search P n name iv dirfd (length plain)
                      (case st2 of Inr _ \<Rightarrow> (1, plain) | Inl _ \<Rightarrow> (0, c0)) s2) (\<lambda>((found, last), s3).
                  Ret (if found = 1 then Inr last else Inl (Errno ENOENT), s3)))))"

end
