(* ===== verification/DirCache.thy ===== *)
theory DirCache
  imports NameFiles
begin

text \<open>
  The cache of open directories (\<^verbatim>\<open>dircache.go\<close>): 20 entries of path, descriptor and
  directory IV, replaced in turn. The contract \<open>path_cache\<close> says what a client may rely on:
  a lookup answers with what was stored last for that path, or not at all.
\<close>

section \<open>Entries\<close>

definition dirCacheSize :: nat where "dirCacheSize = 20"

record dirCacheEntry =
  dce_path :: string
  dce_fd :: int
  dce_iv :: bytes

record dirCache =
  ivLen :: nat
  entries :: "dirCacheEntry list"
  nextIndex :: nat
  expireThreadRunning :: bool

text \<open>A new cache has zero-valued entries, so descriptor 0.\<close>

definition new_dirCache :: "nat \<Rightarrow> dirCache" where
  "new_dirCache n = \<lparr>ivLen = n,
     entries = replicate dirCacheSize \<lparr>dce_path = [], dce_fd = 0, dce_iv = []\<rparr>,
     nextIndex = 0, expireThreadRunning = False\<rparr>"

definition cleared :: dirCacheEntry where
  "cleared = \<lparr>dce_path = [], dce_fd = -1, dce_iv = []\<rparr>"

definition dirCacheEntry_Clear :: "dirCacheEntry \<Rightarrow> os \<Rightarrow> dirCacheEntry \<times> os" where
  "dirCacheEntry_Clear e s =
     (cleared, if dce_fd e > 0 then close_quietly (dce_fd e) s else s)"

fun clear_entries :: "dirCacheEntry list \<Rightarrow> os \<Rightarrow> dirCacheEntry list \<times> os" where
  "clear_entries [] s = ([], s)"
| "clear_entries (e # es) s =
     (case dirCacheEntry_Clear e s of (e', s1) \<Rightarrow>
        case clear_entries es s1 of (es', s2) \<Rightarrow> (e' # es', s2))"

section \<open>Operations\<close>

text \<open>\<open>Clear\<close>, which the expiry thread also runs every minute.\<close>

definition dirCache_Clear :: "dirCache \<Rightarrow> os \<Rightarrow> dirCache \<times> os" where
  "dirCache_Clear d s = (case clear_entries (entries d) s of (es, s') \<Rightarrow> (d\<lparr>entries := es\<rparr>, s'))"

definition dirCache_Store :: "dirCache \<Rightarrow> string \<Rightarrow> int \<Rightarrow> bytes \<Rightarrow> os \<Rightarrow> (dirCache \<times> os) go" where
  "dirCache_Store d path fd iv s =
     (if fd \<le> 0 \<or> length iv \<noteq> ivLen d then Panic LogPanic
      else if length (entries d) \<le> nextIndex d then Panic OutOfRange
      else
        let i = nextIndex d; d1 = d\<lparr>nextIndex := (i + 1) mod dirCacheSize\<rparr>
        in case dirCacheEntry_Clear (entries d ! i) s of (e, s1) \<Rightarrow>
           let d2 = d1\<lparr>entries := (entries d1)[i := e]\<rparr>
           in case Dup fd s1 of
                (Inl er, s2) \<Rightarrow> Ret (d2, s2)
              | (Inr fd2, s2) \<Rightarrow>
                  Ret (d2\<lparr>entries := (entries d2)[i := \<lparr>dce_path = path, dce_fd = fd2, dce_iv = iv\<rparr>],
                         expireThreadRunning := True\<rparr>, s2))"

definition live_at :: "string \<Rightarrow> dirCacheEntry \<Rightarrow> bool" where
  "live_at path e \<longleftrightarrow> dce_fd e > 0 \<and> dce_path e = path"

text \<open>A miss is \<open>(-1, nil)\<close>.\<close>

definition dirCache_Lookup :: "dirCache \<Rightarrow> string \<Rightarrow> os \<Rightarrow> ((int \<times> bytes) \<times> os) go" where
  "dirCache_Lookup d path s =
     (case List.find (live_at path) (entries d) of
        None \<Rightarrow> Ret ((-1, []), s)
      | Some e \<Rightarrow> (case Dup (dce_fd e) s of
            (Inl er, s1) \<Rightarrow> Ret ((-1, []), s1)
          | (Inr fd, s1) \<Rightarrow>
              if fd = 0 then Ret ((-1, []), s1)
              else if fd \<le> 0 \<or> length (dce_iv e) \<noteq> ivLen d then Panic LogPanic
              else Ret ((fd, dce_iv e), s1)))"

fun delete_entry :: "string \<Rightarrow> dirCacheEntry list \<Rightarrow> os \<Rightarrow> dirCacheEntry list \<times> os" where
  "delete_entry path [] s = ([], s)"
| "delete_entry path (e # es) s =
     (if dce_path e = path
      then (case dirCacheEntry_Clear e s of (e', s1) \<Rightarrow> (e' # es, s1))
      else (case delete_entry path es s of (es', s1) \<Rightarrow> (e # es', s1)))"

definition dirCache_Delete :: "dirCache \<Rightarrow> string \<Rightarrow> os \<Rightarrow> dirCache \<times> os" where
  "dirCache_Delete d path s =
     (case delete_entry path (entries d) s of (es, s') \<Rightarrow> (d\<lparr>entries := es\<rparr>, s'))"

section \<open>The contract of a cache\<close>

text \<open>
  \<open>view c p\<close> is what the cache holds for a key. Storing may drop other keys, never change
  what they stand for; a key is stored only when the cache does not hold it.
\<close>

datatype ('p, 'v) cache_op = StoreOp 'p 'v | DeleteOp 'p | ClearOp

fun last_stored :: "('p, 'v) cache_op list \<Rightarrow> 'p \<Rightarrow> 'v option" where
  "last_stored [] p = None"
| "last_stored (StoreOp q v # ops) p = (if p = q then Some v else last_stored ops p)"
| "last_stored (DeleteOp q # ops) p = (if p = q then None else last_stored ops p)"
| "last_stored (ClearOp # ops) p = None"

locale path_cache =
  fixes inv :: "'c \<Rightarrow> bool" and empty :: 'c and view :: "'c \<Rightarrow> 'p \<Rightarrow> 'v option"
    and store :: "'p \<Rightarrow> 'v \<Rightarrow> 'c \<Rightarrow> 'c" and delete :: "'p \<Rightarrow> 'c \<Rightarrow> 'c" and clear :: "'c \<Rightarrow> 'c"
    and storable :: "'p \<Rightarrow> 'v \<Rightarrow> bool" and key :: "'p \<Rightarrow> bool"
  assumes inv_empty: "inv empty" and view_empty: "view empty p = None"
    and inv_store: "inv c \<Longrightarrow> storable p v \<Longrightarrow> view c p = None \<Longrightarrow> inv (store p v c)"
    and inv_delete: "inv c \<Longrightarrow> inv (delete p c)" and inv_clear: "inv c \<Longrightarrow> inv (clear c)"
    and view_store: "inv c \<Longrightarrow> storable p v \<Longrightarrow> view c p = None \<Longrightarrow> view (store p v c) p = Some v"
    and view_store_other: "inv c \<Longrightarrow> q \<noteq> p \<Longrightarrow> storable p v \<Longrightarrow> view c p = None \<Longrightarrow>
      view (store p v c) q = view c q \<or> view (store p v c) q = None"
    and view_delete: "inv c \<Longrightarrow> key p \<Longrightarrow> view (delete p c) p = None"
    and view_delete_other: "inv c \<Longrightarrow> key p \<Longrightarrow> q \<noteq> p \<Longrightarrow> view (delete p c) q = view c q"
    and view_clear: "inv c \<Longrightarrow> view (clear c) p = None"
begin

primrec run :: "('p, 'v) cache_op list \<Rightarrow> 'c" where
  "run [] = empty"
| "run (op # ops) = (case op of
     StoreOp p v \<Rightarrow> store p v (run ops) | DeleteOp p \<Rightarrow> delete p (run ops) | ClearOp \<Rightarrow> clear (run ops))"

text \<open>The newest operation comes first.\<close>

primrec proper :: "('p, 'v) cache_op list \<Rightarrow> bool" where
  "proper [] = True"
| "proper (op # ops) = (proper ops \<and> (case op of
     StoreOp p v \<Rightarrow> storable p v \<and> view (run ops) p = None | DeleteOp p \<Rightarrow> key p | ClearOp \<Rightarrow> True))"

lemma run_inv: "proper ops \<Longrightarrow> inv (run ops)"
  by (induction ops) (auto simp: inv_empty inv_store inv_delete inv_clear split: cache_op.splits)

theorem never_stale: "proper ops \<Longrightarrow> view (run ops) p = Some v \<Longrightarrow> last_stored ops p = Some v"
proof (induction ops)
  case Nil
  then show ?case by (simp add: view_empty)
next
  case (Cons op ops)
  then have i: "inv (run ops)" using run_inv by simp
  show ?case
  proof (cases op)
    case (StoreOp q w)
    then have st: "storable q w" "view (run ops) q = None" using Cons.prems by simp_all
    show ?thesis
      using Cons StoreOp view_store [OF i st] view_store_other [OF i _ st, of p]
      by (cases "p = q") auto
  next
    case (DeleteOp q)
    then show ?thesis
      using Cons view_delete [OF i, of q] view_delete_other [OF i, of q p] by (cases "p = q") auto
  next
    case ClearOp
    then show ?thesis using Cons view_clear [OF i] by simp
  qed
qed

end

section \<open>The entries keep the contract\<close>

definition cache_view :: "dirCacheEntry list \<times> nat \<Rightarrow> string \<Rightarrow> (int \<times> bytes) option" where
  "cache_view c path = map_option (\<lambda>e. (dce_fd e, dce_iv e)) (List.find (live_at path) (fst c))"

definition put_entry :: "string \<Rightarrow> int \<times> bytes \<Rightarrow> dirCacheEntry list \<times> nat \<Rightarrow> dirCacheEntry list \<times> nat" where
  "put_entry path v c =
     ((fst c)[snd c := \<lparr>dce_path = path, dce_fd = fst v, dce_iv = snd v\<rparr>], (snd c + 1) mod dirCacheSize)"

fun drop_entry :: "string \<Rightarrow> dirCacheEntry list \<Rightarrow> dirCacheEntry list" where
  "drop_entry path [] = []"
| "drop_entry path (e # es) = (if dce_path e = path then cleared # es else e # drop_entry path es)"

text \<open>At most one live entry per path, and dead entries have the empty path.\<close>

definition cache_inv :: "dirCacheEntry list \<times> nat \<Rightarrow> bool" where
  "cache_inv c \<longleftrightarrow> length (fst c) = dirCacheSize \<and> snd c < dirCacheSize \<and>
     (\<forall>e \<in> set (fst c). dce_fd e > 0 \<or> dce_path e = []) \<and>
     (\<forall>i j. i < j \<and> j < length (fst c) \<and> dce_fd (fst c ! i) > 0 \<and> dce_fd (fst c ! j) > 0
        \<longrightarrow> dce_path (fst c ! i) \<noteq> dce_path (fst c ! j))"

lemma find_live:
  assumes "\<And>i j. i < j \<Longrightarrow> j < length es \<Longrightarrow> dce_fd (es ! i) > 0 \<Longrightarrow> dce_fd (es ! j) > 0 \<Longrightarrow>
      dce_path (es ! i) \<noteq> dce_path (es ! j)"
  shows "List.find (live_at p) es = Some e \<longleftrightarrow> (\<exists>i < length es. es ! i = e \<and> live_at p e)"
  using assms by (auto simp: find_Some_iff live_at_def)

lemma cache_view_iff:
  assumes "cache_inv c"
  shows "cache_view c p = Some v \<longleftrightarrow>
     (\<exists>i < length (fst c). live_at p (fst c ! i) \<and> v = (dce_fd (fst c ! i), dce_iv (fst c ! i)))"
proof -
  have "List.find (live_at p) (fst c) = Some e \<longleftrightarrow> (\<exists>i < length (fst c). fst c ! i = e \<and> live_at p e)" for e
    by (rule find_live) (use assms in \<open>auto simp: cache_inv_def\<close>)
  then show ?thesis by (auto simp: cache_view_def)
qed

lemma cache_view_None:
  "cache_view c p = None \<longleftrightarrow> (\<forall>i < length (fst c). \<not> live_at p (fst c ! i))"
  by (auto simp: cache_view_def find_None_iff in_set_conv_nth)

lemma drop_entry_cases:
  "(\<forall>i < length es. dce_path (es ! i) \<noteq> p) \<and> drop_entry p es = es \<or>
   (\<exists>i < length es. dce_path (es ! i) = p \<and> drop_entry p es = es[i := cleared])"
proof (induction es)
  case (Cons e es)
  show ?case
  proof (cases "dce_path e = p")
    case True
    then show ?thesis by (intro disjI2 exI [of _ 0]) simp
  next
    case False
    from Cons show ?thesis
    proof
      assume "(\<forall>i < length es. dce_path (es ! i) \<noteq> p) \<and> drop_entry p es = es"
      then show ?thesis using False by (auto simp: nth_Cons split: nat.splits)
    next
      assume "\<exists>i < length es. dce_path (es ! i) = p \<and> drop_entry p es = es[i := cleared]"
      then obtain i where "i < length es" "dce_path (es ! i) = p" "drop_entry p es = es[i := cleared]"
        by blast
      then show ?thesis using False by (intro disjI2 exI [of _ "Suc i"]) simp
    qed
  qed
qed simp

lemma cleared_simps [simp]: "dce_fd cleared = -1" "dce_path cleared = []" "\<not> live_at p cleared"
  by (simp_all add: cleared_def live_at_def)

lemma cache_inv_update:
  assumes inv: "cache_inv c" and n: "n < dirCacheSize"
    and e: "dce_fd e > 0 \<or> dce_path e = []"
    and new: "dce_fd e > 0 \<Longrightarrow> cache_view c (dce_path e) = None"
  shows "cache_inv ((fst c)[i := e], n)"
  unfolding cache_inv_def
proof (intro conjI allI impI)
  show "\<forall>x \<in> set (fst ((fst c)[i := e], n)). dce_fd x > 0 \<or> dce_path x = []"
    using inv e set_update_subset_insert [of "fst c" i e] by (auto simp: cache_inv_def)
  fix j k
  assume jk: "j < k \<and> k < length (fst ((fst c)[i := e], n)) \<and> dce_fd (fst ((fst c)[i := e], n) ! j) > 0 \<and>
    dce_fd (fst ((fst c)[i := e], n) ! k) > 0"
  then have other: "dce_fd e > 0 \<Longrightarrow> m < length (fst c) \<Longrightarrow> dce_fd (fst c ! m) > 0 \<Longrightarrow>
      dce_path (fst c ! m) \<noteq> dce_path e" for m
    using new by (auto simp: cache_view_None live_at_def)
  show "dce_path (fst ((fst c)[i := e], n) ! j) \<noteq> dce_path (fst ((fst c)[i := e], n) ! k)"
    using jk other [of j] other [of k] inv
    by (cases "i = j"; cases "i = k") (auto simp: cache_inv_def)
qed (use inv n in \<open>simp_all add: cache_inv_def\<close>)

lemma cache_inv_drop:
  assumes "cache_inv c"
  shows "cache_inv (drop_entry p (fst c), snd c)"
proof -
  have n: "snd c < dirCacheSize" using assms by (simp add: cache_inv_def)
  have upd: "cache_inv ((fst c)[i := cleared], snd c)" for i
    by (rule cache_inv_update [OF assms n]) simp_all
  from drop_entry_cases [of "fst c" p] show ?thesis
  proof
    assume "(\<forall>i < length (fst c). dce_path (fst c ! i) \<noteq> p) \<and> drop_entry p (fst c) = fst c"
    then show ?thesis using assms by simp
  next
    assume "\<exists>i < length (fst c). dce_path (fst c ! i) = p \<and> drop_entry p (fst c) = (fst c)[i := cleared]"
    then show ?thesis using upd by (elim exE conjE) (simp only:)
  qed
qed

interpretation dcache: path_cache cache_inv
  "(replicate dirCacheSize \<lparr>dce_path = [], dce_fd = 0, dce_iv = []\<rparr>, 0)" cache_view put_entry
  "\<lambda>p c. (drop_entry p (fst c), snd c)" "\<lambda>c. (map (\<lambda>_. cleared) (fst c), snd c)"
  "\<lambda>p v. fst v > 0" "\<lambda>p. p \<noteq> []"
proof (unfold_locales, goal_cases)
  case 1
  then show ?case by (simp add: cache_inv_def dirCacheSize_def)
next
  case (2 p)
  then show ?case by (auto simp: cache_view_None live_at_def)
next
  case (3 c p v)
  then show ?case
    unfolding put_entry_def by (intro cache_inv_update) (simp_all add: dirCacheSize_def)
next
  case (4 c p)
  then show ?case
    by (rule cache_inv_drop)
next
  case (5 c)
  then show ?case by (auto simp: cache_inv_def)
next
  case (6 c p v)
  then have i: "cache_inv (put_entry p v c)"
    unfolding put_entry_def by (intro cache_inv_update) (simp_all add: dirCacheSize_def)
  have "snd c < length (fst c)" using 6 by (simp add: cache_inv_def)
  then show ?case
    using 6(2) unfolding cache_view_iff [OF i]
    by (intro exI [of _ "snd c"]) (simp add: put_entry_def live_at_def)
next
  case (7 c q p v)
  then have i: "cache_inv (put_entry p v c)"
    unfolding put_entry_def by (intro cache_inv_update) (simp_all add: dirCacheSize_def)
  show ?case
  proof (cases "cache_view (put_entry p v c) q")
    case (Some w)
    then obtain k where k: "k < length (fst c)" "live_at q (fst (put_entry p v c) ! k)"
      "w = (dce_fd (fst (put_entry p v c) ! k), dce_iv (fst (put_entry p v c) ! k))"
      unfolding cache_view_iff [OF i] by (auto simp: put_entry_def)
    have "k \<noteq> snd c" using k(1,2) 7(2) by (auto simp: put_entry_def live_at_def)
    then have "cache_view c q = Some w"
      using k unfolding cache_view_iff [OF 7(1)] by (auto simp: put_entry_def)
    then show ?thesis using Some by simp
  qed simp
next
  case (8 c p)
  show ?case
    unfolding cache_view_None
  proof (intro allI impI notI)
    fix k assume k: "k < length (fst (drop_entry p (fst c), snd c))"
      "live_at p (fst (drop_entry p (fst c), snd c) ! k)"
    from drop_entry_cases [of "fst c" p] show False
    proof
      assume "(\<forall>i < length (fst c). dce_path (fst c ! i) \<noteq> p) \<and> drop_entry p (fst c) = fst c"
      then show False using k by (auto simp: live_at_def)
    next
      assume "\<exists>i < length (fst c). dce_path (fst c ! i) = p \<and> drop_entry p (fst c) = (fst c)[i := cleared]"
      then obtain i where i: "i < length (fst c)" "dce_path (fst c ! i) = p"
        "drop_entry p (fst c) = (fst c)[i := cleared]" by blast
      have li: "dce_fd (fst c ! i) > 0" using i 8 by (auto simp: cache_inv_def dest: nth_mem)
      have "k \<noteq> i" using k i by auto
      then have live: "live_at p (fst c ! k)" "k < length (fst c)" using k i by simp_all
      have uniq: "dce_path (fst c ! a) \<noteq> dce_path (fst c ! b)"
        if "a < b" "b < length (fst c)" "dce_fd (fst c ! a) > 0" "dce_fd (fst c ! b) > 0" for a b
        using 8(1) that unfolding cache_inv_def by blast
      show False
        using live i li \<open>k \<noteq> i\<close> uniq [of i k] uniq [of k i] by (cases "k < i") (auto simp: live_at_def)
    qed
  qed
next
  case (9 c p q)
  have i': "cache_inv (drop_entry p (fst c), snd c)"
    by (rule cache_inv_drop [OF 9(1)])
  have "live_at q (drop_entry p (fst c) ! k) = live_at q (fst c ! k) \<and>
      (live_at q (fst c ! k) \<longrightarrow> drop_entry p (fst c) ! k = fst c ! k)" if "k < length (fst c)" for k
  proof -
    from drop_entry_cases [of "fst c" p] show ?thesis
    proof
      assume "\<exists>i < length (fst c). dce_path (fst c ! i) = p \<and> drop_entry p (fst c) = (fst c)[i := cleared]"
      then obtain i where "i < length (fst c)" "dce_path (fst c ! i) = p"
        "drop_entry p (fst c) = (fst c)[i := cleared]" by blast
      then show ?thesis using that 9(3) by (cases "k = i") (auto simp: live_at_def)
    qed auto
  qed
  then have same: "(live_at q (drop_entry p (fst c) ! k) \<and>
        v = (dce_fd (drop_entry p (fst c) ! k), dce_iv (drop_entry p (fst c) ! k))) =
      (live_at q (fst c ! k) \<and> v = (dce_fd (fst c ! k), dce_iv (fst c ! k)))"
    if "k < length (fst c)" for k v
    using that by auto
  have len: "length (drop_entry p (fst c)) = length (fst c)"
    using drop_entry_cases [of "fst c" p] by auto
  have "cache_view (drop_entry p (fst c), snd c) q = Some v \<longleftrightarrow> cache_view c q = Some v" for v
    unfolding cache_view_iff [OF i'] cache_view_iff [OF 9(1)] fst_conv len using same by blast
  then show ?case by (metis option.exhaust)
next
  case (10 c p)
  then show ?case by (auto simp: cache_view_None)
qed

section \<open>The operations refine the contract\<close>

definition cache_of :: "dirCache \<Rightarrow> dirCacheEntry list \<times> nat" where
  "cache_of d = (entries d, nextIndex d)"

lemma clear_entries_fst: "fst (clear_entries es s) = map (\<lambda>_. cleared) es"
  by (induction es arbitrary: s) (simp_all add: dirCacheEntry_Clear_def case_prod_beta)

lemma delete_entry_fst: "fst (delete_entry p es s) = drop_entry p es"
  by (induction es arbitrary: s) (simp_all add: dirCacheEntry_Clear_def case_prod_beta)

lemma Clear_refines: "cache_of (fst (dirCache_Clear d s)) = (map (\<lambda>_. cleared) (entries d), nextIndex d)"
  using clear_entries_fst [of "entries d" s]
  by (auto simp: dirCache_Clear_def cache_of_def split: prod.splits)

lemma Delete_refines: "cache_of (fst (dirCache_Delete d p s)) = (drop_entry p (entries d), nextIndex d)"
  using delete_entry_fst [of p "entries d" s]
  by (auto simp: dirCache_Delete_def cache_of_def split: prod.splits)

text \<open>
  A store that can duplicate the descriptor puts the duplicate in; one that cannot only
  gives up the slot.
\<close>

lemma Store_refines:
  assumes "cache_inv (cache_of d)" "fd > 0" "length iv = ivLen d"
  shows "\<exists>d' s'. dirCache_Store d p fd iv s = Ret (d', s') \<and> ivLen d' = ivLen d \<and>
     ((\<exists>fd2. cache_of d' = put_entry p (fd2, iv) (cache_of d)) \<or>
      cache_of d' = ((entries d)[nextIndex d := cleared], (nextIndex d + 1) mod dirCacheSize))"
proof -
  have i: "nextIndex d < length (entries d)" using assms(1) by (simp add: cache_inv_def cache_of_def)
  obtain s1 where c: "dirCacheEntry_Clear (entries d ! nextIndex d) s = (cleared, s1)"
    by (simp add: dirCacheEntry_Clear_def)
  obtain r s2 where du: "Dup fd s1 = (r, s2)" by (cases "Dup fd s1")
  show ?thesis
    using assms i c du
    by (cases r) (auto simp: dirCache_Store_def Let_def cache_of_def put_entry_def)
qed

lemma Lookup_hit:
  assumes "dirCache_Lookup d p s = Ret ((fd, iv), s')" "fd > 0"
  shows "\<exists>fd0. cache_view (cache_of d) p = Some (fd0, iv) \<and> Dup fd0 s = (Inr fd, s') \<and> length iv = ivLen d"
  using assms
  by (auto simp: dirCache_Lookup_def cache_view_def cache_of_def split: option.splits prod.splits sum.splits if_splits)

section \<open>Traces of the cache\<close>

text \<open>
  While standard input stays open no duplicate gets descriptor 0, which the cache takes for
  no descriptor.
\<close>

definition stdin_open :: "os \<Rightarrow> bool" where
  "stdin_open s \<longleftrightarrow> get_fd s 0 \<noteq> None"

lemma stdin_free_slot: "get_fd s 0 \<noteq> None \<Longrightarrow> 0 < free_slot (fds s)"
  by (cases "fds s" rule: free_slot.cases) (auto simp: get_fd_def)

lemma close_quietly_fd0: "fd > 0 \<Longrightarrow> get_fd (close_quietly fd s) 0 = get_fd s 0"
  by (auto simp: close_quietly_def Close_def next_fault_def get_fd_def nth_list_update
      split: option.splits list.splits prod.splits)

lemma Dup_positive:
  assumes "Dup fd s = (Inr fd2, s')" "stdin_open s"
  shows "fd2 > 0"
proof -
  obtain s1 where "raw_dup fd s1 = (Inr fd2, s')" "fds s1 = fds s"
    using assms(1) by (auto simp: Dup_def sys_def next_fault_def split: option.splits list.splits prod.splits)
  moreover have "0 < free_slot (fds s)" using assms(2) stdin_free_slot by (simp add: stdin_open_def)
  ultimately show ?thesis
    by (auto simp: raw_dup_def alloc_fd_def Let_def split: option.splits prod.splits)
qed

lemma Store_cases:
  assumes "cache_inv (cache_of d)" "fd > 0" "length iv = ivLen d" "stdin_open s"
  obtains d' s' where "dirCache_Store d p fd iv s = Ret (d', s')" "ivLen d' = ivLen d"
    "(\<exists>fd2 > 0. cache_of d' = put_entry p (fd2, iv) (cache_of d)) \<or>
     cache_of d' = ((entries d)[nextIndex d := cleared], (nextIndex d + 1) mod dirCacheSize)"
proof -
  have i: "nextIndex d < length (entries d)" using assms(1) by (simp add: cache_inv_def cache_of_def)
  obtain s1 where c: "dirCacheEntry_Clear (entries d ! nextIndex d) s = (cleared, s1)" and s1: "stdin_open s1"
    using assms(4) close_quietly_fd0 by (auto simp: dirCacheEntry_Clear_def stdin_open_def)
  obtain r s2 where du: "Dup fd s1 = (r, s2)" by (cases "Dup fd s1")
  show thesis
  proof (cases r)
    case (Inl e)
    then show ?thesis using that assms i c du by (simp add: dirCache_Store_def Let_def cache_of_def)
  next
    case (Inr fd2)
    then have "fd2 > 0" using Dup_positive du s1 by blast
    then show ?thesis using that assms i c du Inr
      by (auto simp: dirCache_Store_def Let_def cache_of_def put_entry_def)
  qed
qed

text \<open>Giving up a slot keeps the invariant and what the other entries stand for.\<close>

lemma evict:
  assumes "cache_inv c" "n < dirCacheSize"
  shows "cache_inv ((fst c)[k := cleared], n)"
    "cache_view ((fst c)[k := cleared], n) q = Some v \<Longrightarrow> cache_view c q = Some v"
proof -
  show i: "cache_inv ((fst c)[k := cleared], n)"
    by (rule cache_inv_update [OF assms]) simp_all
  assume "cache_view ((fst c)[k := cleared], n) q = Some v"
  then obtain j where "j < length (fst c)" "live_at q ((fst c)[k := cleared] ! j)"
    "v = (dce_fd ((fst c)[k := cleared] ! j), dce_iv ((fst c)[k := cleared] ! j))"
    unfolding cache_view_iff [OF i] by auto
  then show "cache_view c q = Some v"
    unfolding cache_view_iff [OF assms(1)] by (cases "j = k") auto
qed

text \<open>
  The states a cache goes through, with the operations so far, the newest first. Any path may
  be stored, deleted and cleared at any time, whatever system calls fail. The last argument
  says that the history is regular: a path was stored only when the cache did not hold it, with
  standard input open, and no empty path was deleted. A client that stores after a missed
  lookup, like \<open>prepareAtSyscall\<close>, keeps to this as long as no lookup misses because a
  descriptor could not be duplicated.
\<close>

inductive cache_run :: "nat \<Rightarrow> dirCache \<Rightarrow> (string, bytes) cache_op list \<Rightarrow> bool \<Rightarrow> bool" for n where
  run_new: "cache_run n (new_dirCache n) [] True"
| run_store: "cache_run n d ops reg \<Longrightarrow> dirCache_Store d p fd iv s = Ret (d', s') \<Longrightarrow>
    cache_run n d' (StoreOp p iv # ops) (reg \<and> cache_view (cache_of d) p = None \<and> stdin_open s)"
| run_delete: "cache_run n d ops reg \<Longrightarrow> dirCache_Delete d p s = (d', s') \<Longrightarrow>
    cache_run n d' (DeleteOp p # ops) (reg \<and> p \<noteq> [])"
| run_clear: "cache_run n d ops reg \<Longrightarrow> dirCache_Clear d s = (d', s') \<Longrightarrow> cache_run n d' (ClearOp # ops) reg"

text \<open>Everything that was stored for a path since the last clearing.\<close>

fun all_stored :: "('p, 'v) cache_op list \<Rightarrow> 'p \<Rightarrow> 'v list" where
  "all_stored [] p = []"
| "all_stored (StoreOp q v # ops) p = (if p = q then v # all_stored ops p else all_stored ops p)"
| "all_stored (DeleteOp q # ops) p = all_stored ops p"
| "all_stored (ClearOp # ops) p = []"

lemma ivLen_ops:
  "ivLen (fst (dirCache_Delete d p s)) = ivLen d" "ivLen (fst (dirCache_Clear d s)) = ivLen d"
  by (simp_all add: dirCache_Delete_def dirCache_Clear_def split: prod.splits)

text \<open>In every history: the shape of the cache, and where its entries come from.\<close>

definition cache_shape :: "nat \<Rightarrow> (string, bytes) cache_op list \<Rightarrow> dirCache \<Rightarrow> bool" where
  "cache_shape n ops d \<longleftrightarrow> length (entries d) = dirCacheSize \<and> nextIndex d < dirCacheSize \<and> ivLen d = n \<and>
     (\<forall>e \<in> set (entries d). dce_fd e > 0 \<longrightarrow> length (dce_iv e) = n \<and> dce_iv e \<in> set (all_stored ops (dce_path e)))"

lemma Store_shape:
  assumes "cache_shape n ops d" "dirCache_Store d p fd iv s = Ret (d', s')"
  shows "cache_shape n (StoreOp p iv # ops) d'"
proof -
  have i: "length iv = n" using assms by (auto simp: dirCache_Store_def cache_shape_def split: if_splits)
  obtain e where d': "entries d' = (entries d)[nextIndex d := e]" "nextIndex d' = (nextIndex d + 1) mod dirCacheSize"
    "ivLen d' = ivLen d" "e = cleared \<or> dce_path e = p \<and> dce_iv e = iv"
    using assms(2) by (auto simp: dirCache_Store_def Let_def dirCacheEntry_Clear_def split: if_splits prod.splits sum.splits)
  have "length (dce_iv x) = n \<and> dce_iv x \<in> set (all_stored (StoreOp p iv # ops) (dce_path x))"
    if "x \<in> set (entries d')" "dce_fd x > 0" for x
  proof -
    have "x \<in> insert e (set (entries d))"
      using that(1) set_update_subset_insert [of "entries d" "nextIndex d" e] unfolding d'(1) by blast
    then consider "x = e" | "x \<in> set (entries d)" by blast
    then show ?thesis using that(2) assms(1) d'(4) i by cases (auto simp: cache_shape_def)
  qed
  then show ?thesis using assms(1) d'(1-3) by (simp add: cache_shape_def dirCacheSize_def)
qed

lemma Delete_shape:
  assumes "cache_shape n ops d" "dirCache_Delete d p s = (d', s')"
  shows "cache_shape n (DeleteOp p # ops) d'"
proof -
  have e: "entries d' = drop_entry p (entries d)" "nextIndex d' = nextIndex d" "ivLen d' = ivLen d"
    using Delete_refines [of d p s] ivLen_ops(1) [of d p s] assms(2) by (simp_all add: cache_of_def)
  have "set (drop_entry p es) \<subseteq> insert cleared (set es) \<and> length (drop_entry p es) = length es" for es
    by (induction es) auto
  then show ?thesis using assms(1) e by (fastforce simp: cache_shape_def)
qed

lemma Clear_shape: "cache_shape n ops d \<Longrightarrow> dirCache_Clear d s = (d', s') \<Longrightarrow> cache_shape n (ClearOp # ops) d'"
  using Clear_refines [of d s] ivLen_ops(2) [of d s] by (auto simp: cache_shape_def cache_of_def)

lemma cache_run_shape: "cache_run n d ops reg \<Longrightarrow> cache_shape n ops d"
proof (induction rule: cache_run.induct)
  case run_new
  then show ?case by (simp add: cache_shape_def new_dirCache_def dirCacheSize_def)
qed (auto intro: Store_shape Delete_shape Clear_shape)

text \<open>With this shape a lookup never panics, and a hit was stored.\<close>

lemma Dup_nonneg: "Dup fd s = (Inr fd2, s') \<Longrightarrow> 0 \<le> fd2"
  by (auto simp: Dup_def sys_def raw_dup_def alloc_fd_def Let_def split: option.splits prod.splits)

lemma Lookup_shape:
  assumes "cache_shape n ops d"
  shows "\<exists>fd iv s'. dirCache_Lookup d p s = Ret ((fd, iv), s') \<and>
    (fd > 0 \<longrightarrow> length iv = n \<and> iv \<in> set (all_stored ops p))"
proof (cases "List.find (live_at p) (entries d)")
  case (Some e)
  then have e: "e \<in> set (entries d)" "dce_fd e > 0" "dce_path e = p"
    by (auto simp: find_Some_iff live_at_def)
  then have i: "length (dce_iv e) = n" "dce_iv e \<in> set (all_stored ops p)" "ivLen d = n"
    using assms by (auto simp: cache_shape_def)
  obtain r s1 where "Dup (dce_fd e) s = (r, s1)" by (cases "Dup (dce_fd e) s")
  then show ?thesis using Some i Dup_nonneg [of "dce_fd e" s] by (cases r) (force simp: dirCache_Lookup_def)+
qed (simp add: dirCache_Lookup_def)

text \<open>In a regular history the contract holds.\<close>

lemma cache_run_inv:
  assumes "cache_run n d ops reg" "reg"
  shows "cache_inv (cache_of d) \<and> ivLen d = n \<and>
     (\<forall>q v. cache_view (cache_of d) q = Some v \<longrightarrow> last_stored ops q = Some (snd v))"
  using assms
proof (induction rule: cache_run.induct)
  case run_new
  have "cache_of (new_dirCache n) = (replicate dirCacheSize \<lparr>dce_path = [], dce_fd = 0, dce_iv = []\<rparr>, 0)"
    by (simp add: cache_of_def new_dirCache_def)
  then show ?case using dcache.inv_empty dcache.view_empty by (simp add: new_dirCache_def)
next
  case (run_store d ops reg p fd iv s d' s')
  then have inv: "cache_inv (cache_of d)" and n: "ivLen d = n" and absent: "cache_view (cache_of d) p = None"
    and IH: "\<forall>q v. cache_view (cache_of d) q = Some v \<longrightarrow> last_stored ops q = Some (snd v)" by simp_all
  have fd: "fd > 0" "length iv = ivLen d" "stdin_open s"
    using run_store.hyps(2) run_store.prems by (auto simp: dirCache_Store_def split: if_splits)
  obtain d1 s1 where st: "dirCache_Store d p fd iv s = Ret (d1, s1)" "ivLen d1 = ivLen d"
    "(\<exists>fd2 > 0. cache_of d1 = put_entry p (fd2, iv) (cache_of d)) \<or>
     cache_of d1 = ((entries d)[nextIndex d := cleared], (nextIndex d + 1) mod dirCacheSize)"
    using Store_cases [OF inv fd] by metis
  then have d': "d' = d1" using run_store.hyps(2) by simp
  from st(3) show ?case
  proof
    assume "\<exists>fd2 > 0. cache_of d1 = put_entry p (fd2, iv) (cache_of d)"
    then obtain fd2 where f: "fd2 > 0" "cache_of d1 = put_entry p (fd2, iv) (cache_of d)" by blast
    have same: "cache_view (cache_of d1) p = Some (fd2, iv)"
      using dcache.view_store [OF inv _ absent] f by simp
    have other: "cache_view (cache_of d1) q = cache_view (cache_of d) q \<or> cache_view (cache_of d1) q = None"
      if "q \<noteq> p" for q
      using dcache.view_store_other [OF inv that _ absent] f by simp
    have "last_stored (StoreOp p iv # ops) q = Some (snd v)" if "cache_view (cache_of d1) q = Some v" for q v
    proof (cases "q = p")
      case False
      then have "cache_view (cache_of d) q = Some v" using other [OF False] that by (elim disjE) simp_all
      then show ?thesis using IH False by (cases v) simp
    qed (use that same in auto)
    then show ?thesis
      using dcache.inv_store [OF inv _ absent] f st(2) n d' by auto
  next
    assume e: "cache_of d1 = ((entries d)[nextIndex d := cleared], (nextIndex d + 1) mod dirCacheSize)"
    have m: "(nextIndex d + 1) mod dirCacheSize < dirCacheSize" by (simp add: dirCacheSize_def)
    have ev: "cache_view (cache_of d1) q = Some v \<Longrightarrow> cache_view (cache_of d) q = Some v" for q v
      using evict(2) [OF inv m, of "nextIndex d"] e by (simp add: cache_of_def)
    have "q \<noteq> p" if "cache_view (cache_of d1) q = Some v" for q v
      using ev [OF that] absent by auto
    moreover have "cache_inv (cache_of d1)"
      using evict(1) [OF inv m, of "nextIndex d"] e by (simp add: cache_of_def)
    ultimately show ?thesis using ev IH st(2) n d' by auto
  qed
next
  case (run_delete d ops reg p s d' s')
  then have inv: "cache_inv (cache_of d)" and p: "p \<noteq> []" and IH: "\<forall>q v. cache_view (cache_of d) q = Some v \<longrightarrow> last_stored ops q = Some (snd v)" and n: "ivLen d = n" by simp_all
  have c: "cache_of d' = (drop_entry p (fst (cache_of d)), snd (cache_of d))" "ivLen d' = ivLen d"
    using Delete_refines [of d p s] ivLen_ops(1) [of d p s] run_delete.hyps(2) by (simp_all add: cache_of_def)
  show ?case
    using dcache.inv_delete [OF inv, of p] dcache.view_delete [OF inv p]
      dcache.view_delete_other [OF inv p] IH n c by auto
next
  case (run_clear d ops reg s d' s')
  then have inv: "cache_inv (cache_of d)" and n: "ivLen d = n" by simp_all
  have c: "cache_of d' = (map (\<lambda>_. cleared) (fst (cache_of d)), snd (cache_of d))" "ivLen d' = ivLen d"
    using Clear_refines [of d s] ivLen_ops(2) [of d s] run_clear.hyps(2) by (simp_all add: cache_of_def)
  show ?case
    using dcache.inv_clear [OF inv] dcache.view_clear [OF inv] n c by simp
qed

end
