(* ===== verification/World.thy ===== *)
theory World
  imports FileContent DirCache "HOL-Library.AList"
begin

text \<open>
  The state of the process: the operating system, the random source and the open volumes
  (\<^verbatim>\<open>volume.go\<close>), with the tables of volumes and of file handles. Both tables give out the
  smallest free number; the locale \<open>id_table\<close> states what a table of numbered objects
  promises.
\<close>

section \<open>Volumes\<close>

text \<open>
  \<open>contentEnc\<close> and the volume share one \<open>CryptoCore\<close>; it is kept in \<open>contentEnc\<close>. The
  table of handles is an association list with distinct keys.
\<close>

record volume =
  volumeID :: int
  rootCipherDir :: string
  plainTextNames :: bool
  nameTransform :: NameTransform
  contentEnc :: contentEnc
  dirCache :: dirCache
  fileHandles :: "(int \<times> File) list"

record world =
  w_os :: os
  w_rng :: rng
  OpenedVolumes :: "(int \<times> volume) list"

section \<open>State passing\<close>

text \<open>An operation of the library: it returns with a new state, panics, or hangs.\<close>

type_synonym 'a io = "world \<Rightarrow> ('a \<times> world) go"

definition ret :: "'a \<Rightarrow> 'a io" where
  "ret x w = Ret (x, w)"

definition bindw :: "'a io \<Rightarrow> ('a \<Rightarrow> 'b io) \<Rightarrow> 'b io" where
  "bindw m f w = go_bind (m w) (\<lambda>(x, w'). f x w')"

definition lift_os :: "(os \<Rightarrow> ('a \<times> os) go) \<Rightarrow> 'a io" where
  "lift_os f w = go_bind (f (w_os w)) (\<lambda>(x, s). Ret (x, w\<lparr>w_os := s\<rparr>))"

definition call_os :: "(os \<Rightarrow> 'a \<times> os) \<Rightarrow> 'a io" where
  "call_os f = lift_os (\<lambda>s. Ret (f s))"

definition lift_go :: "'a go \<Rightarrow> 'a io" where
  "lift_go m w = go_bind m (\<lambda>x. Ret (x, w))"

definition lift_rng :: "(os \<Rightarrow> rng \<Rightarrow> ('a \<times> os \<times> rng) go) \<Rightarrow> 'a io" where
  "lift_rng f w = go_bind (f (w_os w) (w_rng w)) (\<lambda>(x, s, r). Ret (x, w\<lparr>w_os := s, w_rng := r\<rparr>))"

text \<open>\<open>syscall.Close\<close> with its result dropped, and \<open>defer syscall.Close(fd)\<close>.\<close>

definition close_fd :: "int \<Rightarrow> unit io" where
  "close_fd fd = call_os (\<lambda>s. ((), close_quietly fd s))"

definition defer_close :: "int \<Rightarrow> 'a io \<Rightarrow> 'a io" where
  "defer_close fd m = bindw m (\<lambda>x. bindw (close_fd fd) (\<lambda>_. ret x))"

text \<open>\<open>if err != nil { return d }\<close>.\<close>

definition or_return :: "'a \<Rightarrow> ('e + 'b) io \<Rightarrow> ('b \<Rightarrow> 'a io) \<Rightarrow> 'a io" where
  "or_return d m f = bindw m (\<lambda>r. case r of Inl e \<Rightarrow> ret d | Inr x \<Rightarrow> f x)"

definition none_or_return :: "'a \<Rightarrow> err option io \<Rightarrow> 'a io \<Rightarrow> 'a io" where
  "none_or_return d m f = bindw m (\<lambda>r. case r of Some e \<Rightarrow> ret d | None \<Rightarrow> f)"

lemma ret_simp [simp, go_simps]: "ret x w = Ret (x, w)"
  by (simp add: ret_def)

lemma bindw_ret [simp, go_simps]: "bindw (ret x) f = f x"
  by (simp add: bindw_def fun_eq_iff)

lemma bindw_assoc: "bindw (bindw m f) g = bindw m (\<lambda>x. bindw (f x) g)"
  by (auto simp: bindw_def fun_eq_iff go_bind_assoc case_prod_beta intro!: arg_cong [of _ _ "go_bind (m _)"])

lemma bindw_eq_Ret:
  "bindw m f w = Ret (y, w'') \<longleftrightarrow> (\<exists>x w'. m w = Ret (x, w') \<and> f x w' = Ret (y, w''))"
  by (auto simp: bindw_def go_bind_eq_Ret)

section \<open>Errors as booleans, wiping\<close>

definition errToBool :: "'e + unit \<Rightarrow> bool" where
  "errToBool e = (case e of Inl _ \<Rightarrow> False | Inr _ \<Rightarrow> True)"

definition wipe :: "bytes \<Rightarrow> bytes" where
  "wipe d = map (\<lambda>_. 0) d"

section \<open>Tables of numbered objects\<close>

lemma filter_shrinks: "c \<in> set ks \<Longrightarrow> length (filter (\<lambda>k. c + 1 \<le> k) ks) < length (filter (\<lambda>k. c \<le> k) (ks :: int list))"
proof (induction ks)
  case (Cons k ks)
  have le: "length (filter (\<lambda>k. c + 1 \<le> k) ks) \<le> length (filter (\<lambda>k. c \<le> k) ks)"
    by (induction ks) auto
  show ?case using Cons le by auto
qed simp

text \<open>
  The search loop of \<open>registerFileHandle\<close> and of \<open>registerNewVolume\<close>: count up from \<open>c\<close>
  until a number is free.
\<close>

function free_id :: "int list \<Rightarrow> int \<Rightarrow> int" where
  "free_id ks c = (if c \<in> set ks then free_id ks (c + 1) else c)"
  by pat_completeness auto
termination
  by (relation "measure (\<lambda>(ks, c). length (filter (\<lambda>k. c \<le> k) ks))") (auto intro: filter_shrinks)

declare free_id.simps [simp del]

lemma free_id_spec:
  "free_id ks c \<notin> set ks \<and> c \<le> free_id ks c \<and> (\<forall>k. c \<le> k \<and> k < free_id ks c \<longrightarrow> k \<in> set ks)"
proof (induction ks c rule: free_id.induct)
  case (1 ks c)
  show ?case
  proof (cases "c \<in> set ks")
    case True
    then have "free_id ks c = free_id ks (c + 1)" by (subst free_id.simps) simp
    moreover have "k = c \<or> c + 1 \<le> k" if "c \<le> k" for k using that by linarith
    ultimately show ?thesis using 1 [OF True] True by (metis add_le_imp_le_right le_add_same_cancel1 order_trans zero_le_one)
  next
    case False
    then have "free_id ks c = c" by (subst free_id.simps) simp
    then show ?thesis using False by auto
  qed
qed

locale id_table =
  fixes lookup :: "'t \<Rightarrow> int \<Rightarrow> 'a option" and ids :: "'t \<Rightarrow> int list"
    and add :: "int \<Rightarrow> 'a \<Rightarrow> 't \<Rightarrow> 't" and remove :: "int \<Rightarrow> 't \<Rightarrow> 't"
  assumes ids_lookup: "k \<in> set (ids t) \<longleftrightarrow> lookup t k \<noteq> None"
    and lookup_add: "lookup (add k x t) j = (if j = k then Some x else lookup t j)"
    and lookup_remove: "lookup (remove k t) j = (if j = k then None else lookup t j)"
begin

definition register :: "'a \<Rightarrow> 't \<Rightarrow> int \<times> 't" where
  "register x t = (let k = free_id (ids t) 0 in (k, add k x t))"

text \<open>A new object gets the smallest unused number and disturbs no other object.\<close>

lemma register_spec:
  assumes "register x t = (k, t')"
  shows "lookup t k = None" "0 \<le> k" "lookup t' = (lookup t)(k \<mapsto> x)"
    "0 \<le> j \<Longrightarrow> j < k \<Longrightarrow> lookup t j \<noteq> None"
  using assms free_id_spec [of "ids t" 0] ids_lookup [of _ t]
  by (auto simp: register_def Let_def lookup_add fun_eq_iff)

lemma remove_register:
  assumes "register x t = (k, t')"
  shows "lookup (remove k t') = lookup t"
  using register_spec(1,3) [OF assms] by (auto simp: lookup_remove fun_eq_iff)

end

definition table_lookup :: "(int \<times> 'a) list \<Rightarrow> int \<Rightarrow> 'a option" where
  "table_lookup t k = map_of t k"

interpretation tbl: id_table table_lookup "map fst" AList.update AList.delete
proof (unfold_locales, goal_cases)
  case (1 k t)
  show ?case by (simp add: table_lookup_def map_of_eq_None_iff)
next
  case (2 k x t j)
  show ?case by (simp add: table_lookup_def update_conv')
next
  case (3 k t j)
  show ?case by (simp add: table_lookup_def delete_conv')
qed

section \<open>Volumes and handles in the state\<close>

definition volume_of :: "world \<Rightarrow> int \<Rightarrow> volume option" where
  "volume_of w sid = table_lookup (OpenedVolumes w) sid"

definition set_volume :: "int \<Rightarrow> volume \<Rightarrow> world \<Rightarrow> world" where
  "set_volume sid v w = w\<lparr>OpenedVolumes := AList.update sid v (OpenedVolumes w)\<rparr>"

definition handle_of :: "world \<Rightarrow> int \<Rightarrow> int \<Rightarrow> File option" where
  "handle_of w sid h = (case volume_of w sid of None \<Rightarrow> None | Some v \<Rightarrow> table_lookup (fileHandles v) h)"

text \<open>The opening lines of every exported function: load the volume or return \<open>dflt\<close>.\<close>

definition with_volume :: "int \<Rightarrow> 'a \<Rightarrow> (volume \<Rightarrow> 'a io) \<Rightarrow> 'a io" where
  "with_volume sid dflt f w = (case volume_of w sid of None \<Rightarrow> Ret (dflt, w) | Some v \<Rightarrow> f v w)"

definition modify_volume :: "int \<Rightarrow> (volume \<Rightarrow> volume) \<Rightarrow> unit io" where
  "modify_volume sid f w = go_bind (deref (volume_of w sid)) (\<lambda>v. Ret ((), set_volume sid (f v) w))"

text \<open>\<open>f := volume.fileHandles[handleID]\<close> followed by a use of \<open>f\<close>, which panics on nil.\<close>

definition get_handle :: "int \<Rightarrow> int \<Rightarrow> File io" where
  "get_handle sid h w = go_bind (deref (handle_of w sid h)) (\<lambda>f. Ret (f, w))"

definition put_handle :: "int \<Rightarrow> int \<Rightarrow> File \<Rightarrow> unit io" where
  "put_handle sid h f = modify_volume sid (\<lambda>v. v\<lparr>fileHandles := AList.update h f (fileHandles v)\<rparr>)"

definition registerFileHandle :: "int \<Rightarrow> int \<Rightarrow> string \<Rightarrow> int io" where
  "registerFileHandle sid fd path w =
     go_bind (deref (volume_of w sid)) (\<lambda>v.
       let c = free_id (map fst (fileHandles v)) 0;
           f = \<lparr>file_fd = fd, file_path = path, file_ID = None, fdReaders = 0\<rparr>
       in Ret (c, set_volume sid (v\<lparr>fileHandles := AList.update c f (fileHandles v)\<rparr>) w))"

definition storeNewVolume :: "volume \<Rightarrow> int io" where
  "storeNewVolume v w =
     (let c = free_id (map fst (OpenedVolumes w)) 0
      in Ret (c, w\<lparr>OpenedVolumes := AList.update c v (OpenedVolumes w)\<rparr>))"

lemma volume_of_set [simp]:
  "volume_of (set_volume sid v w) sid' = (if sid' = sid then Some v else volume_of w sid')"
  by (simp add: volume_of_def set_volume_def tbl.lookup_add)

lemma set_volume_other [simp]:
  "w_os (set_volume sid v w) = w_os w" "w_rng (set_volume sid v w) = w_rng w"
  by (simp_all add: set_volume_def)

lemma volume_of_os [simp]:
  "volume_of (w\<lparr>w_os := s\<rparr>) sid = volume_of w sid" "volume_of (w\<lparr>w_rng := r\<rparr>) sid = volume_of w sid"
  by (simp_all add: volume_of_def)

lemma handle_of_os [simp]:
  "handle_of (w\<lparr>w_os := s\<rparr>) sid h = handle_of w sid h" "handle_of (w\<lparr>w_rng := r\<rparr>) sid h = handle_of w sid h"
  by (simp_all add: handle_of_def)

text \<open>
  The number of a new handle is the smallest unused one; the table changes there only, and
  no other volume changes.
\<close>

lemma registerFileHandle_spec:
  assumes "volume_of w sid = Some v"
  obtains c w' where "registerFileHandle sid fd path w = Ret (c, w')" "0 \<le> c" "handle_of w sid c = None"
    "\<And>j. 0 \<le> j \<Longrightarrow> j < c \<Longrightarrow> handle_of w sid j \<noteq> None"
    "\<And>sid' j. handle_of w' sid' j = (if sid' = sid \<and> j = c
        then Some \<lparr>file_fd = fd, file_path = path, file_ID = None, fdReaders = 0\<rparr> else handle_of w sid' j)"
    "w_os w' = w_os w"
proof -
  let ?f = "\<lparr>file_fd = fd, file_path = path, file_ID = None, fdReaders = 0\<rparr>"
  define c where "c = free_id (map fst (fileHandles v)) 0"
  define t where "t = AList.update c ?f (fileHandles v)"
  have reg: "tbl.register ?f (fileHandles v) = (c, t)" by (simp add: tbl.register_def c_def t_def Let_def)
  have "registerFileHandle sid fd path w = Ret (c, set_volume sid (v\<lparr>fileHandles := t\<rparr>) w)"
    using assms by (simp add: registerFileHandle_def c_def t_def Let_def)
  then show thesis
    by (rule that) (use assms tbl.register_spec [OF reg] in \<open>auto simp: handle_of_def fun_eq_iff\<close>)
qed

lemma storeNewVolume_spec:
  obtains c w' where "storeNewVolume v w = Ret (c, w')" "0 \<le> c" "volume_of w c = None"
    "\<And>j. 0 \<le> j \<Longrightarrow> j < c \<Longrightarrow> volume_of w j \<noteq> None"
    "\<And>j. volume_of w' j = (if j = c then Some v else volume_of w j)" "w_os w' = w_os w"
proof -
  define c where "c = free_id (map fst (OpenedVolumes w)) 0"
  define t where "t = AList.update c v (OpenedVolumes w)"
  have reg: "tbl.register v (OpenedVolumes w) = (c, t)" by (simp add: tbl.register_def c_def t_def Let_def)
  have "storeNewVolume v w = Ret (c, w\<lparr>OpenedVolumes := t\<rparr>)"
    by (simp add: storeNewVolume_def c_def t_def Let_def)
  then show thesis
    by (rule that) (use tbl.register_spec [OF reg] in \<open>auto simp: volume_of_def fun_eq_iff\<close>)
qed

end
