(* ===== verification/Paths.thy ===== *)
theory Paths
  imports World
begin

unbundle bit_operations_syntax

text \<open>
  From a plaintext path to a directory descriptor and an encrypted name
  (\<^verbatim>\<open>helpers.go\<close>): \<open>prepareAtSyscall\<close> with its cache, symbolic links and sizes.
\<close>

section \<open>Filtering\<close>

definition ConfDefaultName :: string where "ConfDefaultName = ''gocryptfs.conf''"

definition isFiltered :: "volume \<Rightarrow> string \<Rightarrow> bool" where
  "isFiltered v path \<longleftrightarrow> plainTextNames v \<and> path = ConfDefaultName"

section \<open>prepareAtSyscall\<close>

definition cache_lookup :: "int \<Rightarrow> string \<Rightarrow> (int \<times> bytes) io" where
  "cache_lookup sid path w =
     go_bind (deref (volume_of w sid)) (\<lambda>v.
     go_bind (dirCache_Lookup (dirCache v) path (w_os w)) (\<lambda>(r, s). Ret (r, w\<lparr>w_os := s\<rparr>)))"

definition cache_store :: "int \<Rightarrow> string \<Rightarrow> int \<Rightarrow> bytes \<Rightarrow> unit io" where
  "cache_store sid path fd iv w =
     go_bind (deref (volume_of w sid)) (\<lambda>v.
     go_bind (dirCache_Store (dirCache v) path fd iv (w_os w)) (\<lambda>(d, s).
       Ret ((), set_volume sid (v\<lparr>dirCache := d\<rparr>) (w\<lparr>w_os := s\<rparr>))))"

definition cache_delete :: "int \<Rightarrow> string \<Rightarrow> unit io" where
  "cache_delete sid path w =
     go_bind (deref (volume_of w sid)) (\<lambda>v.
       case dirCache_Delete (dirCache v) path (w_os w) of (d, s) \<Rightarrow>
       Ret ((), set_volume sid (v\<lparr>dirCache := d\<rparr>) (w\<lparr>w_os := s\<rparr>)))"

text \<open>The closure \<open>encryptName\<close>.\<close>

definition encrypt_child :: "prims \<Rightarrow> volume \<Rightarrow> int \<Rightarrow> string \<Rightarrow> bytes \<Rightarrow> (err + string) io" where
  "encrypt_child P v dirfd child iv =
     (if HaveBadnamePatterns (nameTransform v)
      then lift_os (EncryptAndHashBadName P (nameTransform v) child iv dirfd)
      else lift_go (EncryptAndHashName P (nameTransform v) child iv))"

text \<open>The common end of both ways: the name of the child, or an error that closes \<open>dirfd\<close>.\<close>

definition name_in_dir :: "prims \<Rightarrow> volume \<Rightarrow> int \<Rightarrow> string \<Rightarrow> bytes \<Rightarrow> (err + int \<times> string) io" where
  "name_in_dir P v dirfd child iv =
     (if plainTextNames v then ret (Inr (dirfd, child))
      else bindw (encrypt_child P v dirfd child iv) (\<lambda>r. case r of
          Inl e \<Rightarrow> bindw (close_fd dirfd) (\<lambda>_. ret (Inl e))
        | Inr cName \<Rightarrow> ret (Inr (dirfd, cName))))"

text \<open>Opening the parent, with \<open>myself\<close> the recursive call for the parent path.\<close>

definition open_parent ::
  "prims \<Rightarrow> (string \<Rightarrow> (err + int \<times> string) io) \<Rightarrow> int \<Rightarrow> volume \<Rightarrow> string \<Rightarrow> string \<Rightarrow> (err + int \<times> string) io"
where
  "open_parent P myself sid v parentPath child =
     bindw (myself parentPath) (\<lambda>r. case r of
         Inl e \<Rightarrow> ret (Inl e)
       | Inr (parentDirfd, myCName) \<Rightarrow>
           defer_close parentDirfd
             (bindw (lift_os (Openat parentDirfd myCName (O_NOFOLLOW OR O_DIRECTORY OR O_PATH) 0)) (\<lambda>o1.
              case o1 of Inl e \<Rightarrow> ret (Inl (Errno e))
              | Inr dirfd \<Rightarrow>
                  bindw (if plainTextNames v then ret (Inr [])
                         else lift_os (ReadDirIVAt (nameTransform v) dirfd)) (\<lambda>ivr.
                  case ivr of Inl e \<Rightarrow> bindw (close_fd dirfd) (\<lambda>_. ret (Inl e))
                  | Inr iv \<Rightarrow> bindw (cache_store sid parentPath dirfd iv) (\<lambda>_.
                      name_in_dir P v dirfd child iv)))))"

definition prepare_child ::
  "prims \<Rightarrow> (string \<Rightarrow> (err + int \<times> string) io) \<Rightarrow> int \<Rightarrow> volume \<Rightarrow> string \<Rightarrow> (err + int \<times> string) io"
where
  "prepare_child P myself sid v path =
     (if isFiltered v path then ret (Inr (-1, []))
      else let child = path_Base path; parentPath = getParentPath path
        in bindw (cache_lookup sid parentPath) (\<lambda>(dirfd, iv).
           if dirfd > 0 then name_in_dir P v dirfd child iv
           else open_parent P myself sid v parentPath child))"

definition open_root :: "volume \<Rightarrow> (err + int \<times> string) io" where
  "open_root v = bindw (lift_os (Open_dir (rootCipherDir v))) (\<lambda>r. case r of
     Inl e \<Rightarrow> ret (Inl (Errno e)) | Inr dirfd \<Rightarrow> ret (Inr (dirfd, ''.'')))"

text \<open>
  The two functions call each other; on a path other than the root they agree. The first
  argument bounds the depth of the calls: without it left, the stack overflows.
\<close>

primrec prepareAtSyscallMyself :: "nat \<Rightarrow> prims \<Rightarrow> int \<Rightarrow> volume \<Rightarrow> string \<Rightarrow> (err + int \<times> string) io" where
  "prepareAtSyscallMyself 0 P sid v path = (\<lambda>w. Panic StackOverflow)"
| "prepareAtSyscallMyself (Suc n) P sid v path =
     (if path = ''/'' then open_root v
      else prepare_child P (prepareAtSyscallMyself n P sid v) sid v path)"

definition prepareAtSyscall :: "nat \<Rightarrow> prims \<Rightarrow> int \<Rightarrow> volume \<Rightarrow> string \<Rightarrow> (err + int \<times> string) io" where
  "prepareAtSyscall n P sid v path =
     (if path = ''/'' then prepareAtSyscallMyself n P sid v path
      else prepare_child P (prepareAtSyscallMyself n P sid v) sid v path)"

text \<open>The depth the exported functions run with; any larger one gives the same result.\<close>

definition depth :: "string \<Rightarrow> nat" where
  "depth path = Suc (length path)"

lemma open_parent_cong:
  "m1 q = m2 q \<Longrightarrow> open_parent P m1 sid v q child = open_parent P m2 sid v q child"
  by (simp add: open_parent_def)

lemma prepare_child_cong:
  "m1 (getParentPath p) = m2 (getParentPath p) \<Longrightarrow> prepare_child P m1 sid v p = prepare_child P m2 sid v p"
  unfolding prepare_child_def Let_def by (simp only: open_parent_cong [of m1 "getParentPath p" m2])

lemma prepare_child_depth:
  "prepareAtSyscallMyself n P sid v (getParentPath p) = prepareAtSyscallMyself m P sid v (getParentPath p) \<Longrightarrow>
   prepare_child P (prepareAtSyscallMyself n P sid v) sid v p = prepare_child P (prepareAtSyscallMyself m P sid v) sid v p"
  by (rule prepare_child_cong)

text \<open>On an absolute path the recursion ends: the parents get shorter until the root.\<close>

lemma prepare_depth:
  assumes "is_abs p" "length p \<le> n" "length p \<le> n'"
  shows "prepareAtSyscallMyself n P sid v p = prepareAtSyscallMyself n' P sid v p"
  using assms
proof (induction n arbitrary: p n')
  case 0
  then show ?case by (simp add: is_abs_def)
next
  case (Suc n)
  then obtain m where m: "n' = Suc m" by (cases n') (auto simp: is_abs_def)
  show ?case
  proof (cases "p = ''/''")
    case False
    note par = path_Dir_abs [OF Suc.prems(1) False]
    have eq: "prepareAtSyscallMyself n P sid v (getParentPath p) = prepareAtSyscallMyself m P sid v (getParentPath p)"
      using Suc.prems m par by (intro Suc.IH) auto
    then show ?thesis
      unfolding m using False by (simp only: prepareAtSyscallMyself.simps if_False prepare_child_depth [OF eq])
  qed (simp add: m)
qed

lemma prepareAtSyscall_depth:
  assumes "is_abs p" "length p \<le> n" "length p \<le> n'"
  shows "prepareAtSyscall n P sid v p = prepareAtSyscall n' P sid v p"
proof (cases "p = ''/''")
  case False
  note par = path_Dir_abs [OF assms(1) False]
  have eq: "prepareAtSyscallMyself n P sid v (getParentPath p) = prepareAtSyscallMyself n' P sid v (getParentPath p)"
    using par assms by (intro prepare_depth) auto
  then show ?thesis using False by (simp only: prepareAtSyscall_def if_False prepare_child_depth [OF eq])
qed (use prepare_depth [OF assms] in \<open>simp add: prepareAtSyscall_def\<close>)

text \<open>The two entry points agree.\<close>

lemma Myself_eq:
  assumes "is_abs p" "length p \<le> n"
  shows "prepareAtSyscallMyself n P sid v p = prepareAtSyscall n P sid v p"
proof (cases "p = ''/''")
  case False
  have "prepareAtSyscallMyself n P sid v p = prepareAtSyscallMyself (Suc n) P sid v p"
    using assms by (intro prepare_depth) auto
  then show ?thesis using False by (simp add: prepareAtSyscall_def)
qed (simp add: prepareAtSyscall_def)

section \<open>Symbolic links\<close>

definition B64DecodeString :: "NameTransform \<Rightarrow> string \<Rightarrow> err + bytes" where
  "B64DecodeString n s = b64_decode (raw64 n) s"

definition decryptSymlinkTarget :: "prims \<Rightarrow> volume \<Rightarrow> string \<Rightarrow> (err + string) go" where
  "decryptSymlinkTarget P v cData64 =
     (if cData64 = [] then Ret (Inr [])
      else case B64DecodeString (nameTransform v) cData64 of
        Inl e \<Rightarrow> Ret (Inl e)
      | Inr cData \<Rightarrow> go_bind (DecryptBlock P (contentEnc v) cData 0 None) (\<lambda>r. case r of
          Inl e \<Rightarrow> Ret (Inl e) | Inr data \<Rightarrow> Ret (Inr (to_string data))))"

text \<open>A failure is nil, which has length 0.\<close>

definition readlink :: "prims \<Rightarrow> volume \<Rightarrow> int \<Rightarrow> string \<Rightarrow> bytes io" where
  "readlink P v dirfd cName =
     bindw (lift_os (Readlinkat dirfd cName)) (\<lambda>r. case r of
         Inl e \<Rightarrow> ret []
       | Inr cTarget \<Rightarrow>
           if plainTextNames v then ret cTarget
           else bindw (lift_go (decryptSymlinkTarget P v (to_string cTarget))) (\<lambda>t. case t of
               Inl e \<Rightarrow> ret [] | Inr target \<Rightarrow> ret (to_bytes target)))"

section \<open>Sizes\<close>

definition isRegular :: "uint32 \<Rightarrow> bool" where "isRegular mode \<longleftrightarrow> mode AND S_IFMT = S_IFREG"
definition isSymlink :: "uint32 \<Rightarrow> bool" where "isSymlink mode \<longleftrightarrow> mode AND S_IFMT = S_IFLNK"

definition translateSize :: "prims \<Rightarrow> volume \<Rightarrow> int \<Rightarrow> string \<Rightarrow> stat \<Rightarrow> uint64 io" where
  "translateSize P v dirfd cName st =
     (if isRegular (st_mode st) then lift_go (CipherSizeToPlainSize (contentEnc v) (st_size st))
      else if isSymlink (st_mode st)
        then bindw (readlink P v dirfd cName) (\<lambda>target. ret (of_nat (length target)))
      else ret (st_size st))"

end
