(* ===== verification/Getdents.thy ===== *)
theory Getdents
  imports NameFiles
begin

unbundle bit_operations_syntax

text \<open>
  Reading a directory (\<^verbatim>\<open>getdents_linux.go\<close>): the bytes that the system call delivers, in
  records of variable length, and the loops that take them apart. The kernel's side is
  modelled on bytes too, so that what the code makes of them can be compared with the
  directory.
\<close>

section \<open>The kernel's side\<close>

text \<open>
  A record: inode number, offset, length of the record, type, name with a NUL, and zeros up to
  a multiple of 8.
\<close>

fun le_bytes :: "nat \<Rightarrow> int \<Rightarrow> bytes" where
  "le_bytes 0 x = []"
| "le_bytes (Suc n) x = word_of_int x # le_bytes n (x div 256)"

definition rec_len :: "nat \<Rightarrow> nat" where
  "rec_len n = nat ((int n + 27) div 8 * 8)"

definition enc_dirent :: "nat \<Rightarrow> nat \<Rightarrow> byte \<Rightarrow> string \<Rightarrow> bytes" where
  "enc_dirent ino off t name =
     le_bytes 8 (int ino) @ le_bytes 8 (int off) @ le_bytes 2 (int (rec_len (length name))) @ [t] @ to_bytes name
       @ zeros (rec_len (length name) - (19 + length name))"

fun dt_type :: "node \<Rightarrow> byte" where
  "dt_type (RegF c) = 8"
| "dt_type (DirF es) = 4"
| "dt_type (LnkF t) = 10"

definition all_entries :: "nat \<Rightarrow> (string \<times> nat) list \<Rightarrow> (string \<times> nat) list" where
  "all_entries i es = (''.'', i) # (''..'', i) # es"

definition dir_records :: "os \<Rightarrow> nat \<Rightarrow> (string \<times> nat) list \<Rightarrow> bytes list" where
  "dir_records s i es = map (\<lambda>(n, j). enc_dirent j 0 (if n = ''.'' \<or> n = ''..'' then 4 else dt_type (inode_node (inodes s ! j))) n)
     (all_entries i es)"

text \<open>How many records fit into the buffer.\<close>

fun fitting :: "int \<Rightarrow> bytes list \<Rightarrow> nat" where
  "fitting n [] = 0"
| "fitting n (r # rs) = (if int (length r) \<le> n then Suc (fitting (n - int (length r)) rs) else 0)"

definition raw_getdents :: "int \<Rightarrow> int \<Rightarrow> os \<Rightarrow> (errno + bytes) \<times> os" where
  "raw_getdents fd n s =
     (case get_fd s fd of
        None \<Rightarrow> (Inl EBADF, s)
      | Some e \<Rightarrow> (case inode_node (inodes s ! of_ino e) of
          DirF es \<Rightarrow>
            (let rest = drop (of_pos e) (dir_records s (of_ino e) es); k = fitting n rest
             in if k = 0 \<and> rest \<noteq> [] then (Inl EINVAL, s)
                else (Inr (concat (take k rest)), set_pos fd e (of_pos e + k) s))
        | _ \<Rightarrow> (Inl ENOTDIR, s)))"

section \<open>Reading the bytes\<close>

definition dents_left :: "int \<Rightarrow> os \<Rightarrow> nat" where
  "dents_left fd s = (case get_fd s fd of
     None \<Rightarrow> 0
   | Some e \<Rightarrow> (case inode_node (inodes s ! of_ino e) of
       DirF es \<Rightarrow> length es + 2 - of_pos e | _ \<Rightarrow> 0))"

lemma dents_left_faults [simp]: "dents_left fd (s\<lparr>faults := fs\<rparr>) = dents_left fd s"
  by (simp add: dents_left_def split: option.splits node.splits)

lemma length_dir_records [simp]: "length (dir_records s i es) = length es + 2"
  by (simp add: dir_records_def all_entries_def)

lemma raw_getdents_progress:
  assumes "raw_getdents fd n s = (Inr b, s')" "b \<noteq> []"
  shows "dents_left fd s' < dents_left fd s \<and> faults s' = faults s"
proof -
  obtain e es where e: "get_fd s fd = Some e" "inode_node (inodes s ! of_ino e) = DirF es"
    using assms(1) by (auto simp: raw_getdents_def split: option.splits node.splits)
  define rest where "rest = drop (of_pos e) (dir_records s (of_ino e) es)"
  define k where "k = fitting n rest"
  have s': "b = concat (take k rest)" "s' = set_pos fd e (of_pos e + k) s"
    using assms(1) e by (auto simp: raw_getdents_def rest_def k_def Let_def split: if_splits)
  have k: "k \<noteq> 0" "rest \<noteq> []" using assms(2) s'(1) by (cases k; auto)+
  then have "of_pos e < length es + 2" by (auto simp: rest_def)
  moreover have "get_fd s' fd = Some (e\<lparr>of_pos := of_pos e + k\<rparr>)" "inodes s' = inodes s" "faults s' = faults s"
    using e(1) by (auto simp: s'(2) set_pos_def get_fd_def split: if_splits)
  ultimately show ?thesis using e k(1) by (simp add: dents_left_def)
qed

lemma raw_getdents_no_EINTR: "fst (raw_getdents fd n s) \<noteq> Inl EINTR"
  by (auto simp: raw_getdents_def Let_def split: option.splits node.splits)

text \<open>
  The first loop of \<open>getdents\<close>: an interrupted call is repeated; an error after something was
  read is \<open>EIO\<close>.
\<close>

lemma sys_cases:
  assumes "sys f s = (r, s')"
  obtains fs where "length fs < length (faults s)" "s' = s\<lparr>faults := fs\<rparr>" "\<exists>e. r = Inl e"
    "set fs \<subseteq> set (faults s)" "\<not> set (faults s) \<subseteq> {None}"
  | fs where "length fs \<le> length (faults s)" "f (s\<lparr>faults := fs\<rparr>) = (r, s')" "set fs \<subseteq> set (faults s)"
proof (cases "faults s")
  case Nil
  then have "s\<lparr>faults := []\<rparr> = s" by (cases s) simp
  then have "f (s\<lparr>faults := []\<rparr>) = f s" by (rule arg_cong)
  then have "f (s\<lparr>faults := []\<rparr>) = (r, s')" using assms Nil by (simp add: sys_def next_fault_def)
  then show ?thesis using that(2) [of "[]"] by simp
next
  case (Cons x fs)
  then show ?thesis
    using assms that(1) [of fs] that(2) [of fs] by (cases x) (auto simp: sys_def next_fault_def)
qed

function read_dirents :: "int \<Rightarrow> bytes \<Rightarrow> os \<Rightarrow> (errno + bytes) \<times> os" where
  "read_dirents fd smartBuf s =
     (case sys (raw_getdents fd 10000) s of
        (Inl e, s') \<Rightarrow>
          if e = EINTR then read_dirents fd smartBuf s'
          else (Inl (if length smartBuf > 0 then EIO else e), s')
      | (Inr tmp, s') \<Rightarrow> if length tmp = 0 then (Inr smartBuf, s') else read_dirents fd (smartBuf @ tmp) s')"
  by pat_completeness auto
termination
proof (relation "measure (\<lambda>(fd, b, s). length (faults s) + dents_left fd s)", goal_cases)
  case (2 fd b s r s' e)
  then have r: "sys (raw_getdents fd 10000) s = (Inl EINTR, s')" by simp
  then show ?case
  proof (cases rule: sys_cases)
    case (2 fs)
    then show ?thesis using raw_getdents_no_EINTR [of fd 10000 "s\<lparr>faults := fs\<rparr>"] by simp
  qed simp
next
  case (3 fd b s r s' tmp)
  then have r: "sys (raw_getdents fd 10000) s = (Inr tmp, s')" "tmp \<noteq> []" by simp_all
  from r(1) show ?case
  proof (cases rule: sys_cases)
    case (2 fs)
    then show ?thesis using raw_getdents_progress [OF 2(2) r(2)] by simp
  qed simp
qed simp

declare read_dirents.simps [simp del]

section \<open>Taking the records apart\<close>

definition sizeofDirent :: nat where "sizeofDirent = 280"
definition maxReclen :: nat where "maxReclen = 280"

record dirent =
  Reclen :: nat
  d_type :: byte
  d_name :: bytes

text \<open>
  \<open>*(*unix.Dirent)(unsafe.Pointer(&buf[offset]))\<close>. Behind the bytes read there are zeros, at
  least as many as a record has (\<open>smartBuf.Grow\<close>).
\<close>

definition dirent_at :: "bytes \<Rightarrow> nat \<Rightarrow> dirent" where
  "dirent_at buf offset =
     (let m = drop offset buf @ zeros sizeofDirent
      in \<lparr>Reclen = unat (m ! 16) + 256 * unat (m ! 17), d_type = m ! 18, d_name = take 256 (drop 19 m)\<rparr>)"

text \<open>The counting loop, which checks the lengths.\<close>

function count_dirents :: "bytes \<Rightarrow> nat \<Rightarrow> errno + nat" where
  "count_dirents buf offset =
     (if offset < length buf then
        let s = dirent_at buf offset
        in if Reclen s = 0 then Inl EBADR
           else if Reclen s > maxReclen then Inl EBADR
           else (case count_dirents buf (offset + Reclen s) of Inl e \<Rightarrow> Inl e | Inr n \<Rightarrow> Inr (Suc n))
      else Inr 0)"
  by pat_completeness auto
termination
  by (relation "measure (\<lambda>(buf, offset). length buf - offset)") auto

declare count_dirents.simps [simp del]

text \<open>The loop ends at the first NUL, or at the last index.\<close>

definition getdentsName :: "bytes \<Rightarrow> errno + string" where
  "getdentsName name =
     (let l = (if 0 \<in> set name then length (takeWhile (\<lambda>b. b \<noteq> 0) name) else length name - 1)
      in if l < 1 then Inl EBADR else Inr (to_string (take l name)))"

definition convertDType :: "int \<Rightarrow> string \<Rightarrow> byte \<Rightarrow> os \<Rightarrow> ((errno + uint32) \<times> os) go" where
  "convertDType dirfd name dtype s =
     (if dtype \<noteq> 0 then Ret (Inr (push_bit 12 (ucast dtype)), s)
      else go_bind (Fstatat dirfd name s) (\<lambda>(st, s1). Ret (case st of
          Inl e \<Rightarrow> Inl e | Inr st \<Rightarrow> Inr (st_mode st AND S_IFMT), s1)))"

text \<open>
  The parsing loop. A record of length 0 would make it endless; the counting loop has
  excluded that.
\<close>

type_synonym dir_list = "(string \<times> uint32) list"

function parse_dirents :: "int \<Rightarrow> bytes \<Rightarrow> nat \<Rightarrow> os \<Rightarrow> ((errno + dir_list \<times> dir_list) \<times> os) go" where
  "parse_dirents fd buf offset s =
     (if offset < length buf then
        let d = dirent_at buf offset
        in case getdentsName (d_name d) of
             Inl e \<Rightarrow> Ret (Inl e, s)
           | Inr name \<Rightarrow>
               if Reclen d = 0 then Hang
               else if name = ''.'' \<or> name = ''..'' then
                 go_bind (parse_dirents fd buf (offset + Reclen d) s) (\<lambda>(r, s1).
                   Ret (case r of Inl e \<Rightarrow> Inl e | Inr (es, sp) \<Rightarrow> Inr (es, (name, S_IFDIR) # sp), s1))
               else
                 go_bind (convertDType fd name (d_type d) s) (\<lambda>(m, s1). case m of
                     Inl e \<Rightarrow> parse_dirents fd buf (offset + Reclen d) s1
                   | Inr mode \<Rightarrow> go_bind (parse_dirents fd buf (offset + Reclen d) s1) (\<lambda>(r, s2).
                       Ret (case r of Inl e \<Rightarrow> Inl e | Inr (es, sp) \<Rightarrow> Inr ((name, mode) # es, sp), s2)))
      else Ret (Inr ([], []), s))"
  by pat_completeness auto
termination
  by (relation "measure (\<lambda>(fd, buf, offset, s). length buf - offset)") auto

declare parse_dirents.simps [simp del]

definition getdents :: "int \<Rightarrow> os \<Rightarrow> ((errno + dir_list \<times> dir_list) \<times> os) go" where
  "getdents fd s =
     (case read_dirents fd [] s of
        (Inl e, s1) \<Rightarrow> Ret (Inl e, s1)
      | (Inr buf, s1) \<Rightarrow> (case count_dirents buf 0 of
            Inl e \<Rightarrow> Ret (Inl e, s1)
          | Inr numEntries \<Rightarrow> parse_dirents fd buf 0 s1))"

definition Getdents :: "int \<Rightarrow> os \<Rightarrow> ((errno + dir_list) \<times> os) go" where
  "Getdents fd s = go_bind (getdents fd s) (\<lambda>(r, s1). Ret (case r of Inl e \<Rightarrow> Inl e | Inr (es, sp) \<Rightarrow> Inr es, s1))"

section \<open>What is read is the directory\<close>

lemma length_le_bytes [simp]: "length (le_bytes n x) = n"
  by (induction n arbitrary: x) simp_all

lemma rec_len_nat: "rec_len n = (n + 27) div 8 * 8"
proof -
  have "(int n + 27) div 8 * 8 = int ((n + 27) div 8 * 8)" by (simp add: zdiv_int)
  then show ?thesis unfolding rec_len_def by (simp only: nat_int)
qed

lemma rec_len_bounds: "n + 20 \<le> rec_len n" "rec_len n \<le> n + 27" "n \<le> 255 \<Longrightarrow> rec_len n \<le> 280" "0 < rec_len n"
  unfolding rec_len_nat by presburger+

lemma length_enc_dirent [simp]: "length (enc_dirent ino off t name) = rec_len (length name)"
  using rec_len_bounds(1) [of "length name"] by (simp add: enc_dirent_def)

definition entry_ok :: "string \<Rightarrow> bool" where
  "entry_ok n \<longleftrightarrow> n \<noteq> [] \<and> length n \<le> 255 \<and> CHR 0x00 \<notin> set n"

lemma byte_of_char_0: "byte_of_char c = 0 \<longleftrightarrow> c = CHR 0x00"
proof
  assume "byte_of_char c = 0"
  then have "char_of_byte (byte_of_char c) = char_of_byte 0" by simp
  then have "c = char_of_byte 0" by simp
  then show "c = CHR 0x00" by (simp add: char_of_byte_def char_of_def)
qed (simp add: byte_of_char_def)

lemma le_bytes_2: "le_bytes 2 (int x) = [of_nat x, of_nat (x div 256)]"
proof -
  have "int x div 256 = int (x div 256)" by (simp add: zdiv_int)
  then show ?thesis by (simp add: numeral_2_eq_2)
qed

lemma le_bytes_value: "x < 65536 \<Longrightarrow> unat (of_nat x :: byte) + 256 * unat (of_nat (x div 256) :: byte) = x"
  by (simp add: unat_of_nat)

text \<open>A record is found where it was put.\<close>

lemma dirent_at_enc:
  assumes "entry_ok name"
  shows "Reclen (dirent_at (pre @ enc_dirent ino off t name @ rest) (length pre)) = rec_len (length name)"
    "d_type (dirent_at (pre @ enc_dirent ino off t name @ rest) (length pre)) = t"
    "getdentsName (d_name (dirent_at (pre @ enc_dirent ino off t name @ rest) (length pre))) = Inr name"
proof -
  define r where "r = rec_len (length name)"
  have r: "r \<le> 280" "length name + 20 \<le> r" using assms rec_len_bounds [of "length name"] by (simp_all add: r_def entry_ok_def)
  define head where "head = le_bytes 8 (int ino) @ le_bytes 8 (int off)"
  define tail where "tail = to_bytes name @ zeros (r - (19 + length name)) @ rest @ zeros sizeofDirent"
  have h: "length head = 16" by (simp add: head_def)
  have m: "drop (length pre) (pre @ enc_dirent ino off t name @ rest) @ zeros sizeofDirent
      = head @ [of_nat r, of_nat (r div 256), t] @ tail"
    by (simp add: enc_dirent_def le_bytes_2 head_def tail_def r_def)
  have n: "(head @ [of_nat r, of_nat (r div 256), t] @ tail) ! 16 = of_nat r"
    "(head @ [of_nat r, of_nat (r div 256), t] @ tail) ! 17 = of_nat (r div 256)"
    "(head @ [of_nat r, of_nat (r div 256), t] @ tail) ! 18 = t"
    "drop 19 (head @ [of_nat r, of_nat (r div 256), t] @ tail) = tail"
    using h by (simp_all add: nth_append)
  show "Reclen (dirent_at (pre @ enc_dirent ino off t name @ rest) (length pre)) = rec_len (length name)"
    unfolding dirent_at_def m Let_def n using le_bytes_value [of r] r(1) by (simp add: r_def)
  show "d_type (dirent_at (pre @ enc_dirent ino off t name @ rest) (length pre)) = t"
    unfolding dirent_at_def m Let_def n by simp
  have z: "\<forall>b \<in> set (to_bytes name). b \<noteq> 0" using assms byte_of_char_0 by (auto simp: entry_ok_def)
  obtain k where k: "r - (19 + length name) = Suc k" using r(2) by (cases "r - (19 + length name)") auto
  define tl where "tl = zeros k @ rest @ zeros sizeofDirent"
  have t: "tail = to_bytes name @ 0 # tl" by (simp add: tail_def k tl_def)
  have l: "length (to_bytes name) < 256" "name \<noteq> []" using assms by (auto simp: entry_ok_def)
  then obtain j where j: "256 - length (to_bytes name) = Suc j" by (cases "256 - length (to_bytes name)") auto
  have u: "take 256 tail = to_bytes name @ 0 # take j tl" using l(1) j by (simp add: t)
  have w: "takeWhile (\<lambda>b. b \<noteq> 0) (to_bytes name @ 0 # take j tl) = to_bytes name"
    using z by (subst takeWhile_append2) auto
  have "getdentsName (take 256 tail) = Inr (to_string (to_bytes name))"
    using l(2) w unfolding u getdentsName_def Let_def by (cases name) simp_all
  then show "getdentsName (d_name (dirent_at (pre @ enc_dirent ino off t name @ rest) (length pre))) = Inr name"
    unfolding dirent_at_def m Let_def n by (simp only: dirent.select_convs to_string_to_bytes)
qed

text \<open>The records of a list of names with types.\<close>

definition enc_list :: "(nat \<times> byte \<times> string) list \<Rightarrow> bytes" where
  "enc_list es = concat (map (\<lambda>(ino, t, n). enc_dirent ino 0 t n) es)"

lemma enc_list_simps [simp]:
  "enc_list [] = []" "enc_list ((ino, t, n) # es) = enc_dirent ino 0 t n @ enc_list es"
  by (simp_all add: enc_list_def)

lemma count_enc:
  assumes "\<forall>(ino, t, n) \<in> set es. entry_ok n"
  shows "count_dirents (pre @ enc_list es) (length pre) = Inr (length es)"
  using assms
proof (induction es arbitrary: pre)
  case Nil
  then show ?case by (subst count_dirents.simps) simp
next
  case (Cons x es)
  obtain ino t n where x: "x = (ino, t, n)" by (cases x)
  have n: "entry_ok n" using Cons.prems x by simp
  note d = dirent_at_enc [OF n, of pre ino 0 t "enc_list es"]
  have "count_dirents ((pre @ enc_dirent ino 0 t n) @ enc_list es) (length (pre @ enc_dirent ino 0 t n)) = Inr (length es)"
    using Cons.prems by (intro Cons.IH) simp
  then show ?case
    using n d(1) rec_len_bounds [of "length n"]
    by (subst count_dirents.simps) (simp add: x Let_def maxReclen_def entry_ok_def)
qed

definition type_mode :: "byte \<Rightarrow> uint32" where "type_mode t = push_bit 12 (ucast t)"

lemma parse_enc:
  assumes "\<forall>(ino, t, n) \<in> set es. entry_ok n \<and> t \<noteq> 0"
  shows "parse_dirents fd (pre @ enc_list es) (length pre) s
     = Ret (Inr (map (\<lambda>(ino, t, n). (n, type_mode t)) (filter (\<lambda>(ino, t, n). n \<noteq> ''.'' \<and> n \<noteq> ''..'') es),
                 map (\<lambda>(ino, t, n). (n, S_IFDIR)) (filter (\<lambda>(ino, t, n). n = ''.'' \<or> n = ''..'') es)), s)"
  using assms
proof (induction es arbitrary: pre)
  case Nil
  then show ?case by (subst parse_dirents.simps) simp
next
  case (Cons x es)
  obtain ino t n where x: "x = (ino, t, n)" by (cases x)
  have n: "entry_ok n" "t \<noteq> 0" using Cons.prems x by simp_all
  note d = dirent_at_enc [OF n(1), of pre ino 0 t "enc_list es"]
  have IH: "parse_dirents fd ((pre @ enc_dirent ino 0 t n) @ enc_list es) (length (pre @ enc_dirent ino 0 t n)) s
     = Ret (Inr (map (\<lambda>(ino, t, n). (n, type_mode t)) (filter (\<lambda>(ino, t, n). n \<noteq> ''.'' \<and> n \<noteq> ''..'') es),
                 map (\<lambda>(ino, t, n). (n, S_IFDIR)) (filter (\<lambda>(ino, t, n). n = ''.'' \<or> n = ''..'') es)), s)"
    using Cons.prems by (intro Cons.IH) simp
  have "rec_len (length n) \<noteq> 0" using rec_len_bounds(4) by simp
  then show ?case
    using IH d n(2) by (subst parse_dirents.simps) (auto simp: x Let_def convertDType_def type_mode_def)
qed


text \<open>
  The first loop: whatever calls fail, it ends in an error or with all the records from the
  current position on.
\<close>

definition dir_open :: "os \<Rightarrow> int \<Rightarrow> open_file \<Rightarrow> (string \<times> nat) list \<Rightarrow> bool" where
  "dir_open s fd e es \<longleftrightarrow> get_fd s fd = Some e \<and> inode_node (inodes s ! of_ino e) = DirF es"

lemma dir_open_faults [simp]: "dir_open (s\<lparr>faults := fs\<rparr>) fd e es = dir_open s fd e es"
  by (simp add: dir_open_def)

lemma dir_records_inodes: "inodes s' = inodes s \<Longrightarrow> dir_records s' i es = dir_records s i es"
  unfolding dir_records_def case_prod_beta by simp

lemma fitting_le: "fitting n rs \<le> length rs"
  by (induction n rs rule: fitting.induct) auto

lemma raw_getdents_dir:
  assumes "dir_open s fd e es" and len: "\<forall>r \<in> set (dir_records s (of_ino e) es). length r \<le> 10000 \<and> r \<noteq> []"
  obtains k where
    "raw_getdents fd 10000 s = (Inr (concat (take k (drop (of_pos e) (dir_records s (of_ino e) es)))), set_pos fd e (of_pos e + k) s)"
    "k = 0 \<longleftrightarrow> drop (of_pos e) (dir_records s (of_ino e) es) = []" "k = 0 \<or> of_pos e + k \<le> length es + 2"
    "k = 0 \<longleftrightarrow> concat (take k (drop (of_pos e) (dir_records s (of_ino e) es))) = []"
proof -
  define rest where "rest = drop (of_pos e) (dir_records s (of_ino e) es)"
  have sub: "set rest \<subseteq> set (dir_records s (of_ino e) es)" by (simp add: rest_def set_drop_subset)
  have k: "fitting 10000 rest = 0 \<longleftrightarrow> rest = []"
    using sub len by (cases rest) auto
  have c: "fitting 10000 rest = 0 \<longleftrightarrow> concat (take (fitting 10000 rest) rest) = []"
    using k sub len by (cases rest) auto
  have "fitting 10000 rest = 0 \<or> of_pos e + fitting 10000 rest \<le> length es + 2"
    using fitting_le [of 10000 rest] k by (cases "rest = []") (auto simp: rest_def)
  moreover have "raw_getdents fd 10000 s = (Inr (concat (take (fitting 10000 rest) rest)), set_pos fd e (of_pos e + fitting 10000 rest) s)"
    using assms(1) k by (simp add: dir_open_def raw_getdents_def rest_def [symmetric] Let_def)
  ultimately show ?thesis
    using k c unfolding rest_def by (intro that [of "fitting 10000 rest"]) (simp_all only: rest_def)
qed

lemma set_pos_simps [simp]:
  "inodes (set_pos fd e n s) = inodes s" "faults (set_pos fd e n s) = faults s"
  by (simp_all add: set_pos_def)

lemma dir_open_set_pos:
  "dir_open s fd e es \<Longrightarrow> dir_open (set_pos fd e n s) fd (e\<lparr>of_pos := n\<rparr>) es"
  by (auto simp: dir_open_def set_pos_def get_fd_def split: if_splits)

lemma read_dirents_dir:
  assumes "dir_open s fd e es" "\<forall>r \<in> set (dir_records s (of_ino e) es). length r \<le> 10000 \<and> r \<noteq> []"
    "read_dirents fd buf s = (r, s')"
  shows "inodes s' = inodes s \<and> set (faults s') \<subseteq> set (faults s) \<and>
    ((\<exists>er. r = Inl er) \<and> \<not> set (faults s) \<subseteq> {None} \<or>
     r = Inr (buf @ concat (drop (of_pos e) (dir_records s (of_ino e) es))))"
  using assms
proof (induction "length (faults s) + (length es + 2 - of_pos e)" arbitrary: s e buf r s' rule: less_induct)
  case less
  define rest where "rest = drop (of_pos e) (dir_records s (of_ino e) es)"
  obtain q t where q: "sys (raw_getdents fd 10000) s = (q, t)" by (cases "sys (raw_getdents fd 10000) s")
  then show ?case
  proof (cases rule: sys_cases)
    case (1 fs)
    then obtain er where er: "q = Inl er" by blast
    show ?thesis
    proof (cases "er = EINTR")
      case True
      then have *: "read_dirents fd buf (s\<lparr>faults := fs\<rparr>) = (r, s')"
        using less.prems(3) q 1 er by (subst (asm) read_dirents.simps) simp
      have i: "dir_records (s\<lparr>faults := fs\<rparr>) (of_ino e) es = dir_records s (of_ino e) es"
        by (rule dir_records_inodes) simp
      show ?thesis
        using less.hyps [OF _ _ _ *, of e] less.prems(1,2) 1 by (auto simp: i)
    next
      case False
      then have "r = Inl (if length buf > 0 then EIO else er)" "s' = s\<lparr>faults := fs\<rparr>"
        using less.prems(3) q 1 er by (subst (asm) read_dirents.simps, simp)+
      then show ?thesis using 1 by simp
    qed
  next
    case (2 fs)
    define s1 where "s1 = s\<lparr>faults := fs\<rparr>"
    have s1: "dir_open s1 fd e es" "dir_records s1 (of_ino e) es = dir_records s (of_ino e) es" "inodes s1 = inodes s" "faults s1 = fs"
      using less.prems(1) by (simp_all add: s1_def dir_records_def case_prod_beta)
    note len = less.prems(2) [folded s1(2)]
    obtain k where k: "raw_getdents fd 10000 s1 = (Inr (concat (take k rest)), set_pos fd e (of_pos e + k) s1)"
      "k = 0 \<longleftrightarrow> rest = []" "k = 0 \<or> of_pos e + k \<le> length es + 2" "k = 0 \<longleftrightarrow> concat (take k rest) = []"
      by (rule raw_getdents_dir [OF s1(1) len]) (unfold s1(2), fold rest_def, rule that, assumption+)
    have qt: "q = Inr (concat (take k rest))" "t = set_pos fd e (of_pos e + k) s1"
      using 2 k(1) by (simp_all add: s1_def)
    show ?thesis
    proof (cases "k = 0")
      case True
      then show ?thesis
        using less.prems(3) q qt k s1 2 by (subst (asm) read_dirents.simps) (auto simp: rest_def [symmetric])
    next
      case False
      then have "length (concat (take k rest)) \<noteq> 0" using k(4) by (simp only: length_0_conv) blast
      then have *: "read_dirents fd (buf @ concat (take k rest)) t = (r, s')"
        using less.prems(3) q unfolding qt(1) by (subst (asm) read_dirents.simps) (simp only: prod.case sum.case if_False)
      have t: "dir_open t fd (e\<lparr>of_pos := of_pos e + k\<rparr>) es" "inodes t = inodes s" "faults t = fs"
        using dir_open_set_pos [OF s1(1)] s1 by (simp_all add: qt(2))
      have i: "dir_records t (of_ino e) es = dir_records s (of_ino e) es" by (rule dir_records_inodes [OF t(2)])
      then have d: "drop (of_pos e + k) (dir_records t (of_ino e) es) = drop k rest"
        by (simp add: rest_def add.commute)
      have c: "concat (take k rest) @ concat (drop k rest) = concat rest"
        by (metis append_take_drop_id concat_append)
      have m: "length (faults t) + (length es + 2 - (of_pos e + k)) < length (faults s) + (length es + 2 - of_pos e)"
        using t(3) 2(1) False k(3) by simp
      show ?thesis
        using less.hyps [OF _ t(1) _ *] m less.prems(2) t(2,3) 2(3) c d i
        by (auto simp: rest_def [symmetric])
    qed
  qed
qed

text \<open>
  So \<open>Getdents\<close> of a directory that was just opened returns an error or the complete list of
  its entries with their types, never a part of it.
\<close>

lemma dir_records_enc:
  "dir_records s i es = map (\<lambda>(ino, t, n). enc_dirent ino 0 t n)
     (map (\<lambda>(n, j). (j, if n = ''.'' \<or> n = ''..'' then 4 else dt_type (inode_node (inodes s ! j)), n)) (all_entries i es))"
  by (simp add: dir_records_def comp_def case_prod_beta)

definition listed :: "os \<Rightarrow> (string \<times> nat) list \<Rightarrow> dir_list" where
  "listed s es = map (\<lambda>(n, j). (n, node_type (inode_node (inodes s ! j)))) es"

lemma type_mode_dt [simp]: "type_mode (dt_type nd) = node_type nd" and dt_type_nz [simp]: "dt_type nd \<noteq> 0"
  by (cases nd; simp add: type_mode_def S_IFREG_def S_IFDIR_def S_IFLNK_def)+

definition names_ok :: "(string \<times> nat) list \<Rightarrow> bool" where
  "names_ok es \<longleftrightarrow> (\<forall>(n, i) \<in> set es. entry_ok n \<and> n \<noteq> ''.'' \<and> n \<noteq> ''..'')"

lemma filter_listed:
  "names_ok es \<Longrightarrow> map (\<lambda>(ino, t, n). (n, type_mode t)) (filter (\<lambda>(ino, t, n). n \<noteq> ''.'' \<and> n \<noteq> ''..'')
     (map (\<lambda>(n, j). (j, if n = ''.'' \<or> n = ''..'' then 4 else dt_type (inode_node (inodes s ! j)), n)) es)) = listed s es"
  by (induction es) (auto simp: names_ok_def listed_def)

lemma getdents_dir:
  assumes d: "dir_open s fd e es" "of_pos e = 0" and n: "names_ok es"
  obtains r s' where "Getdents fd s = Ret (r, s')" "inodes s' = inodes s" "set (faults s') \<subseteq> set (faults s)"
    "(\<exists>er. r = Inl er) \<and> \<not> set (faults s) \<subseteq> {None} \<or> r = Inr (listed s es)"
proof -
  define ds where "ds = map (\<lambda>(n, j). (j, if n = ''.'' \<or> n = ''..'' then 4 else dt_type (inode_node (inodes s ! j)), n)) (all_entries (of_ino e) es)"
  have ok: "\<forall>(ino, t, n) \<in> set ds. entry_ok n \<and> t \<noteq> 0"
    using n by (auto simp: ds_def all_entries_def names_ok_def entry_ok_def)
  have enc: "concat (dir_records s (of_ino e) es) = enc_list ds" by (simp add: dir_records_enc enc_list_def ds_def)
  have len: "\<forall>r \<in> set (dir_records s (of_ino e) es). length r \<le> 10000 \<and> r \<noteq> []"
  proof
    fix r assume "r \<in> set (dir_records s (of_ino e) es)"
    then obtain ino t n where "(ino, t, n) \<in> set ds" "length r = rec_len (length n)"
      by (force simp: dir_records_def ds_def)
    then show "length r \<le> 10000 \<and> r \<noteq> []" using ok rec_len_bounds [of "length n"] by (auto simp: entry_ok_def)
  qed
  obtain q s1 where q: "read_dirents fd [] s = (q, s1)" by (cases "read_dirents fd [] s")
  note R = read_dirents_dir [OF d(1) len q]
  have c: "count_dirents (enc_list ds) 0 = Inr (length ds)"
    using count_enc [of ds "[]"] ok by (simp add: case_prod_beta)
  have p: "\<exists>sp. parse_dirents fd (enc_list ds) 0 s1 = Ret (Inr (listed s es, sp), s1)"
    using parse_enc [of ds fd "[]" s1] ok filter_listed [OF n, of s] by (simp add: ds_def all_entries_def)
  show ?thesis
  proof (cases q)
    case (Inl er)
    then show ?thesis using that [of "Inl er" s1] R q by (simp add: Getdents_def getdents_def)
  next
    case (Inr b)
    then have "b = enc_list ds" using R enc d(2) by simp
    then have "Getdents fd s = Ret (Inr (listed s es), s1)"
      using q Inr c p by (auto simp: Getdents_def getdents_def)
    then show ?thesis using that [of "Inr (listed s es)" s1] R by simp
  qed
qed

text \<open>Whatever the system delivers, the parsing loop ends once the lengths have been checked.\<close>

lemma raw_fstatat_no_EINTR: "fst (raw_fstatat d n s) \<noteq> Inl EINTR"
  by (auto simp: raw_fstatat_def resolve_def dir_at_def entry_def split: sum.splits prod.splits option.splits node.splits)

lemma convertDType_returns: "\<exists>r s'. convertDType fd name t s = Ret (r, s')"
  by (auto simp: convertDType_def Fstatat_def retryEINTR_sys raw_fstatat_no_EINTR split: prod.splits)

lemma parse_returns:
  "count_dirents buf off = Inr n \<Longrightarrow> \<exists>r s'. parse_dirents fd buf off s = Ret (r, s')"
proof (induction "length buf - off" arbitrary: off n s rule: less_induct)
  case less
  show ?case
  proof (cases "off < length buf")
    case True
    define d where "d = dirent_at buf off"
    obtain m where m: "Reclen d \<noteq> 0" "count_dirents buf (off + Reclen d) = Inr m"
      using less.prems True by (subst (asm) count_dirents.simps) (auto simp: d_def Let_def split: if_splits sum.splits)
    then have IH: "\<exists>r s'. parse_dirents fd buf (off + Reclen d) s0 = Ret (r, s')" for s0
      using less.hyps True by simp
    obtain r1 t where c: "convertDType fd (case getdentsName (d_name d) of Inr x \<Rightarrow> x) (d_type d) s = Ret (r1, t)"
      using convertDType_returns by blast
    show ?thesis
      using True m(1) c IH [of s] IH [of t]
      by (subst parse_dirents.simps) (auto simp: d_def [symmetric] Let_def split: sum.splits)
  qed (subst parse_dirents.simps, simp)
qed

lemma getdents_returns: "\<exists>r s'. Getdents fd s = Ret (r, s')"
proof -
  obtain q s1 where "read_dirents fd [] s = (q, s1)" by (cases "read_dirents fd [] s")
  moreover have "\<exists>r s'. parse_dirents fd b 0 s1 = Ret (r, s')" if "count_dirents b 0 = Inr n" for b n
    using parse_returns [OF that] .
  ultimately show ?thesis
    by (cases q) (force simp: Getdents_def getdents_def split: sum.splits)+
qed

end
