(* ===== verification/Directory.thy ===== *)
theory Directory
  imports Paths Getdents
begin

unbundle bit_operations_syntax

text \<open>
  The exported operations on directories (\<^verbatim>\<open>directory.go\<close>): listing, creating and removing
  them. An encrypted directory holds the file \<^verbatim>\<open>gocryptfs.diriv\<close>, which is created and
  removed together with it.
\<close>

section \<open>Creating\<close>

definition mkdirWithIv :: "int \<Rightarrow> string \<Rightarrow> uint32 \<Rightarrow> err option io" where
  "mkdirWithIv dirfd cName mode =
     bindw (call_os (sys (raw_mkdirat dirfd cName mode))) (\<lambda>r. case r of
         Inl e \<Rightarrow> ret (Some (Errno e))
       | Inr _ \<Rightarrow>
           bindw (lift_os (Openat dirfd cName (O_DIRECTORY OR O_NOFOLLOW OR O_PATH) 0)) (\<lambda>o1.
           bindw (case o1 of
               Inl e \<Rightarrow> ret (Some (Errno e))
             | Inr dirfd2 \<Rightarrow> bindw (lift_rng (WriteDirIVAt dirfd2)) (\<lambda>er.
                 bindw (close_fd dirfd2) (\<lambda>_. ret er))) (\<lambda>er.
           case er of
             None \<Rightarrow> ret None
           | Some e \<Rightarrow> bindw (lift_os (Unlinkat dirfd cName True)) (\<lambda>_. ret (Some e)))))"

text \<open>The end of \<open>gcf_mkdir\<close>: give the directory the permissions that were asked for.\<close>

definition fix_mode :: "int \<Rightarrow> string \<Rightarrow> uint32 \<Rightarrow> uint32 \<Rightarrow> bool io" where
  "fix_mode dirfd cName origMode mode =
     or_return False (lift_os (Openat dirfd cName (O_RDONLY OR O_DIRECTORY OR O_NOFOLLOW) 0)) (\<lambda>fd.
       defer_close fd
         (or_return False (call_os (sys (raw_fstat fd))) (\<lambda>st.
            if origMode \<noteq> mode
            then bindw (call_os (sys (raw_fchmod fd ((st_mode st AND NOT 0x1FF) OR origMode)))) (\<lambda>_. ret True)
            else ret True)))"

definition gcf_mkdir :: "prims \<Rightarrow> int \<Rightarrow> string \<Rightarrow> uint32 \<Rightarrow> bool io" where
  "gcf_mkdir P sid path mode =
     with_volume sid False (\<lambda>v.
       or_return False (prepareAtSyscall (depth path) P sid v path) (\<lambda>(dirfd, cName).
         defer_close dirfd
           (if plainTextNames v then
              or_return False (call_os (sys (raw_mkdirat dirfd cName mode))) (\<lambda>_.
              or_return False (lift_os (Fstatat dirfd cName)) (\<lambda>st. ret True))
            else
              let mode2 = mode OR 0x1C0
              in if IsLongContent cName then
                   none_or_return False (lift_os (WriteLongNameAt P (nameTransform v) dirfd cName path))
                     (bindw (mkdirWithIv dirfd cName mode2) (\<lambda>er. case er of
                        Some e \<Rightarrow> bindw (lift_os (DeleteLongNameAt dirfd cName)) (\<lambda>_. ret False)
                      | None \<Rightarrow> fix_mode dirfd cName mode mode2))
                 else
                   none_or_return False (mkdirWithIv dirfd cName mode2) (fix_mode dirfd cName mode mode2))))"

section \<open>Removing\<close>

function decimal :: "nat \<Rightarrow> string" where
  "decimal n = (if n < 10 then [char_of_byte (of_nat (48 + n))]
     else decimal (n div 10) @ [char_of_byte (of_nat (48 + n mod 10))])"
  by pat_completeness auto
termination by (relation "measure id") auto

declare decimal.simps [simp del]

definition rmdir_tmpName :: "uint64 \<Rightarrow> string" where
  "rmdir_tmpName x = DirIVFilename @ ''.rmdir.'' @ decimal (unat x)"

text \<open>\<open>Getdents\<close> never returns \<open>io.EOF\<close>, so the branch for it in the code is dead.\<close>

definition rmdir_dance :: "int \<Rightarrow> int \<Rightarrow> string \<Rightarrow> string \<Rightarrow> int \<Rightarrow> string \<Rightarrow> bool io" where
  "rmdir_dance dirfd parentDirFd cName tmpName sid relPath =
     or_return False (lift_os (Renameat dirfd DirIVFilename parentDirFd tmpName)) (\<lambda>_.
       bindw (lift_os (Unlinkat parentDirFd cName True)) (\<lambda>r. case r of
           Inl e \<Rightarrow> bindw (lift_os (Renameat parentDirFd tmpName dirfd DirIVFilename)) (\<lambda>_. ret False)
         | Inr _ \<Rightarrow>
             bindw (lift_os (Unlinkat parentDirFd tmpName False)) (\<lambda>_.
             bindw (if IsLongContent cName
                    then bindw (lift_os (DeleteLongNameAt parentDirFd cName)) (\<lambda>_. ret ())
                    else ret ()) (\<lambda>_.
             bindw (cache_delete sid relPath) (\<lambda>_. ret True)))))"

definition rand_uint64 :: "uint64 io" where
  "rand_uint64 w = (case RandUint64 (w_rng w) of (x, r) \<Rightarrow> Ret (x, w\<lparr>w_rng := r\<rparr>))"

definition gcf_rmdir :: "prims \<Rightarrow> int \<Rightarrow> string \<Rightarrow> bool io" where
  "gcf_rmdir P sid relPath =
     with_volume sid False (\<lambda>v.
       or_return False (prepareAtSyscall (depth relPath) P sid v relPath) (\<lambda>(parentDirFd, cName).
         defer_close parentDirFd
           (if plainTextNames v
            then or_return False (call_os (sys (raw_unlinkat parentDirFd cName True))) (\<lambda>_. ret True)
            else
              or_return False (lift_os (Openat parentDirFd cName (O_RDONLY OR O_DIRECTORY OR O_NOFOLLOW) 0)) (\<lambda>dirfd.
                defer_close dirfd
                  (or_return False (lift_os (Getdents dirfd)) (\<lambda>children.
                     if length children > 1 then ret False
                     else bindw rand_uint64 (\<lambda>x.
                       rmdir_dance dirfd parentDirFd cName (rmdir_tmpName x) sid relPath)))))))"

section \<open>Listing\<close>

text \<open>What one entry of the ciphertext directory contributes: a plaintext name, or nothing.\<close>

definition list_entry ::
  "prims \<Rightarrow> volume \<Rightarrow> int \<Rightarrow> string \<Rightarrow> bytes \<Rightarrow> string \<Rightarrow> string option io" where
  "list_entry P v fd dirName cachedIV cName =
     (if dirName = ''/'' \<and> cName = ConfDefaultName then ret None
      else if plainTextNames v then ret (Some cName)
      else if cName = DirIVFilename then ret None
      else
        let decrypt = (\<lambda>c. bindw (lift_go (DecryptName P (nameTransform v) c cachedIV)) (\<lambda>r. case r of
                Inl e \<Rightarrow> ret None | Inr name \<Rightarrow> ret (Some name)))
        in case NameType cName of
            LongNameContent \<Rightarrow> or_return None (lift_os (ReadLongNameAt fd cName)) decrypt
          | LongNameFilename \<Rightarrow> ret None
          | LongNameNone \<Rightarrow> decrypt cName)"

fun list_entries ::
  "prims \<Rightarrow> volume \<Rightarrow> int \<Rightarrow> string \<Rightarrow> bytes \<Rightarrow> (string \<times> uint32) list \<Rightarrow> (string \<times> uint32) list io" where
  "list_entries P v fd dirName cachedIV [] = ret []"
| "list_entries P v fd dirName cachedIV (e # es) =
     bindw (list_entry P v fd dirName cachedIV (fst e)) (\<lambda>r.
     bindw (list_entries P v fd dirName cachedIV es) (\<lambda>rs.
     ret (case r of None \<Rightarrow> rs | Some name \<Rightarrow> (name, snd e) # rs)))"

text \<open>The C string with a NUL after each name, and the modes.\<close>

definition pack_names :: "(string \<times> uint32) list \<Rightarrow> string \<times> uint32 list" where
  "pack_names es = (concat (map (\<lambda>(n, _). n @ [CHR 0x00]) es), map snd es)"

text \<open>\<open>None\<close> is \<open>(nil, nil, 0)\<close>.\<close>

definition gcf_list_dir :: "prims \<Rightarrow> int \<Rightarrow> string \<Rightarrow> (string \<times> uint32 list) option io" where
  "gcf_list_dir P sid dirName =
     with_volume sid None (\<lambda>v.
       or_return None (prepareAtSyscallMyself (depth dirName) P sid v dirName) (\<lambda>(parentDirFd, cDirName).
         defer_close parentDirFd
           (or_return None (lift_os (Openat parentDirFd cDirName (O_RDONLY OR O_DIRECTORY OR O_NOFOLLOW) 0)) (\<lambda>fd.
             defer_close fd
               (or_return None (lift_os (Getdents fd)) (\<lambda>cipherEntries.
                  or_return None (if plainTextNames v then ret (Inr [])
                                  else lift_os (ReadDirIVAt (nameTransform v) fd)) (\<lambda>cachedIV.
                    bindw (list_entries P v fd dirName cachedIV cipherEntries) (\<lambda>es.
                    ret (Some (pack_names es))))))))))"

end
