(* ===== verification/CommonOps.thy ===== *)
theory CommonOps
  imports Directory
begin

unbundle bit_operations_syntax

text \<open>
  The exported operations on any object (\<^verbatim>\<open>common_ops.go\<close>): attributes, modification time,
  renaming.
\<close>

section \<open>Attributes\<close>

text \<open>Mode, size, modification time and success.\<close>

definition gcf_get_attrs :: "prims \<Rightarrow> int \<Rightarrow> string \<Rightarrow> (uint32 \<times> uint64 \<times> uint64 \<times> bool) io" where
  "gcf_get_attrs P sid relPath =
     with_volume sid (0, 0, 0, False) (\<lambda>v.
       or_return (0, 0, 0, False) (prepareAtSyscall (depth relPath) P sid v relPath) (\<lambda>(dirfd, cName).
         defer_close dirfd
           (or_return (0, 0, 0, False) (lift_os (Fstatat dirfd cName)) (\<lambda>st.
              bindw (translateSize P v dirfd cName st) (\<lambda>size.
              ret (st_mode st, size, of_int (st_mtime st), True))))))"

text \<open>\<open>unix.UtimesNanoAt\<close> on the modification time alone, without following a link.\<close>

definition gcf_set_mtime :: "prims \<Rightarrow> int \<Rightarrow> string \<Rightarrow> int \<Rightarrow> bool io" where
  "gcf_set_mtime P sid relPath mtime =
     with_volume sid False (\<lambda>v.
       or_return False (prepareAtSyscall (depth relPath) P sid v relPath) (\<lambda>(dirfd, cName).
         defer_close dirfd
           (bindw (call_os (sys (raw_utimensat dirfd cName mtime))) (\<lambda>r. ret (errToBool r)))))"

section \<open>Renaming\<close>

text \<open>The retry over a directory that is empty but for its IV file.\<close>

definition rename_retry ::
  "prims \<Rightarrow> int \<Rightarrow> string \<Rightarrow> int \<Rightarrow> string \<Rightarrow> int \<Rightarrow> string \<Rightarrow> errno + unit \<Rightarrow> (errno + unit) io" where
  "rename_retry P sid newPath dirfd cName dirfd2 cName2 r =
     (if r = Inl ENOTEMPTY \<or> r = Inl EEXIST
      then bindw (gcf_rmdir P sid newPath) (\<lambda>ok.
        if ok then lift_os (Renameat dirfd cName dirfd2 cName2) else ret r)
      else ret r)"

text \<open>
  Writing the \<^verbatim>\<open>.name\<close> file of a long target: whether it was already there, or the error that ends the
  operation.
\<close>

definition rename_name_file :: "prims \<Rightarrow> volume \<Rightarrow> int \<Rightarrow> string \<Rightarrow> string \<Rightarrow> (err + bool) io" where
  "rename_name_file P v dirfd2 cName2 newPath =
     (if IsLongContent cName2
      then bindw (lift_os (WriteLongNameAt P (nameTransform v) dirfd2 cName2 newPath)) (\<lambda>er. ret (case er of
          None \<Rightarrow> Inr False
        | Some e \<Rightarrow> if e = Errno EEXIST then Inr True else Inl e))
      else ret (Inr False))"

definition delete_long :: "int \<Rightarrow> string \<Rightarrow> unit io" where
  "delete_long dirfd cName = bindw (lift_os (DeleteLongNameAt dirfd cName)) (\<lambda>_. ret ())"

definition gcf_rename :: "prims \<Rightarrow> int \<Rightarrow> string \<Rightarrow> string \<Rightarrow> bool io" where
  "gcf_rename P sid oldPath newPath =
     with_volume sid False (\<lambda>v.
       or_return False (prepareAtSyscall (depth oldPath) P sid v oldPath) (\<lambda>(dirfd, cName).
         defer_close dirfd
           (or_return False (prepareAtSyscall (depth newPath) P sid v newPath) (\<lambda>(dirfd2, cName2).
              defer_close dirfd2
                (if plainTextNames v
                 then bindw (lift_os (Renameat dirfd cName dirfd2 cName2)) (\<lambda>r. ret (errToBool r))
                 else
                   or_return False (rename_name_file P v dirfd2 cName2 newPath) (\<lambda>nameFileAlreadyThere.
                   bindw (lift_os (Renameat dirfd cName dirfd2 cName2)) (\<lambda>r0.
                   bindw (rename_retry P sid newPath dirfd cName dirfd2 cName2 r0) (\<lambda>r. case r of
                       Inl e \<Rightarrow>
                         bindw (if IsLongContent cName2 \<and> \<not> nameFileAlreadyThere
                                then delete_long dirfd2 cName2 else ret ()) (\<lambda>_. ret False)
                     | Inr _ \<Rightarrow>
                         bindw (if IsLongContent cName then delete_long dirfd cName else ret ())
                           (\<lambda>_. ret True)))))))))"

end
