(* ===== verification/FileWrite.thy ===== *)
theory FileWrite
  imports FileContent
begin

text \<open>
  Correctness of \<open>doWrite\<close> and \<open>createHeader\<close> on one file: the plaintext is overwritten, and
  nothing outside the touched blocks changes, whatever fails.
\<close>

section \<open>Writing\<close>

text \<open>One block after the write, in terms of the block before it.\<close>

lemma block_of_overwrite:
  assumes d: "d \<noteq> []" and b: "b * n \<le> off + k" "off + k + l \<le> (b + 1) * n"
    and k: "0 < l" "k + l \<le> length d" "k = 0 \<or> off + k = b * n" "k + l = length d \<or> off + k + l = (b + 1) * n"
  shows "overwrite (off + k - b * n) (range_of k l d) (range_of (b * n) n p)
     = range_of (b * n) n (overwrite off d p)"
proof -
  have len: "length (range_of k l d) = l" "range_of k l d \<noteq> []" using k by (auto simp: range_of_def)
  have L: "length (overwrite (off + k - b * n) (range_of k l d) (range_of (b * n) n p))
      = length (range_of (b * n) n (overwrite off d p))"
    using d len b k by (auto simp: min_def max_def)
  show ?thesis
  proof (rule nth_equalityI [OF L])
    fix j assume j: "j < length (overwrite (off + k - b * n) (range_of k l d) (range_of (b * n) n p))"
    then have "j < min n (length (overwrite off d p) - b * n)" unfolding L length_range_of .
    then have j1: "j < n" "b * n + j < length (overwrite off d p)" by linarith+
    have "range_of (b * n) n (overwrite off d p) ! j = overwrite off d p ! (b * n + j)"
      using j1 by simp
    also have "\<dots> = (if off \<le> b * n + j \<and> b * n + j < off + length d then d ! (b * n + j - off)
        else if b * n + j < length p then p ! (b * n + j) else 0)"
      by (rule nth_overwrite [OF j1(2)])
    also have "\<dots> = overwrite (off + k - b * n) (range_of k l d) (range_of (b * n) n p) ! j"
    proof -
      have c: "off + k - b * n \<le> j \<and> j < off + k - b * n + l \<longleftrightarrow> off \<le> b * n + j \<and> b * n + j < off + length d"
        using b k j1 by auto
      have v: "range_of k l d ! (j - (off + k - b * n)) = d ! (b * n + j - off)"
        if "off + k - b * n \<le> j" "j < off + k - b * n + l"
      proof -
        have e: "k + (j - (off + k - b * n)) = b * n + j - off" using that b by linarith
        have a: "j - (off + k - b * n) < l" "k + (j - (off + k - b * n)) < length d"
          using that b k unfolding e by linarith+
        show ?thesis unfolding nth_range_of [OF a] e ..
      qed
      have w: "j < length (range_of (b * n) n p) \<longleftrightarrow> b * n + j < length p" using j1 by auto
      show ?thesis
        unfolding nth_overwrite [OF j] len(1) c w using v c j1 by auto
    qed
    finally show "overwrite (off + k - b * n) (range_of k l d) (range_of (b * n) n p) ! j
      = range_of (b * n) n (overwrite off d p) ! j" by simp
  qed
qed

lemma unat_of_nat_small [simp]: "n < 2 ^ 64 \<Longrightarrow> unat (of_nat n :: uint64) = n"
  by (simp add: unat_of_nat)

lemma nat_go_int_small: "unat x < 2 ^ 63 \<Longrightarrow> nat (go_int x) = unat x"
  by (subst go_int_small) simp_all

text \<open>
  The read-modify-write loop collects, block by block, what the plaintext will be after
  the write. \<open>k\<close> bytes of the payload have been taken.
\<close>

lemma toEncrypt_loop_spec:
  assumes P: "prims_ok P" and be: "be_ok be" and fid: "file_ID f = Some x"
    and st: "stored P be x c p"
    and d: "d \<noteq> []" and bound: "off + length d \<le> 2 ^ 56"
    and "file_at s (file_fd f) i c"
    and "map ib_nat bs = explode (BS be) (off + k) (length d - k)"
    and "k = 0 \<or> k = length d \<or> (off + k) mod BS be = 0"
  shows "\<exists>res s'. toEncrypt_loop P be f bs (drop k d) s = Ret (res, f, s') \<and>
     file_at s' (file_fd f) i c \<and> only_file i s s' \<and> (quiet s \<longrightarrow> res \<noteq> None) \<and>
     (\<forall>vs. res = Some vs \<longrightarrow>
        vs = map (\<lambda>b. range_of (unat (BlockNo b) * BS be) (BS be) (overwrite off d p)) bs)"
  using assms(7-)
proof (induction bs arbitrary: s k)
  case Nil
  then show ?case by simp
next
  case (Cons b bs)
  note B = be_okD [OF be]
  let ?B = "BS be"
  have "length d - k \<noteq> 0" using Cons.prems(2) by (cases "length d - k = 0") simp_all
  then have k: "k < length d" by simp
  define bn sk l where "bn = (off + k) div ?B" and "sk = (off + k) mod ?B"
    and "l = min (length d - k) (?B - sk)"
  have sk: "sk < ?B" using B(3) by (simp add: sk_def)
  have ex: "explode ?B (off + k) (length d - k) = (bn, sk, l) # explode ?B (off + (k + l)) (length d - (k + l))"
    using k B(3) by (subst explode.simps) (simp add: Let_def bn_def sk_def l_def add.assoc)
  then have ib: "unat (BlockNo b) = bn" "unat (Skip b) = sk" "unat (Length b) = l"
    and rest: "map ib_nat bs = explode ?B (off + (k + l)) (length d - (k + l))"
    using Cons.prems(2) by (simp_all, simp_all add: ib_nat_def)
  have pos: "off + k = bn * ?B + sk" unfolding bn_def sk_def by simp
  have l: "0 < l" "k + l \<le> length d" "sk + l \<le> ?B" using k sk by (auto simp: l_def)
  have l2: "k + l = length d \<or> off + k + l = (bn + 1) * ?B"
    using pos sk k by (auto simp: l_def min_def)
  have nl: "nat (go_int (Length b)) = l" using ib(3) l(3) B(5) by (subst nat_go_int_small) simp_all
  have gs: "go_int (Skip b) = int sk" using ib(2) sk B(5) by (subst go_int_small) simp_all
  let ?new = "range_of k l d"
  have tk: "take l (drop k d) = ?new" "drop l (drop k d) = drop (k + l) d"
    by (simp_all add: range_of_def add.commute)
  have new: "length ?new = l" "?new \<noteq> []" using l by (auto simp: range_of_def)
  let ?old = "range_of (bn * ?B) ?B p"
  let ?v = "range_of (bn * ?B) ?B (overwrite off d p)"
  have v: "overwrite sk ?new ?old = ?v"
  proof -
    have c: "k = 0 \<or> off + k = bn * ?B" proof (cases "k = 0")
      case False
      then have "sk = 0" using Cons.prems(3) k by (simp add: sk_def)
      then show ?thesis using pos by simp
    qed simp
    have e1: "off + k - bn * ?B = sk" unfolding pos by (rule diff_add_inverse)
    have e: "off + k - bn * ?B = sk" "bn * ?B \<le> off + k" "off + k + l \<le> (bn + 1) * ?B"
      unfolding e1 using pos l(3) unfolding add_mult_distrib by linarith+
    show ?thesis using block_of_overwrite [OF d e(2,3) l(1,2) c l2, of p] unfolding e(1) .
  qed
  have step: "\<exists>res s1. (if IsPartial be b
       then go_bind (doRead P be f [] (BlockPlainOff be b) (plainBS be) s) (\<lambda>(oldData, f1, s1).
             case oldData of None \<Rightarrow> Ret (None, f1, s1)
             | Some old \<Rightarrow> go_bind (MergeBlocks be old ?new (go_int (Skip b)))
                 (\<lambda>merged. Ret (Some merged, f1, s1)))
       else Ret (Some ?new, f, s)) = Ret (res, f, s1) \<and> file_at s1 (file_fd f) i c \<and> only_file i s s1 \<and>
     (quiet s \<longrightarrow> res \<noteq> None) \<and> (res = None \<or> res = Some ?v)"
  proof (cases "IsPartial be b")
    case False
    then have "sk = 0" "l = ?B" using ib l(3)
      by (auto simp: IsPartial_def word_gt_0 word_less_nat_alt unat_eq_zero)
    then have "?new = ?v" using v new by (auto simp: overwrite_def)
    then show ?thesis using False Cons.prems(1) by simp
  next
    case True
    have "bn * ?B \<le> 2 ^ 56" using pos k bound by simp
    then have po: "unat (BlockPlainOff be b) = bn * ?B" "bn * ?B + ?B \<le> 2 ^ 57"
      unfolding BlockPlainOff_def using ib(1) B(5) by (simp_all add: unat_BlockNoToPlainOff)
    have h: "holds P be (file_ID f) c p" using fid st by simp
    obtain res f' s1 where r: "doRead P be f [] (BlockPlainOff be b) (plainBS be) s = Ret (res, f', s1)"
      "file_at s1 (file_fd f) i c" "only_file i s s1"
      "\<exists>fid. f' = f\<lparr>file_ID := fid\<rparr> \<and> holds P be fid c p \<and> (file_ID f \<noteq> None \<longrightarrow> fid = file_ID f)"
      "res = None \<or> res = Some ([] @ ?old)"
      "quiet s \<and> (file_ID f \<noteq> None \<or> p \<noteq> []) \<longrightarrow> res \<noteq> None"
      using doRead_spec [OF P be Cons.prems(1) h B(6,5), of "BlockPlainOff be b" "[]"] po(2)
      unfolding po(1) by blast
    have f': "f' = f" using r(4) fid by auto
    have m: "MergeBlocks be ?old ?new (int sk) = Ret ?v"
      using MergeBlocks_overwrite [of ?old be sk ?new] new l(3) v by simp
    show ?thesis
      using True r f' fid m by (auto simp: gs)
  qed
  then obtain res s1 where r: "(if IsPartial be b
       then go_bind (doRead P be f [] (BlockPlainOff be b) (plainBS be) s) (\<lambda>(oldData, f1, s1).
             case oldData of None \<Rightarrow> Ret (None, f1, s1)
             | Some old \<Rightarrow> go_bind (MergeBlocks be old ?new (go_int (Skip b)))
                 (\<lambda>merged. Ret (Some merged, f1, s1)))
       else Ret (Some ?new, f, s)) = Ret (res, f, s1)" "file_at s1 (file_fd f) i c" "only_file i s s1"
     "quiet s \<longrightarrow> res \<noteq> None" "res = None \<or> res = Some ?v" by blast
  have loop: "toEncrypt_loop P be f (b # bs) (drop k d) s = (case res of None \<Rightarrow> Ret (None, f, s1)
      | Some v \<Rightarrow> go_bind (toEncrypt_loop P be f bs (drop (k + l) d) s1)
          (\<lambda>(vs, f2, s2). Ret (map_option ((#) v) vs, f2, s2)))"
    by (simp only: toEncrypt_loop.simps nl Let_def tk r(1) go_bind.simps prod.case)
  show ?case
  proof (cases res)
    case None
    then show ?thesis using loop r by auto
  next
    case (Some v)
    then have vv: "v = ?v" using r(5) by simp
    have "k + l = 0 \<or> k + l = length d \<or> (off + (k + l)) mod ?B = 0"
      using l2 by (auto simp: add.assoc)
    from Cons.IH [OF r(2) rest this] obtain res2 s2 where
      s2: "toEncrypt_loop P be f bs (drop (k + l) d) s1 = Ret (res2, f, s2)"
        "file_at s2 (file_fd f) i c" "only_file i s1 s2" "quiet s1 \<longrightarrow> res2 \<noteq> None"
        "\<forall>vs. res2 = Some vs \<longrightarrow>
           vs = map (\<lambda>b. range_of (unat (BlockNo b) * ?B) ?B (overwrite off d p)) bs" by blast
    show ?thesis
      using loop Some s2 only_file_trans [OF r(3) s2(3)] only_file_quiet [OF r(3)] vv ib(1) by auto
  qed
qed

section \<open>Writing the blocks\<close>

lemma has_header_overwrite:
  assumes "has_header x c"
  shows "has_header x (overwrite (18 + n) ct c)" "drop 18 (overwrite (18 + n) ct c) = overwrite n ct (drop 18 c)"
proof -
  have l: "18 \<le> length c" using has_headerD [OF assms] by simp
  have "take 18 (overwrite (18 + n) ct c) = take 18 c"
    using l by (cases "ct = []") (simp_all add: overwrite_def)
  then show "has_header x (overwrite (18 + n) ct c)" using assms by (simp add: has_header_def)
  show "drop 18 (overwrite (18 + n) ct c) = overwrite n ct (drop 18 c)"
    using l by (cases "ct = []") (simp_all add: overwrite_def drop_take ac_simps)
qed

lemma concat_length_bound: "(\<And>c. c \<in> set cs \<Longrightarrow> length c \<le> n) \<Longrightarrow> length (concat cs) \<le> length cs * n"
  by (induction cs) (auto, metis add_le_mono)

text \<open>The number of blocks fits the request buffer.\<close>

lemma blocks_fit:
  assumes "be_ok be" "len \<le> 131072"
  shows "nblocks (BS be) off len * CS be \<le> CReqPool be" "CReqPool be < 2 ^ 40"
proof -
  note B = be_okD [OF assms(1)]
  show "nblocks (BS be) off len * CS be \<le> CReqPool be"
    using mult_le_mono1 [OF nblocks_bound [OF B(3,4) assms(2)], of off "CS be"] by (simp add: B(14))
  have "131072 div BS be * CS be \<le> 131072 * 131112"
    using B(18) by (intro mult_le_mono div_le_dividend) simp_all
  then show "CReqPool be < 2 ^ 40" using B(14,18) by simp
qed

text \<open>The encryption of the new blocks stands for the overwritten plaintext.\<close>

lemma EncryptBlocks_overwrite:
  assumes P: "prims_ok P" and be: "be_ok be" and st: "stored P be x c p"
    and d: "d \<noteq> []" "length d \<le> 131072" and bound: "unat off + length d \<le> 2 ^ 56"
    and gap: "fb.no_gap (P, be, Some x) (unat off) p"
    and r: "nonces_ok (IVLen (cryptoCore be)) (nblocks (BS be) (unat off) (length d)) r"
    and bs: "bs = ExplodePlainRange be off (of_nat (length d))"
    and vs: "vs = map (\<lambda>b. range_of (unat (BlockNo b) * BS be) (BS be) (overwrite (unat off) d p)) bs"
  shows "\<exists>ct. EncryptBlocks P be vs (BlockNo (hd bs)) (Some x) r
       = Ret (ct, rng_after (IVLen (cryptoCore be)) (nblocks (BS be) (unat off) (length d)) r) \<and>
     ct \<noteq> [] \<and> length ct \<le> nblocks (BS be) (unat off) (length d) * CS be \<and>
     stored P be x (overwrite (18 + unat off div BS be * CS be) ct c) (overwrite (unat off) d p)"
proof -
  note B = be_okD [OF be] and k = stored_codec [OF st P be]
  let ?B = "BS be" and ?n = "nblocks (BS be) (unat off) (length d)"
  let ?p = "overwrite (unat off) d p" and ?b = "unat off div BS be"
  have len: "unat (of_nat (length d) :: uint64) = length d" using d(2) by simp
  have small: "unat off + unat (of_nat (length d) :: uint64) < 2 ^ 64" using bound len by simp
  have l0: "0 < length d" using d(1) by simp
  have lw: "(of_nat (length d) :: uint64) \<noteq> 0" using l0 len by (metis less_irrefl unat_0)
  note e = ExplodePlainRange_nat [OF B(6) small, folded bs, unfolded len]
  note hd = hd_explode [OF B(6) small lw, folded bs]
  have lbs: "length bs = ?n" using length_explode [OF B(3), of "unat off" "length d"] e by (metis length_map)
  have nos: "map (\<lambda>b. unat (BlockNo b)) bs = [?b ..< (unat off + length d - 1) div ?B + 1]"
    using arg_cong [OF e, of "map fst"] explode_blocks [OF B(3), of "unat off" "length d"] l0
    by (simp add: comp_def ib_nat_def)
  have no: "unat (BlockNo (bs ! j)) = ?b + j" "?b + j \<le> (unat off + length d - 1) div ?B" if "j < ?n" for j
  proof -
    have "length bs = (unat off + length d - 1) div ?B + 1 - ?b"
      using arg_cong [OF nos, of length] by (simp del: upt_Suc)
    then have "?b + j < (unat off + length d - 1) div ?B + 1" using that lbs by linarith
    then show "?b + j \<le> (unat off + length d - 1) div ?B" by simp
    show "unat (BlockNo (bs ! j)) = ?b + j"
      using arg_cong [OF nos, of "\<lambda>l. l ! j"] that lbs \<open>?b + j < _\<close> by (simp add: nth_upt del: upt_Suc)
  qed
  have lvs: "length vs = ?n" by (simp add: vs lbs)
  have v: "vs ! j = fb.pblk (P, be, Some x) (?b + j) ?p" "vs ! j \<noteq> []" "length (vs ! j) \<le> ?B" if "j < ?n" for j
  proof -
    show v: "vs ! j = fb.pblk (P, be, Some x) (?b + j) ?p"
      using that no(1) lbs by (simp add: vs fb.pblk_def)
    have "(?b + j) * ?B \<le> unat off + length d - 1"
      using mult_le_mono1 [OF no(2) [OF that], of ?B] div_bounds(1) [OF B(3), of "unat off + length d - 1"]
      by linarith
    then have "(?b + j) * ?B < unat off + length d" using l0 by linarith
    then have "(?b + j) * ?B < length ?p" using d(1) by (simp add: less_max_iff_disj)
    then show "vs ! j \<noteq> []" using B(3) unfolding v by (simp add: fb.pblk_def range_of_def)
    show "length (vs ! j) \<le> ?B" unfolding v by (simp add: fb.pblk_def)
  qed
  have bo: "blocks_ok be vs"
    unfolding blocks_ok_def using v(2,3) lvs by (metis in_set_conv_nth)
  obtain cs where cs: "EncryptBlocks P be vs (BlockNo (hd bs)) (Some x) r
       = Ret (concat cs, rng_after (IVLen (cryptoCore be)) ?n r)"
    "sealed (P, be, Some x) (BlockNo (hd bs)) vs cs"
    using EncryptBlocks_spec [OF k bo, unfolded lvs, OF r, of "BlockNo (hd bs)"] by blast
  have lcs: "length cs = ?n" using cs(2) lvs by (simp add: sealed_def)
  have bno: "BlockNo (hd bs) = of_nat ?b" unfolding hd(2) [symmetric] by simp
  have dec: "file_dec (P, be, Some x) (?b + j) (cs ! j) = Some (fb.pblk (P, be, Some x) (?b + j) ?p)"
    "cs ! j \<noteq> []" "length (cs ! j) \<le> CS be" if "j < ?n" for j
    using cs(2) lvs v [OF that] that by (auto simp: sealed_def file_dec_Some bno)
  have "fb.rep (P, be, Some x) (overwrite (?b * CS be) (concat cs) (drop 18 c)) ?p"
    using fb.rep_write [OF k _ d(1) gap, of "drop 18 c" cs] st lcs dec by (simp add: stored_def)
  moreover have "concat cs \<noteq> []"
    using dec(2) [of 0] nblocks_pos [OF l0, of ?B "unat off"] lcs by (cases cs) auto
  moreover have "length (concat cs) \<le> ?n * CS be"
    using concat_length_bound [of cs "CS be"] dec(3) lcs by (metis in_set_conv_nth)
  ultimately show ?thesis
    using cs(1) has_header_overwrite [of x c "?b * CS be" "concat cs"] st by (auto simp: stored_def)
qed

text \<open>
  The write proper. Whatever happens, the only bytes of the file that change lie from the
  first touched block on, at most as many as the touched blocks have; or the file is cut
  to nothing on the undo path.
\<close>

lemma write_blocks_spec:
  assumes P: "prims_ok P" and be: "be_ok be" and fid: "file_ID f = Some x"
    and st: "stored P be x c p" and f: "file_at s (file_fd f) i c"
    and d: "d \<noteq> []" "length d \<le> 131072" and bound: "unat off + length d \<le> 2 ^ 56"
    and gap: "fb.no_gap (P, be, Some x) (unat off) p"
    and r: "nonces_ok (IVLen (cryptoCore be)) (nblocks (BS be) (unat off) (length d)) r"
  shows "\<exists>res s' r' c'. write_blocks P be f x we d off s r = Ret (res, f, s', r') \<and>
     file_at s' (file_fd f) i c' \<and> only_file i s s' \<and>
     (\<forall>n. res = Written n \<longrightarrow> n = of_nat (length d) \<and> stored P be x c' (overwrite (unat off) d p)) \<and>
     (res \<noteq> Undone \<longrightarrow> (\<exists>ct. length ct \<le> nblocks (BS be) (unat off) (length d) * CS be \<and>
        c' = overwrite (18 + unat off div BS be * CS be) ct c)) \<and>
     (res = Undone \<longrightarrow> we \<and> (c' = [] \<or> c' = c)) \<and>
     (quiet s \<longrightarrow> res = Written (of_nat (length d))) \<and>
     (\<forall>n. res = Written n \<longrightarrow>
        r' = rng_after (IVLen (cryptoCore be)) (nblocks (BS be) (unat off) (length d)) r)"
proof -
  note B = be_okD [OF be]
  define bs where "bs = ExplodePlainRange be off (of_nat (length d))"
  have len: "unat (of_nat (length d) :: uint64) = length d" using d(2) by simp
  have small: "unat off + unat (of_nat (length d) :: uint64) < 2 ^ 64" using bound len by simp
  have l0: "0 < length d" using d(1) by simp
  have lw: "(of_nat (length d) :: uint64) \<noteq> 0" using l0 len by (metis less_irrefl unat_0)
  note e = ExplodePlainRange_nat [OF B(6) small, folded bs_def, unfolded len]
  note hd = hd_explode [OF B(6) small lw, folded bs_def]
  let ?k = "nblocks (BS be) (unat off) (length d) * CS be"
  define a where "a = 18 + unat off div BS be * CS be"
  have e0: "map ib_nat bs = explode (BS be) (unat off + 0) (length d - 0)" using e by simp
  obtain vr s1 where loop: "toEncrypt_loop P be f bs d s = Ret (vr, f, s1)"
    "file_at s1 (file_fd f) i c" "only_file i s s1" "quiet s \<longrightarrow> vr \<noteq> None"
    "\<forall>vs. vr = Some vs \<longrightarrow>
       vs = map (\<lambda>b. range_of (unat (BlockNo b) * BS be) (BS be) (overwrite (unat off) d p)) bs"
    using toEncrypt_loop_spec [OF P be fid st d(1) bound f e0] by auto
  show ?thesis
  proof (cases vr)
    case None
    then have "write_blocks P be f x we d off s r = Ret (Failed, f, s1, r)"
      using loop(1) by (simp add: write_blocks_def bs_def [symmetric] Let_def)
    then show ?thesis
      using loop None
      by (intro exI [of _ Failed] exI [of _ s1] exI [of _ r] exI [of _ c]) (auto intro: exI [of _ "[]"])
  next
    case (Some vs)
    obtain ct where ct: "EncryptBlocks P be vs (BlockNo (hd bs)) (Some x) r
       = Ret (ct, rng_after (IVLen (cryptoCore be)) (nblocks (BS be) (unat off) (length d)) r)"
      "ct \<noteq> []" "length ct \<le> ?k" "stored P be x (overwrite a ct c) (overwrite (unat off) d p)"
      using EncryptBlocks_overwrite [OF P be st d bound gap r bs_def] loop(5) Some
      unfolding a_def by blast
    define r1 where "r1 = rng_after (IVLen (cryptoCore be)) (nblocks (BS be) (unat off) (length d)) r"
    have fit: "length ct \<le> CReqPool be" "CReqPool be < 2 ^ 40"
      using ct(3) blocks_fit(1) [OF be d(2), of "unat off"] blocks_fit(2) [OF be d(2)] by linarith+
    have a: "a < 2 ^ 63 - 2 ^ 61"
      unfolding a_def using bound by (intro block_offset_bound [OF be]) simp
    let ?o = "BlockCipherOff be (hd bs)"
    have o: "unat ?o = a"
      unfolding BlockCipherOff_def a_def hd(2) [symmetric]
      by (rule unat_BlockNoToCipherOff [OF be]) (use a in \<open>simp add: a_def hd(2)\<close>)
    have go: "go_int ?o = int a" using o a by (subst go_int_small) simp_all
    have max: "\<not> unat ?o > MaxInt64" using o a by (simp add: MaxInt64_def)
    have put: "bPool_Put (CReqPool be) (grown (CReqPool be) (length ct)) = Ret ()"
      using fit(1) by simp
    have lct: "0 < int (length ct)" using ct(2) by simp
    have fits: "nat (int a) + nat (int (length ct)) \<le> maxbytes"
      using a fit by (simp add: maxbytes_def)
    obtain er s2 where pre: "EnospcPrealloc (file_fd f) (int a) (int (length ct)) s1 = Ret (er, s2)"
      "file_at s2 (file_fd f) i c" "only_file i s1 s2" "quiet s1 \<Longrightarrow> er = None"
      using EnospcPrealloc_file [OF loop(2) _ lct, of "int a"] fits by (metis of_nat_0_le_iff)
    have s2: "only_file i s s2" using loop(3) pre(3) by (rule only_file_trans)
    have "write_blocks P be f x we d off s r =
      (case er of Some e \<Rightarrow>
           if we then Ret (Undone, f, snd (Ftruncate (file_fd f) 0 s2), r1) else Ret (Failed, f, s2, r1)
       | None \<Rightarrow> (case File_WriteAt (file_fd f) ct (int a) s2 of (er2, s3) \<Rightarrow>
             Ret (if er2 = None then Written (of_nat (length d)) else Failed, f, s3, r1)))"
      unfolding write_blocks_def bs_def [symmetric] Let_def
      using loop(1) Some hd(1) ct(1) max go pre(1) put
      by (simp add: r1_def split: option.splits prod.splits)
    note W = this
    show ?thesis
    proof (cases er)
      case None
      obtain er2 c' s3 where w: "File_WriteAt (file_fd f) ct (int a) s2 = (er2, s3)"
        "file_at s3 (file_fd f) i c'" "only_file i s2 s3"
        "er2 = None \<Longrightarrow> c' = overwrite (nat (int a)) ct c"
        "\<exists>k. c' = overwrite (nat (int a)) (take k ct) c"
        "quiet s2 \<Longrightarrow> nat (int a) + length ct \<le> maxbytes \<Longrightarrow> er2 = None"
        using WriteAt_file [OF pre(2) _ ct(2), of "int a"] by (metis of_nat_0_le_iff)
      obtain k where k: "c' = overwrite a (take k ct) c" using w(5) by auto
      have q: "quiet s \<Longrightarrow> er2 = None" using w(6) fits only_file_quiet [OF s2] by simp
      have "write_blocks P be f x we d off s r
          = Ret (if er2 = None then Written (of_nat (length d)) else Failed, f, s3, r1)"
        using W None w(1) by simp
      then show ?thesis
        unfolding a_def [symmetric]
      proof (intro exI conjI)
        show "file_at s3 (file_fd f) i c'" by fact
        show "only_file i s s3" using s2 w(3) by (rule only_file_trans)
        have st': "stored P be x c' (overwrite (unat off) d p)" if "er2 = None"
          using w(4) [OF that] ct(4) by simp
        then show "\<forall>n. (if er2 = None then Written (of_nat (length d)) else Failed) = Written n \<longrightarrow>
            n = of_nat (length d) \<and> stored P be x c' (overwrite (unat off) d p)"
          by (cases "er2 = None") auto
        have "length (take k ct) \<le> ?k" using ct(3) by simp
        with k show "(if er2 = None then Written (of_nat (length d)) else Failed) \<noteq> Undone \<longrightarrow>
            (\<exists>ct. length ct \<le> ?k \<and> c' = overwrite a ct c)" by blast
      qed (use q in \<open>auto simp: r1_def\<close>)
    next
      case (Some e)
      then have nq: "\<not> quiet s" using pre(4) only_file_quiet [OF loop(3)] by auto
      show ?thesis
      proof (cases we)
        case True
        obtain rr c' s3 where t: "Ftruncate (file_fd f) 0 s2 = (rr, s3)" "file_at s3 (file_fd f) i c'"
          "only_file i s2 s3" "rr = Inr () \<Longrightarrow> c' = resize (nat 0) c" "rr \<noteq> Inr () \<Longrightarrow> c' = c"
          using Ftruncate_file [OF pre(2), of 0] by (metis order_refl)
        have "c' = [] \<or> c' = c" using t(4,5) by (cases "rr = Inr ()") (simp_all add: resize_def)
        moreover have "only_file i s s3" using s2 t(3) by (rule only_file_trans)
        ultimately show ?thesis using W Some True t(1,2) nq by auto
      next
        case False
        then show ?thesis
          using W Some pre(2) s2 nq
          by (intro exI [of _ Failed] exI [of _ s2] exI [of _ r1] exI [of _ c]) (auto intro: exI [of _ "[]"])
      qed
    qed
  qed
qed

section \<open>The header and the whole write\<close>

lemma createHeader_spec:
  assumes f: "file_at s fd i c" and c: "length c \<le> 18" and z: "fst (RandBytes headerIDLen r) \<noteq> allZeroFileID"
  shows "\<exists>idr s' c'. createHeader fd s r = Ret (idr, s', snd (RandBytes headerIDLen r)) \<and>
     file_at s' fd i c' \<and> only_file i s s' \<and> length c' \<le> 18 \<and>
     (\<forall>x. idr = Inr x \<longrightarrow> has_header x c' \<and> length c' = 18) \<and> (quiet s \<longrightarrow> (\<exists>x. idr = Inr x))"
proof -
  obtain h r' where h: "RandomHeader r = (h, r')" by (cases "RandomHeader r")
  from Pack_RandomHeader [OF h] obtain b where b: "Pack h = Ret b" "length b = 18"
    and r': "r' = snd (RandBytes headerIDLen r)" by blast
  have id: "fileHeader.ID h = fst (RandBytes headerIDLen r)"
    using h by (auto simp: RandomHeader_def split: prod.splits)
  have v: "h = \<lparr>Version = CurrentVersion, ID = fileHeader.ID h\<rparr>"
    using Pack_RandomHeader(2) [OF h] by simp
  have "ParseHeader b = Inr h" using ParseHeader_Pack [OF b(1)] id z by simp
  then have hb: "has_header (fileHeader.ID h) b" using v b(2) by (simp add: has_header_def)
  have b0: "b \<noteq> []" using b(2) by auto
  obtain er s1 where pre: "EnospcPrealloc fd 0 18 s = Ret (er, s1)" "file_at s1 fd i c" "only_file i s s1"
    "quiet s \<Longrightarrow> er = None"
  proof -
    have "nat 0 + nat 18 \<le> maxbytes" by (simp add: maxbytes_def)
    then show ?thesis using EnospcPrealloc_file [OF f, of 0 18] that by (metis order_refl zero_less_numeral)
  qed
  show ?thesis
  proof (cases er)
    case (Some e)
    then have "createHeader fd s r = Ret (Inl e, s1, r')"
      using h b pre by (simp add: createHeader_def HeaderLen_def)
    then show ?thesis using pre Some c r' by auto
  next
    case None
    obtain er2 c' s2 where w: "File_WriteAt fd b 0 s1 = (er2, s2)" "file_at s2 fd i c'" "only_file i s1 s2"
      "er2 = None \<Longrightarrow> c' = overwrite (nat 0) b c" "\<exists>k. c' = overwrite (nat 0) (take k b) c"
      "quiet s1 \<Longrightarrow> nat 0 + length b \<le> maxbytes \<Longrightarrow> er2 = None"
      using WriteAt_file [OF pre(2) _ b0, of 0] by (metis order_refl)
    have o: "only_file i s s2" using pre(3) w(3) by (rule only_file_trans)
    have l: "length c' \<le> 18" using w(5) c b(2) by (auto simp: max_def)
    have full: "c' = b" if "er2 = None" using w(4) [OF that] c b b0 by (simp add: overwrite_def)
    have "createHeader fd s r = Ret (case er2 of Some e \<Rightarrow> Inl e | None \<Rightarrow> Inr (fileHeader.ID h), s2, r')"
      using h b pre w None by (simp add: createHeader_def HeaderLen_def split: option.splits)
    moreover have "quiet s \<Longrightarrow> er2 = None"
      using w(6) b(2) only_file_quiet [OF pre(3)] by (simp add: maxbytes_def)
    ultimately show ?thesis
      using w(2) o l full hb b(2) r' by (intro exI conjI) (auto split: option.splits)
  qed
qed

lemma stored_header_only:
  assumes "prims_ok P" "be_ok be" "has_header x c" "length c = 18"
  shows "stored P be x c []"
proof -
  have "codec_ok (P, be, Some x)"
    using assms has_headerD(2) [OF assms(3)] by (simp add: codec_ok_def id_ok_def)
  then show ?thesis using assms fb.rep_empty by (simp add: stored_def)
qed

text \<open>The random bytes a write needs: an ID for a new file, and the nonces.\<close>

definition fresh_ok :: "contentEnc \<Rightarrow> bool \<Rightarrow> nat \<Rightarrow> rng \<Rightarrow> bool" where
  "fresh_ok be new n r \<longleftrightarrow> (if new
     then fst (RandBytes headerIDLen r) \<noteq> allZeroFileID
       \<and> nonces_ok (IVLen (cryptoCore be)) n (snd (RandBytes headerIDLen r))
     else nonces_ok (IVLen (cryptoCore be)) n r)"

lemma doWrite_file_spec:
  assumes P: "prims_ok P" and be: "be_ok be" and f: "file_at s (file_fd f) i c"
    and h: "holds P be (file_ID f) c p"
    and d: "d \<noteq> []" "length d \<le> 131072" and bound: "unat off + length d \<le> 2 ^ 56"
    and gap: "length p mod BS be = 0 \<or> unat off div BS be \<le> length p div BS be"
    and r: "fresh_ok be (file_ID f = None \<and> p = []) (nblocks (BS be) (unat off) (length d)) r"
  shows "\<exists>res fid s' r' c'. doWrite_file P be f d off s r = Ret (res, f\<lparr>file_ID := fid\<rparr>, s', r') \<and>
     file_at s' (file_fd f) i c' \<and> only_file i s s' \<and> (file_ID f \<noteq> None \<longrightarrow> fid = file_ID f) \<and>
     (\<forall>n. res = Written n \<longrightarrow> n = of_nat (length d) \<and> fid \<noteq> None \<and>
        holds P be fid c' (overwrite (unat off) d p)) \<and>
     (\<not> (file_ID f = None \<and> p = []) \<longrightarrow>
        (\<exists>ct. length ct \<le> nblocks (BS be) (unat off) (length d) * CS be \<and>
           c' = overwrite (18 + unat off div BS be * CS be) ct c)) \<and>
     (quiet s \<longrightarrow> res = Written (of_nat (length d))) \<and>
     (\<forall>n. res = Written n \<and> \<not> (file_ID f = None \<and> p = []) \<longrightarrow>
        r' = rng_after (IVLen (cryptoCore be)) (nblocks (BS be) (unat off) (length d)) r)"
proof -
  have g: "fb.no_gap (P, be, Some x) (unat off) p" for x using gap by (simp add: fb.no_gap_def)
  let ?n = "nblocks (BS be) (unat off) (length d)"
  show ?thesis
  proof (cases "file_ID f")
    case (Some x)
    then have st: "stored P be x c p" and rr: "nonces_ok (IVLen (cryptoCore be)) ?n r"
      using h r by (simp_all add: fresh_ok_def)
    from write_blocks_spec [OF P be Some st f d bound g rr, of False] obtain res s' r' c' where
      w: "write_blocks P be f x False d off s r = Ret (res, f, s', r')" "file_at s' (file_fd f) i c'"
        "only_file i s s'"
        "\<forall>n. res = Written n \<longrightarrow> n = of_nat (length d) \<and> stored P be x c' (overwrite (unat off) d p)"
        "res \<noteq> Undone \<longrightarrow> (\<exists>ct. length ct \<le> ?n * CS be \<and>
          c' = overwrite (18 + unat off div BS be * CS be) ct c)"
        "res = Undone \<longrightarrow> False" "quiet s \<longrightarrow> res = Written (of_nat (length d))"
        "\<forall>n. res = Written n \<longrightarrow> r' = rng_after (IVLen (cryptoCore be)) ?n r" by blast
    have "f\<lparr>file_ID := Some x\<rparr> = f" using Some by simp
    then have "doWrite_file P be f d off s r = Ret (res, f\<lparr>file_ID := Some x\<rparr>, s', r')"
      using w(1) Some by (simp add: doWrite_file_def)
    then show ?thesis
    proof (intro exI conjI)
      show "\<not> (file_ID f = None \<and> p = []) \<longrightarrow> (\<exists>ct. length ct \<le> ?n * CS be \<and>
          c' = overwrite (18 + unat off div BS be * CS be) ct c)" using w(5,6) by blast
      show "\<forall>n. res = Written n \<longrightarrow> n = of_nat (length d) \<and> Some x \<noteq> None \<and>
          holds P be (Some x) c' (overwrite (unat off) d p)" using w(4) by simp
    qed (use w(2,3,7,8) Some in simp_all)
  next
    case None
    obtain ir s1 where id: "readFileID (file_fd f) s = (ir, s1)" "file_at s1 (file_fd f) i c" "only_file i s s1"
      "\<And>x. ir = Inr x \<Longrightarrow> has_header x c \<and> 18 < length c" "ir = Inl EOF \<Longrightarrow> length c \<le> 18"
      "quiet s \<Longrightarrow> length c \<le> 18 \<Longrightarrow> ir = Inl EOF"
      "\<And>x. quiet s \<Longrightarrow> 18 < length c \<Longrightarrow> has_header x c \<Longrightarrow> ir = Inr x"
      using readFileID_spec [OF f] by metis
    have same: "f\<lparr>file_ID := None\<rparr> = f" using None by simp
    have short: "p = [] \<longleftrightarrow> length c \<le> 18"
    proof (cases "p = []")
      case True
      then show ?thesis using h None by (simp add: holds_def)
    next
      case False
      then obtain x where "stored P be x c p" using h None by (auto simp: holds_def)
      then show ?thesis
        using stored_length [OF be, of P x c p] body_len_pos [of "length p" "BS be" "OH be"] False by simp
    qed
    have hdr: "\<exists>x. has_header x c" if "p \<noteq> []" using that h None by (auto simp: holds_def stored_def)
    consider x where "ir = Inr x" | "ir = Inl EOF" | e where "ir = Inl e" "e \<noteq> EOF"
      by (cases ir) auto
    then show ?thesis
    proof cases
      case (1 x)
      then have hx: "has_header x c" "18 < length c" using id(4) by simp_all
      then have pne: "p \<noteq> []" using short by auto
      have st: "stored P be x c p" using file_id_holds [OF h [unfolded None] hx] .
      have rr: "nonces_ok (IVLen (cryptoCore be)) ?n r" using r pne by (simp add: fresh_ok_def)
      let ?f = "f\<lparr>file_ID := Some x\<rparr>"
      have f1: "file_ID ?f = Some x" "file_at s1 (file_fd ?f) i c" and fd: "file_fd ?f = file_fd f"
        using id(2) by simp_all
      from write_blocks_spec [OF P be f1(1) st f1(2) d bound g rr, of False] obtain res s' r' c' where
        w: "write_blocks P be ?f x False d off s1 r = Ret (res, ?f, s', r')" "file_at s' (file_fd f) i c'"
          "only_file i s1 s'"
          "\<forall>n. res = Written n \<longrightarrow> n = of_nat (length d) \<and> stored P be x c' (overwrite (unat off) d p)"
          "res \<noteq> Undone \<longrightarrow> (\<exists>ct. length ct \<le> ?n * CS be \<and>
            c' = overwrite (18 + unat off div BS be * CS be) ct c)"
          "res = Undone \<longrightarrow> False" "quiet s1 \<longrightarrow> res = Written (of_nat (length d))"
          "\<forall>n. res = Written n \<longrightarrow> r' = rng_after (IVLen (cryptoCore be)) ?n r"
        unfolding fd by blast
      have q: "quiet s \<longrightarrow> quiet s1" using only_file_quiet [OF id(3)] by blast
      have "doWrite_file P be f d off s r = Ret (res, ?f, s', r')"
        using w(1) by (simp add: doWrite_file_def None id(1) 1)
      then show ?thesis
      proof (intro exI conjI)
        show "only_file i s s'" using id(3) w(3) by (rule only_file_trans)
        show "\<forall>n. res = Written n \<longrightarrow> n = of_nat (length d) \<and> Some x \<noteq> None \<and>
            holds P be (Some x) c' (overwrite (unat off) d p)" using w(4) by simp
        show "\<not> (file_ID f = None \<and> p = []) \<longrightarrow> (\<exists>ct. length ct \<le> ?n * CS be \<and>
            c' = overwrite (18 + unat off div BS be * CS be) ct c)" using w(5,6) by blast
      qed (use w(2,7,8) q None pne in simp_all)
    next
      case 2
      then have c: "length c \<le> 18" and p: "p = []" using id(5) short by auto
      have rr: "fst (RandBytes headerIDLen r) \<noteq> allZeroFileID"
        "nonces_ok (IVLen (cryptoCore be)) ?n (snd (RandBytes headerIDLen r))"
        using r None p by (simp_all add: fresh_ok_def)
      from createHeader_spec [OF id(2) c rr(1)] obtain idr s2 c2 where
        cr: "createHeader (file_fd f) s1 r = Ret (idr, s2, snd (RandBytes headerIDLen r))"
          "file_at s2 (file_fd f) i c2" "only_file i s1 s2"
          "\<forall>x. idr = Inr x \<longrightarrow> has_header x c2 \<and> length c2 = 18" "quiet s1 \<longrightarrow> (\<exists>x. idr = Inr x)" by blast
      have o2: "only_file i s s2" using id(3) cr(3) by (rule only_file_trans)
      have q2: "quiet s \<Longrightarrow> quiet s1 \<and> quiet s2"
        using only_file_quiet [OF id(3)] only_file_quiet [OF o2] by blast
      show ?thesis
      proof (cases idr)
        case (Inl e)
        have "doWrite_file P be f d off s r = Ret (Failed, f, s2, snd (RandBytes headerIDLen r))"
          using None id(1) 2 cr(1) Inl by (simp add: doWrite_file_def)
        then show ?thesis
          using None p cr(2,5) o2 q2 Inl same
          by (intro exI [of _ Failed] exI [of _ None] exI [of _ s2] exI [of _ "snd (RandBytes headerIDLen r)"]
                exI [of _ c2]) auto
      next
        case (Inr x)
        then have st: "stored P be x c2 p"
          using cr(4) stored_header_only [OF P be] p by simp
        let ?f = "f\<lparr>file_ID := Some x\<rparr>"
        have f1: "file_ID ?f = Some x" "file_at s2 (file_fd ?f) i c2" and fd: "file_fd ?f = file_fd f"
          using cr(2) by simp_all
        from write_blocks_spec [OF P be f1(1) st f1(2) d bound g rr(2), of True] obtain res s' r' c' where
          w: "write_blocks P be ?f x True d off s2 (snd (RandBytes headerIDLen r)) = Ret (res, ?f, s', r')"
            "file_at s' (file_fd f) i c'" "only_file i s2 s'"
            "\<forall>n. res = Written n \<longrightarrow> n = of_nat (length d) \<and> stored P be x c' (overwrite (unat off) d p)"
            "quiet s2 \<longrightarrow> res = Written (of_nat (length d))"
          unfolding fd by blast
        have "doWrite_file P be f d off s r = Ret (res, ?f, s', r')"
          using w(1) by (simp add: doWrite_file_def None id(1) 2 cr(1) Inr)
        then show ?thesis
        proof (intro exI conjI)
          show "only_file i s s'" using o2 w(3) by (rule only_file_trans)
          show "\<forall>n. res = Written n \<longrightarrow> n = of_nat (length d) \<and> Some x \<noteq> None \<and>
              holds P be (Some x) c' (overwrite (unat off) d p)" using w(4) by simp
        qed (use w(2,5) q2 None p in simp_all)
      qed
    next
      case (3 e)
      then have nq: "\<not> quiet s" using id(6,7) short hdr by force
      have "doWrite_file P be f d off s r = Ret (Failed, f, s1, r)"
        using None id(1) 3 by (simp add: doWrite_file_def)
      then show ?thesis
        using id(2,3) nq None same
        by (intro exI [of _ Failed] exI [of _ None] exI [of _ s1] exI [of _ r] exI [of _ c])
           (auto intro: exI [of _ "[]"])
    qed
  qed
qed

end
