(* ===== verification/FileOps.thy ===== *)
theory FileOps
  imports CommonOps FileWrite
begin

unbundle bit_operations_syntax

text \<open>
  The exported operations on files (\<^verbatim>\<open>file.go\<close>): opening, reading, writing, truncating,
  closing and removing, over the functions of \<open>FileContent\<close>.
\<close>

section \<open>Flags\<close>

text \<open>\<open>^\<close> and \<open>|\<close> have the same precedence in Go.\<close>

definition mangleOpenFlags :: "uint32 \<Rightarrow> uint64" where
  "mangleOpenFlags flags =
     (let f0 = ucast flags :: uint64;
          f1 = (if f0 AND O_ACCMODE = O_WRONLY then (f0 XOR O_WRONLY) OR O_RDWR else f0);
          f2 = f1 AND NOT O_APPEND;
          f3 = f2 AND NOT O_DIRECT;
          f4 = f3 AND NOT O_CREAT
      in f4 OR O_NOFOLLOW)"

section \<open>Closing\<close>

text \<open>Taking \<open>fdLock\<close> while a reader holds it never returns.\<close>

definition gcf_close_file :: "int \<Rightarrow> int \<Rightarrow> unit io" where
  "gcf_close_file sid handleID =
     with_volume sid () (\<lambda>_.
       bindw (get_handle sid handleID) (\<lambda>f.
         if fdReaders f > 0 then (\<lambda>w. Hang)
         else bindw (close_fd (file_fd f)) (\<lambda>_.
           modify_volume sid (\<lambda>v. v\<lparr>fileHandles := AList.delete handleID (fileHandles v)\<rparr>))))"

section \<open>Reading and writing through a handle\<close>

text \<open>A function on the open file, with what it stores in it.\<close>

definition on_handle :: "int \<Rightarrow> int \<Rightarrow> (File \<Rightarrow> os \<Rightarrow> rng \<Rightarrow> ('a \<times> File \<times> os \<times> rng) go) \<Rightarrow> 'a io" where
  "on_handle sid h m = bindw (get_handle sid h) (\<lambda>f w.
     go_bind (m f (w_os w) (w_rng w)) (\<lambda>(x, f', s, r).
       bindw (put_handle sid h f') (\<lambda>_. ret x) (w\<lparr>w_os := s, w_rng := r\<rparr>)))"

definition read_handle :: "prims \<Rightarrow> int \<Rightarrow> volume \<Rightarrow> int \<Rightarrow> uint64 \<Rightarrow> uint64 \<Rightarrow> bytes option io" where
  "read_handle P sid v h off len = on_handle sid h (\<lambda>f s r.
     go_bind (doRead P (contentEnc v) f [] off len s) (\<lambda>(out, f', s'). Ret (out, f', s', r)))"

text \<open>
  \<open>doWrite\<close>. When the header of a new file has been truncated away, the code closes the
  handle of that number in the volume \<open>volume.volumeID\<close>.
\<close>

definition doWrite :: "prims \<Rightarrow> int \<Rightarrow> volume \<Rightarrow> int \<Rightarrow> bytes \<Rightarrow> uint64 \<Rightarrow> (uint32 \<times> bool) io" where
  "doWrite P sid v handleID data off =
     bindw (on_handle sid handleID (\<lambda>f. doWrite_file P (contentEnc v) f data off)) (\<lambda>res. case res of
         Written n \<Rightarrow> ret (n, True)
       | Failed \<Rightarrow> ret (0, False)
       | Undone \<Rightarrow> bindw (gcf_close_file (volumeID v) handleID) (\<lambda>_. ret (0, False)))"

section \<open>Truncating\<close>

definition zeroPad :: "prims \<Rightarrow> int \<Rightarrow> volume \<Rightarrow> int \<Rightarrow> uint64 \<Rightarrow> bool io" where
  "zeroPad P sid v handleID plainSize =
     (let lastBlockLen = plainSize mod plainBS (contentEnc v)
      in if lastBlockLen = 0 then ret True
         else let missing = plainBS (contentEnc v) - lastBlockLen
           in bindw (doWrite P sid v handleID (zeros (unat missing)) plainSize) (\<lambda>(_, success). ret success))"

text \<open>The new size is block-aligned: a header if there is none yet, then \<open>ftruncate\<close>.\<close>

definition grow_aligned :: "int \<Rightarrow> volume \<Rightarrow> int \<Rightarrow> uint64 \<Rightarrow> uint64 \<Rightarrow> bool io" where
  "grow_aligned sid v handleID oldPlainSz newPlainSz =
     bindw (if oldPlainSz = 0
            then on_handle sid handleID (\<lambda>f s r.
                go_bind (createHeader (file_fd f) s r) (\<lambda>(idr, s', r'). case idr of
                    Inl e \<Rightarrow> Ret (False, f, s', r')
                  | Inr i \<Rightarrow> Ret (True, f\<lparr>file_ID := Some i\<rparr>, s', r')))
            else bindw (get_handle sid handleID) (\<lambda>_. ret True)) (\<lambda>ok.
       if \<not> ok then ret False
       else bindw (get_handle sid handleID) (\<lambda>f.
         bindw (call_os (Ftruncate (file_fd f) (go_int (PlainSizeToCipherSize (contentEnc v) newPlainSz)))) (\<lambda>r.
           ret (errToBool r))))"

definition truncateGrowFile :: "prims \<Rightarrow> int \<Rightarrow> volume \<Rightarrow> int \<Rightarrow> uint64 \<Rightarrow> uint64 \<Rightarrow> bool io" where
  "truncateGrowFile P sid v handleID oldPlainSz newPlainSz =
     (if newPlainSz \<le> oldPlainSz then ret False
      else
        let be = contentEnc v; newEOFOffset = newPlainSz - 1;
            last_byte = bindw (doWrite P sid v handleID (zeros 1) newEOFOffset) (\<lambda>(_, success). ret success)
        in if oldPlainSz > 0 \<and> PlainOffToBlockNo be (oldPlainSz - 1) = PlainOffToBlockNo be newEOFOffset
           then last_byte
           else bindw (zeroPad P sid v handleID oldPlainSz) (\<lambda>success.
             if \<not> success then ret False
             else if newPlainSz mod plainBS be = 0
               then grow_aligned sid v handleID oldPlainSz newPlainSz
             else last_byte))"

text \<open>Shrinking: keep the full blocks, write the rest of the last one again.\<close>

definition truncate_shrink :: "prims \<Rightarrow> int \<Rightarrow> volume \<Rightarrow> int \<Rightarrow> uint64 \<Rightarrow> bool io" where
  "truncate_shrink P sid v handleID newSize =
     (let be = contentEnc v; blockNo = PlainOffToBlockNo be newSize;
          cipherOff = BlockNoToCipherOff be blockNo; plainOff = BlockNoToPlainOff be blockNo;
          lastBlockLen = newSize - plainOff
      in bindw (if lastBlockLen > 0 then read_handle P sid v handleID plainOff lastBlockLen else ret (Some [])) (\<lambda>dr.
         case dr of None \<Rightarrow> ret False
         | Some data \<Rightarrow>
             bindw (get_handle sid handleID) (\<lambda>f.
             or_return False (call_os (Ftruncate (file_fd f) (go_int cipherOff))) (\<lambda>_.
               if lastBlockLen > 0
               then bindw (doWrite P sid v handleID data plainOff) (\<lambda>(_, success). ret success)
               else ret True))))"

definition truncate :: "prims \<Rightarrow> int \<Rightarrow> volume \<Rightarrow> int \<Rightarrow> uint64 \<Rightarrow> bool io" where
  "truncate P sid v handleID newSize =
     bindw (get_handle sid handleID) (\<lambda>f.
       if newSize = 0 then bindw (call_os (Ftruncate (file_fd f) 0)) (\<lambda>r. ret (errToBool r))
       else bindw (gcf_get_attrs P (volumeID v) (file_path f)) (\<lambda>(_, oldSize, _, success).
         if \<not> success then ret False
         else if newSize = oldSize then ret True
         else if newSize > oldSize then truncateGrowFile P sid v handleID oldSize newSize
         else truncate_shrink P sid v handleID newSize))"

text \<open>
  Go visits a map in no fixed order: \<open>ord\<close> is the order in which the handles come up.
\<close>

definition gcf_truncate ::
  "prims \<Rightarrow> ((int \<times> File) list \<Rightarrow> (int \<times> File) list) \<Rightarrow> int \<Rightarrow> string \<Rightarrow> uint64 \<Rightarrow> bool io" where
  "gcf_truncate P ord sid path offset =
     with_volume sid False (\<lambda>v.
       case List.find (\<lambda>(_, f). file_path f = path) (ord (fileHandles v)) of
         None \<Rightarrow> ret False
       | Some (handleID, _) \<Rightarrow> truncate P sid v handleID offset)"

section \<open>Opening\<close>

definition gcf_open_read_mode :: "prims \<Rightarrow> int \<Rightarrow> string \<Rightarrow> int io" where
  "gcf_open_read_mode P sid path =
     with_volume sid (-1) (\<lambda>v.
       or_return (-1) (prepareAtSyscallMyself (depth path) P sid v path) (\<lambda>(dirfd, cName).
         defer_close dirfd
           (or_return (-1) (lift_os (Openat dirfd cName (mangleOpenFlags 0) 0)) (\<lambda>fd.
              registerFileHandle sid fd path))))"

definition gcf_open_write_mode :: "prims \<Rightarrow> int \<Rightarrow> string \<Rightarrow> uint32 \<Rightarrow> int io" where
  "gcf_open_write_mode P sid path mode =
     with_volume sid (-1) (\<lambda>v.
       or_return (-1) (prepareAtSyscall (depth path) P sid v path) (\<lambda>(dirfd, cName).
         defer_close dirfd
           (let newFlags = mangleOpenFlags (ucast O_RDWR);
                openat = lift_os (Openat dirfd cName (newFlags OR O_CREAT) mode)
            in bindw
                 (if \<not> plainTextNames v \<and> IsLongContent cName
                  then bindw (lift_os (WriteLongNameAt P (nameTransform v) dirfd cName path)) (\<lambda>er. case er of
                      Some e \<Rightarrow> ret None
                    | None \<Rightarrow> bindw openat (\<lambda>r. case r of
                          Inl e \<Rightarrow> bindw (delete_long dirfd cName) (\<lambda>_. ret None)
                        | Inr fd \<Rightarrow> ret (Some fd)))
                  else or_return None openat (\<lambda>fd. ret (Some fd))) (\<lambda>fdr.
               case fdr of None \<Rightarrow> ret (-1) | Some fd \<Rightarrow> registerFileHandle sid fd path))))"

section \<open>The exported reads and writes\<close>

text \<open>\<open>f.fdLock.RLock()\<close> with the deferred \<open>RUnlock\<close>.\<close>

definition with_rlock :: "int \<Rightarrow> int \<Rightarrow> 'a io \<Rightarrow> 'a io" where
  "with_rlock sid h m =
     bindw (get_handle sid h) (\<lambda>f.
     bindw (put_handle sid h (f\<lparr>fdReaders := fdReaders f + 1\<rparr>)) (\<lambda>_.
     bindw m (\<lambda>x.
     bindw (get_handle sid h) (\<lambda>f'.
     bindw (put_handle sid h (f'\<lparr>fdReaders := fdReaders f' - 1\<rparr>)) (\<lambda>_. ret x)))))"

text \<open>The result is the number of bytes and the caller's buffer afterwards.\<close>

definition gcf_read_file :: "prims \<Rightarrow> int \<Rightarrow> int \<Rightarrow> uint64 \<Rightarrow> bytes \<Rightarrow> (uint32 \<times> bytes) io" where
  "gcf_read_file P sid handleID offset dst_buff =
     (if length dst_buff > MAX_KERNEL_WRITE then ret (0, dst_buff)
      else with_volume sid (0, dst_buff) (\<lambda>v.
        with_rlock sid handleID
          (bindw (read_handle P sid v handleID offset (of_nat (length dst_buff))) (\<lambda>r. case r of
               None \<Rightarrow> ret (0, dst_buff)
             | Some out \<Rightarrow> ret (of_nat (length out), out @ drop (length out) dst_buff)))))"

definition gcf_write_file :: "prims \<Rightarrow> int \<Rightarrow> int \<Rightarrow> uint64 \<Rightarrow> bytes \<Rightarrow> uint32 io" where
  "gcf_write_file P sid handleID offset data =
     (if length data > MAX_KERNEL_WRITE then ret 0
      else with_volume sid 0 (\<lambda>v.
        with_rlock sid handleID
          (bindw (doWrite P sid v handleID data offset) (\<lambda>(n, _). ret n))))"

section \<open>Removing\<close>

definition gcf_remove_file :: "prims \<Rightarrow> int \<Rightarrow> string \<Rightarrow> bool io" where
  "gcf_remove_file P sid path =
     with_volume sid False (\<lambda>v.
       or_return False (prepareAtSyscall (depth path) P sid v path) (\<lambda>(dirfd, cName).
         defer_close dirfd
           (or_return False (lift_os (Unlinkat dirfd cName False)) (\<lambda>_.
              if \<not> plainTextNames v \<and> IsLongContent cName
              then bindw (lift_os (DeleteLongNameAt dirfd cName)) (\<lambda>r. ret (errToBool r))
              else ret True))))"

end
