(* ===== verification/ConfigFile.thy ===== *)
theory ConfigFile
  imports NameFiles ContentEnc GoPath
begin

text \<open>
  The configuration file \<^verbatim>\<open>gocryptfs.conf\<close> (\<^verbatim>\<open>internal/configfile\<close>): feature flags,
  validation, the scrypt parameters, and the master key encrypted with a key derived from
  the password. The JSON encoding of the standard library is a parameter, \<open>json\<close>.
\<close>

section \<open>Data\<close>

datatype flagIota =
    FlagPlaintextNames | FlagDirIV | FlagEMENames | FlagGCMIV128 | FlagLongNames
  | FlagLongNameMax | FlagAESSIV | FlagRaw64 | FlagHKDF | FlagFIDO2 | FlagXChaCha20Poly1305

fun knownFlags :: "flagIota \<Rightarrow> string" where
  "knownFlags FlagPlaintextNames = ''PlaintextNames''"
| "knownFlags FlagDirIV = ''DirIV''"
| "knownFlags FlagEMENames = ''EMENames''"
| "knownFlags FlagGCMIV128 = ''GCMIV128''"
| "knownFlags FlagLongNames = ''LongNames''"
| "knownFlags FlagLongNameMax = ''LongNameMax''"
| "knownFlags FlagAESSIV = ''AESSIV''"
| "knownFlags FlagRaw64 = ''Raw64''"
| "knownFlags FlagHKDF = ''HKDF''"
| "knownFlags FlagFIDO2 = ''FIDO2''"
| "knownFlags FlagXChaCha20Poly1305 = ''XChaCha20Poly1305''"

definition all_flags :: "flagIota list" where
  "all_flags = [FlagPlaintextNames, FlagDirIV, FlagEMENames, FlagGCMIV128, FlagLongNames,
     FlagLongNameMax, FlagAESSIV, FlagRaw64, FlagHKDF, FlagFIDO2, FlagXChaCha20Poly1305]"

record ScryptKDF =
  Salt :: bytes
  N :: int
  R :: int
  P :: int
  KDF_KeyLen :: int

record FIDO2Params =
  CredentialID :: bytes
  HMACSalt :: bytes
  AssertOptions :: "string list"

record ConfFile =
  Creator :: string
  EncryptedKey :: bytes
  ScryptObject :: ScryptKDF
  cf_Version :: "16 word"
  FeatureFlags :: "string list"
  FIDO2 :: "FIDO2Params option"
  LongNameMax :: "8 word"
  cf_filename :: string

record CreateArgs =
  Filename :: string
  Password :: bytes
  PlaintextNames :: bool
  ca_LogN :: int
  ca_Creator :: string
  AESSIV :: bool
  DeterministicNames :: bool
  XChaCha20Poly1305 :: bool
  ca_LongNameMax :: "8 word"
  Masterkey :: "bytes option"

text \<open>\<open>json.MarshalIndent\<close> and \<open>json.Unmarshal\<close> into a given object; \<open>None\<close> is an error.\<close>

record json =
  MarshalIndent :: "ConfFile \<Rightarrow> bytes option"
  Unmarshal :: "bytes \<Rightarrow> ConfFile \<Rightarrow> ConfFile option"

text \<open>
  What is relied on: what was marshalled, with a newline added, is read back; the file name
  is not part of the encoding. Strings with characters beyond ASCII may be changed.
\<close>

definition ascii :: "string \<Rightarrow> bool" where
  "ascii s \<longleftrightarrow> list_all (\<lambda>c. of_char c < (128 :: nat)) s"

definition conf_ascii :: "ConfFile \<Rightarrow> bool" where
  "conf_ascii cf \<longleftrightarrow> ascii (Creator cf) \<and> list_all ascii (FeatureFlags cf) \<and> FIDO2 cf = None"

definition empty_conf :: "string \<Rightarrow> ConfFile" where
  "empty_conf fn = \<lparr>Creator = [], EncryptedKey = [],
     ScryptObject = \<lparr>Salt = [], N = 0, R = 0, P = 0, KDF_KeyLen = 0\<rparr>, cf_Version = 0,
     FeatureFlags = [], FIDO2 = None, LongNameMax = 0, cf_filename = fn\<rparr>"

definition json_ok :: "json \<Rightarrow> bool" where
  "json_ok J \<longleftrightarrow> (\<forall>cf fn. conf_ascii cf \<longrightarrow> (case MarshalIndent J cf of
       None \<Rightarrow> False
     | Some js \<Rightarrow> js \<noteq> [] \<and> Unmarshal J (js @ [10]) (empty_conf fn) = Some (cf\<lparr>cf_filename := fn\<rparr>)))"

section \<open>Feature flags\<close>

definition isFeatureFlagKnown :: "string \<Rightarrow> bool" where
  "isFeatureFlagKnown flag \<longleftrightarrow> list_ex (\<lambda>k. knownFlags k = flag) all_flags"

definition IsFeatureFlagSet :: "ConfFile \<Rightarrow> flagIota \<Rightarrow> bool" where
  "IsFeatureFlagSet cf flagWant \<longleftrightarrow> list_ex (\<lambda>f. f = knownFlags flagWant) (FeatureFlags cf)"

definition setFeatureFlag :: "flagIota \<Rightarrow> ConfFile \<Rightarrow> ConfFile" where
  "setFeatureFlag flag cf =
     (if IsFeatureFlagSet cf flag then cf
      else cf\<lparr>FeatureFlags := FeatureFlags cf @ [knownFlags flag]\<rparr>)"

section \<open>scrypt\<close>

definition ScryptDefaultLogN :: nat where "ScryptDefaultLogN = 16"
definition scryptMinR :: int where "scryptMinR = 8"
definition scryptMinP :: int where "scryptMinP = 1"
definition scryptMinLogN :: nat where "scryptMinLogN = 10"
definition scryptMinSaltLen :: nat where "scryptMinSaltLen = 32"
definition exit_ScryptParams :: nat where "exit_ScryptParams = 13"
definition exit_PasswordIncorrect :: nat where "exit_PasswordIncorrect = 12"
definition exit_DeprecatedFS :: nat where "exit_DeprecatedFS = 27"

text \<open>\<open>1 << uint32(logN)\<close> on a 64-bit \<open>int\<close>.\<close>

definition NewScryptKDF :: "int \<Rightarrow> rng \<Rightarrow> ScryptKDF \<times> rng" where
  "NewScryptKDF logN r =
     (case RandBytes KeyLen r of (salt, r') \<Rightarrow>
        (\<lparr>Salt = salt,
          N = (if logN \<le> 0 then 2 ^ ScryptDefaultLogN
               else sint (push_bit (nat (logN mod 2 ^ 32)) (1 :: 64 word))),
          R = 8, P = 1, KDF_KeyLen = int KeyLen\<rparr>, r'))"

definition validateParams :: "ScryptKDF \<Rightarrow> err option" where
  "validateParams s =
     (if N s < 2 ^ scryptMinLogN then Some (ErrMsg ''fatal: scryptn below 10 is too low to make sense'')
      else if R s < scryptMinR then Some (ErrMsg ''fatal: scrypt parameter R below minimum'')
      else if P s < scryptMinP then Some (ErrMsg ''fatal: scrypt parameter P below minimum'')
      else if length (Salt s) < scryptMinSaltLen then Some (ErrMsg ''fatal: scrypt salt length below minimum'')
      else if KDF_KeyLen s < int KeyLen then Some (ErrMsg ''fatal: scrypt parameter KeyLen below minimum'')
      else None)"

definition DeriveKey :: "prims \<Rightarrow> ScryptKDF \<Rightarrow> bytes \<Rightarrow> bytes go" where
  "DeriveKey Pr s pw =
     (if validateParams s \<noteq> None then Panic (Exit exit_ScryptParams)
      else case scrypt_key Pr pw (Salt s) (N s) (R s) (P s) (KDF_KeyLen s) of
          None \<Rightarrow> Panic LogPanic
        | Some k \<Rightarrow> Ret k)"

text \<open>
  \<open>int(math.Log2(float64(s.N)) + 0.5)\<close> for a positive \<open>N\<close>, with exact arithmetic: the
  largest \<open>k\<close> with \<open>2^(2k-1) \<le> N\<^sup>2\<close>.
\<close>

definition LogN :: "ScryptKDF \<Rightarrow> int" where
  "LogN s = int (length (filter (\<lambda>k. (2::int) ^ (2 * k - 1) \<le> N s * N s) [1..<64]))"

section \<open>Validation\<close>

definition Validate_content :: "ConfFile \<Rightarrow> err option" where
  "Validate_content cf =
     (let set = IsFeatureFlagSet cf
      in if set FlagXChaCha20Poly1305 \<and> set FlagAESSIV
         then Some (ErrMsg ''can't have both XChaCha20Poly1305 and AESSIV feature flags'')
         else if set FlagAESSIV \<and> \<not> set FlagGCMIV128
         then Some (ErrMsg ''AESSIV requires GCMIV128 feature flag'')
         else if set FlagXChaCha20Poly1305 \<and> set FlagGCMIV128
         then Some (ErrMsg ''XChaCha20Poly1305 conflicts with GCMIV128 feature flag'')
         else if set FlagXChaCha20Poly1305 \<and> \<not> set FlagHKDF
         then Some (ErrMsg ''XChaCha20Poly1305 requires HKDF feature flag'')
         else if \<not> set FlagXChaCha20Poly1305 \<and> \<not> set FlagAESSIV \<and> \<not> set FlagGCMIV128
         then Some (ErrMsg ''AES-GCM requires GCMIV128 feature flag'')
         else None)"

definition Validate_names :: "ConfFile \<Rightarrow> err option" where
  "Validate_names cf =
     (let set = IsFeatureFlagSet cf; plain = set FlagPlaintextNames
      in if plain \<and> set FlagEMENames then Some (ErrMsg ''PlaintextNames conflicts with EMENames feature flag'')
         else if plain \<and> set FlagDirIV then Some (ErrMsg ''PlaintextNames conflicts with DirIV feature flag'')
         else if plain \<and> set FlagLongNames then Some (ErrMsg ''PlaintextNames conflicts with LongNames feature flag'')
         else if plain \<and> set FlagRaw64 then Some (ErrMsg ''PlaintextNames conflicts with Raw64 feature flag'')
         else if plain \<and> set FlagLongNameMax then Some (ErrMsg ''PlaintextNames conflicts with LongNameMax feature flag'')
         else if LongNameMax cf \<noteq> 0 \<and> \<not> set FlagLongNameMax
         then Some (ErrMsg ''LongNameMax but the LongNameMax feature flag is NOT set'')
         else if LongNameMax cf = 0 \<and> set FlagLongNameMax
         then Some (ErrMsg ''LongNameMax=0 but the LongNameMax feature flag IS set'')
         else None)"

definition Validate :: "ConfFile \<Rightarrow> err option" where
  "Validate cf =
     (if cf_Version cf \<noteq> CurrentVersion then Some (ErrMsg ''unsupported on-disk format'')
      else case validateParams (ScryptObject cf) of Some e \<Rightarrow> Some e
      | None \<Rightarrow>
          if \<not> list_all isFeatureFlagKnown (FeatureFlags cf) then Some (ErrMsg ''unknown feature flag'')
          else case Validate_content cf of Some e \<Rightarrow> Some e
          | None \<Rightarrow> Validate_names cf)"

definition ContentEncryption :: "ConfFile \<Rightarrow> err + AEADTypeEnum" where
  "ContentEncryption cf =
     (case Validate cf of Some e \<Rightarrow> Inl e
      | None \<Rightarrow>
          if IsFeatureFlagSet cf FlagXChaCha20Poly1305 then Inr BackendXChaCha20Poly1305
          else if IsFeatureFlagSet cf FlagAESSIV then Inr BackendAESSIV
          else Inr BackendGoGCM)"

section \<open>The master key\<close>

definition getKeyEncrypter :: "prims \<Rightarrow> bytes \<Rightarrow> bool \<Rightarrow> contentEnc go" where
  "getKeyEncrypter Pr scryptHash useHKDF =
     (let IVLen = (if useHKDF then DefaultIVBits else 96)
      in go_bind (New_cryptocore Pr scryptHash BackendGoGCM IVLen useHKDF) (\<lambda>cc. contentenc_New cc 4096))"

definition DecryptMasterKeyWithScryptHash :: "prims \<Rightarrow> ConfFile \<Rightarrow> bytes \<Rightarrow> (err + bytes) go" where
  "DecryptMasterKeyWithScryptHash Pr cf scryptHash =
     go_bind (getKeyEncrypter Pr scryptHash (IsFeatureFlagSet cf FlagHKDF)) (\<lambda>ce.
     go_bind (DecryptBlock Pr ce (EncryptedKey cf) 0 None) (\<lambda>r.
     go_bind (ContentEnc_Wipe ce) (\<lambda>_.
     Ret (case r of Inl e \<Rightarrow> Inl (Coded ''Password incorrect.'' exit_PasswordIncorrect)
          | Inr masterkey \<Rightarrow> Inr masterkey))))"

text \<open>A purged hash is nil.\<close>

definition DecryptMasterKey :: "prims \<Rightarrow> ConfFile \<Rightarrow> bytes \<Rightarrow> bool \<Rightarrow> ((err + bytes) \<times> bytes) go" where
  "DecryptMasterKey Pr cf password giveHash =
     go_bind (DeriveKey Pr (ScryptObject cf) password) (\<lambda>scryptHash.
     go_bind (DecryptMasterKeyWithScryptHash Pr cf scryptHash) (\<lambda>r.
     Ret (r, if giveHash then scryptHash else [])))"

definition EncryptKey ::
  "prims \<Rightarrow> ConfFile \<Rightarrow> bytes \<Rightarrow> bytes \<Rightarrow> int \<Rightarrow> bool \<Rightarrow> rng \<Rightarrow> (bytes \<times> ConfFile \<times> rng) go" where
  "EncryptKey Pr cf key password logN giveHash r =
     (case NewScryptKDF logN r of (kdf, r1) \<Rightarrow>
        let cf1 = cf\<lparr>ScryptObject := kdf\<rparr>
        in go_bind (DeriveKey Pr kdf password) (\<lambda>scryptHash.
           go_bind (getKeyEncrypter Pr scryptHash (IsFeatureFlagSet cf1 FlagHKDF)) (\<lambda>ce.
           go_bind (EncryptBlock Pr ce key 0 None r1) (\<lambda>(c, r2).
           go_bind (ContentEnc_Wipe ce) (\<lambda>_.
           Ret (if giveHash then scryptHash else [], cf1\<lparr>EncryptedKey := c\<rparr>, r2))))))"

text \<open>The loop that copies a hash into the caller's buffer.\<close>

definition return_hash :: "bytes \<Rightarrow> bytes \<Rightarrow> bytes go" where
  "return_hash hash buff =
     (if length hash \<le> length buff then Ret (hash @ drop (length hash) buff) else Panic OutOfRange)"

text \<open>The result is the key and the caller's buffer afterwards.\<close>

definition GetMasterkey ::
  "prims \<Rightarrow> ConfFile \<Rightarrow> bytes \<Rightarrow> bytes \<Rightarrow> bytes \<Rightarrow> ((err + bytes) \<times> bytes) go" where
  "GetMasterkey Pr cf password givenScryptHash returnedScryptHashBuff =
     (if length givenScryptHash > 0
      then go_bind (DecryptMasterKeyWithScryptHash Pr cf givenScryptHash) (\<lambda>r. Ret (r, returnedScryptHashBuff))
      else go_bind (DecryptMasterKey Pr cf password (length returnedScryptHashBuff > 0)) (\<lambda>(r, scryptHash).
        go_bind (return_hash scryptHash returnedScryptHashBuff) (\<lambda>b. Ret (r, b))))"

section \<open>The file on disk\<close>

text \<open>
  \<open>os.ReadFile\<close>, \<open>os.OpenFile\<close> for an exclusive creation and \<open>os.Rename\<close> on absolute
  paths; the package retries interrupted calls.
\<close>

definition host_dir :: "os \<Rightarrow> string \<Rightarrow> errno + nat \<times> (string \<times> nat) list" where
  "host_dir s path = (case map_of (host s) (path_Dir path) of
     None \<Rightarrow> Inl ENOENT
   | Some i \<Rightarrow> (case inode_node (inodes s ! i) of DirF es \<Rightarrow> Inr (i, es) | _ \<Rightarrow> Inl ENOTDIR))"

definition raw_open :: "string \<Rightarrow> uint64 \<Rightarrow> uint32 \<Rightarrow> os \<Rightarrow> (errno + int) \<times> os" where
  "raw_open path flags mode s = (case host_dir s path of
     Inl e \<Rightarrow> (Inl e, s) | Inr (i, es) \<Rightarrow> open_in i es (path_Base path) flags mode s)"

definition raw_rename :: "string \<Rightarrow> string \<Rightarrow> os \<Rightarrow> (errno + unit) \<times> os" where
  "raw_rename oldpath newpath s = (case (host_dir s oldpath, host_dir s newpath) of
     (Inl e, _) \<Rightarrow> (Inl e, s)
   | (_, Inl e) \<Rightarrow> (Inl e, s)
   | (Inr (i, es), Inr (k, es')) \<Rightarrow> rename_in i es (path_Base oldpath) k es' (path_Base newpath) s)"

definition file_content :: "os \<Rightarrow> int \<Rightarrow> bytes option" where
  "file_content s fd = (case get_fd s fd of
     None \<Rightarrow> None
   | Some e \<Rightarrow> (case inode_node (inodes s ! of_ino e) of RegF c \<Rightarrow> Some c | _ \<Rightarrow> None))"

definition os_ReadFile :: "string \<Rightarrow> os \<Rightarrow> ((err + bytes) \<times> os) go" where
  "os_ReadFile path s =
     go_bind (retryEINTR (sys (raw_open path (O_RDONLY OR O_CLOEXEC) 0)) s) (\<lambda>(r, s1). case r of
         Inl e \<Rightarrow> Ret (Inl (Errno e), s1)
       | Inr fd \<Rightarrow> (case file_content s1 fd of
             None \<Rightarrow> Ret (Inl (Errno EISDIR), close_quietly fd s1)
           | Some c \<Rightarrow> (case next_fault (interrupted s1) of
                 (Some (e, k), s2) \<Rightarrow> Ret (Inl (Errno e), close_quietly fd s2)
               | (None, s2) \<Rightarrow> Ret (Inr c, close_quietly fd s2))))"

definition Load :: "json \<Rightarrow> string \<Rightarrow> os \<Rightarrow> ((err + ConfFile) \<times> os) go" where
  "Load J filename s =
     go_bind (os_ReadFile filename s) (\<lambda>(r, s1). Ret (case r of
         Inl e \<Rightarrow> Inl e
       | Inr js \<Rightarrow>
           if length js = 0 then Inl (ErrMsg ''config file is empty'')
           else (case Unmarshal J js (empty_conf filename) of
               None \<Rightarrow> Inl (ErrMsg ''json'')
             | Some cf \<Rightarrow> (case Validate cf of
                   Some e \<Rightarrow> Inl (Coded (case e of ErrMsg m \<Rightarrow> m | _ \<Rightarrow> []) exit_DeprecatedFS)
                 | None \<Rightarrow> Inr cf)), s1))"

definition LoadAndDecrypt :: "prims \<Rightarrow> json \<Rightarrow> string \<Rightarrow> bytes \<Rightarrow> os \<Rightarrow> ((err + bytes \<times> ConfFile) \<times> os) go" where
  "LoadAndDecrypt Pr J filename password s =
     go_bind (Load J filename s) (\<lambda>(r, s1). case r of
         Inl e \<Rightarrow> Ret (Inl e, s1)
       | Inr cf \<Rightarrow>
           if length password = 0 then Ret (Inr ([], cf), s1)
           else go_bind (DecryptMasterKey Pr cf password False) (\<lambda>(k, _). Ret (case k of
               Inl e \<Rightarrow> Inl e | Inr key \<Rightarrow> Inr (key, cf), s1)))"

text \<open>The result of \<open>fsync\<close> does not matter; it takes part in the failures.\<close>

definition Sync :: "os \<Rightarrow> os" where
  "Sync s = snd (next_fault (interrupted s))"

definition WriteFile :: "json \<Rightarrow> ConfFile \<Rightarrow> os \<Rightarrow> (err option \<times> os) go" where
  "WriteFile J cf s =
     (case Validate cf of Some e \<Rightarrow> Ret (Some e, s)
      | None \<Rightarrow>
          let tmp = cf_filename cf @ ''.tmp''
          in go_bind (retryEINTR (sys (raw_open tmp (O_WRONLY OR O_CREAT OR O_EXCL OR O_CLOEXEC) 0x100)) s) (\<lambda>(r, s1).
             case r of Inl e \<Rightarrow> Ret (Some (Errno e), s1)
             | Inr fd \<Rightarrow> (case MarshalIndent J cf of
                   None \<Rightarrow> Ret (Some (ErrMsg ''json''), s1)
                 | Some js \<Rightarrow> (case File_Write fd (js @ [10]) s1 of
                       (Some e, s2) \<Rightarrow> Ret (Some e, s2)
                     | (None, s2) \<Rightarrow> (case Close fd (Sync s2) of
                           (Inl e, s3) \<Rightarrow> Ret (Some (Errno e), s3)
                         | (Inr _, s3) \<Rightarrow>
                             go_bind (retryEINTR (sys (raw_rename tmp (cf_filename cf))) s3) (\<lambda>(r2, s4).
                               Ret (case r2 of Inl e \<Rightarrow> Some (Errno e) | Inr _ \<Rightarrow> None, s4)))))))"

section \<open>Creating\<close>

definition create_flags :: "CreateArgs \<Rightarrow> ConfFile \<Rightarrow> ConfFile" where
  "create_flags a cf0 =
     (let cf1 = setFeatureFlag FlagHKDF cf0;
          cf2 = setFeatureFlag (if XChaCha20Poly1305 a then FlagXChaCha20Poly1305 else FlagGCMIV128) cf1;
          cf3 = (if PlaintextNames a then setFeatureFlag FlagPlaintextNames cf2
                 else
                   let d = (if \<not> DeterministicNames a then setFeatureFlag FlagDirIV cf2 else cf2);
                       l = (if ca_LongNameMax a \<noteq> 0 \<and> ca_LongNameMax a \<noteq> 255
                            then setFeatureFlag FlagLongNameMax (d\<lparr>LongNameMax := ca_LongNameMax a\<rparr>) else d)
                   in setFeatureFlag FlagRaw64 (setFeatureFlag FlagLongNames (setFeatureFlag FlagEMENames l)))
      in if AESSIV a then setFeatureFlag FlagAESSIV cf3 else cf3)"

text \<open>The result is the error and the caller's buffer for the hash.\<close>

definition Create ::
  "prims \<Rightarrow> json \<Rightarrow> CreateArgs \<Rightarrow> bytes \<Rightarrow> os \<Rightarrow> rng \<Rightarrow> ((err option \<times> bytes) \<times> os \<times> rng) go" where
  "Create Pr J a buff s r =
     (let cf0 = (empty_conf (Filename a))\<lparr>Creator := ca_Creator a, cf_Version := CurrentVersion\<rparr>
      in case NewScryptKDF (ca_LogN a) r of (kdf, r1) \<Rightarrow>
         let cf = (create_flags a cf0)\<lparr>ScryptObject := kdf\<rparr>
         in case Validate cf of Some e \<Rightarrow> Ret ((Some e, buff), s, r1)
            | None \<Rightarrow>
                case (case Masterkey a of Some k \<Rightarrow> (k, r1) | None \<Rightarrow> RandBytes KeyLen r1) of (key, r2) \<Rightarrow>
                go_bind (EncryptKey Pr cf key (Password a) (ca_LogN a) (length buff > 0) r2) (\<lambda>(h, cf', r3).
                go_bind (return_hash h buff) (\<lambda>buff'.
                go_bind (WriteFile J cf' s) (\<lambda>(er, s'). Ret ((er, buff'), s', r3)))))"

end
