(* ===== verification/Volume.thy ===== *)
theory Volume
  imports FileOps ConfigFile
begin

unbundle bit_operations_syntax

text \<open>
  The life of a volume (\<^verbatim>\<open>volume.go\<close>): creating it on disk, opening it with a password,
  changing the password, closing it; and the choice of a cipher implementation for the
  machine (\<^verbatim>\<open>prefer.go\<close>, \<^verbatim>\<open>cipher_suites.go\<close>).
\<close>

section \<open>The machine\<close>

record platform =
  GOARCH :: string
  GOOS :: string
  x86_HasAES :: bool
  x86_HasPCLMULQDQ :: bool
  arm64_HasAES :: bool
  arm64_HasPMULL :: bool
  s390x_HasAES :: bool
  s390x_HasAESCBC :: bool
  s390x_HasAESCTR :: bool
  s390x_HasGHASH :: bool
  s390x_HasAESGCM :: bool

definition BuiltWithoutOpenssl :: bool where "BuiltWithoutOpenssl = False"

definition hasGCMAsmAMD64 :: "platform \<Rightarrow> bool" where
  "hasGCMAsmAMD64 m \<longleftrightarrow> x86_HasAES m \<and> x86_HasPCLMULQDQ m"

definition hasGCMAsmARM64 :: "platform \<Rightarrow> bool" where
  "hasGCMAsmARM64 m \<longleftrightarrow> arm64_HasAES m \<and> arm64_HasPMULL m"

definition hasGCMAsmS390X :: "platform \<Rightarrow> bool" where
  "hasGCMAsmS390X m \<longleftrightarrow> s390x_HasAES m \<and> s390x_HasAESCBC m \<and> s390x_HasAESCTR m \<and>
     (s390x_HasGHASH m \<or> s390x_HasAESGCM m)"

definition hasAESGCMHardwareSupport :: "platform \<Rightarrow> bool" where
  "hasAESGCMHardwareSupport m \<longleftrightarrow> GOARCH m = ''amd64'' \<and> hasGCMAsmAMD64 m \<or>
     GOARCH m = ''arm64'' \<and> hasGCMAsmARM64 m \<or> GOARCH m = ''s390x'' \<and> hasGCMAsmS390X m"

definition HasAESGCMHardwareSupport :: "platform \<Rightarrow> bool" where
  "HasAESGCMHardwareSupport m \<longleftrightarrow>
     (if hasAESGCMHardwareSupport m then True
      else if GOOS m = ''darwin'' \<and> GOARCH m = ''arm64'' then True else False)"

definition PreferOpenSSLAES256GCM :: "platform \<Rightarrow> bool" where
  "PreferOpenSSLAES256GCM m \<longleftrightarrow>
     (if BuiltWithoutOpenssl then False else if HasAESGCMHardwareSupport m then False else True)"

definition PreferOpenSSLXchacha20poly1305 :: "platform \<Rightarrow> bool" where
  "PreferOpenSSLXchacha20poly1305 m \<longleftrightarrow>
     (if BuiltWithoutOpenssl then False else if GOARCH m = ''amd64'' then False else True)"

section \<open>Opening\<close>

text \<open>The implementation of the cipher that the configuration file asks for.\<close>

definition choose_backend :: "platform \<Rightarrow> AEADTypeEnum \<Rightarrow> AEADTypeEnum" where
  "choose_backend m b =
     (if b = BackendXChaCha20Poly1305 \<and> PreferOpenSSLXchacha20poly1305 m then BackendXChaCha20Poly1305OpenSSL
      else if b = BackendGoGCM \<and> PreferOpenSSLAES256GCM m then BackendOpenSSL
      else b)"

definition newVolume :: "prims \<Rightarrow> platform \<Rightarrow> string \<Rightarrow> bytes \<Rightarrow> ConfFile \<Rightarrow> AEADTypeEnum \<Rightarrow> volume go" where
  "newVolume Pr m rootDir masterkey cf backend =
     (let set = IsFeatureFlagSet cf; plain = set FlagPlaintextNames; cb = choose_backend m backend
      in go_bind (New_cryptocore Pr masterkey cb (NonceSize cb * 8) (set FlagHKDF)) (\<lambda>cc.
         go_bind (contentenc_New cc DefaultBS) (\<lambda>be.
         Ret \<lparr>volumeID = 0, rootCipherDir = rootDir, plainTextNames = plain,
              nameTransform = New_NameTransform (EMECipher cc) True (LongNameMax cf) (set FlagRaw64) []
                                (\<not> set FlagDirIV),
              contentEnc = be,
              dirCache = new_dirCache (if plain then 0 else DirIVLen),
              fileHandles = []\<rparr>)))"

definition registerNewVolume :: "prims \<Rightarrow> platform \<Rightarrow> string \<Rightarrow> bytes \<Rightarrow> ConfFile \<Rightarrow> int io" where
  "registerNewVolume Pr m rootDir masterkey cf =
     (case ContentEncryption cf of
        Inl e \<Rightarrow> ret (-1)
      | Inr backend \<Rightarrow> bindw (lift_go (newVolume Pr m rootDir masterkey cf backend)) storeNewVolume)"

text \<open>
  The exported functions wipe the secrets they are given: the results carry the buffers as
  they are afterwards.
\<close>

definition gcf_init ::
  "prims \<Rightarrow> json \<Rightarrow> platform \<Rightarrow> string \<Rightarrow> bytes \<Rightarrow> bytes \<Rightarrow> bytes \<Rightarrow> (int \<times> bytes \<times> bytes) io" where
  "gcf_init Pr J m rootDir password givenScryptHash returnedScryptHashBuff =
     bindw (lift_os (Load J (path_Join rootDir ConfDefaultName))) (\<lambda>r. case r of
         Inl e \<Rightarrow> ret (-1, wipe password, returnedScryptHashBuff)
       | Inr cf \<Rightarrow>
           bindw (lift_go (GetMasterkey Pr cf password givenScryptHash returnedScryptHashBuff)) (\<lambda>(k, buff).
           case k of Inl e \<Rightarrow> ret (-2, wipe password, buff)
           | Inr masterkey \<Rightarrow>
               bindw (registerNewVolume Pr m rootDir masterkey cf) (\<lambda>volumeID.
               ret (volumeID, wipe password, buff))))"

section \<open>Closing\<close>

text \<open>
  The loop \<open>for i := range fileHandles\<close> runs over the indices of the slice of handle
  numbers, so over \<open>0, 1, \<dots>\<close> up to the number of handles.
\<close>

fun close_files :: "int \<Rightarrow> int list \<Rightarrow> unit io" where
  "close_files sid [] = ret ()"
| "close_files sid (i # is) = bindw (gcf_close_file sid i) (\<lambda>_. close_files sid is)"

definition cache_clear :: "int \<Rightarrow> unit io" where
  "cache_clear sid w =
     go_bind (deref (volume_of w sid)) (\<lambda>v.
       case dirCache_Clear (dirCache v) (w_os w) of (d, s) \<Rightarrow>
       Ret ((), set_volume sid (v\<lparr>dirCache := d\<rparr>) (w\<lparr>w_os := s\<rparr>)))"

definition wipe_volume :: "volume \<Rightarrow> volume go" where
  "wipe_volume v = go_bind (cryptocore_Wipe (cryptoCore (contentEnc v))) (\<lambda>(_, cc).
     Ret (v\<lparr>contentEnc := (contentEnc v)\<lparr>cryptoCore := cc\<rparr>\<rparr>))"

definition gcf_close :: "int \<Rightarrow> unit io" where
  "gcf_close sid =
     with_volume sid () (\<lambda>v.
       bindw (lift_go (wipe_volume v)) (\<lambda>v'.
       bindw (modify_volume sid (\<lambda>_. v')) (\<lambda>_.
       bindw (close_files sid (map int [0..<length (fileHandles v)])) (\<lambda>_.
       bindw (cache_clear sid) (\<lambda>_ w.
       Ret ((), w\<lparr>OpenedVolumes := AList.delete sid (OpenedVolumes w)\<rparr>))))))"

definition gcf_is_closed :: "int \<Rightarrow> bool io" where
  "gcf_is_closed sid w = Ret (volume_of w sid = None, w)"

section \<open>Changing the password\<close>

text \<open>The result is success and the buffers for old password, given hash, new password, returned hash.\<close>

definition gcf_change_password ::
  "prims \<Rightarrow> json \<Rightarrow> string \<Rightarrow> bytes \<Rightarrow> bytes \<Rightarrow> bytes \<Rightarrow> bytes \<Rightarrow> (bool \<times> bytes \<times> bytes \<times> bytes \<times> bytes) io"
where
  "gcf_change_password Pr J rootDir oldPassword givenScryptHash newPassword buff =
     bindw
       (bindw (lift_os (Load J (path_Join rootDir ConfDefaultName))) (\<lambda>r. case r of
            Inl e \<Rightarrow> ret (False, buff)
          | Inr cf \<Rightarrow>
              bindw (lift_go (GetMasterkey Pr cf oldPassword givenScryptHash [])) (\<lambda>(k, _). case k of
                Inl e \<Rightarrow> ret (False, buff)
              | Inr masterkey \<Rightarrow>
                  bindw (lift_rng (\<lambda>s r. go_bind
                      (EncryptKey Pr cf masterkey newPassword (LogN (ScryptObject cf)) (length buff > 0) r)
                      (\<lambda>(h, cf', r'). Ret ((h, cf'), s, r')))) (\<lambda>(scryptHash, cf').
                  bindw (lift_go (return_hash scryptHash buff)) (\<lambda>buff'.
                  bindw (lift_os (WriteFile J cf')) (\<lambda>er. ret (er = None, buff')))))))
       (\<lambda>(success, buff'). ret (success, wipe oldPassword, wipe givenScryptHash, wipe newPassword, buff'))"

section \<open>Creating\<close>

definition use_xchacha :: "platform \<Rightarrow> 8 word \<Rightarrow> bool" where
  "use_xchacha m xchacha =
     (if xchacha = 1 then True else if xchacha = 0 then False else \<not> HasAESGCMHardwareSupport m)"

definition create_args :: "string \<Rightarrow> bytes \<Rightarrow> bool \<Rightarrow> bool \<Rightarrow> int \<Rightarrow> string \<Rightarrow> CreateArgs" where
  "create_args rootDir password plaintextNames xc logN creator =
     \<lparr>Filename = path_Join rootDir ConfDefaultName, Password = password, PlaintextNames = plaintextNames,
      ca_LogN = logN, ca_Creator = creator, AESSIV = False, DeterministicNames = False,
      XChaCha20Poly1305 = xc, ca_LongNameMax = 255, Masterkey = None\<rparr>"

text \<open>The result is success, the wiped password, and the buffer for the hash.\<close>

definition gcf_create_volume ::
  "prims \<Rightarrow> json \<Rightarrow> platform \<Rightarrow> string \<Rightarrow> bytes \<Rightarrow> bool \<Rightarrow> 8 word \<Rightarrow> int \<Rightarrow> string \<Rightarrow> bytes \<Rightarrow>
   (bool \<times> bytes \<times> bytes) io" where
  "gcf_create_volume Pr J m rootDir password plaintextNames xchacha logN creator buff =
     bindw (lift_rng (Create Pr J (create_args rootDir password plaintextNames (use_xchacha m xchacha) logN creator) buff))
       (\<lambda>(er, buff').
         let done = (\<lambda>b. ret (b, wipe password, buff'))
         in case er of Some e \<Rightarrow> done False
            | None \<Rightarrow>
                if plaintextNames then done True
                else bindw (call_os (sys (raw_open_dir rootDir))) (\<lambda>r. case r of
                    Inl e \<Rightarrow> done False
                  | Inr dirfd \<Rightarrow> bindw (lift_rng (WriteDirIVAt dirfd)) (\<lambda>er2.
                      bindw (close_fd dirfd) (\<lambda>_. done (er2 = None)))))"

end
