(* ===== verification/Host.thy ===== *)
theory Host
  imports Volume "HOL-Library.List_Lexorder" "HOL-Library.Char_ord"
begin

unbundle bit_operations_syntax

text \<open>
  The file system outside the volumes, as the command line program uses it through the
  packages \<^verbatim>\<open>os\<close> and \<^verbatim>\<open>path/filepath\<close>: absolute paths are looked up element by element from the
  directories in the field \<open>host\<close>, and symbolic links are followed.
\<close>

section \<open>Paths of the host\<close>

text \<open>
  The first argument bounds the number of elements and links that are followed; \<open>follow\<close> says
  whether a link in the last element is.
\<close>

fun host_lookup :: "nat \<Rightarrow> os \<Rightarrow> bool \<Rightarrow> string \<Rightarrow> errno + nat" where
  "host_lookup 0 s follow path = Inl ELOOP"
| "host_lookup (Suc n) s follow path =
     (case map_of (host s) path of
        Some i \<Rightarrow> Inr i
      | None \<Rightarrow>
          if path = ''/'' \<or> path = ''.'' then Inl ENOENT
          else (case host_lookup n s True (path_Dir path) of
              Inl e \<Rightarrow> Inl e
            | Inr i \<Rightarrow> (case inode_node (inodes s ! i) of
                DirF es \<Rightarrow> (case entry s i es (path_Base path) of
                    Inl e \<Rightarrow> Inl e
                  | Inr j \<Rightarrow> (case inode_node (inodes s ! j) of
                      LnkF t \<Rightarrow>
                        if \<not> follow then Inr j
                        else host_lookup n s True
                          (if is_abs (to_string t) then path_Clean (to_string t)
                           else path_Join (path_Dir path) (to_string t))
                    | _ \<Rightarrow> Inr j))
              | _ \<Rightarrow> Inl ENOTDIR)))"

definition max_links :: nat where "max_links = 40"

definition lookup_path :: "os \<Rightarrow> bool \<Rightarrow> string \<Rightarrow> errno + nat" where
  "lookup_path s follow path = host_lookup (length path + max_links) s follow (path_Clean path)"

definition parent_dir :: "os \<Rightarrow> string \<Rightarrow> errno + nat \<times> (string \<times> nat) list" where
  "parent_dir s path = (case lookup_path s True (path_Dir path) of
     Inl e \<Rightarrow> Inl e
   | Inr i \<Rightarrow> (case inode_node (inodes s ! i) of DirF es \<Rightarrow> Inr (i, es) | _ \<Rightarrow> Inl ENOTDIR))"

section \<open>Looking\<close>

definition raw_stat :: "bool \<Rightarrow> string \<Rightarrow> os \<Rightarrow> (errno + stat) \<times> os" where
  "raw_stat follow path s = (case lookup_path s follow path of
     Inl e \<Rightarrow> (Inl e, s) | Inr i \<Rightarrow> (Inr (stat_of (inodes s ! i)), s))"

definition os_Stat :: "string \<Rightarrow> os \<Rightarrow> ((errno + stat) \<times> os) go" where
  "os_Stat path s = retryEINTR (sys (raw_stat True path)) s"

definition os_Lstat :: "string \<Rightarrow> os \<Rightarrow> ((errno + stat) \<times> os) go" where
  "os_Lstat path s = retryEINTR (sys (raw_stat False path)) s"

definition stat_dir :: "stat \<Rightarrow> bool" where
  "stat_dir st \<longleftrightarrow> st_mode st AND S_IFMT = S_IFDIR"

text \<open>
  \<open>os.ReadDir\<close>: the entries with their types, sorted by name; when reading fails part of the
  way, those read before, with the error.
\<close>

definition raw_readdir :: "string \<Rightarrow> os \<Rightarrow> (errno + (string \<times> uint32) list) \<times> os" where
  "raw_readdir path s = (case lookup_path s True path of
     Inl e \<Rightarrow> (Inl e, s)
   | Inr i \<Rightarrow> (case inode_node (inodes s ! i) of
       DirF es \<Rightarrow> (Inr (map (\<lambda>(n, j). (n, node_type (inode_node (inodes s ! j)))) es), s)
     | _ \<Rightarrow> (Inl ENOTDIR, s)))"

definition os_ReadDir :: "string \<Rightarrow> os \<Rightarrow> (((string \<times> uint32) list \<times> errno option) \<times> os) go" where
  "os_ReadDir path s =
     go_bind (retryEINTR (sys (raw_readdir path)) s) (\<lambda>(r, s1). Ret (case r of
         Inl e \<Rightarrow> (([], Some e), s1)
       | Inr es \<Rightarrow> (case next_fault (interrupted s1) of
           (None, s2) \<Rightarrow> ((sort_key fst es, None), s2)
         | (Some (e, k), s2) \<Rightarrow> ((sort_key fst (take k es), Some e), s2))))"

section \<open>Changing\<close>

text \<open>A new directory can be reached by its path.\<close>

definition raw_mkdir :: "string \<Rightarrow> uint32 \<Rightarrow> os \<Rightarrow> (errno + unit) \<times> os" where
  "raw_mkdir path mode s =
     (case parent_dir s path of
        Inl e \<Rightarrow> (Inl e, s)
      | Inr (i, es) \<Rightarrow>
          (let name = path_Base path
           in case entry s i es name of
             Inr j \<Rightarrow> (Inl EEXIST, s)
           | Inl e \<Rightarrow> if e = ENOENT \<and> name_ok name
               then let (j, s1) = new_inode (DirF []) mode s;
                        s2 = set_node i (DirF (es @ [(name, j)])) s1
                 in (Inr (), s2\<lparr>host := (path_Clean path, j) # host s2\<rparr>)
               else (Inl e, s)))"

text \<open>
  \<open>os.MkdirAll\<close> looks whether the directory is there, creates its parents and then itself. The
  number bounds the depth of the path.
\<close>

fun MkdirAll_to :: "nat \<Rightarrow> string \<Rightarrow> uint32 \<Rightarrow> os \<Rightarrow> (errno option \<times> os) go" where
  "MkdirAll_to 0 path perm s = Panic StackOverflow"
| "MkdirAll_to (Suc n) path perm s =
     go_bind (os_Stat path s) (\<lambda>(r, s1). case r of
         Inr st \<Rightarrow> Ret (if stat_dir st then None else Some ENOTDIR, s1)
       | Inl _ \<Rightarrow>
           go_bind (if path = ''/'' \<or> path = ''.'' then Ret (None, s1)
                    else MkdirAll_to n (path_Dir path) perm s1) (\<lambda>(er, s2).
           case er of Some e \<Rightarrow> Ret (Some e, s2)
           | None \<Rightarrow>
               go_bind (retryEINTR (sys (raw_mkdir path perm)) s2) (\<lambda>(r2, s3). case r2 of
                 Inr _ \<Rightarrow> Ret (None, s3)
               | Inl e \<Rightarrow> go_bind (os_Lstat path s3) (\<lambda>(r3, s4). case r3 of
                   Inl _ \<Rightarrow> Ret (Some e, s4)
                 | Inr st \<Rightarrow> Ret (if stat_dir st then None else Some e, s4)))))"

definition os_MkdirAll :: "string \<Rightarrow> uint32 \<Rightarrow> os \<Rightarrow> (errno option \<times> os) go" where
  "os_MkdirAll path perm s = MkdirAll_to (length path + 2) path perm s"

text \<open>\<open>os.Open\<close>, and \<open>os.OpenFile\<close> to write a file from its start.\<close>

definition raw_host_open :: "string \<Rightarrow> os \<Rightarrow> (errno + int) \<times> os" where
  "raw_host_open path s = (case lookup_path s True path of
     Inl e \<Rightarrow> (Inl e, s) | Inr i \<Rightarrow> raw_open_inode i (O_RDONLY OR O_CLOEXEC) s)"

definition raw_host_create :: "string \<Rightarrow> uint32 \<Rightarrow> os \<Rightarrow> (errno + int) \<times> os" where
  "raw_host_create path mode s =
     (case (case lookup_path s True path of
              Inr i \<Rightarrow> raw_open_inode i (O_WRONLY OR O_CREAT OR O_CLOEXEC) s
            | Inl e \<Rightarrow> (case parent_dir s path of
                Inl e' \<Rightarrow> (Inl e', s)
              | Inr (i, es) \<Rightarrow> open_in i es (path_Base path) (O_WRONLY OR O_CREAT OR O_CLOEXEC) mode s)) of
        (Inl e, s1) \<Rightarrow> (Inl e, s1)
      | (Inr fd, s1) \<Rightarrow> (case get_fd s1 fd of
          Some e \<Rightarrow> (Inr fd, set_node (of_ino e) (RegF []) s1) | None \<Rightarrow> (Inr fd, s1)))"

definition os_Open :: "string \<Rightarrow> os \<Rightarrow> ((errno + int) \<times> os) go" where
  "os_Open path s = retryEINTR (sys (raw_host_open path)) s"

definition os_Create :: "string \<Rightarrow> uint32 \<Rightarrow> os \<Rightarrow> ((errno + int) \<times> os) go" where
  "os_Create path mode s = retryEINTR (sys (raw_host_create path mode)) s"

text \<open>\<open>os.Remove\<close> tries \<open>unlink\<close>, then \<open>rmdir\<close>. A removed directory is no longer reachable.\<close>

definition raw_remove :: "bool \<Rightarrow> string \<Rightarrow> os \<Rightarrow> (errno + unit) \<times> os" where
  "raw_remove rmdir path s =
     (case parent_dir s path of
        Inl e \<Rightarrow> (Inl e, s)
      | Inr (i, es) \<Rightarrow> (case entry s i es (path_Base path) of
          Inl e \<Rightarrow> (Inl e, s)
        | Inr j \<Rightarrow>
            (let gone = (Inr (), (set_node i (DirF (filter (\<lambda>(n, _). n \<noteq> path_Base path) es)) s)
                   \<lparr>host := filter (\<lambda>(p, k). k \<noteq> j) (host s)\<rparr>)
             in case inode_node (inodes s ! j) of
               DirF es' \<Rightarrow> if \<not> rmdir then (Inl EISDIR, s) else if es' \<noteq> [] then (Inl ENOTEMPTY, s) else gone
             | _ \<Rightarrow> if rmdir then (Inl ENOTDIR, s) else gone)))"

definition os_Remove :: "string \<Rightarrow> os \<Rightarrow> (bool \<times> os) go" where
  "os_Remove path s =
     go_bind (retryEINTR (sys (raw_remove False path)) s) (\<lambda>(r, s1). case r of
         Inr _ \<Rightarrow> Ret (True, s1)
       | Inl _ \<Rightarrow> go_bind (retryEINTR (sys (raw_remove True path)) s1) (\<lambda>(r2, s2). Ret (errToBool r2, s2)))"

definition raw_chtimes :: "string \<Rightarrow> int \<Rightarrow> os \<Rightarrow> (errno + unit) \<times> os" where
  "raw_chtimes path mtime s = (case lookup_path s True path of
     Inl e \<Rightarrow> (Inl e, s)
   | Inr j \<Rightarrow> (Inr (), s\<lparr>inodes := (inodes s)[j := (inodes s ! j)\<lparr>inode_mtime := mtime\<rparr>]\<rparr>))"

definition os_Chtimes :: "string \<Rightarrow> int \<Rightarrow> os \<Rightarrow> (unit \<times> os)" where
  "os_Chtimes path mtime s = (case sys (raw_chtimes path mtime) s of (r, s1) \<Rightarrow> ((), s1))"

end
