(* ===== verification/Cli.thy ===== *)
theory Cli
  imports Host
begin

unbundle bit_operations_syntax

text \<open>
  The command line program (\<^verbatim>\<open>cli.go\<close>): the state of the process around the library, and the
  commands that work on one volume. What is written to standard output is kept; messages on
  standard error are left out. \<open>die\<close> ends the process with code 1, without the deferred calls; the
  state that it leaves is part of the outcome.
\<close>

section \<open>The process\<close>

text \<open>
  What the program gets from outside: the packages, the machine, the order in which a map is
  visited, the variable \<open>GOCRYPTFS_PASSWORD\<close> (empty when unset), and the formatting of a time in
  the local time zone.
\<close>

record sysenv =
  e_prims :: prims
  e_json :: json
  e_machine :: platform
  e_order :: "(int \<times> File) list \<Rightarrow> (int \<times> File) list"
  e_password :: string
  e_date :: "int \<Rightarrow> string"

text \<open>The input is the rest of standard input, and whether reading it ends in an error.\<close>

record proc =
  p_lib :: world
  p_out :: string
  p_in :: bytes
  p_in_fails :: bool

text \<open>A command goes on with a value, or has ended the process with an exit code.\<close>

datatype 'a ending = Done 'a | Exited nat

type_synonym 'a cmd = "proc \<Rightarrow> ('a ending \<times> proc) go"

definition retc :: "'a \<Rightarrow> 'a cmd" where
  "retc x p = Ret (Done x, p)"

definition bindc :: "'a cmd \<Rightarrow> ('a \<Rightarrow> 'b cmd) \<Rightarrow> 'b cmd" where
  "bindc m f p = go_bind (m p) (\<lambda>(r, p'). case r of Done x \<Rightarrow> f x p' | Exited k \<Rightarrow> Ret (Exited k, p'))"

definition on_lib :: "'a io \<Rightarrow> 'a cmd" where
  "on_lib m p = go_bind (m (p_lib p)) (\<lambda>(x, w). Ret (Done x, p\<lparr>p_lib := w\<rparr>))"

definition on_os :: "(os \<Rightarrow> ('a \<times> os) go) \<Rightarrow> 'a cmd" where
  "on_os f = on_lib (lift_os f)"

definition go_cmd :: "'a go \<Rightarrow> 'a cmd" where
  "go_cmd m p = go_bind m (\<lambda>x. Ret (Done x, p))"

definition print :: "string \<Rightarrow> unit cmd" where
  "print t p = Ret (Done (), p\<lparr>p_out := p_out p @ t\<rparr>)"

definition os_Exit :: "nat \<Rightarrow> 'a cmd" where
  "os_Exit k p = Ret (Exited k, p)"

definition die :: "'a cmd" where
  "die = os_Exit 1"

definition newline :: string where "newline = [CHR 0x0A]"
definition tab :: string where "tab = [CHR 0x09]"

lemma bindc_retc [simp]: "bindc (retc x) f = f x"
  by (simp add: bindc_def retc_def fun_eq_iff)

lemma bindc_assoc: "bindc (bindc m f) g = bindc m (\<lambda>x. bindc (f x) g)"
proof
  fix p show "bindc (bindc m f) g p = bindc m (\<lambda>x. bindc (f x) g) p"
    by (cases "m p") (auto simp: bindc_def split: prod.split ending.split)
qed

lemma bindc_run:
  "m p = Ret (Done x, p') \<Longrightarrow> bindc m f p = f x p'" "m p = Ret (Exited k, p') \<Longrightarrow> bindc m f p = Ret (Exited k, p')"
  by (simp_all add: bindc_def)

lemma bindc_eq_Ret:
  "bindc m f p = Ret (r, p'') \<longleftrightarrow>
     (\<exists>x p'. m p = Ret (Done x, p') \<and> f x p' = Ret (r, p'')) \<or> (\<exists>k. m p = Ret (Exited k, p'') \<and> r = Exited k)"
  by (cases "m p") (auto simp: bindc_def split: prod.splits ending.splits)

section \<open>Opening a volume\<close>

definition chunk :: nat where "chunk = 64 * 1024"

definition getPassword :: "sysenv \<Rightarrow> string \<Rightarrow> bytes cmd" where
  "getPassword E passfile =
     (if passfile \<noteq> [] then
        bindc (on_os (os_ReadFile passfile)) (\<lambda>r. case r of
            Inl e \<Rightarrow> die
          | Inr b \<Rightarrow> retc (rev (dropWhile (\<lambda>c. c = 13 \<or> c = 10) (rev b))))
      else if e_password E \<noteq> [] then retc (to_bytes (e_password E))
      else die)"

definition openVol :: "sysenv \<Rightarrow> string \<Rightarrow> bytes \<Rightarrow> int cmd" where
  "openVol E cipherDir pw =
     bindc (on_lib (gcf_init (e_prims E) (e_json E) (e_machine E) cipherDir pw [] [])) (\<lambda>(vid, _, _).
       if vid < 0 then die else retc vid)"

text \<open>\<open>vid := openVol(cipherDir, getPassword(passfile)); defer gcf_close(vid)\<close> and what follows.\<close>

definition with_vol :: "sysenv \<Rightarrow> string \<Rightarrow> string \<Rightarrow> (int \<Rightarrow> 'a cmd) \<Rightarrow> 'a cmd" where
  "with_vol E passfile cipherDir f =
     bindc (getPassword E passfile) (\<lambda>pw.
     bindc (openVol E cipherDir pw) (\<lambda>vid.
     bindc (f vid) (\<lambda>x.
     bindc (on_lib (gcf_close vid)) (\<lambda>_. retc x))))"

section \<open>Listing, making directories\<close>

type_synonym entries = "(string \<times> uint32) list"

text \<open>\<open>None\<close> is an error.\<close>

definition listDir :: "prims \<Rightarrow> int \<Rightarrow> string \<Rightarrow> entries option io" where
  "listDir Pr sid dirName =
     with_volume sid None (\<lambda>v.
       or_return None (prepareAtSyscallMyself (depth dirName) Pr sid v dirName) (\<lambda>(parentDirFd, cDirName).
         defer_close parentDirFd
           (or_return None (lift_os (Openat parentDirFd cDirName (O_RDONLY OR O_DIRECTORY OR O_NOFOLLOW) 0)) (\<lambda>fd.
             defer_close fd
               (or_return None (lift_os (Getdents fd)) (\<lambda>cipherEntries.
                  or_return None (if plainTextNames v then ret (Inr [])
                                  else lift_os (ReadDirIVAt (nameTransform v) fd)) (\<lambda>cachedIV.
                    bindw (list_entries Pr v fd dirName cachedIV cipherEntries) (\<lambda>out.
                    ret (Some out)))))))))"

fun mkdir_parts :: "prims \<Rightarrow> int \<Rightarrow> string \<Rightarrow> string list \<Rightarrow> unit cmd" where
  "mkdir_parts Pr vid cur [] = retc ()"
| "mkdir_parts Pr vid cur (part # parts) =
     (let cur' = cur @ slash # part
      in bindc (on_lib (gcf_get_attrs Pr vid cur')) (\<lambda>(_, _, _, ok).
           if ok then mkdir_parts Pr vid cur' parts
           else bindc (on_lib (gcf_mkdir Pr vid cur' 0x1C0)) (\<lambda>made.
             if \<not> made then die else mkdir_parts Pr vid cur' parts)))"

text \<open>\<open>path.Clean\<close> is \<open>filepath.Clean\<close> on Linux.\<close>

definition mkdirAll :: "prims \<Rightarrow> int \<Rightarrow> string \<Rightarrow> unit cmd" where
  "mkdirAll Pr vid path =
     (let p = path_Clean (slash # path)
      in if p = ''/'' then retc () else mkdir_parts Pr vid [] (split_slash (tl p)))"

section \<open>Copying\<close>

text \<open>
  The loop that reads a file of a volume in chunks and hands them on, in \<open>cat\<close>,
  \<open>decryptFileToDisk\<close> and \<open>sha256Vol\<close>: \<open>emit\<close> passes a chunk on. A result of 0, which stands
  for the end of the file and for an error alike, ends the loop. The offset grows in each
  round, so the loop ends (an offset that wraps around does not occur).
\<close>

function read_loop ::
  "('a \<Rightarrow> bytes \<Rightarrow> 'a cmd) \<Rightarrow> prims \<Rightarrow> int \<Rightarrow> int \<Rightarrow> uint64 \<Rightarrow> bytes \<Rightarrow> 'a \<Rightarrow> 'a cmd" where
  "read_loop emit Pr vid fh off buf acc =
     bindc (on_lib (gcf_read_file Pr vid fh off buf)) (\<lambda>(n, buf').
       if n = 0 then retc acc
       else bindc (go_cmd (go_slice buf' 0 (uint n))) (\<lambda>d.
            bindc (emit acc d) (\<lambda>acc'.
            if unat off < unat (off + ucast n)
            then read_loop emit Pr vid fh (off + ucast n) buf' acc'
            else (\<lambda>p. Hang))))"
  by pat_completeness auto
termination
  using unsigned_less [where 'b = 64 and 'a = nat]
  by (relation "measure (\<lambda>(emit, Pr, vid, fh, off, buf, acc). 2 ^ 64 - unat off)") (auto intro: diff_less_mono2)

declare read_loop.simps [simp del]

definition cat_file :: "prims \<Rightarrow> int \<Rightarrow> int \<Rightarrow> unit cmd" where
  "cat_file Pr vid fh = read_loop (\<lambda>_ d. print (to_string d)) Pr vid fh 0 (zeros chunk) ()"

text \<open>
  \<open>io.ReadFull\<close> on standard input: a full buffer, or the last bytes with the end of the input
  (\<open>False\<close>) or with an error (\<open>True\<close>).
\<close>

definition ReadFull :: "nat \<Rightarrow> (bytes \<times> bool option) cmd" where
  "ReadFull n p =
     (if n \<le> length (p_in p) then Ret (Done (take n (p_in p), None), p\<lparr>p_in := drop n (p_in p)\<rparr>)
      else Ret (Done (p_in p, Some (p_in_fails p)), p\<lparr>p_in := []\<rparr>))"

text \<open>One round writes a chunk; the number bounds the rounds. The result is the length written.\<close>

fun put_loop :: "nat \<Rightarrow> prims \<Rightarrow> int \<Rightarrow> int \<Rightarrow> uint64 \<Rightarrow> uint64 cmd" where
  "put_loop 0 Pr vid fh off = (\<lambda>p. Hang)"
| "put_loop (Suc k) Pr vid fh off =
     bindc (ReadFull chunk) (\<lambda>(data, rerr).
     bindc (if length data > 0
            then bindc (on_lib (gcf_write_file Pr vid fh off data)) (\<lambda>w.
              if unat w \<noteq> length data then bindc (on_lib (gcf_close_file vid fh)) (\<lambda>_. die) else retc ())
            else retc ()) (\<lambda>_.
     let off' = off + of_nat (length data)
     in case rerr of
          None \<Rightarrow> put_loop k Pr vid fh off'
        | Some False \<Rightarrow> retc off'
        | Some True \<Rightarrow> bindc (on_lib (gcf_close_file vid fh)) (\<lambda>_. die)))"

definition put_file :: "prims \<Rightarrow> int \<Rightarrow> int \<Rightarrow> uint64 cmd" where
  "put_file Pr vid fh p = put_loop (Suc (length (p_in p))) Pr vid fh 0 p"

section \<open>The commands\<close>

function octal :: "nat \<Rightarrow> string" where
  "octal n = (if n < 8 then [char_of_byte (of_nat (48 + n))]
     else octal (n div 8) @ [char_of_byte (of_nat (48 + n mod 8))])"
  by pat_completeness auto
termination by (relation "measure id") auto

declare octal.simps [simp del]

definition cmd_create :: "sysenv \<Rightarrow> string \<Rightarrow> string \<Rightarrow> unit cmd" where
  "cmd_create E passfile cipherDir =
     bindc (on_os (os_MkdirAll cipherDir 0x1C0)) (\<lambda>er.
     if er \<noteq> None then die
     else bindc (getPassword E passfile) (\<lambda>pw.
          bindc (on_lib (gcf_create_volume (e_prims E) (e_json E) (e_machine E) cipherDir pw False (- 1) 16 ''gcfs'' []))
            (\<lambda>(ok, _, _).
          if \<not> ok then die
          else bindc (openVol E cipherDir pw) (\<lambda>vid. on_lib (gcf_close vid)))))"

definition ls_line :: "string \<times> uint32 \<Rightarrow> string" where
  "ls_line e = (if snd e AND S_IFMT = S_IFDIR then ''d'' else ''f'') @ '' '' @ fst e @ newline"

definition cmd_ls :: "sysenv \<Rightarrow> string \<Rightarrow> string \<Rightarrow> string \<Rightarrow> unit cmd" where
  "cmd_ls E passfile cipherDir vpath =
     with_vol E passfile cipherDir (\<lambda>vid.
       bindc (on_lib (listDir (e_prims E) vid vpath)) (\<lambda>r. case r of
           None \<Rightarrow> die
         | Some es \<Rightarrow> print (concat (map ls_line es))))"

definition cmd_stat :: "sysenv \<Rightarrow> string \<Rightarrow> string \<Rightarrow> string \<Rightarrow> unit cmd" where
  "cmd_stat E passfile cipherDir vpath =
     with_vol E passfile cipherDir (\<lambda>vid.
       bindc (on_lib (gcf_get_attrs (e_prims E) vid vpath)) (\<lambda>(mode, size, mtime, ok).
         if \<not> ok then die
         else print (''path='' @ vpath @ '' mode='' @ octal (unat mode) @ '' size='' @ decimal (unat size) @
                '' mtime='' @ decimal (unat mtime) @ newline)))"

definition cmd_cat :: "sysenv \<Rightarrow> string \<Rightarrow> string \<Rightarrow> string \<Rightarrow> unit cmd" where
  "cmd_cat E passfile cipherDir vpath =
     with_vol E passfile cipherDir (\<lambda>vid.
       bindc (on_lib (gcf_open_read_mode (e_prims E) vid vpath)) (\<lambda>fh.
         if fh < 0 then die
         else bindc (cat_file (e_prims E) vid fh) (\<lambda>_. on_lib (gcf_close_file vid fh))))"

definition cmd_put :: "sysenv \<Rightarrow> string \<Rightarrow> string \<Rightarrow> string \<Rightarrow> unit cmd" where
  "cmd_put E passfile cipherDir dst =
     with_vol E passfile cipherDir (\<lambda>vid.
       bindc (mkdirAll (e_prims E) vid (path_Dir dst)) (\<lambda>_.
       bindc (on_lib (gcf_open_write_mode (e_prims E) vid dst 0x180)) (\<lambda>fh.
         if fh < 0 then die
         else bindc (put_file (e_prims E) vid fh) (\<lambda>off. on_lib (gcf_close_file vid fh)))))"

definition cmd_mkdir :: "sysenv \<Rightarrow> string \<Rightarrow> string \<Rightarrow> string \<Rightarrow> unit cmd" where
  "cmd_mkdir E passfile cipherDir vpath =
     with_vol E passfile cipherDir (\<lambda>vid. mkdirAll (e_prims E) vid vpath)"

definition cmd_rm :: "sysenv \<Rightarrow> string \<Rightarrow> string \<Rightarrow> string \<Rightarrow> unit cmd" where
  "cmd_rm E passfile cipherDir vpath =
     with_vol E passfile cipherDir (\<lambda>vid.
       bindc (on_lib (gcf_remove_file (e_prims E) vid vpath)) (\<lambda>ok. if \<not> ok then die else retc ()))"

end
