(* ===== verification/Sync.thy ===== *)
theory Sync
  imports Cli "HOL-Library.Sublist"
begin

unbundle bit_operations_syntax

text \<open>
  The mirror between a plaintext directory and a volume (\<^verbatim>\<open>sync.go\<close>), in both directions, and the
  listing of a volume (\<^verbatim>\<open>find.go\<close>). The recursions over directories take the depth that the
  stack allows as a number; without it left, the stack overflows.
\<close>

section \<open>Options, paths, times\<close>

record syncOpts =
  base :: string
  window :: "64 word"
  delete :: bool
  dryRun :: bool
  checksum :: bool
  verbose :: bool

definition isVolume :: "string \<Rightarrow> bool cmd" where
  "isVolume dir = bindc (on_os (os_Stat (path_Join dir ''gocryptfs.conf''))) (\<lambda>r. retc (errToBool (map_sum id (\<lambda>_. ()) r)))"

definition vjoin :: "string \<Rightarrow> string \<Rightarrow> string" where
  "vjoin dir name = (if dir = ''/'' then slash # name else dir @ slash # name)"

text \<open>\<open>strings.Trim(p, "/")\<close>; \<open>filepath.ToSlash\<close> changes nothing on Linux.\<close>

definition trim_slashes :: "string \<Rightarrow> string" where
  "trim_slashes p = rev (dropWhile (\<lambda>c. c = slash) (rev (dropWhile (\<lambda>c. c = slash) p)))"

definition cleanVol :: "string \<Rightarrow> string" where
  "cleanVol p = path_Clean (slash # trim_slashes p)"

definition trimPrefix :: "string \<Rightarrow> string \<Rightarrow> string" where
  "trimPrefix s pre = (if prefix pre s then drop (length pre) s else s)"

definition isDirMode :: "uint32 \<Rightarrow> bool" where
  "isDirMode mode \<longleftrightarrow> mode AND S_IFMT = S_IFDIR"

text \<open>All numbers are \<open>int64\<close>; the difference and its negation wrap around.\<close>

definition withinWindow :: "uint64 \<Rightarrow> 64 word \<Rightarrow> 64 word \<Rightarrow> bool" where
  "withinWindow a b w = (let d = a - b; d' = (if sint d < 0 then - d else d) in sint d' \<le> sint w)"

text \<open>\<open>filepath.Rel\<close> on clean paths; \<open>None\<close> is an error.\<close>

fun drop_common :: "string list \<Rightarrow> string list \<Rightarrow> string list \<times> string list" where
  "drop_common (x # xs) (y # ys) = (if x = y then drop_common xs ys else (x # xs, y # ys))"
| "drop_common xs ys = (xs, ys)"

definition elements :: "string \<Rightarrow> string list" where
  "elements p = filter (\<lambda>w. w \<noteq> [] \<and> w \<noteq> ''.'') (split_slash p)"

definition path_Rel :: "string \<Rightarrow> string \<Rightarrow> string option" where
  "path_Rel basepath targpath =
     (let b = path_Clean basepath; t = path_Clean targpath
      in if b = t then Some ''.''
         else if is_abs b \<noteq> is_abs t then None
         else (case drop_common (elements b) (elements t) of
             ([], ts) \<Rightarrow> Some (join_slash ts)
           | (x # xs, ts) \<Rightarrow> if x = ''..'' then None
               else Some (join_slash (map (\<lambda>_. ''..'') (x # xs) @ ts))))"

section \<open>Checksums\<close>

definition hex_digit :: "nat \<Rightarrow> char" where
  "hex_digit n = char_of_byte (of_nat (if n < 10 then 48 + n else 87 + n))"

definition hex_encode :: "bytes \<Rightarrow> string" where
  "hex_encode d = concat (map (\<lambda>b. [hex_digit (unat b div 16), hex_digit (unat b mod 16)]) d)"

text \<open>\<open>io.Copy\<close> from a file to a hash takes in the whole file, or fails.\<close>

definition copy_file :: "int \<Rightarrow> os \<Rightarrow> bytes option \<times> os" where
  "copy_file fd s =
     (case file_content s fd of
        None \<Rightarrow> (None, s)
      | Some c \<Rightarrow> (case next_fault (interrupted s) of
          (Some _, s') \<Rightarrow> (None, s') | (None, s') \<Rightarrow> (Some c, s')))"

definition sha256File :: "prims \<Rightarrow> string \<Rightarrow> string io" where
  "sha256File Pr p =
     or_return [] (lift_os (os_Open p)) (\<lambda>f.
       defer_close f
         (bindw (call_os (copy_file f)) (\<lambda>r. ret (case r of None \<Rightarrow> [] | Some c \<Rightarrow> hex_encode (sha256 Pr c)))))"

definition sha256Vol :: "prims \<Rightarrow> int \<Rightarrow> string \<Rightarrow> string cmd" where
  "sha256Vol Pr vid vpath =
     bindc (on_lib (gcf_open_read_mode Pr vid vpath)) (\<lambda>fh.
       if fh < 0 then retc []
       else bindc (read_loop (\<lambda>acc d. retc (acc @ d)) Pr vid fh 0 (zeros chunk) []) (\<lambda>c.
            bindc (on_lib (gcf_close_file vid fh)) (\<lambda>_. retc (hex_encode (sha256 Pr c)))))"

section \<open>Encrypting\<close>

text \<open>
  The copying loop. The offset grows in each round, so the loop ends (an offset that wraps
  around does not occur).
\<close>

function copy_in :: "prims \<Rightarrow> int \<Rightarrow> int \<Rightarrow> int \<Rightarrow> uint64 \<Rightarrow> unit cmd" where
  "copy_in Pr vid fh f off =
     bindc (on_os (\<lambda>s. Ret (File_Read f chunk s))) (\<lambda>(data, rerr).
     bindc (if length data > 0
            then bindc (on_lib (gcf_write_file Pr vid fh off data)) (\<lambda>w.
              if unat w \<noteq> length data then bindc (on_lib (gcf_close_file vid fh)) (\<lambda>_. die) else retc ())
            else retc ()) (\<lambda>_.
     case rerr of
       Some e \<Rightarrow> if e = EOF then retc () else bindc (on_lib (gcf_close_file vid fh)) (\<lambda>_. die)
     | None \<Rightarrow> if unat off < unat (off + of_nat (length data))
               then copy_in Pr vid fh f (off + of_nat (length data)) else (\<lambda>p. Hang)))"
  by pat_completeness auto
termination
  using unsigned_less [where 'b = 64 and 'a = nat]
  by (relation "measure (\<lambda>(Pr, vid, fh, f, off). 2 ^ 64 - unat off)") (auto intro: diff_less_mono2)

declare copy_in.simps [simp del]

text \<open>The result of \<open>gcf_truncate\<close> is dropped.\<close>

definition encryptFile :: "sysenv \<Rightarrow> int \<Rightarrow> string \<Rightarrow> string \<Rightarrow> unit cmd" where
  "encryptFile E vid vpath srcPath =
     bindc (mkdirAll (e_prims E) vid (path_Dir vpath)) (\<lambda>_.
     bindc (on_os (os_Open srcPath)) (\<lambda>r. case r of
         Inl e \<Rightarrow> die
       | Inr f \<Rightarrow>
           bindc (on_lib (gcf_open_write_mode (e_prims E) vid vpath 0x180)) (\<lambda>fh.
           if fh < 0 then die
           else bindc (on_lib (gcf_truncate (e_prims E) (e_order E) vid vpath 0)) (\<lambda>_.
                bindc (copy_in (e_prims E) vid fh f 0) (\<lambda>_.
                bindc (on_lib (gcf_close_file vid fh)) (\<lambda>_.
                on_lib (close_fd f)))))))"

text \<open>The counters and the paths met so far.\<close>

record progress =
  nNew :: nat
  nUpd :: nat
  nSkip :: nat
  nDir :: nat
  seen :: "string set"

definition no_progress :: progress where
  "no_progress = \<lparr>nNew = 0, nUpd = 0, nSkip = 0, nDir = 0, seen = {}\<rparr>"

fun fold_cmd :: "('a \<Rightarrow> 's \<Rightarrow> 's cmd) \<Rightarrow> 'a list \<Rightarrow> 's \<Rightarrow> 's cmd" where
  "fold_cmd f [] st = retc st"
| "fold_cmd f (x # xs) st = bindc (f x st) (fold_cmd f xs)"

text \<open>
  \<open>filepath.WalkDir\<close>: the callback gets a path, its type, and whether there was an error. A
  directory that cannot be read is reported by a second call.
\<close>

fun walk_dir :: "nat \<Rightarrow> (string \<Rightarrow> uint32 \<Rightarrow> bool \<Rightarrow> 's \<Rightarrow> 's cmd) \<Rightarrow> string \<Rightarrow> uint32 \<Rightarrow> 's \<Rightarrow> 's cmd" where
  "walk_dir 0 f path t st = (\<lambda>p. Panic StackOverflow)"
| "walk_dir (Suc n) f path t st =
     bindc (f path t False st) (\<lambda>st1.
       if t \<noteq> S_IFDIR then retc st1
       else bindc (on_os (os_ReadDir path)) (\<lambda>(es, err).
            bindc (if err \<noteq> None then f path t True st1 else retc st1) (\<lambda>st2.
            fold_cmd (\<lambda>(name, t1). walk_dir n f (path_Join path name) t1) es st2)))"

definition WalkDir :: "nat \<Rightarrow> (string \<Rightarrow> uint32 \<Rightarrow> bool \<Rightarrow> 's \<Rightarrow> 's cmd) \<Rightarrow> string \<Rightarrow> 's \<Rightarrow> 's cmd" where
  "WalkDir n f root st =
     bindc (on_os (os_Lstat root)) (\<lambda>r. case r of
         Inl e \<Rightarrow> f root 0 True st
       | Inr a \<Rightarrow> walk_dir n f root (st_mode a AND S_IFMT) st)"

text \<open>\<open>if o.verbose || o.dryRun\<close> in front of a line of output.\<close>

definition report :: "syncOpts \<Rightarrow> string \<Rightarrow> unit cmd" where
  "report opt line = (if verbose opt \<or> dryRun opt then print (line @ newline) else retc ())"

definition unless_dry :: "syncOpts \<Rightarrow> unit cmd \<Rightarrow> unit cmd" where
  "unless_dry opt m = (if dryRun opt then retc () else m)"

text \<open>Whether a file has to be copied: size and time, or size and checksum.\<close>

definition differs :: "sysenv \<Rightarrow> syncOpts \<Rightarrow> int \<Rightarrow> string \<Rightarrow> string \<Rightarrow> uint64 \<Rightarrow> uint64 \<Rightarrow> uint64 \<Rightarrow> int \<Rightarrow> bool cmd" where
  "differs E opt vid vpath p dSize dMtime sz mtime =
     (if checksum opt
      then if dSize \<noteq> sz then retc True
           else bindc (on_lib (sha256File (e_prims E) p)) (\<lambda>a.
                bindc (sha256Vol (e_prims E) vid vpath) (\<lambda>b. retc (a \<noteq> b)))
      else retc (\<not> (dSize = sz \<and> withinWindow dMtime (of_int mtime) (window opt))))"

text \<open>What happens with a regular file of the source.\<close>

definition encrypt_regular ::
  "sysenv \<Rightarrow> syncOpts \<Rightarrow> int \<Rightarrow> string \<Rightarrow> string \<Rightarrow> string \<Rightarrow> stat \<Rightarrow> progress \<Rightarrow> progress cmd" where
  "encrypt_regular E opt vid p rel vpath info st =
     bindc (on_lib (gcf_get_attrs (e_prims E) vid vpath)) (\<lambda>(_, dSize, dMtime, present).
     bindc (if present then differs E opt vid vpath p dSize dMtime (st_size info) (st_mtime info) else retc True) (\<lambda>need.
     if \<not> need then
       bindc (if verbose opt then print (''= '' @ rel @ newline) else retc ()) (\<lambda>_.
       retc (st\<lparr>nSkip := nSkip st + 1\<rparr>))
     else
       bindc (report opt ((if present then ''~ '' else ''+ '') @ rel)) (\<lambda>_.
       bindc (unless_dry opt
                (bindc (encryptFile E vid vpath p) (\<lambda>_.
                 bindc (on_lib (gcf_set_mtime (e_prims E) vid vpath (st_mtime info))) (\<lambda>_. retc ())))) (\<lambda>_.
       retc (if present then st\<lparr>nUpd := nUpd st + 1\<rparr> else st\<lparr>nNew := nNew st + 1\<rparr>)))))"

definition encrypt_entry ::
  "sysenv \<Rightarrow> syncOpts \<Rightarrow> int \<Rightarrow> string \<Rightarrow> string \<Rightarrow> uint32 \<Rightarrow> bool \<Rightarrow> progress \<Rightarrow> progress cmd" where
  "encrypt_entry E opt vid srcDir p t err st =
     (if err then retc st
      else
        let rel = (case path_Rel srcDir p of Some r \<Rightarrow> r | None \<Rightarrow> [])
        in if rel = ''.'' then retc st
           else
             let vpath = cleanVol (base opt @ slash # rel);
                 st1 = st\<lparr>seen := insert vpath (seen st)\<rparr>
             in if t = S_IFDIR then
                  bindc (unless_dry opt (mkdirAll (e_prims E) vid vpath)) (\<lambda>_.
                  retc (st1\<lparr>nDir := nDir st1 + 1\<rparr>))
                else if t \<noteq> S_IFREG then retc st1
                else bindc (on_os (os_Lstat p)) (\<lambda>r. case r of
                    Inl e \<Rightarrow> retc st1
                  | Inr info \<Rightarrow> encrypt_regular E opt vid p rel vpath info st1))"

fun pruneVolume :: "nat \<Rightarrow> sysenv \<Rightarrow> int \<Rightarrow> string \<Rightarrow> string set \<Rightarrow> syncOpts \<Rightarrow> nat cmd" where
  "pruneVolume 0 E vid dir keep opt = (\<lambda>p. Panic StackOverflow)"
| "pruneVolume (Suc k) E vid dir keep opt =
     bindc (on_lib (listDir (e_prims E) vid dir)) (\<lambda>r. case r of
         None \<Rightarrow> retc 0
       | Some es \<Rightarrow> fold_cmd (\<lambda>(name, mode) n.
           let vpath = vjoin dir name
           in if isDirMode mode then
                bindc (pruneVolume k E vid vpath keep opt) (\<lambda>m.
                if vpath \<notin> keep then
                  bindc (report opt (''- '' @ vpath @ ''/'')) (\<lambda>_.
                  bindc (unless_dry opt (bindc (on_lib (gcf_rmdir (e_prims E) vid vpath)) (\<lambda>_. retc ()))) (\<lambda>_.
                  retc (n + m + 1)))
                else retc (n + m))
              else if vpath \<notin> keep then
                bindc (report opt (''- '' @ vpath)) (\<lambda>_.
                bindc (unless_dry opt (bindc (on_lib (gcf_remove_file (e_prims E) vid vpath)) (\<lambda>_. retc ()))) (\<lambda>_.
                retc (n + 1)))
              else retc n) es 0)"

definition encryptSync :: "nat \<Rightarrow> sysenv \<Rightarrow> string \<Rightarrow> syncOpts \<Rightarrow> string \<Rightarrow> string \<Rightarrow> (progress \<times> nat) cmd" where
  "encryptSync n E passfile opt srcDir volDir =
     with_vol E passfile volDir (\<lambda>vid.
       bindc (if base opt \<noteq> ''/'' \<and> \<not> dryRun opt then mkdirAll (e_prims E) vid (base opt) else retc ()) (\<lambda>_.
       bindc (WalkDir n (encrypt_entry E opt vid srcDir) srcDir no_progress) (\<lambda>st.
       bindc (if delete opt then pruneVolume n E vid (base opt) (seen st) opt else retc 0) (\<lambda>nDel.
       retc (st, nDel)))))"

section \<open>Decrypting\<close>

definition write_out :: "int \<Rightarrow> bytes \<Rightarrow> unit cmd" where
  "write_out out d = bindc (on_os (\<lambda>s. Ret (File_Write out d s))) (\<lambda>er. if er \<noteq> None then die else retc ())"

definition decryptFileToDisk :: "prims \<Rightarrow> int \<Rightarrow> string \<Rightarrow> string \<Rightarrow> unit cmd" where
  "decryptFileToDisk Pr vid vpath dstPath =
     bindc (on_os (os_MkdirAll (path_Dir dstPath) 0x1C0)) (\<lambda>_.
     bindc (on_lib (gcf_open_read_mode Pr vid vpath)) (\<lambda>fh.
     if fh < 0 then die
     else bindc (on_os (os_Create dstPath 0x180)) (\<lambda>r. case r of
         Inl e \<Rightarrow> die
       | Inr out \<Rightarrow>
           bindc (read_loop (\<lambda>_. write_out out) Pr vid fh 0 (zeros chunk) ()) (\<lambda>_.
           bindc (on_lib (close_fd out)) (\<lambda>_.
           on_lib (gcf_close_file vid fh))))))"

text \<open>What happens with an entry of the volume that is not a directory.\<close>

definition decrypt_file ::
  "sysenv \<Rightarrow> syncOpts \<Rightarrow> int \<Rightarrow> string \<Rightarrow> string \<Rightarrow> string \<Rightarrow> progress \<Rightarrow> progress cmd" where
  "decrypt_file E opt vid vpath rel dstPath st =
     bindc (on_lib (gcf_get_attrs (e_prims E) vid vpath)) (\<lambda>(_, vSize, vMtime, _).
     bindc (on_os (os_Stat dstPath)) (\<lambda>sr.
     bindc (case sr of
              Inl e \<Rightarrow> retc True
            | Inr a \<Rightarrow> differs E opt vid vpath dstPath vSize vMtime (st_size a) (st_mtime a)) (\<lambda>need.
     let present = errToBool (map_sum id (\<lambda>_. ()) sr)
     in if \<not> need then
          bindc (if verbose opt then print (''= '' @ rel @ newline) else retc ()) (\<lambda>_.
          retc (st\<lparr>nSkip := nSkip st + 1\<rparr>))
        else
          bindc (report opt ((if present then ''~ '' else ''+ '') @ rel)) (\<lambda>_.
          bindc (unless_dry opt
                   (bindc (decryptFileToDisk (e_prims E) vid vpath dstPath) (\<lambda>_.
                    on_os (\<lambda>s. Ret (os_Chtimes dstPath (sint vMtime) s))))) (\<lambda>_.
          retc (if present then st\<lparr>nUpd := nUpd st + 1\<rparr> else st\<lparr>nNew := nNew st + 1\<rparr>))))))"

fun decrypt_walk :: "nat \<Rightarrow> sysenv \<Rightarrow> syncOpts \<Rightarrow> int \<Rightarrow> string \<Rightarrow> string \<Rightarrow> progress \<Rightarrow> progress cmd" where
  "decrypt_walk 0 E opt vid dstDir vdir st = (\<lambda>p. Panic StackOverflow)"
| "decrypt_walk (Suc k) E opt vid dstDir vdir st =
     bindc (on_lib (listDir (e_prims E) vid vdir)) (\<lambda>r. case r of
         None \<Rightarrow> die
       | Some es \<Rightarrow> fold_cmd (\<lambda>(name, mode) st.
           let vpath = vjoin vdir name;
               rel = trimPrefix (trimPrefix vpath (base opt)) ''/''
           in if rel = [] then retc st
              else
                let st1 = st\<lparr>seen := insert rel (seen st)\<rparr>; dstPath = path_Join dstDir rel
                in if isDirMode mode then
                     bindc (unless_dry opt (bindc (on_os (os_MkdirAll dstPath 0x1C0)) (\<lambda>_. retc ()))) (\<lambda>_.
                     decrypt_walk k E opt vid dstDir vpath (st1\<lparr>nDir := nDir st1 + 1\<rparr>))
                   else decrypt_file E opt vid vpath rel dstPath st1) es st)"

fun pruneDisk :: "nat \<Rightarrow> string \<Rightarrow> string \<Rightarrow> string set \<Rightarrow> syncOpts \<Rightarrow> nat cmd" where
  "pruneDisk 0 root basedir keep opt = (\<lambda>p. Panic StackOverflow)"
| "pruneDisk (Suc k) root basedir keep opt =
     bindc (on_os (os_ReadDir root)) (\<lambda>(es, err).
       if err \<noteq> None then retc 0
       else fold_cmd (\<lambda>(name, t) n.
           let full = path_Join root name;
               rel = (case path_Rel basedir full of Some r \<Rightarrow> r | None \<Rightarrow> []);
               remove = unless_dry opt (bindc (on_os (os_Remove full)) (\<lambda>_. retc ()))
           in if t = S_IFDIR then
                bindc (pruneDisk k full basedir keep opt) (\<lambda>m.
                if rel \<notin> keep then
                  bindc (report opt (''- '' @ rel @ ''/'')) (\<lambda>_. bindc remove (\<lambda>_. retc (n + m + 1)))
                else retc (n + m))
              else if rel \<notin> keep then
                bindc (report opt (''- '' @ rel)) (\<lambda>_. bindc remove (\<lambda>_. retc (n + 1)))
              else retc n) es 0)"

definition decryptSync :: "nat \<Rightarrow> sysenv \<Rightarrow> string \<Rightarrow> syncOpts \<Rightarrow> string \<Rightarrow> string \<Rightarrow> (progress \<times> nat) cmd" where
  "decryptSync n E passfile opt volDir dstDir =
     with_vol E passfile volDir (\<lambda>vid.
       bindc (unless_dry opt (bindc (on_os (os_MkdirAll dstDir 0x1C0)) (\<lambda>_. retc ()))) (\<lambda>_.
       bindc (decrypt_walk n E opt vid dstDir (base opt) no_progress) (\<lambda>st.
       bindc (if delete opt then pruneDisk n dstDir dstDir (seen st) opt else retc 0) (\<lambda>nDel.
       retc (st, nDel)))))"

section \<open>The commands\<close>

text \<open>The result is what the last line on standard error reports.\<close>

definition doSync :: "nat \<Rightarrow> sysenv \<Rightarrow> string \<Rightarrow> syncOpts \<Rightarrow> string \<Rightarrow> string \<Rightarrow> (progress \<times> nat) cmd" where
  "doSync n E passfile opt0 src dst =
     (let opt = opt0\<lparr>base := cleanVol (base opt0)\<rparr>
      in bindc (isVolume src) (\<lambda>srcVol.
         bindc (isVolume dst) (\<lambda>dstVol.
           if dstVol \<and> \<not> srcVol then encryptSync n E passfile opt src dst
           else if srcVol \<and> \<not> dstVol then decryptSync n E passfile opt src dst
           else die)))"

definition find_line :: "sysenv \<Rightarrow> string \<Rightarrow> string \<Rightarrow> uint64 \<Rightarrow> uint64 \<Rightarrow> string" where
  "find_line E basedir vpath sz mtime =
     trimPrefix (trimPrefix vpath basedir) ''/'' @ tab @ decimal (unat mtime) @ tab @ e_date E (sint mtime) @ tab @
       decimal (unat sz) @ newline"

fun find_walk :: "nat \<Rightarrow> sysenv \<Rightarrow> int \<Rightarrow> string \<Rightarrow> string \<Rightarrow> unit cmd" where
  "find_walk 0 E vid basedir vdir = (\<lambda>p. Panic StackOverflow)"
| "find_walk (Suc k) E vid basedir vdir =
     bindc (on_lib (listDir (e_prims E) vid vdir)) (\<lambda>r. case r of
         None \<Rightarrow> retc ()
       | Some es \<Rightarrow> fold_cmd (\<lambda>(name, _) _.
           let vpath = vjoin vdir name
           in bindc (on_lib (gcf_get_attrs (e_prims E) vid vpath)) (\<lambda>(mode, sz, mtime, ok).
                if \<not> ok then retc ()
                else if isDirMode mode then find_walk k E vid basedir vpath
                else if mode AND S_IFMT \<noteq> S_IFREG then retc ()
                else print (find_line E basedir vpath sz mtime))) es ())"

definition doFind :: "nat \<Rightarrow> sysenv \<Rightarrow> string \<Rightarrow> string \<Rightarrow> string \<Rightarrow> unit cmd" where
  "doFind n E passfile basedir volDir =
     with_vol E passfile volDir (\<lambda>vid. find_walk n E vid (cleanVol basedir) (cleanVol basedir))"

section \<open>The program\<close>

text \<open>The option \<open>-passfile\<close> may stand anywhere; the last one counts.\<close>

fun pull_passfile :: "string \<Rightarrow> string list \<Rightarrow> string \<times> string list" where
  "pull_passfile pf [] = (pf, [])"
| "pull_passfile pf (a # args) =
     (if a = ''-passfile'' \<and> args \<noteq> [] then pull_passfile (hd args) (tl args)
      else if prefix ''-passfile='' a then pull_passfile (trimPrefix a ''-passfile='') args
      else case pull_passfile pf args of (pf', rest) \<Rightarrow> (pf', a # rest))"

text \<open>\<open>None\<close>: an unknown flag, which ends the program.\<close>

fun parse_sync :: "syncOpts \<Rightarrow> string list \<Rightarrow> (syncOpts \<times> string list) option" where
  "parse_sync opt [] = Some (opt, [])"
| "parse_sync opt (a # args) =
     (if a = ''-n'' \<or> a = ''--dry-run'' then parse_sync (opt\<lparr>dryRun := True\<rparr>) args
      else if a = ''-delete'' \<or> a = ''--delete'' then parse_sync (opt\<lparr>delete := True\<rparr>) args
      else if a = ''-checksum'' \<or> a = ''--checksum'' then parse_sync (opt\<lparr>checksum := True\<rparr>) args
      else if a = ''-v'' \<or> a = ''--verbose'' then parse_sync (opt\<lparr>verbose := True\<rparr>) args
      else if a = ''-base'' \<and> args \<noteq> [] then parse_sync (opt\<lparr>base := hd args\<rparr>) (tl args)
      else if prefix ''-base='' a then parse_sync (opt\<lparr>base := trimPrefix a ''-base=''\<rparr>) args
      else if prefix ''-'' a then None
      else map_option (\<lambda>(opt', args2). (opt', a # args2)) (parse_sync opt args))"

fun parse_find :: "string \<Rightarrow> string list \<Rightarrow> (string \<times> string list) option" where
  "parse_find b [] = Some (b, [])"
| "parse_find b (a # args) =
     (if a = ''-base'' \<and> args \<noteq> [] then parse_find (hd args) (tl args)
      else if prefix ''-base='' a then parse_find (trimPrefix a ''-base='') args
      else if prefix ''-'' a then None
      else map_option (\<lambda>(b', args2). (b', a # args2)) (parse_find b args))"

definition sync_defaults :: syncOpts where
  "sync_defaults = \<lparr>base = [], window = 2, delete = False, dryRun = False, checksum = False, verbose = False\<rparr>"

definition vpath_arg :: "string list \<Rightarrow> string option" where
  "vpath_arg rest = (if length rest \<le> 2 then None else Some (path_Clean (slash # trimPrefix (rest ! 2) ''/'')))"

text \<open>
  The commands look for their path argument after opening the volume; a missing argument ends
  the program there. An empty \<open>-passfile\<close> counts as none.
\<close>

definition volume_command ::
  "sysenv \<Rightarrow> string \<Rightarrow> string list \<Rightarrow> (sysenv \<Rightarrow> string \<Rightarrow> string \<Rightarrow> string \<Rightarrow> unit cmd) \<Rightarrow> unit cmd" where
  "volume_command E passfile rest f =
     (case vpath_arg rest of
        Some v \<Rightarrow> f E passfile (rest ! 1) v
      | None \<Rightarrow> with_vol E passfile (rest ! 1) (\<lambda>_. die))"

definition main :: "nat \<Rightarrow> sysenv \<Rightarrow> string list \<Rightarrow> unit cmd" where
  "main n E args =
     (case pull_passfile [] args of (passfile, rest) \<Rightarrow>
        if length rest < 2 then os_Exit 2
        else if hd rest = ''sync'' then
          (case parse_sync sync_defaults (tl rest) of
             None \<Rightarrow> die
           | Some (opt, args2) \<Rightarrow>
               if length args2 \<noteq> 2 then die
               else bindc (doSync n E passfile opt (args2 ! 0) (args2 ! 1)) (\<lambda>_. retc ()))
        else if hd rest = ''find'' then
          (case parse_find ''/'' (tl rest) of
             None \<Rightarrow> die
           | Some (b, args2) \<Rightarrow> if length args2 \<noteq> 1 then die else doFind n E passfile b (args2 ! 0))
        else if hd rest = ''create'' then cmd_create E passfile (rest ! 1)
        else if hd rest = ''ls'' then volume_command E passfile rest cmd_ls
        else if hd rest = ''stat'' then volume_command E passfile rest cmd_stat
        else if hd rest = ''cat'' then volume_command E passfile rest cmd_cat
        else if hd rest = ''put'' then volume_command E passfile rest cmd_put
        else if hd rest = ''mkdir'' then volume_command E passfile rest cmd_mkdir
        else if hd rest = ''rm'' then volume_command E passfile rest cmd_rm
        else die)"

end
