(* ===== verification/SyncPaths.thy ===== *)
theory SyncPaths
  imports Sync
begin

unbundle bit_operations_syntax

text \<open>
  The paths of \<^verbatim>\<open>sync.go\<close>. Copying and pruning compute the path of an entry in different ways
  and meet in the set of paths seen, so both have to arrive at the same string. A clean
  absolute path is a list of proper names.
\<close>

section \<open>Clean paths as lists of names\<close>

definition proper :: "string \<Rightarrow> bool" where
  "proper n \<longleftrightarrow> n \<noteq> [] \<and> n \<noteq> ''.'' \<and> n \<noteq> ''..'' \<and> slash \<notin> set n"

abbreviation propers :: "string list \<Rightarrow> bool" where
  "propers ws \<equiv> \<forall>w \<in> set ws. proper w"

definition abs_path :: "string list \<Rightarrow> string" where
  "abs_path ws = slash # join_slash ws"

lemma IsValidName_proper: "IsValidName n = None \<Longrightarrow> proper n"
  by (auto simp: IsValidName_def proper_def split: if_splits)

lemma split_no_slash: "slash \<notin> set w \<Longrightarrow> split_slash w = [w]"
  by (induction w) auto

lemma split_append: "slash \<notin> set w \<Longrightarrow> split_slash (w @ slash # s) = w # split_slash s"
  by (induction w) auto

lemma split_join: "ws \<noteq> [] \<Longrightarrow> \<forall>w \<in> set ws. slash \<notin> set w \<Longrightarrow> split_slash (join_slash ws) = ws"
  by (induction ws rule: join_slash.induct) (auto simp: split_no_slash split_append)

lemma join_split: "join_slash (split_slash p) = p"
proof (induction p)
  case (Cons c p)
  show ?case
  proof (cases "split_slash p")
    case Nil
    then show ?thesis using split_slash_ne [of p] by simp
  next
    case (Cons w ws)
    then show ?thesis using Cons.IH by (cases ws) auto
  qed
qed simp

lemma split_words: "w \<in> set (split_slash p) \<Longrightarrow> slash \<notin> set w"
  by (induction p arbitrary: w) (auto split: list.splits if_splits)

lemma join_append: "xs \<noteq> [] \<Longrightarrow> ys \<noteq> [] \<Longrightarrow> join_slash (xs @ ys) = join_slash xs @ slash # join_slash ys"
proof (induction xs rule: join_slash.induct)
  case (2 w)
  then show ?case by (cases ys) auto
qed auto

lemma proper_ends: "proper w \<Longrightarrow> w \<noteq> [] \<and> hd w \<noteq> slash \<and> last w \<noteq> slash"
  using hd_in_set [of w] last_in_set [of w] unfolding proper_def by metis

lemma join_ne: "propers ws \<Longrightarrow> ws \<noteq> [] \<Longrightarrow> join_slash ws \<noteq> [] \<and> hd (join_slash ws) \<noteq> slash \<and> last (join_slash ws) \<noteq> slash"
proof (induction ws rule: join_slash.induct)
  case (2 w)
  then show ?case using proper_ends by simp
next
  case (3 w v ws)
  then have "proper w" "join_slash (v # ws) \<noteq> []" "last (join_slash (v # ws)) \<noteq> slash" by simp_all
  then show ?case using proper_ends [of w] by simp
qed simp

lemma clean_steps_proper: "propers ws \<Longrightarrow> foldl (clean_step b) out ws = rev ws @ out"
  by (induction ws arbitrary: out) (auto simp: clean_step_def proper_def)

lemma clean_abs_path: "propers ws \<Longrightarrow> path_Clean (abs_path ws) = abs_path ws"
proof (cases "ws = []")
  case False
  moreover assume "propers ws"
  ultimately have "split_slash (abs_path ws) = [] # ws" by (auto simp: abs_path_def split_join proper_def)
  then show ?thesis
    using clean_steps_proper [OF \<open>propers ws\<close>, of True "[]"]
    by (simp add: path_Clean_def clean_step_def) (simp add: abs_path_def)
qed (simp add: abs_path_def path_Clean_def clean_step_def)

text \<open>Cleaning an absolute path yields one.\<close>

lemma clean_steps_propers:
  "propers out \<Longrightarrow> \<forall>w \<in> set ws. slash \<notin> set w \<Longrightarrow> propers (foldl (clean_step True) out ws)"
proof (induction ws arbitrary: out)
  case (Cons w ws)
  have "propers (clean_step True out w)"
    using Cons.prems by (auto simp: clean_step_def proper_def split: list.splits)
  then show ?case using Cons by simp
qed simp

lemma clean_is_abs_path: "is_abs p \<Longrightarrow> \<exists>ws. propers ws \<and> path_Clean p = abs_path ws"
proof -
  assume a: "is_abs p"
  have "propers (rev (foldl (clean_step True) [] (split_slash p)))"
    using clean_steps_propers [of "[]" "split_slash p"] split_words [of _ p] by simp
  moreover have "path_Clean p = abs_path (rev (foldl (clean_step True) [] (split_slash p)))"
    using a by (simp add: path_Clean_def is_abs_def abs_path_def)
  ultimately show ?thesis by blast
qed

lemma abs_path_simps [simp]: "abs_path [] = ''/''" "is_abs (abs_path ws)" "abs_path ws \<noteq> []"
  by (simp_all add: abs_path_def is_abs_def)

lemma abs_path_inj: "propers ws \<Longrightarrow> propers vs \<Longrightarrow> abs_path ws = abs_path vs \<Longrightarrow> ws = vs"
proof -
  assume p: "propers ws" "propers vs" and e: "abs_path ws = abs_path vs"
  then have j: "join_slash ws = join_slash vs" by (simp add: abs_path_def)
  show "ws = vs"
  proof (cases "ws = [] \<or> vs = []")
    case True
    then have n: "join_slash ws = []" "join_slash vs = []" by (elim disjE; simp add: j [symmetric] j)+
    have "ws = []" "vs = []" using n join_ne [OF p(1)] join_ne [OF p(2)] by blast+
    then show ?thesis by simp
  next
    case False
    then have "ws = split_slash (join_slash ws)" "split_slash (join_slash vs) = vs"
      using p split_join [of ws] split_join [of vs] by (simp_all add: proper_def)
    then show ?thesis unfolding j by simp
  qed
qed

section \<open>Descending\<close>

lemma vjoin_abs_path:
  assumes "propers ws"
  shows "vjoin (abs_path ws) n = abs_path (ws @ [n])"
proof (cases "ws = []")
  case False
  then have "abs_path ws \<noteq> ''/''" using abs_path_inj [OF assms, of "[]"] by auto
  then show ?thesis using False by (simp add: vjoin_def abs_path_def join_append)
qed (simp add: vjoin_def abs_path_def)

lemma vjoins: "propers ws \<Longrightarrow> propers rs \<Longrightarrow> foldl vjoin (abs_path ws) rs = abs_path (ws @ rs)"
proof (induction rs arbitrary: ws)
  case (Cons r rs)
  then have "foldl vjoin (abs_path (ws @ [r])) rs = abs_path ((ws @ [r]) @ rs)" by (intro Cons.IH) auto
  then show ?case using Cons.prems by (simp add: vjoin_abs_path)
qed simp

lemma path_Join_abs_path:
  assumes "propers ws" "proper n"
  shows "path_Join (abs_path ws) n = abs_path (ws @ [n])"
proof (cases "ws = []")
  case True
  have "split_slash ([slash] @ slash # n) = [[], [], n]" using assms(2) by (simp add: proper_def split_no_slash)
  then show ?thesis using True assms(2) by (auto simp: path_Join_def path_Clean_def clean_step_def abs_path_def proper_def)
next
  case False
  have "abs_path ws @ slash # n = abs_path (ws @ [n])" using False by (simp add: abs_path_def join_append)
  then show ?thesis using clean_abs_path [of "ws @ [n]"] assms by (simp add: path_Join_def)
qed

lemma path_Joins: "propers ws \<Longrightarrow> propers rs \<Longrightarrow> foldl path_Join (abs_path ws) rs = abs_path (ws @ rs)"
proof (induction rs arbitrary: ws)
  case (Cons r rs)
  then have "foldl path_Join (abs_path (ws @ [r])) rs = abs_path ((ws @ [r]) @ rs)" by (intro Cons.IH) auto
  then show ?case using Cons.prems by (simp add: path_Join_abs_path)
qed simp

lemma path_Join_rel:
  assumes "propers ws" "propers rs" "rs \<noteq> []"
  shows "path_Join (abs_path ws) (join_slash rs) = abs_path (ws @ rs)"
proof (cases "ws = []")
  case True
  have "split_slash (''/'' @ slash # join_slash rs) = [] # [] # rs" using assms by (simp add: split_join proper_def)
  then show ?thesis
    using True clean_steps_proper [OF assms(2), of True "[]"] by (simp add: path_Join_def path_Clean_def clean_step_def abs_path_def)
next
  case False
  have "abs_path ws @ slash # join_slash rs = abs_path (ws @ rs)" using False assms(3) by (simp add: abs_path_def join_append)
  then show ?thesis using clean_abs_path [of "ws @ rs"] assms by (simp add: path_Join_def ball_Un)
qed

lemma elements_abs_path: "propers ws \<Longrightarrow> elements (abs_path ws) = ws"
proof (cases "ws = []")
  case False
  assume p: "propers ws"
  then have "split_slash (abs_path ws) = [] # ws" using False by (auto simp: abs_path_def split_join proper_def)
  moreover have "filter (\<lambda>w. w \<noteq> [] \<and> w \<noteq> ''.'') ws = ws" using p by (auto simp: proper_def filter_id_conv)
  ultimately show ?thesis by (simp add: elements_def)
qed (simp add: elements_def abs_path_def)

lemma drop_common_append: "drop_common ws (ws @ rs) = ([], rs)"
  by (induction ws) auto

lemma path_Rel_abs_path:
  assumes "propers ws" "propers rs" "rs \<noteq> []"
  shows "path_Rel (abs_path ws) (abs_path (ws @ rs)) = Some (join_slash rs)"
proof -
  have p: "propers (ws @ rs)" using assms by auto
  have "abs_path ws \<noteq> abs_path (ws @ rs)" using abs_path_inj [OF assms(1) p] assms(3) by auto
  then show ?thesis
    using assms(1) p by (simp add: path_Rel_def clean_abs_path elements_abs_path drop_common_append)
qed

section \<open>The path of a copied entry\<close>

lemma trim_leading: "trim_slashes (slash # p) = trim_slashes p"
  by (simp add: trim_slashes_def)

lemma trim_id:
  assumes "p \<noteq> []" "hd p \<noteq> slash" "last p \<noteq> slash"
  shows "trim_slashes p = p"
proof -
  have "dropWhile (\<lambda>c. c = slash) p = p" using assms(1,2) by (cases p) auto
  moreover have "dropWhile (\<lambda>c. c = slash) (rev p) = rev p"
    using assms(1,3) by (cases p rule: rev_cases) auto
  ultimately show ?thesis by (simp add: trim_slashes_def)
qed

lemma cleanVol_append:
  assumes "propers ws" "propers rs" "rs \<noteq> []"
  shows "cleanVol (abs_path ws @ slash # join_slash rs) = abs_path (ws @ rs)"
proof -
  have p: "propers (ws @ rs)" using assms by auto
  note t = trim_id [of "join_slash (ws @ rs)"] join_ne [OF p]
  have "trim_slashes (abs_path ws @ slash # join_slash rs) = join_slash (ws @ rs)"
  proof (cases "ws = []")
    case True
    then show ?thesis using t assms(3) by (simp add: trim_leading)
  next
    case False
    then show ?thesis using t assms(3) by (simp add: abs_path_def trim_leading join_append)
  qed
  then show ?thesis using clean_abs_path [OF p] by (simp add: cleanVol_def abs_path_def)
qed

lemma cleanVol_abs_path: "\<exists>ws. propers ws \<and> cleanVol p = abs_path ws"
  unfolding cleanVol_def by (rule clean_is_abs_path) (simp add: is_abs_def)

lemma trim_base:
  assumes "propers ws" "propers rs" "rs \<noteq> []"
  shows "trimPrefix (trimPrefix (abs_path (ws @ rs)) (abs_path ws)) ''/'' = join_slash rs"
proof (cases "ws = []")
  case True
  have "\<not> prefix ''/'' (join_slash rs)" using join_ne [OF assms(2,3)] by (cases "join_slash rs") auto
  then show ?thesis using True by (simp add: trimPrefix_def abs_path_def)
next
  case False
  then have "abs_path (ws @ rs) = abs_path ws @ slash # join_slash rs" using assms(3) by (simp add: abs_path_def join_append)
  then show ?thesis by (simp add: trimPrefix_def)
qed

section \<open>Time stamps\<close>

lemma sint_range: "- (2 ^ 63) \<le> sint (x :: 64 word)" "sint x < 2 ^ 63"
  using sint_ge [of x] sint_lt [of x] by simp_all

text \<open>Without overflow the two times are compared as numbers.\<close>

lemma sint_diff:
  assumes "\<bar>sint a - sint b\<bar> < 2 ^ 63"
  shows "sint (a - b :: 64 word) = sint a - sint b"
  using assms by (simp add: sint_word_ariths signed_take_bit_int_eq_self)

lemma sint_minus: "sint (d :: 64 word) \<noteq> - (2 ^ 63) \<Longrightarrow> sint (- d) = - sint d"
  using sint_range [of d] by (simp add: sint_word_ariths signed_take_bit_int_eq_self)

lemma withinWindow_eq:
  assumes "\<bar>sint a - sint b\<bar> < 2 ^ 63"
  shows "withinWindow a b w \<longleftrightarrow> \<bar>sint a - sint b\<bar> \<le> sint w"
proof -
  have d: "sint (a - b) = sint a - sint b" by (rule sint_diff) fact
  then have "sint (a - b) \<noteq> - (2 ^ 63)" using assms by auto
  then have "sint (- (a - b)) = sint b - sint a" using d sint_minus [of "a - b"] by simp
  then show ?thesis using d by (auto simp: withinWindow_def Let_def)
qed

text \<open>Times that lie \<open>2 ^ 63\<close> seconds apart count as equal in every window.\<close>

lemma withinWindow_overflow:
  assumes "a - b = push_bit 63 1"
  shows "withinWindow a b w"
proof -
  have "sint (push_bit 63 1 :: 64 word) = - (2 ^ 63)" "- push_bit 63 1 = (push_bit 63 1 :: 64 word)" by code_simp+
  then show ?thesis using sint_range(1) [of w] assms by (simp add: withinWindow_def Let_def)
qed

end
