(* ===== verification/IoRules.thy ===== *)
theory IoRules
  imports World
begin

text \<open>
  Relations between the state before and after an operation. A relation that composes goes
  through the ways in which the code puts operations together; one that also ignores the
  operating system and the random source holds of every system call.
\<close>

locale io_relation =
  fixes R :: "world \<Rightarrow> world \<Rightarrow> bool"
  assumes refl: "R w w" and trans: "R w w' \<Longrightarrow> R w' w'' \<Longrightarrow> R w w''"
begin

definition along :: "'a io \<Rightarrow> bool" where
  "along m \<longleftrightarrow> (\<forall>w x w'. m w = Ret (x, w') \<longrightarrow> R w w')"

lemma alongI: "(\<And>w x w'. m w = Ret (x, w') \<Longrightarrow> R w w') \<Longrightarrow> along m"
  by (simp add: along_def)

lemma alongD: "along m \<Longrightarrow> m w = Ret (x, w') \<Longrightarrow> R w w'"
  by (simp add: along_def)

lemma along_bindw:
  assumes "along m" "\<And>x. along (f x)"
  shows "along (bindw m f)"
proof (rule alongI)
  fix w y w'' assume "bindw m f w = Ret (y, w'')"
  then obtain x w' where "m w = Ret (x, w')" "f x w' = Ret (y, w'')" by (auto simp: bindw_eq_Ret)
  then show "R w w''" using alongD [OF assms(1)] alongD [OF assms(2)] trans by blast
qed

lemma along_basic: "along (ret x)" "along (\<lambda>w. Ret (x, w))" "along (lift_go m)" "along (\<lambda>w. Panic e)" "along (\<lambda>w. Hang)"
  by (auto simp: along_def refl lift_go_def go_bind_eq_Ret)

lemma along_if: "along m \<Longrightarrow> along n \<Longrightarrow> along (if b then m else n)"
  by simp

lemma along_case:
  "(\<And>e. along (f e)) \<Longrightarrow> (\<And>x. along (g x)) \<Longrightarrow> along (case r of Inl e \<Rightarrow> f e | Inr x \<Rightarrow> g x)"
  "along m \<Longrightarrow> (\<And>x. along (h x)) \<Longrightarrow> along (case p of None \<Rightarrow> m | Some x \<Rightarrow> h x)"
  "(\<And>a b. along (k a b)) \<Longrightarrow> along (case q of (a, b) \<Rightarrow> k a b)"
  by (simp_all split: sum.split option.split prod.split)

lemma along_with_volume: "(\<And>v. along (f v)) \<Longrightarrow> along (with_volume sid d f)"
  unfolding along_def with_volume_def by (simp add: refl split: option.split)

lemma along_or_return:
  "along n \<Longrightarrow> (\<And>x. along (f x)) \<Longrightarrow> along (or_return d n f)"
  "along m' \<Longrightarrow> along m \<Longrightarrow> along (none_or_return d m' m)"
  unfolding or_return_def none_or_return_def by (intro along_bindw along_case along_basic | assumption)+

lemma along_get_handle: "along (get_handle sid h)"
  by (auto simp: along_def get_handle_def go_bind_eq_Ret refl)

lemmas along_rules = along_bindw along_basic along_if along_case along_with_volume along_or_return along_get_handle

end

locale table_relation = io_relation +
  assumes os: "R w (w\<lparr>w_os := s\<rparr>)" and rng: "R w (w\<lparr>w_rng := r\<rparr>)"
begin

lemma along_lift_os: "along (lift_os f)"
  by (auto simp: along_def lift_os_def go_bind_eq_Ret os)

lemma along_call_os: "along (call_os f)"
  unfolding call_os_def by (rule along_lift_os)

lemma both: "R w (w\<lparr>w_os := s, w_rng := r\<rparr>)"
  using trans [OF os rng] by blast

lemma along_lift_rng: "along (lift_rng f)"
  by (auto simp: along_def lift_rng_def go_bind_eq_Ret both)

lemma along_close: "along (close_fd fd)" "along m \<Longrightarrow> along (defer_close fd m)"
  unfolding close_fd_def defer_close_def by (intro along_rules along_call_os | assumption)+

lemmas table_rules = along_rules along_lift_os along_call_os along_lift_rng along_close

end

end
