(* ===== verification/Readonly.thy ===== *)
theory Readonly
  imports SyncPaths IoRules
begin

unbundle bit_operations_syntax

text \<open>
  Operations that only read: they leave every file and directory as it is, whatever system
  calls fail. The property composes over the state monads of the library and of the program.
\<close>

section \<open>Calls\<close>

definition disk :: "os \<Rightarrow> inode list \<times> (string \<times> nat) list" where
  "disk s = (inodes s, host s)"

definition gkeep :: "(os \<Rightarrow> ('a \<times> os) go) \<Rightarrow> bool" where
  "gkeep f \<longleftrightarrow> (\<forall>s x s'. f s = Ret (x, s') \<longrightarrow> disk s' = disk s)"

lemma gkeepI: "(\<And>s x s'. f s = Ret (x, s') \<Longrightarrow> disk s' = disk s) \<Longrightarrow> gkeep f"
  by (simp add: gkeep_def)

lemma gkeepD: "gkeep f \<Longrightarrow> f s = Ret (x, s') \<Longrightarrow> disk s' = disk s"
  by (simp add: gkeep_def)

lemma disk_simps [simp]:
  "disk (s\<lparr>faults := fs\<rparr>) = disk s" "disk (s\<lparr>fds := x\<rparr>) = disk s" "disk (interrupted s) = disk s"
  "disk (set_pos fd e n s) = disk s"
  by (simp_all add: disk_def interrupted_def set_pos_def)

lemma next_fault_disk: "next_fault s = (f, s') \<Longrightarrow> disk s' = disk s"
  by (auto simp: next_fault_def split: list.splits)

lemma next_fault_disk_snd [simp]: "disk (snd (next_fault s)) = disk s"
  using next_fault_disk [of s "fst (next_fault s)"] by simp

lemma sys_disk:
  assumes "\<And>s. disk (snd (f s)) = disk s" "sys f s = (r, s')"
  shows "disk s' = disk s"
  using assms(2)
proof (cases rule: sys_cases)
  case (2 fs)
  then show ?thesis using assms(1) [of "s\<lparr>faults := fs\<rparr>"] by simp
qed simp

lemma gkeep_retry:
  assumes "\<And>s. disk (snd (f s)) = disk s"
  shows "gkeep (retryEINTR (sys f))"
proof (rule gkeepI)
  show "retryEINTR (sys f) s = Ret (x, s') \<Longrightarrow> disk s' = disk s" for s x s'
  proof (induction "length (faults s)" arbitrary: s rule: less_induct)
    case less
    obtain r t where t: "sys f s = (r, t)" by (cases "sys f s")
    then have d: "disk t = disk s" using sys_disk assms by blast
    show ?case
    proof (cases "r = Inl EINTR")
      case True
      then have "length (faults t) < length (faults s)" "retryEINTR (sys f) t = Ret (x, s')"
        using less.prems t by (subst (asm) retryEINTR.simps; simp split: if_splits)+
      then show ?thesis using less.hyps d by simp
    next
      case False
      then have "retryEINTR (sys f) s = Ret (r, t)" using t retryEINTR_done [of "sys f" s] by simp
      then show ?thesis using less.prems d by simp
    qed
  qed
qed

lemma alloc_fd_disk [simp]: "disk (snd (alloc_fd e s)) = disk s"
  by (simp add: alloc_fd_def Let_def)

lemma alloc_fd_disk': "alloc_fd e s = (fd, s') \<Longrightarrow> disk s' = disk s"
  using alloc_fd_disk [of e s] by simp

lemma raw_open_inode_disk [simp]: "disk (snd (raw_open_inode j fl s)) = disk s"
  by (auto simp: raw_open_inode_def Let_def alloc_fd_disk' split: node.splits prod.splits)

lemma raw_disk [simp]:
  "disk (snd (raw_fstatat d n s)) = disk s" "disk (snd (raw_readlinkat d n b s)) = disk s"
  "disk (snd (raw_dup fd s)) = disk s" "disk (snd (raw_open_dir p s)) = disk s" "disk (snd (raw_fstat fd s)) = disk s"
  "disk (snd (raw_getdents fd k s)) = disk s" "disk (snd (raw_stat fo p s)) = disk s" "disk (snd (raw_readdir p s)) = disk s"
  "disk (snd (raw_host_open p s)) = disk s"
  by (auto simp: raw_fstatat_def raw_readlinkat_def raw_dup_def raw_open_dir_def raw_fstat_def raw_getdents_def Let_def
      raw_stat_def raw_readdir_def raw_host_open_def alloc_fd_disk' split: sum.splits option.splits node.splits prod.splits)

lemma open_in_disk: "\<not> flag_set fl O_CREAT \<Longrightarrow> disk (snd (open_in i es n fl m s)) = disk s"
  by (simp add: open_in_def split: sum.splits)

lemma raw_openat_disk: "\<not> flag_set fl O_CREAT \<Longrightarrow> disk (snd (raw_openat d n fl m s)) = disk s"
  by (simp add: raw_openat_def open_in_disk split: sum.splits prod.splits)

lemma raw_open_disk: "\<not> flag_set fl O_CREAT \<Longrightarrow> disk (snd (raw_open p fl m s)) = disk s"
  by (simp add: raw_open_def open_in_disk split: sum.splits prod.splits)

lemma Close_disk [simp]: "disk (snd (Close fd s)) = disk s"
  by (auto simp: Close_def next_fault_disk split: option.splits prod.splits)

lemma close_quietly_disk [simp]: "disk (close_quietly fd s) = disk s"
  by (simp add: close_quietly_def)

lemma Dup_disk: "Dup fd s = (r, s') \<Longrightarrow> disk s' = disk s"
  unfolding Dup_def by (rule sys_disk) simp_all

lemma File_Read_disk: "File_Read fd n s = (r, s') \<Longrightarrow> disk s' = disk s"
  by (auto simp: File_Read_def Let_def dest!: next_fault_disk split: if_splits option.splits node.splits prod.splits)

lemma File_ReadAt_disk: "File_ReadAt fd n off s = (r, s') \<Longrightarrow> disk s' = disk s"
  by (auto simp: File_ReadAt_def Let_def dest!: next_fault_disk split: if_splits option.splits node.splits prod.splits)

lemma no_creat:
  "flags AND O_CREAT = 0 \<Longrightarrow> \<not> flag_set ((if flags AND O_CREAT = 0
     then if flags AND O_NOFOLLOW = 0 then flags OR O_NOFOLLOW else flags else flags) OR O_CLOEXEC) O_CREAT"
proof -
  assume "flags AND O_CREAT = 0"
  moreover have "O_NOFOLLOW AND O_CREAT = 0" "O_CLOEXEC AND O_CREAT = 0" by code_simp+
  ultimately show ?thesis by (simp add: flag_set_def bit.conj_disj_distrib2)
qed

lemma gkeep_Openat:
  assumes "flags AND O_CREAT = 0"
  shows "gkeep (Openat d p flags m)"
  unfolding Openat_def Let_def
  by (rule gkeep_retry) (rule raw_openat_disk [OF no_creat [OF assms]])

lemma gkeep_calls:
  "gkeep (Fstatat d p)" "gkeep (Open_dir p)" "gkeep (os_Stat p)" "gkeep (os_Lstat p)" "gkeep (os_Open p)"
  unfolding Fstatat_def Open_dir_def os_Stat_def os_Lstat_def os_Open_def by (rule gkeep_retry, simp)+

lemma gkeep_Readlinkat: "gkeep (Readlinkat d p)"
proof -
  have "Readlinkat_loop d p b s = Ret (x, s') \<Longrightarrow> disk s' = disk s" for b s x s'
  proof (induction d p b s rule: Readlinkat_loop.induct)
    case (1 d p b s)
    obtain r t where t: "sys (raw_readlinkat d p b) s = (r, t)" by (cases "sys (raw_readlinkat d p b) s")
    then have d: "disk t = disk s" by (rule sys_disk [rotated]) simp
    show ?case
      using 1(2) 1(1) [OF _ t [symmetric]] t d by (subst (asm) Readlinkat_loop.simps) (auto split: if_splits sum.splits)
  qed
  then show ?thesis by (auto simp: gkeep_def Readlinkat_def)
qed

lemma gkeep_bind:
  assumes "gkeep f" "\<And>x. gkeep (g x)"
  shows "gkeep (\<lambda>s. go_bind (f s) (\<lambda>(x, s1). g x s1))"
  using assms by (force simp: gkeep_def go_bind_eq_Ret)

lemma read_dirents_disk: "read_dirents fd buf s = (r, s') \<Longrightarrow> disk s' = disk s"
proof (induction fd buf s arbitrary: r s' rule: read_dirents.induct)
  case (1 fd buf s)
  obtain q t where t: "sys (raw_getdents fd 10000) s = (q, t)" by (cases "sys (raw_getdents fd 10000) s")
  then have d: "disk t = disk s" by (rule sys_disk [rotated]) simp
  show ?case
  proof (cases q)
    case (Inl e)
    then show ?thesis
      using 1(3) 1(1) [OF t [symmetric] Inl] t d by (subst (asm) read_dirents.simps) (auto split: if_splits)
  next
    case (Inr tmp)
    then show ?thesis
      using 1(3) 1(2) [OF t [symmetric] Inr] t d by (subst (asm) read_dirents.simps) (auto split: if_splits)
  qed
qed

text \<open>The proofs go through the definitions with these rules.\<close>

definition kp :: "inode list \<times> (string \<times> nat) list \<Rightarrow> ('a \<times> os) go \<Rightarrow> bool" where
  "kp D m \<longleftrightarrow> (\<forall>x s'. m = Ret (x, s') \<longrightarrow> disk s' = D)"

lemma gkeep_kp: "(\<And>s. kp (disk s) (f s)) \<Longrightarrow> gkeep f"
  by (simp add: gkeep_def kp_def)

lemma kp_ret [intro!]: "disk s = D \<Longrightarrow> kp D (Ret (x, s))"
  by (simp add: kp_def)

lemma kp_stuck [simp, intro!]: "kp D (Panic e)" "kp D Hang"
  by (simp_all add: kp_def)

lemma kp_bind:
  assumes "gkeep f" "disk s = D" "\<And>x s1. disk s1 = D \<Longrightarrow> kp D (g x s1)"
  shows "kp D (go_bind (f s) (\<lambda>(x, s1). g x s1))"
  unfolding kp_def
proof (intro allI impI)
  fix y s' assume "go_bind (f s) (\<lambda>(x, s1). g x s1) = Ret (y, s')"
  then obtain x s1 where s1: "f s = Ret (x, s1)" "g x s1 = Ret (y, s')" by (auto simp: go_bind_eq_Ret)
  have "disk s1 = D" using gkeepD [OF assms(1) s1(1)] assms(2) by simp
  then show "disk s' = D" using assms(3) [of s1 x] s1(2) by (simp add: kp_def)
qed

lemma kp_bind2: "kp D m \<Longrightarrow> (\<And>x s1. disk s1 = D \<Longrightarrow> kp D (g x s1)) \<Longrightarrow> kp D (go_bind m (\<lambda>(x, s1). g x s1))"
  by (auto simp: kp_def go_bind_eq_Ret)

lemma kp_go: "(\<And>x. kp D (g x)) \<Longrightarrow> kp D (go_bind m g)"
  by (auto simp: kp_def go_bind_eq_Ret)

lemma kp_case: "disk (snd m) = D \<Longrightarrow> (\<And>x s1. disk s1 = D \<Longrightarrow> kp D (g x s1)) \<Longrightarrow> kp D (case m of (x, s1) \<Rightarrow> g x s1)"
  by (cases m) auto

lemma File_disk [simp]: "disk (snd (File_Read fd n s)) = disk s" "disk (snd (File_ReadAt fd n off s)) = disk s"
  using File_Read_disk [of fd n s] File_ReadAt_disk [of fd n off s] by (metis prod.collapse)+

lemma gkeep_convertDType: "gkeep (convertDType d n t)"
  unfolding convertDType_def by (rule gkeep_kp) (auto intro!: kp_bind gkeep_calls)

lemma parse_dirents_disk: "kp (disk s) (parse_dirents fd buf off s)"
proof (induction "length buf - off" arbitrary: off s rule: less_induct)
  case less
  show ?case
  proof (cases "off < length buf \<and> Reclen (dirent_at buf off) \<noteq> 0")
    case True
    then have "length buf - (off + Reclen (dirent_at buf off)) < length buf - off" by auto
    from less [OF this] have IH: "disk s0 = D \<Longrightarrow> kp D (parse_dirents fd buf (off + Reclen (dirent_at buf off)) s0)" for s0 D
      by blast
    show ?thesis
      by (subst parse_dirents.simps)
        (auto simp: Let_def split: sum.split intro!: kp_bind [OF gkeep_convertDType] kp_bind2 [OF IH] IH)
  qed (subst parse_dirents.simps, auto simp: Let_def split: sum.split)
qed

lemma gkeep_Getdents: "gkeep (Getdents fd)"
proof (rule gkeep_kp)
  fix s
  obtain q t where t: "read_dirents fd [] s = (q, t)" by (cases "read_dirents fd [] s")
  have "kp (disk s) (getdents fd s)"
    using read_dirents_disk [OF t] parse_dirents_disk [of t] by (auto simp: getdents_def t split: sum.split)
  then show "kp (disk s) (Getdents fd s)" unfolding Getdents_def by (rule kp_bind2) auto
qed

lemma fdReadDirIV_disk [simp]: "disk (snd (fdReadDirIV fd s)) = disk s"
  using File_Read_disk by (fastforce simp: fdReadDirIV_def split: prod.splits)

lemma open_flags_read: "(O_RDONLY OR O_NOFOLLOW) AND O_CREAT = 0" "(O_RDONLY OR O_DIRECTORY OR O_NOFOLLOW) AND O_CREAT = 0"
  "(O_NOFOLLOW OR O_DIRECTORY OR O_PATH) AND O_CREAT = 0" "mangleOpenFlags 0 AND O_CREAT = 0"
  by code_simp+

lemmas gkeep_open = gkeep_Openat [OF open_flags_read(1)] gkeep_Openat [OF open_flags_read(2)]
  gkeep_Openat [OF open_flags_read(3)] gkeep_Openat [OF open_flags_read(4)]

lemma gkeep_ReadDirIVAt: "gkeep (ReadDirIVAt n d)"
  unfolding ReadDirIVAt_def by (rule gkeep_kp) (auto split: sum.split intro!: kp_bind [OF gkeep_open(1)] kp_case)

lemma gkeep_ReadLongNameAt: "gkeep (ReadLongNameAt d n)"
  unfolding ReadLongNameAt_def
  by (rule gkeep_kp) (rule kp_bind [OF gkeep_open(1)], auto split: sum.split simp: File_ReadAt_disk split: prod.split)

lemma badname_search_disk: "kp (disk s) (badname_search Pr n name iv d k acc s)"
proof (induction k arbitrary: acc s)
  case (Suc k)
  then have IH: "disk s0 = D \<Longrightarrow> kp D (badname_search Pr n name iv d k acc s0)" for s0 D acc by blast
  show ?case
    unfolding badname_search.simps Let_def
    by (rule kp_go) (auto split: sum.split intro!: kp_bind gkeep_calls IH)
qed auto

lemma gkeep_EncryptAndHashBadName: "gkeep (EncryptAndHashBadName Pr n name iv d)"
proof (rule gkeep_kp)
  have b: "disk s0 = D \<Longrightarrow> kp D (badname_search Pr n name iv d k acc s0)" for s0 D acc k using badname_search_disk by blast
  show "kp (disk s) (EncryptAndHashBadName Pr n name iv d s)" for s
    unfolding EncryptAndHashBadName_def Let_def
    by (rule kp_go) (auto split: sum.split intro!: kp_bind gkeep_calls kp_bind2 [OF b])
qed

lemma gkeep_os_ReadDir: "gkeep (os_ReadDir p)"
proof -
  have k: "gkeep (retryEINTR (sys (raw_readdir p)))" by (rule gkeep_retry) simp
  show ?thesis
    unfolding os_ReadDir_def
    by (rule gkeep_kp, rule kp_bind [OF k]) (auto split: sum.split prod.split option.split simp: next_fault_disk)
qed

lemma gkeep_os_ReadFile: "gkeep (os_ReadFile p)"
proof -
  have "\<not> flag_set (O_RDONLY OR O_CLOEXEC) O_CREAT" by code_simp
  then have k: "gkeep (retryEINTR (sys (raw_open p (O_RDONLY OR O_CLOEXEC) 0)))" by (intro gkeep_retry raw_open_disk)
  show ?thesis
    unfolding os_ReadFile_def
    by (rule gkeep_kp, rule kp_bind [OF k]) (auto split: sum.split prod.split option.split simp: next_fault_disk)
qed

lemma gkeep_Load: "gkeep (Load J p)"
  unfolding Load_def by (rule gkeep_kp, rule kp_bind [OF gkeep_os_ReadFile]) auto

lemma copy_file_disk [simp]: "disk (snd (copy_file f s)) = disk s"
  by (auto simp: copy_file_def next_fault_disk split: option.splits prod.splits)

section \<open>The library\<close>

definition same_disk :: "world \<Rightarrow> world \<Rightarrow> bool" where
  "same_disk w w' \<longleftrightarrow> disk (w_os w') = disk (w_os w)"

interpretation dk: io_relation same_disk
  by unfold_locales (simp_all add: same_disk_def)

abbreviation keeps :: "'a io \<Rightarrow> bool" where
  "keeps \<equiv> dk.along"

lemma keeps_def: "keeps m \<longleftrightarrow> (\<forall>w x w'. m w = Ret (x, w') \<longrightarrow> disk (w_os w') = disk (w_os w))"
  by (simp add: dk.along_def same_disk_def)

named_theorems keep \<open>operations that change nothing on disk\<close>

lemmas [keep] = dk.along_rules

lemma keepsD: "keeps m \<Longrightarrow> m w = Ret (x, w') \<Longrightarrow> disk (w_os w') = disk (w_os w)"
  by (simp add: keeps_def)

lemma keepsI: "(\<And>w x w'. m w = Ret (x, w') \<Longrightarrow> disk (w_os w') = disk (w_os w)) \<Longrightarrow> keeps m"
  by (simp add: keeps_def)

lemma keeps_lift_os:
  assumes "gkeep f"
  shows "keeps (lift_os f)"
proof (rule keepsI)
  fix w x w' assume "lift_os f w = Ret (x, w')"
  then obtain s where "f (w_os w) = Ret (x, s)" "w' = w\<lparr>w_os := s\<rparr>" by (auto simp: lift_os_def go_bind_eq_Ret)
  then show "disk (w_os w') = disk (w_os w)" using gkeepD [OF assms] by auto
qed

lemma keeps_call_os: "(\<And>s. disk (snd (f s)) = disk s) \<Longrightarrow> keeps (call_os f)"
  unfolding call_os_def by (rule keeps_lift_os, rule gkeepI) (metis go.inject(1) snd_conv)

lemma keeps_close_fd [keep]: "keeps (close_fd fd)"
  unfolding close_fd_def by (rule keeps_call_os) simp

lemma keeps_defer_close [keep]: "keeps m \<Longrightarrow> keeps (defer_close fd m)"
  unfolding defer_close_def by (intro keep)

lemma keeps_state [keep]:
  "keeps (modify_volume sid g)" "keeps (put_handle sid h f)"
  "keeps (registerFileHandle sid fd path)"
  by (auto simp: keeps_def modify_volume_def put_handle_def registerFileHandle_def go_bind_eq_Ret Let_def)

lemmas keeps_calls [keep] = gkeep_calls [THEN keeps_lift_os] gkeep_open [THEN keeps_lift_os]
  gkeep_Getdents [THEN keeps_lift_os] gkeep_ReadDirIVAt [THEN keeps_lift_os] gkeep_ReadLongNameAt [THEN keeps_lift_os]
  gkeep_EncryptAndHashBadName [THEN keeps_lift_os] gkeep_os_ReadDir [THEN keeps_lift_os]
  gkeep_os_ReadFile [THEN keeps_lift_os] gkeep_Load [THEN keeps_lift_os] gkeep_Readlinkat [THEN keeps_lift_os]

lemma Dup_disk_snd [simp]: "disk (snd (Dup fd s)) = disk s"
  using Dup_disk [of fd s] by (metis prod.collapse)

lemma dirCache_disk:
  "dirCache_Lookup d path s = Ret (x, s') \<Longrightarrow> disk s' = disk s"
  "dirCache_Store d path fd iv s = Ret (d', s') \<Longrightarrow> disk s' = disk s"
proof -
  have "kp (disk s) (dirCache_Lookup d path s)"
    unfolding dirCache_Lookup_def by (auto split: option.split sum.split intro!: kp_case)
  then show "dirCache_Lookup d path s = Ret (x, s') \<Longrightarrow> disk s' = disk s" by (simp add: kp_def)
  have c: "disk (snd (dirCacheEntry_Clear e s)) = disk s" for e by (simp add: dirCacheEntry_Clear_def)
  have "kp (disk s) (dirCache_Store d path fd iv s)"
    unfolding dirCache_Store_def Let_def by (auto split: sum.split simp: c intro!: kp_case)
  then show "dirCache_Store d path fd iv s = Ret (d', s') \<Longrightarrow> disk s' = disk s" by (simp add: kp_def)
qed

lemma keeps_cache [keep]: "keeps (cache_lookup sid path)" "keeps (cache_store sid path fd iv)"
  by (auto simp: keeps_def cache_lookup_def cache_store_def go_bind_eq_Ret dest: dirCache_disk)

lemma keeps_name_in_dir [keep]: "keeps (name_in_dir Pr v d c iv)"
  unfolding name_in_dir_def encrypt_child_def by (intro keep)

lemma keeps_prepare [keep]: "keeps (prepareAtSyscallMyself n Pr sid v path)" "keeps (prepareAtSyscall n Pr sid v path)"
proof -
  have c: "keeps (prepare_child Pr m sid v p)" if "\<And>q. keeps (m q)" for m p
    unfolding prepare_child_def open_parent_def Let_def by (intro keep that)
  show m: "keeps (prepareAtSyscallMyself n Pr sid v path)" for n path
  proof (induction n arbitrary: path)
    case (Suc n)
    then show ?case unfolding prepareAtSyscallMyself.simps open_root_def by (intro keep c)
  qed (simp add: keeps_def)
  show "keeps (prepareAtSyscall n Pr sid v path)" unfolding prepareAtSyscall_def by (intro keep c m)
qed

lemma keeps_get_attrs [keep]: "keeps (gcf_get_attrs Pr sid path)"
  unfolding gcf_get_attrs_def translateSize_def readlink_def by (intro keep)

lemma keeps_list_entries [keep]: "keeps (list_entries Pr v fd dir iv es)"
proof (induction es)
  case (Cons e es)
  have "keeps (list_entry Pr v fd dir iv n)" for n
    unfolding list_entry_def Let_def by (cases "NameType n"; simp only: name_type.case; intro keep)
  then show ?case unfolding list_entries.simps by (intro keep Cons)
qed (simp add: keep)

lemma keeps_listDir [keep]: "keeps (listDir Pr sid dir)" "keeps (gcf_list_dir Pr sid dir)"
  unfolding listDir_def gcf_list_dir_def by (intro keep)+

lemma keeps_open_read [keep]: "keeps (gcf_open_read_mode Pr sid path)"
  unfolding gcf_open_read_mode_def by (intro keep)

lemma keeps_close_file [keep]: "keeps (gcf_close_file sid h)"
  unfolding gcf_close_file_def by (intro keep)

text \<open>Reading through a handle.\<close>

lemma doRead_disk: "doRead Pr be f dst off len s = Ret (x, f', s') \<Longrightarrow> disk s' = disk s"
proof -
  have r: "disk (snd (readFileID fd s)) = disk s" for fd s
    using File_ReadAt_disk [of fd "HeaderLen + 1" 0 s]
    by (auto simp: readFileID_def split: prod.split option.split sum.split)
  assume "doRead Pr be f dst off len s = Ret (x, f', s')"
  then obtain i s1 where i: "(case file_ID f of Some i \<Rightarrow> (Inr i, s) | None \<Rightarrow> readFileID (file_fd f) s) = (i, s1)"
    and e: "doRead Pr be f dst off len s = Ret (x, f', s')"
    by (cases "case file_ID f of Some i \<Rightarrow> (Inr i, s) | None \<Rightarrow> readFileID (file_fd f) s") auto
  have d: "disk s1 = disk s"
    using i r [of "file_fd f" s] by (auto split: option.splits)
  show ?thesis
  proof (cases i)
    case (Inr y)
    then show ?thesis
      using e d unfolding doRead_def i
      by (auto simp: Let_def go_bind_eq_Ret split: prod.splits if_splits dest!: File_ReadAt_disk)
  qed (use e d in \<open>auto simp: doRead_def i\<close>)
qed

lemma keeps_on_handle:
  assumes "\<And>f s r x f' s' r'. m f s r = Ret (x, f', s', r') \<Longrightarrow> disk s' = disk s"
  shows "keeps (on_handle sid h m)"
  unfolding on_handle_def
proof (intro keep keepsI)
  fix f w x w' assume "go_bind (m f (w_os w) (w_rng w)) (\<lambda>(x, f', s, r). bindw (put_handle sid h f') (\<lambda>_. ret x) (w\<lparr>w_os := s, w_rng := r\<rparr>)) = Ret (x, w')"
  then obtain y f' s r where y: "m f (w_os w) (w_rng w) = Ret (y, f', s, r)"
    "bindw (put_handle sid h f') (\<lambda>_. ret y) (w\<lparr>w_os := s, w_rng := r\<rparr>) = Ret (x, w')"
    by (auto simp: go_bind_eq_Ret)
  have "keeps (bindw (put_handle sid h f') (\<lambda>_. ret y))" by (intro keep)
  from keepsD [OF this y(2)] assms [OF y(1)] show "disk (w_os w') = disk (w_os w)" by simp
qed

lemma keeps_read_file [keep]: "keeps (gcf_read_file Pr sid h off buf)"
proof -
  have "keeps (read_handle Pr sid v h off len)" for v len
    unfolding read_handle_def by (rule keeps_on_handle) (auto simp: go_bind_eq_Ret dest: doRead_disk)
  then show ?thesis unfolding gcf_read_file_def with_rlock_def by (intro keep)
qed

text \<open>Opening and closing a volume.\<close>

lemma keeps_init [keep]: "keeps (gcf_init Pr J m rootDir pw h buff)"
proof -
  have "keeps (storeNewVolume v)" for v by (auto simp: keeps_def storeNewVolume_def Let_def)
  then show ?thesis unfolding gcf_init_def registerNewVolume_def by (intro keep)
qed

lemma clear_entries_disk: "clear_entries es s = (es', s') \<Longrightarrow> disk s' = disk s"
  by (induction es s arbitrary: es' s' rule: clear_entries.induct) (auto simp: dirCacheEntry_Clear_def split: prod.splits if_splits)

lemma keeps_gcf_close [keep]: "keeps (gcf_close sid)"
proof -
  have f: "keeps (close_files sid is)" for "is" by (induction "is") (simp_all add: keep)
  have c: "keeps (cache_clear sid)"
  proof (rule keepsI)
    fix w x w' assume "cache_clear sid w = Ret (x, w')"
    then obtain v where v: "(case dirCache_Clear (dirCache v) (w_os w) of (d, s) \<Rightarrow>
        Ret ((), set_volume sid (v\<lparr>dirCache := d\<rparr>) (w\<lparr>w_os := s\<rparr>))) = Ret (x, w')"
      by (auto simp: cache_clear_def go_bind_eq_Ret)
    obtain es s where "clear_entries (DirCache.entries (dirCache v)) (w_os w) = (es, s)" by (cases "clear_entries (DirCache.entries (dirCache v)) (w_os w)")
    then show "disk (w_os w') = disk (w_os w)" using v clear_entries_disk by (auto simp: dirCache_Clear_def)
  qed
  have d: "keeps (\<lambda>w. Ret ((), w\<lparr>OpenedVolumes := AList.delete sid (OpenedVolumes w)\<rparr>))" by (simp add: keeps_def)
  show ?thesis unfolding gcf_close_def by (intro keep f c d)
qed

section \<open>The program\<close>

definition keepc :: "'a cmd \<Rightarrow> bool" where
  "keepc m \<longleftrightarrow> (\<forall>p r p'. m p = Ret (r, p') \<longrightarrow> disk (w_os (p_lib p')) = disk (w_os (p_lib p)))"

lemma keepcD: "keepc m \<Longrightarrow> m p = Ret (x, p') \<Longrightarrow> disk (w_os (p_lib p')) = disk (w_os (p_lib p))"
  by (simp add: keepc_def)

lemma keepc_bind [keep]:
  assumes "keepc m" "\<And>x. keepc (f x)"
  shows "keepc (bindc m f)"
  unfolding keepc_def
proof (intro allI impI)
  fix p r p'' assume "bindc m f p = Ret (r, p'')"
  then consider x p' where "m p = Ret (Done x, p')" "f x p' = Ret (r, p'')" | k where "m p = Ret (Exited k, p'')"
    by (auto simp: bindc_eq_Ret)
  then show "disk (w_os (p_lib p'')) = disk (w_os (p_lib p))"
    by cases (metis keepcD [OF assms(1)] keepcD [OF assms(2)])+
qed

lemma keepc_basic [keep]:
  "keepc (retc x)" "keepc (go_cmd m)" "keepc (print t)" "keepc (os_Exit k)" "keepc die" "keepc (\<lambda>p. Panic e)" "keepc (\<lambda>p. Hang)"
  by (auto simp: keepc_def retc_def go_cmd_def print_def os_Exit_def die_def go_bind_eq_Ret)

lemma keepc_on_lib [keep]:
  assumes "keeps m"
  shows "keepc (on_lib m)"
  using assms by (auto simp: keepc_def on_lib_def go_bind_eq_Ret dest: keepsD)

lemma keepc_on_os [keep]: "gkeep f \<Longrightarrow> keepc (on_os f)"
  unfolding on_os_def by (intro keep keeps_lift_os)

lemma keepc_branch [keep]:
  "(b \<Longrightarrow> keepc m) \<Longrightarrow> (\<not> b \<Longrightarrow> keepc n) \<Longrightarrow> keepc (if b then m else n)"
  "(\<And>e. keepc (f e)) \<Longrightarrow> (\<And>x. keepc (g x)) \<Longrightarrow> keepc (case r of Inl e \<Rightarrow> f e | Inr x \<Rightarrow> g x)"
  "keepc m \<Longrightarrow> (\<And>x. keepc (h x)) \<Longrightarrow> keepc (case opt of None \<Rightarrow> m | Some x \<Rightarrow> h x)"
  "(\<And>a b. keepc (k a b)) \<Longrightarrow> keepc (case q of (a, b) \<Rightarrow> k a b)"
  "(\<And>a b. keepc (l a b st)) \<Longrightarrow> keepc ((case q of (a, b) \<Rightarrow> l a b) st)"
  by (simp_all split: sum.split option.split prod.split)

lemmas gkeep_host = gkeep_calls(3,4,5) gkeep_os_ReadDir gkeep_os_ReadFile

lemma keepc_with_vol [keep]: "(\<And>vid. keepc (f vid)) \<Longrightarrow> keepc (with_vol E pf dir f)"
  unfolding with_vol_def getPassword_def openVol_def by (intro keep gkeep_host)

lemma keepc_read_loop [keep]:
  assumes "\<And>acc d. keepc (emit acc d)"
  shows "keepc (read_loop emit Pr vid fh off buf acc)"
proof (induction "2 ^ 64 - unat off" arbitrary: off buf acc rule: less_induct)
  case less
  have IH: "keepc (read_loop emit Pr vid fh (off + n) buf' acc')" if "unat off < unat (off + n)" for n buf' acc'
    using less that unsigned_less [of "off + n", where 'a = nat] by simp
  show ?case by (subst read_loop.simps) (intro keep assms IH)
qed

lemma keepc_fold [keep]: "(\<And>x st. keepc (f x st)) \<Longrightarrow> keepc (fold_cmd f xs st)"
  by (induction xs arbitrary: st) (auto intro: keep)

lemma keepc_differs [keep]: "keepc (differs E opt vid vpath p a b c d)"
proof -
  have "keeps (sha256File Pr q)" for Pr q
    unfolding sha256File_def by (intro keep keeps_call_os) simp
  moreover have "keepc (sha256Vol Pr v q)" for Pr v q
    unfolding sha256Vol_def by (intro keep)
  ultimately show ?thesis unfolding differs_def by (intro keep)
qed

lemma keepc_reports [keep]: "keepc (report opt t)" "dryRun opt \<Longrightarrow> keepc (unless_dry opt m)"
  unfolding report_def unless_dry_def by (intro keep; simp)+

lemma keepc_isVolume [keep]: "keepc (isVolume d)"
  unfolding isVolume_def by (intro keep gkeep_host)

lemma keepc_walk:
  assumes "\<And>q t e st. keepc (f q t e st)"
  shows "keepc (walk_dir n f path t st)"
proof (induction n arbitrary: path t st)
  case (Suc n)
  show ?case unfolding walk_dir.simps by (intro keep gkeep_host assms Suc)
qed (simp add: keep)

lemma dry_encrypt_entry: "dryRun opt \<Longrightarrow> keepc (encrypt_entry E opt vid srcDir p t err st)"
  unfolding encrypt_entry_def encrypt_regular_def Let_def by (intro keep gkeep_host; assumption?)

lemma dry_pruneVolume:
  assumes dry: "dryRun opt"
  shows "keepc (pruneVolume k E vid dir kept opt)"
proof (induction k arbitrary: dir)
  case (Suc k)
  show ?case unfolding pruneVolume.simps Let_def by (intro keep Suc dry)
qed (simp add: keep)

lemma dry_pruneDisk:
  assumes dry: "dryRun opt"
  shows "keepc (pruneDisk k root basedir kept opt)"
proof (induction k arbitrary: root)
  case (Suc k)
  show ?case unfolding pruneDisk.simps Let_def by (intro keep gkeep_host Suc dry)
qed (simp add: keep)

lemma dry_decrypt_walk:
  assumes dry: "dryRun opt"
  shows "keepc (decrypt_walk k E opt vid dstDir vdir st)"
proof (induction k arbitrary: vdir st)
  case (Suc k)
  show ?case unfolding decrypt_walk.simps decrypt_file_def Let_def by (intro keep gkeep_host Suc dry)
qed (simp add: keep)

text \<open>A dry run changes nothing, in either direction.\<close>

lemma dry_doSync: "dryRun opt \<Longrightarrow> keepc (doSync n E pf opt src dst)"
proof -
  assume d: "dryRun opt"
  have e: "keepc (encryptSync n E pf o' a b)" if "dryRun o'" for o' a b
    unfolding encryptSync_def WalkDir_def using that
    by (intro keep gkeep_host keepc_walk dry_encrypt_entry dry_pruneVolume) simp
  have f: "keepc (decryptSync n E pf o' a b)" if "dryRun o'" for o' a b
    unfolding decryptSync_def using that by (intro keep gkeep_host dry_decrypt_walk dry_pruneDisk)
  show ?thesis unfolding doSync_def Let_def using d by (intro keep e f) simp_all
qed

text \<open>The commands that look do not change anything.\<close>

lemma keepc_find_walk: "keepc (find_walk k E vid b vdir)"
proof (induction k arbitrary: vdir)
  case (Suc k)
  show ?case unfolding find_walk.simps Let_def by (intro keep Suc)
qed (simp add: keep)

lemma looking_keeps:
  "keepc (cmd_ls E pf dir vpath)" "keepc (cmd_stat E pf dir vpath)" "keepc (cmd_cat E pf dir vpath)"
  "keepc (doFind n E pf b dir)"
  unfolding cmd_ls_def cmd_stat_def cmd_cat_def cat_file_def doFind_def by (intro keep keepc_find_walk)+

end
