(* ===== verification/HandleOps.thy ===== *)
theory HandleOps
  imports FileOps
begin

text \<open>
  What the operations on a file handle do to the plaintext behind it: reading, writing,
  growing and shrinking, lifted from one open file to the state of the process.
\<close>

section \<open>A handle and its plaintext\<close>

text \<open>
  In volume \<open>sid\<close> the handle \<open>h\<close> is the open file \<open>f\<close>, on inode \<open>i\<close> with ciphertext
  \<open>c\<close>, which stands for the plaintext \<open>p\<close>.
\<close>

definition opened ::
  "prims \<Rightarrow> contentEnc \<Rightarrow> world \<Rightarrow> int \<Rightarrow> int \<Rightarrow> File \<Rightarrow> nat \<Rightarrow> bytes \<Rightarrow> bytes \<Rightarrow> bool" where
  "opened P be w sid h f i c p \<longleftrightarrow>
     (case volume_of w sid of None \<Rightarrow> False
      | Some v \<Rightarrow> contentEnc v = be \<and> table_lookup (fileHandles v) h = Some f) \<and>
     file_at (w_os w) (file_fd f) i c \<and> holds P be (file_ID f) c p"

text \<open>Between two states, no volume changed but for its handles, and of these only \<open>h\<close>.\<close>

definition forget_handles :: "volume \<Rightarrow> volume" where
  "forget_handles v = v\<lparr>fileHandles := []\<rparr>"

definition only_handle :: "int \<Rightarrow> int \<Rightarrow> world \<Rightarrow> world \<Rightarrow> bool" where
  "only_handle sid h w w' \<longleftrightarrow>
     (\<forall>sid'. map_option forget_handles (volume_of w' sid') = map_option forget_handles (volume_of w sid')) \<and>
     (\<forall>sid' j. (sid', j) \<noteq> (sid, h) \<longrightarrow> handle_of w' sid' j = handle_of w sid' j)"

lemma only_handle_refl [simp]: "only_handle sid h w w"
  by (simp add: only_handle_def)

lemma only_handle_trans: "only_handle sid h w w' \<Longrightarrow> only_handle sid h w' w'' \<Longrightarrow> only_handle sid h w w''"
  by (simp add: only_handle_def)

lemma only_handle_os:
  "only_handle sid h w (w\<lparr>w_os := s\<rparr>)" "only_handle sid h w (w\<lparr>w_os := s, w_rng := r\<rparr>)"
  by (simp_all add: only_handle_def handle_of_def volume_of_def)

lemma openedD:
  assumes "opened P be w sid h f i c p"
  shows "handle_of w sid h = Some f" "file_at (w_os w) (file_fd f) i c" "holds P be (file_ID f) c p"
    "\<exists>v. volume_of w sid = Some v \<and> contentEnc v = be"
  using assms by (auto simp: opened_def handle_of_def split: option.splits)

lemma get_handle_opened [simp]:
  "handle_of w sid h = Some f \<Longrightarrow> get_handle sid h w = Ret (f, w)"
  by (simp add: get_handle_def)

lemma put_handle_run:
  assumes "volume_of w sid = Some v"
  obtains w' where "put_handle sid h f w = Ret ((), w')" "w_os w' = w_os w" "w_rng w' = w_rng w"
    "handle_of w' sid h = Some f" "only_handle sid h w w'"
    "\<exists>v'. volume_of w' sid = Some v' \<and> contentEnc v' = contentEnc v \<and> table_lookup (fileHandles v') h = Some f"
proof -
  let ?v = "v\<lparr>fileHandles := AList.update h f (fileHandles v)\<rparr>"
  show thesis
  proof (rule that)
    show "put_handle sid h f w = Ret ((), set_volume sid ?v w)"
      using assms by (simp add: put_handle_def modify_volume_def)
  qed (use assms in \<open>auto simp: handle_of_def only_handle_def forget_handles_def tbl.lookup_add\<close>)
qed

text \<open>Running a function on an open file.\<close>

lemma on_handle_run:
  assumes v: "volume_of w sid = Some v" and f: "handle_of w sid h = Some f"
    and m: "m f (w_os w) (w_rng w) = Ret (x, f', s', r')"
  obtains w' where "on_handle sid h m w = Ret (x, w')" "w_os w' = s'" "w_rng w' = r'"
    "handle_of w' sid h = Some f'" "only_handle sid h w w'"
    "\<exists>v'. volume_of w' sid = Some v' \<and> contentEnc v' = contentEnc v \<and> table_lookup (fileHandles v') h = Some f'"
proof -
  let ?w = "w\<lparr>w_os := s', w_rng := r'\<rparr>"
  have v': "volume_of ?w sid = Some v" using v by (simp add: volume_of_def)
  obtain w' where w': "put_handle sid h f' ?w = Ret ((), w')" "w_os w' = w_os ?w" "w_rng w' = w_rng ?w"
    "handle_of w' sid h = Some f'" "only_handle sid h ?w w'"
    "\<exists>v'. volume_of w' sid = Some v' \<and> contentEnc v' = contentEnc v \<and> table_lookup (fileHandles v') h = Some f'"
    by (rule put_handle_run [OF v'])
  show thesis
  proof (rule that)
    show "on_handle sid h m w = Ret (x, w')"
      using f m w'(1) by (simp add: on_handle_def bindw_def)
    show "only_handle sid h w w'"
      using only_handle_os(2) w'(5) by (rule only_handle_trans)
  qed (use w' in simp_all)
qed

lemma openedI:
  assumes "\<exists>v. volume_of w sid = Some v \<and> contentEnc v = be \<and> table_lookup (fileHandles v) h = Some f"
    "file_at (w_os w) (file_fd f) i c" "holds P be (file_ID f) c p"
  shows "opened P be w sid h f i c p"
  using assms by (auto simp: opened_def)

section \<open>Reading\<close>

lemma doRead_caches:
  "doRead P be f dst off len s = Ret (Some out, f', s') \<Longrightarrow> file_ID f' \<noteq> None"
  by (auto simp: doRead_def Let_def go_bind_eq_Ret split: sum.splits prod.splits if_splits option.splits)

lemma read_handle_spec:
  assumes P: "prims_ok P" and be: "be_ok (contentEnc v)" and o: "opened P (contentEnc v) w sid h f i c p"
    and len: "len \<noteq> 0" "unat len \<le> 131072" and off: "unat off + unat len \<le> 2 ^ 57"
  obtains res w' fid where "read_handle P sid v h off len w = Ret (res, w')"
    "opened P (contentEnc v) w' sid h (f\<lparr>file_ID := fid\<rparr>) i c p" "only_handle sid h w w'"
    "only_file i (w_os w) (w_os w')" "w_rng w' = w_rng w" "file_ID f \<noteq> None \<longrightarrow> fid = file_ID f"
    "res = None \<or> res = Some (range_of (unat off) (unat len) p) \<and> fid \<noteq> None"
    "quiet (w_os w) \<and> (file_ID f \<noteq> None \<or> p \<noteq> []) \<longrightarrow> res \<noteq> None"
proof -
  note od = openedD [OF o]
  obtain v0 where v0: "volume_of w sid = Some v0" "contentEnc v0 = contentEnc v" using od(4) by blast
  from doRead_spec [OF P be od(2) od(3) len off, of "[]"] obtain res f' s' fid where
    r: "doRead P (contentEnc v) f [] off len (w_os w) = Ret (res, f', s')"
      "file_at s' (file_fd f) i c" "only_file i (w_os w) s'" "f' = f\<lparr>file_ID := fid\<rparr>"
      "holds P (contentEnc v) fid c p" "file_ID f \<noteq> None \<longrightarrow> fid = file_ID f"
      "res = None \<or> res = Some ([] @ range_of (unat off) (unat len) p)"
      "quiet (w_os w) \<and> (file_ID f \<noteq> None \<or> p \<noteq> []) \<longrightarrow> res \<noteq> None" by blast
  have cached: "res \<noteq> None \<longrightarrow> fid \<noteq> None" using doRead_caches r(1,4) by fastforce
  let ?m = "\<lambda>f s r. go_bind (doRead P (contentEnc v) f [] off len s) (\<lambda>(out, f', s'). Ret (out, f', s', r))"
  have m: "?m f (w_os w) (w_rng w) = Ret (res, f', s', w_rng w)" using r(1) by simp
  obtain w' where w': "on_handle sid h ?m w = Ret (res, w')" "w_os w' = s'" "w_rng w' = w_rng w"
    "handle_of w' sid h = Some f'" "only_handle sid h w w'"
    "\<exists>v'. volume_of w' sid = Some v' \<and> contentEnc v' = contentEnc v0 \<and> table_lookup (fileHandles v') h = Some f'"
    by (rule on_handle_run [OF v0(1) od(1), of ?m, OF m])
  have op: "opened P (contentEnc v) w' sid h (f\<lparr>file_ID := fid\<rparr>) i c p"
    using w'(2,6) v0(2) r(2,4,5) by (intro openedI) auto
  have run: "read_handle P sid v h off len w = Ret (res, w')"
    using w'(1) by (simp only: read_handle_def)
  show thesis
    by (rule that [OF run op w'(5)]) (use w'(2,3) r(3,6-8) cached in auto)
qed

section \<open>Writing\<close>

text \<open>
  A write that reports success has overwritten the plaintext, whatever failed on the way;
  without failures it succeeds. A write that fails on the undo path is not covered here.
\<close>

lemma doWrite_spec:
  assumes P: "prims_ok P" and be: "be_ok (contentEnc v)" and o: "opened P (contentEnc v) w sid h f i c p"
    and d: "d \<noteq> []" "length d \<le> 131072" and bound: "unat off + length d \<le> 2 ^ 56"
    and gap: "length p mod BS (contentEnc v) = 0 \<or> unat off div BS (contentEnc v) \<le> length p div BS (contentEnc v)"
    and r: "fresh_ok (contentEnc v) (file_ID f = None \<and> p = [])
              (nblocks (BS (contentEnc v)) (unat off) (length d)) (w_rng w)"
    and q: "quiet (w_os w)"
  obtains w' fid c' where "doWrite P sid v h d off w = Ret ((of_nat (length d), True), w')"
    "opened P (contentEnc v) w' sid h (f\<lparr>file_ID := fid\<rparr>) i c' (overwrite (unat off) d p)"
    "fid \<noteq> None" "only_handle sid h w w'" "only_file i (w_os w) (w_os w')"
    "\<not> (file_ID f = None \<and> p = []) \<longrightarrow> w_rng w' = rng_after (IVLen (cryptoCore (contentEnc v)))
       (nblocks (BS (contentEnc v)) (unat off) (length d)) (w_rng w)"
proof -
  note od = openedD [OF o]
  obtain v0 where v0: "volume_of w sid = Some v0" "contentEnc v0 = contentEnc v" using od(4) by blast
  let ?n = "nblocks (BS (contentEnc v)) (unat off) (length d)"
  from doWrite_file_spec [OF P be od(2) od(3) d bound gap r] obtain res fid s' r' c' where
    wf: "doWrite_file P (contentEnc v) f d off (w_os w) (w_rng w) = Ret (res, f\<lparr>file_ID := fid\<rparr>, s', r')"
      "file_at s' (file_fd f) i c'" "only_file i (w_os w) s'"
      "\<forall>n. res = Written n \<longrightarrow> n = of_nat (length d) \<and> fid \<noteq> None \<and>
        holds P (contentEnc v) fid c' (overwrite (unat off) d p)"
      "quiet (w_os w) \<longrightarrow> res = Written (of_nat (length d))"
      "\<forall>n. res = Written n \<and> \<not> (file_ID f = None \<and> p = []) \<longrightarrow>
        r' = rng_after (IVLen (cryptoCore (contentEnc v))) ?n (w_rng w)"
    by (elim exE conjE) (rule that)
  have res: "res = Written (of_nat (length d))" using wf(5) q by simp
  have wr: "doWrite_file P (contentEnc v) f d off (w_os w) (w_rng w)
        = Ret (Written (of_nat (length d)), f\<lparr>file_ID := fid\<rparr>, s', r')"
    "file_at s' (file_fd f) i c'" "only_file i (w_os w) s'" "fid \<noteq> None"
    "holds P (contentEnc v) fid c' (overwrite (unat off) d p)"
    using wf(4) [rule_format, OF res] wf(1-3) unfolding res by blast+
  have wr6: "r' = rng_after (IVLen (cryptoCore (contentEnc v))) ?n (w_rng w)"
    if "\<not> (file_ID f = None \<and> p = [])"
    using wf(6) res that by blast
  obtain w' where w': "on_handle sid h (\<lambda>f. doWrite_file P (contentEnc v) f d off) w
      = Ret (Written (of_nat (length d)), w')" "w_os w' = s'" "w_rng w' = r'"
    "handle_of w' sid h = Some (f\<lparr>file_ID := fid\<rparr>)" "only_handle sid h w w'"
    "\<exists>v'. volume_of w' sid = Some v' \<and> contentEnc v' = contentEnc v0 \<and>
       table_lookup (fileHandles v') h = Some (f\<lparr>file_ID := fid\<rparr>)"
    by (rule on_handle_run [OF v0(1) od(1), of "\<lambda>f. doWrite_file P (contentEnc v) f d off", OF wr(1)])
  have op: "opened P (contentEnc v) w' sid h (f\<lparr>file_ID := fid\<rparr>) i c' (overwrite (unat off) d p)"
    using w'(2,6) v0(2) wr(2,5) by (intro openedI) auto
  have run: "doWrite P sid v h d off w = Ret ((of_nat (length d), True), w')"
    using w'(1) by (simp add: doWrite_def bindw_def)
  have os: "only_file i (w_os w) (w_os w')" using wr(3) w'(2) by simp
  have rng: "\<not> (file_ID f = None \<and> p = []) \<longrightarrow> w_rng w' = rng_after (IVLen (cryptoCore (contentEnc v)))
      (nblocks (BS (contentEnc v)) (unat off) (length d)) (w_rng w)"
    using wr6 w'(3) by blast
  show thesis
    by (rule that [OF run op wr(4) w'(5) os rng])
qed

section \<open>Truncating: the plaintext side\<close>

lemma resize_resize: "length p \<le> a \<Longrightarrow> a \<le> b \<Longrightarrow> resize b (resize a p) = resize b p"
  by (intro nth_equalityI) (auto simp: nth_resize)

lemma overwrite_zeros_end: "overwrite (length p) (zeros k) p = resize (length p + k) p"
  by (simp add: overwrite_def resize_def)

lemma overwrite_last_zero: "length p \<le> off \<Longrightarrow> overwrite off (zeros 1) p = resize (off + 1) p"
  by (intro nth_equalityI) (auto simp: nth_overwrite nth_resize)

lemma overwrite_take_range:
  assumes "off + l \<le> length p"
  shows "overwrite off (range_of off l p) (take off p) = take (off + l) p"
  using assms by (simp add: overwrite_def range_of_def take_add)

lemma nblocks_within:
  assumes "0 < B" "0 < l" "off mod B + l \<le> B"
  shows "nblocks B off l = 1"
proof -
  have "off div B * B + off mod B = off" by simp
  then have "off div B * B \<le> off + l - 1" "off + l - 1 < off div B * B + B"
    using assms by linarith+
  then have "(off + l - 1) div B = off div B"
    using assms(1) by (intro div_nat_eqI) (simp_all add: mult.commute)
  then show ?thesis using assms(2) by (simp add: nblocks_def)
qed

section \<open>Truncating: the ciphertext side\<close>

lemma holds_codec:
  assumes "prims_ok P" "be_ok be" "stored P be x c p"
  shows "codec_ok (P, be, Some x)"
  using stored_codec assms by blast

lemma has_header_prefix: "has_header x c \<Longrightarrow> take 18 c' = take 18 c \<Longrightarrow> has_header x c'"
  by (simp add: has_header_def)

text \<open>Keeping the first \<open>m\<close> blocks of the body keeps the first \<open>m\<close> blocks of the plaintext.\<close>

lemma stored_take:
  assumes "prims_ok P" "be_ok be" "stored P be x c p" "m * BS be \<le> length p"
  shows "stored P be x (resize (18 + m * CS be) c) (take (m * BS be) p)"
proof -
  have B: "0 < BS be" using be_okD(3) [OF assms(2)] .
  have "m * CS be = body_len (BS be) (OH be) (m * BS be)" using body_len_aligned [OF B] by simp
  also have "\<dots> \<le> body_len (BS be) (OH be) (length p)" using assms(4) by (rule body_len_mono [OF B])
  finally have l: "18 + m * CS be \<le> length c" using stored_length [OF assms(2,3)] by simp
  have "fb.rep (P, be, Some x) (take (m * CS be) (drop 18 c)) (take (m * BS be) p)"
    using fb.rep_take_blocks [OF holds_codec [OF assms(1-3)], of "drop 18 c" p m] assms(3,4)
    by (simp add: stored_def)
  moreover have "drop 18 (take (18 + m * CS be) c) = take (m * CS be) (drop 18 c)" by (simp add: drop_take)
  moreover have "has_header x (take (18 + m * CS be) c)"
    by (rule has_header_prefix [of x c]) (use assms(3) in \<open>simp_all add: stored_def\<close>)
  ultimately show ?thesis unfolding stored_def resize_shrink [OF l] by (simp only:)
qed

text \<open>Growing from a block boundary to a block boundary leaves holes that read as zeros.\<close>

lemma stored_grow:
  assumes "prims_ok P" "be_ok be" "stored P be x c p" "length p = m * BS be" "m \<le> m'"
  shows "stored P be x (resize (18 + m' * CS be) c) (resize (m' * BS be) p)"
proof -
  have l: "18 \<le> length c" using assms(3) has_headerD(1) by (auto simp: stored_def)
  have "fb.rep (P, be, Some x) (resize (m' * CS be) (drop 18 c)) (resize (m' * BS be) p)"
    using fb.rep_extend_holes [OF holds_codec [OF assms(1-3)], of "drop 18 c" p m m'] assms(3-5)
    by (simp add: stored_def)
  moreover have "drop 18 (resize (18 + m' * CS be) c) = resize (m' * CS be) (drop 18 c)"
    using l by (simp add: resize_def drop_take)
  moreover have "has_header x (resize (18 + m' * CS be) c)"
    by (rule has_header_prefix [of x c]) (use assms(3) l in \<open>simp_all add: stored_def resize_def\<close>)
  ultimately show ?thesis unfolding stored_def by (simp only:)
qed

lemma holds_take:
  assumes "prims_ok P" "be_ok be" "holds P be fid c p" "m * BS be \<le> length p" "fid \<noteq> None \<or> 0 < m"
  shows "holds P be fid (resize (18 + m * CS be) c) (take (m * BS be) p)"
proof (cases fid)
  case None
  then have "0 < m * BS be" using assms(5) be_okD(3) [OF assms(2)] by simp
  then have "p \<noteq> []" "take (m * BS be) p \<noteq> []" using assms(4) by auto
  then show ?thesis
    using assms(3) None stored_take [OF assms(1,2) _ assms(4)] by (auto simp: holds_def)
next
  case (Some x)
  then show ?thesis using assms(3) stored_take [OF assms(1,2) _ assms(4)] by simp
qed

lemma holds_grow:
  assumes "prims_ok P" "be_ok be" "holds P be fid c p" "length p = m * BS be" "m \<le> m'" "fid \<noteq> None \<or> 0 < m"
  shows "holds P be fid (resize (18 + m' * CS be) c) (resize (m' * BS be) p)"
proof (cases fid)
  case None
  then have "0 < m * BS be" using assms(6) be_okD(3) [OF assms(2)] by simp
  then have "p \<noteq> []" "resize (m' * BS be) p \<noteq> []"
    using assms(4,5) by (auto simp: resize_def)
  then show ?thesis
    using assms(3) None stored_grow [OF assms(1,2) _ assms(4,5)] by (auto simp: holds_def)
next
  case (Some x)
  then show ?thesis using assms(3) stored_grow [OF assms(1,2) _ assms(4,5)] by simp
qed

lemma fresh_old: "nonces_ok (IVLen (cryptoCore be)) n r \<Longrightarrow> \<not> b \<Longrightarrow> fresh_ok be b n r"
  by (simp add: fresh_ok_def)

section \<open>Truncating a handle\<close>

text \<open>\<open>ftruncate\<close> on the descriptor of a handle, without failures.\<close>

lemma ftruncate_handle:
  assumes o: "opened P be w sid h f i c p" and n: "0 \<le> n" and q: "quiet (w_os w)"
    and h': "holds P be (file_ID f) (resize (nat n) c) p'"
  obtains w' where "call_os (Ftruncate (file_fd f) n) w = Ret (Inr (), w')"
    "opened P be w' sid h f i (resize (nat n) c) p'" "only_handle sid h w w'" "only_file i (w_os w) (w_os w')"
    "w_rng w' = w_rng w"
proof -
  obtain r c' s' where t: "Ftruncate (file_fd f) n (w_os w) = (r, s')" "file_at s' (file_fd f) i c'"
    "only_file i (w_os w) s'" "r = Inr () \<Longrightarrow> c' = resize (nat n) c" "r \<noteq> Inr () \<Longrightarrow> c' = c"
    "quiet (w_os w) \<Longrightarrow> r = Inr ()"
    using Ftruncate_file [OF openedD(2) [OF o] n] by metis
  have r: "r = Inr ()" using t(6) q by blast
  show thesis
  proof (rule that)
    show "call_os (Ftruncate (file_fd f) n) w = Ret (Inr (), w\<lparr>w_os := s'\<rparr>)"
      using t(1) r by (simp add: call_os_def lift_os_def)
    show "opened P be (w\<lparr>w_os := s'\<rparr>) sid h f i (resize (nat n) c) p'"
      using o t(2) t(4) [OF r] h' by (simp add: opened_def)
    show "only_handle sid h w (w\<lparr>w_os := s'\<rparr>)" by (rule only_handle_os)
    show "only_file i (w_os w) (w_os (w\<lparr>w_os := s'\<rparr>))" using t(3) by simp
    show "w_rng (w\<lparr>w_os := s'\<rparr>) = w_rng w" by simp
  qed
qed

section \<open>Shrinking\<close>

text \<open>
  Without failures, shrinking to a smaller size that is not zero leaves exactly the first
  \<open>newSize\<close> bytes of the plaintext.
\<close>

lemma truncate_shrink_spec:
  assumes P: "prims_ok P" and be: "be_ok (contentEnc v)" and o: "opened P (contentEnc v) w sid h f i c p"
    and n: "newSize \<noteq> 0" "unat newSize < length p" "unat newSize \<le> 2 ^ 56"
    and q: "quiet (w_os w)" and r: "nonces_ok (IVLen (cryptoCore (contentEnc v))) 1 (w_rng w)"
  obtains fid c' w' where "truncate_shrink P sid v h newSize w = Ret (True, w')"
    "opened P (contentEnc v) w' sid h (f\<lparr>file_ID := fid\<rparr>) i c' (take (unat newSize) p)"
    "only_handle sid h w w'" "only_file i (w_os w) (w_os w')"
proof -
  let ?be = "contentEnc v"
  note B = be_okD [OF be]
  define m where "m = unat newSize div BS ?be"
  define l where "l = unat newSize mod BS ?be"
  define plainOff where "plainOff = BlockNoToPlainOff ?be (PlainOffToBlockNo ?be newSize)"
  define cipherOff where "cipherOff = BlockNoToCipherOff ?be (PlainOffToBlockNo ?be newSize)"
  define last where "last = newSize - plainOff"
  have size: "unat newSize = m * BS ?be + l" by (simp add: m_def l_def)
  have lB: "l < BS ?be" using B(3) by (simp add: l_def)
  have bno: "unat (PlainOffToBlockNo ?be newSize) = m" by (simp add: unat_PlainOffToBlockNo m_def)
  have po: "unat plainOff = m * BS ?be"
    unfolding plainOff_def using size n(3) by (subst unat_BlockNoToPlainOff) (simp_all add: bno)
  have cb: "18 + m * CS ?be < 2 ^ 63"
    using block_offset_bound [OF be, of "unat newSize"] n(3) by (simp add: m_def)
  have co: "unat cipherOff = 18 + m * CS ?be"
    unfolding cipherOff_def using cb by (subst unat_BlockNoToCipherOff [OF be]) (simp_all add: bno)
  have goco: "go_int cipherOff = int (18 + m * CS ?be)" using co cb by (subst go_int_small) simp_all
  have la: "unat last = l" unfolding last_def using po size by (subst unat_diff_small) simp_all
  have lpos: "last > 0 \<longleftrightarrow> 0 < l" using la by (metis unat_gt_0 word_neq_0_conv)
  have mp: "m * BS ?be \<le> length p" using size n(2) by simp
  have npos: "0 < unat newSize" using n(1) by (simp add: unat_gt_0)
  have code: "truncate_shrink P sid v h newSize =
      bindw (if last > 0 then read_handle P sid v h plainOff last else ret (Some [])) (\<lambda>dr.
         case dr of None \<Rightarrow> ret False
         | Some data \<Rightarrow>
             bindw (get_handle sid h) (\<lambda>f.
             or_return False (call_os (Ftruncate (file_fd f) (go_int cipherOff))) (\<lambda>_.
               if last > 0
               then bindw (doWrite P sid v h data plainOff) (\<lambda>(_, success). ret success)
               else ret True)))"
    by (simp only: truncate_shrink_def Let_def plainOff_def cipherOff_def last_def)
  show thesis
  proof (cases "l = 0")
    case True
    have "0 < m" using size True npos by (cases m) auto
    then have h': "holds P ?be (file_ID f) (resize (nat (int (18 + m * CS ?be))) c) (take (m * BS ?be) p)"
      using holds_take [OF P be openedD(3) [OF o] mp] by (simp only: nat_int) blast
    obtain w' where t: "call_os (Ftruncate (file_fd f) (int (18 + m * CS ?be))) w = Ret (Inr (), w')"
      "opened P ?be w' sid h f i (resize (nat (int (18 + m * CS ?be))) c) (take (m * BS ?be) p)"
      "only_handle sid h w w'" "only_file i (w_os w) (w_os w')"
      by (rule ftruncate_handle [OF o _ q h']) simp
    show thesis
    proof (rule that)
      show "truncate_shrink P sid v h newSize w = Ret (True, w')"
        unfolding code using lpos True t(1) openedD(1) [OF o]
        by (simp add: bindw_def or_return_def goco)
      show "opened P ?be w' sid h (f\<lparr>file_ID := file_ID f\<rparr>) i (resize (nat (int (18 + m * CS ?be))) c)
          (take (unat newSize) p)" using t(2) size True by simp
    qed (use t in simp_all)
  next
    case False
    then have l0: "0 < l" by simp
    have last0: "last \<noteq> 0" using lpos l0 by auto
    have lastle: "unat last \<le> 131072" using la lB B(5) by simp
    have offb: "unat plainOff + unat last \<le> 2 ^ 57" using po la size n(3) by simp
    have pne: "p \<noteq> []" using n(2) by auto
    obtain res w1 fid where rd: "read_handle P sid v h plainOff last w = Ret (res, w1)"
      "opened P ?be w1 sid h (f\<lparr>file_ID := fid\<rparr>) i c p" "only_handle sid h w w1"
      "only_file i (w_os w) (w_os w1)" "w_rng w1 = w_rng w" "file_ID f \<noteq> None \<longrightarrow> fid = file_ID f"
      "res = None \<or> res = Some (range_of (unat plainOff) (unat last) p) \<and> fid \<noteq> None"
      "quiet (w_os w) \<and> (file_ID f \<noteq> None \<or> p \<noteq> []) \<longrightarrow> res \<noteq> None"
      by (rule read_handle_spec [OF P be o last0 lastle offb])
    let ?f = "f\<lparr>file_ID := fid\<rparr>"
    define data where "data = range_of (m * BS ?be) l p"
    have res: "res = Some data" using rd(7,8) q pne po la by (auto simp: data_def)
    have ldata: "length data = l" using size n(2) by (simp add: data_def)
    have q1: "quiet (w_os w1)" using only_file_quiet [OF rd(4) q] .
    have fidS: "fid \<noteq> None" using rd(7) res by simp
    have h1: "holds P ?be (file_ID ?f) (resize (nat (int (18 + m * CS ?be))) c) (take (m * BS ?be) p)"
      using holds_take [OF P be openedD(3) [OF rd(2)] mp] fidS by (simp only: nat_int) simp
    obtain w2 where t: "call_os (Ftruncate (file_fd ?f) (int (18 + m * CS ?be))) w1 = Ret (Inr (), w2)"
      "opened P ?be w2 sid h ?f i (resize (nat (int (18 + m * CS ?be))) c) (take (m * BS ?be) p)"
      "only_handle sid h w1 w2" "only_file i (w_os w1) (w_os w2)" "w_rng w2 = w_rng w1"
      by (rule ftruncate_handle [OF rd(2) _ q1 h1]) simp
    have sp: "unat plainOff mod BS ?be = 0" "unat plainOff div BS ?be = m" using po B(3) by simp_all
    have d: "data \<noteq> []" "length data \<le> 131072" "unat plainOff + length data \<le> 2 ^ 56"
      using ldata l0 lB B(5) po size n(3) by auto
    have lp: "length (take (m * BS ?be) p) = m * BS ?be" using mp by simp
    have gap: "length (take (m * BS ?be) p) mod BS ?be = 0 \<or>
        unat plainOff div BS ?be \<le> length (take (m * BS ?be) p) div BS ?be"
      unfolding lp by simp
    have nb: "nblocks (BS ?be) (unat plainOff) (length data) = 1"
      using ldata l0 lB sp(1) by (intro nblocks_within [OF B(3)]) simp_all
    have w12: "w_rng w2 = w_rng w" using t(5) rd(5) by simp
    have fr: "fresh_ok ?be (file_ID ?f = None \<and> take (m * BS ?be) p = [])
        (nblocks (BS ?be) (unat plainOff) (length data)) (w_rng w2)"
      unfolding nb w12 by (rule fresh_old [OF r]) (use fidS in simp)
    have q2: "quiet (w_os w2)" using only_file_quiet [OF t(4) q1] .
    obtain w3 fid3 c3 where wr: "doWrite P sid v h data plainOff w2 = Ret ((of_nat (length data), True), w3)"
      "opened P ?be w3 sid h (?f\<lparr>file_ID := fid3\<rparr>) i c3 (overwrite (unat plainOff) data (take (m * BS ?be) p))"
      "fid3 \<noteq> None" "only_handle sid h w2 w3" "only_file i (w_os w2) (w_os w3)"
      by (rule doWrite_spec [OF P be t(2) d gap fr q2]) (rule that)
    have plain: "overwrite (unat plainOff) data (take (m * BS ?be) p) = take (unat newSize) p"
      unfolding po data_def size using mp n(2) size by (intro overwrite_take_range) simp
    show thesis
    proof (rule that)
      have "truncate_shrink P sid v h newSize w =
          or_return False (call_os (Ftruncate (file_fd f) (int (18 + m * CS ?be)))) (\<lambda>_.
               bindw (doWrite P sid v h data plainOff) (\<lambda>(_, success). ret success)) w1"
        unfolding code using lpos l0 rd(1) res openedD(1) [OF rd(2)]
        by (simp add: bindw_def goco)
      also have "\<dots> = Ret (True, w3)"
        using t(1) wr(1) by (simp add: bindw_def or_return_def)
      finally show "truncate_shrink P sid v h newSize w = Ret (True, w3)" .
      show "opened P ?be w3 sid h (f\<lparr>file_ID := fid3\<rparr>) i c3 (take (unat newSize) p)"
        using wr(2) plain by simp
      show "only_handle sid h w w3"
        using rd(3) t(3) wr(4) by (blast intro: only_handle_trans)
      show "only_file i (w_os w) (w_os w3)"
        using rd(4) t(4) wr(5) by (blast intro: only_file_trans)
    qed
  qed
qed

section \<open>Growing\<close>

text \<open>The random bytes that growing may need: two nonces, and for a new file an ID.\<close>

definition grow_ok :: "contentEnc \<Rightarrow> rng \<Rightarrow> bool" where
  "grow_ok be r \<longleftrightarrow> fresh_ok be True 1 r \<and> nonces_ok (IVLen (cryptoCore be)) 2 r"

lemma nonces_ok_two: "nonces_ok n 2 r \<longleftrightarrow> nonces_ok n 1 r \<and> nonces_ok n 1 (rng_after n 1 r)"
  using nonces_ok_add [of n 1 1 r] by (simp only: one_add_one)

lemma grow_fresh: "grow_ok be r \<Longrightarrow> fresh_ok be b 1 r"
  by (cases b) (auto simp: grow_ok_def nonces_ok_two intro: fresh_old)

text \<open>Writing a zero at the last byte, behind a plaintext that ends at a block boundary or in the same block.\<close>

lemma last_byte_spec:
  assumes P: "prims_ok P" and be: "be_ok (contentEnc v)" and o: "opened P (contentEnc v) w sid h f i c p"
    and n: "length p < unat newSize" "unat newSize \<le> 2 ^ 56"
    and gap: "length p mod BS (contentEnc v) = 0 \<or>
      (unat newSize - 1) div BS (contentEnc v) \<le> length p div BS (contentEnc v)"
    and r: "fresh_ok (contentEnc v) (file_ID f = None \<and> p = []) 1 (w_rng w)" and q: "quiet (w_os w)"
  obtains w' fid c' where
    "bindw (doWrite P sid v h (zeros 1) (newSize - 1)) (\<lambda>(_, success). ret success) w = Ret (True, w')"
    "opened P (contentEnc v) w' sid h (f\<lparr>file_ID := fid\<rparr>) i c' (resize (unat newSize) p)"
    "only_handle sid h w w'" "only_file i (w_os w) (w_os w')"
proof -
  have n0: "0 < unat newSize" using n(1) by simp
  then have e: "unat (newSize - 1) = unat newSize - 1"
    by (subst unat_diff_small) simp_all
  have d: "zeros 1 \<noteq> []" "length (zeros 1) \<le> 131072" "unat (newSize - 1) + length (zeros 1) \<le> 2 ^ 56"
    using e n(2) n0 by simp_all
  have gap': "length p mod BS (contentEnc v) = 0 \<or>
      unat (newSize - 1) div BS (contentEnc v) \<le> length p div BS (contentEnc v)"
    using gap e by simp
  have nb: "nblocks (BS (contentEnc v)) (unat (newSize - 1)) (length (zeros 1)) = 1"
    using be_okD(3) [OF be] by (intro nblocks_within) (simp_all add: Suc_le_eq)
  have fr: "fresh_ok (contentEnc v) (file_ID f = None \<and> p = [])
      (nblocks (BS (contentEnc v)) (unat (newSize - 1)) (length (zeros 1))) (w_rng w)"
    using r by (simp only: nb)
  obtain w' fid c' where wr: "doWrite P sid v h (zeros 1) (newSize - 1) w = Ret ((of_nat (length (zeros 1)), True), w')"
    "opened P (contentEnc v) w' sid h (f\<lparr>file_ID := fid\<rparr>) i c' (overwrite (unat (newSize - 1)) (zeros 1) p)"
    "fid \<noteq> None" "only_handle sid h w w'" "only_file i (w_os w) (w_os w')"
    by (rule doWrite_spec [OF P be o d gap' fr q]) (rule that)
  have plain: "overwrite (unat (newSize - 1)) (zeros 1) p = resize (unat newSize) p"
    using overwrite_last_zero [of p "unat newSize - 1"] n(1) by (simp add: e)
  show thesis
    by (rule that [OF _ wr(2) [unfolded plain] wr(4,5)]) (use wr(1) in \<open>simp add: bindw_def\<close>)
qed

lemma ceil_div:
  fixes q :: nat
  assumes "0 < B" "k < B"
  shows "(q * B + k + B - 1) div B = (if k = 0 then q else q + 1)"
proof (cases "k = 0")
  case True
  then have "q * B + k + B - 1 = q * B + (B - 1)" using assms by simp
  then show ?thesis using True div_mod_block(1) [of "B - 1" B q] assms by simp
next
  case False
  then have "q * B + k + B - 1 = (q + 1) * B + (k - 1)" by simp
  then show ?thesis using False div_mod_block(1) [of "k - 1" B "q + 1"] assms by simp
qed

text \<open>Padding to the next block boundary.\<close>

lemma zeroPad_spec:
  assumes P: "prims_ok P" and be: "be_ok (contentEnc v)" and o: "opened P (contentEnc v) w sid h f i c p"
    and n: "unat sz = length p" "length p < 2 ^ 56"
    and r: "nonces_ok (IVLen (cryptoCore (contentEnc v))) 1 (w_rng w)" and q: "quiet (w_os w)"
  obtains w' fid c' m where "zeroPad P sid v h sz w = Ret (True, w')"
    "opened P (contentEnc v) w' sid h (f\<lparr>file_ID := fid\<rparr>) i c' (resize (m * BS (contentEnc v)) p)"
    "only_handle sid h w w'" "only_file i (w_os w) (w_os w')"
    "m = (length p + BS (contentEnc v) - 1) div BS (contentEnc v)"
    "fid \<noteq> None \<or> fid = file_ID f"
    "w_rng w' = w_rng w \<and> c' = c \<or> w_rng w' = rng_after (IVLen (cryptoCore (contentEnc v))) 1 (w_rng w) \<and> fid \<noteq> None"
    "p = [] \<longrightarrow> w_rng w' = w_rng w"
proof -
  let ?be = "contentEnc v" and ?B = "BS (contentEnc v)"
  note B = be_okD [OF be]
  define k where "k = length p mod ?B"
  have last: "unat (sz mod plainBS ?be) = k" using n(1) by (simp add: unat_mod_distrib k_def)
  have last0: "sz mod plainBS ?be = 0 \<longleftrightarrow> k = 0" using last by (metis unat_0 unat_eq_zero)
  have kB: "k < ?B" using B(3) by (simp add: k_def)
  have split: "length p = length p div ?B * ?B + k" by (simp add: k_def)
  define m where "m = (length p + ?B - 1) div ?B"
  show thesis
  proof (cases "k = 0")
    case True
    have "m = length p div ?B"
      using ceil_div [OF B(3) kB, of "length p div ?B"] True split by (simp add: m_def)
    then have self: "resize (m * ?B) p = p" using True split by simp
    have f: "f\<lparr>file_ID := file_ID f\<rparr> = f" by simp
    show thesis
      by (rule that [of w "file_ID f" c m])
         (use o self f last0 True m_def in \<open>simp_all add: zeroPad_def Let_def\<close>)
  next
    case False
    define missing where "missing = plainBS ?be - sz mod plainBS ?be"
    have miss: "unat missing = ?B - k"
      unfolding missing_def using last kB by (subst unat_diff_small) simp_all
    have m: "m = length p div ?B + 1"
      using ceil_div [OF B(3) kB, of "length p div ?B"] False split by (simp only: m_def if_False)
    have total: "length p + (?B - k) = m * ?B" using split kB m by (simp add: algebra_simps)
    have "?B dvd 2 ^ 56" using B(4) by (rule dvd_trans) (simp add: dvd_def)
    then obtain K where K: "2 ^ 56 = ?B * K" by blast
    have "length p div ?B < K" using n(2) unfolding K by (simp add: less_mult_imp_div_less mult.commute)
    then have "m * ?B \<le> K * ?B" unfolding m by (intro mult_le_mono1) simp
    then have bound: "unat sz + (?B - k) \<le> 2 ^ 56" unfolding n(1) total K by (simp only: mult.commute)
    have d: "zeros (unat missing) \<noteq> []" "length (zeros (unat missing)) \<le> 131072"
      "unat sz + length (zeros (unat missing)) \<le> 2 ^ 56"
      using miss kB B(5) bound by simp_all
    have gap: "length p mod ?B = 0 \<or> unat sz div ?B \<le> length p div ?B" using n(1) by simp
    have nb: "nblocks ?B (unat sz) (length (zeros (unat missing))) = 1"
      using miss kB n(1) by (intro nblocks_within [OF B(3)]) (simp_all add: k_def)
    have fr: "fresh_ok ?be (file_ID f = None \<and> p = []) (nblocks ?B (unat sz) (length (zeros (unat missing)))) (w_rng w)"
      unfolding nb by (rule fresh_old [OF r]) (use False in \<open>auto simp: k_def\<close>)
    have pne: "\<not> (file_ID f = None \<and> p = [])" using False by (auto simp: k_def)
    obtain w' fid c' where wr: "doWrite P sid v h (zeros (unat missing)) sz w
        = Ret ((of_nat (length (zeros (unat missing))), True), w')"
      "opened P ?be w' sid h (f\<lparr>file_ID := fid\<rparr>) i c' (overwrite (unat sz) (zeros (unat missing)) p)"
      "fid \<noteq> None" "only_handle sid h w w'" "only_file i (w_os w) (w_os w')"
      "\<not> (file_ID f = None \<and> p = []) \<longrightarrow> w_rng w' = rng_after (IVLen (cryptoCore ?be))
        (nblocks ?B (unat sz) (length (zeros (unat missing)))) (w_rng w)"
      by (rule doWrite_spec [OF P be o d gap fr q]) (rule that)
    have plain: "overwrite (unat sz) (zeros (unat missing)) p = resize (m * ?B) p"
      unfolding n(1) miss overwrite_zeros_end total ..
    have "sz mod plainBS ?be \<noteq> 0" using last0 False by simp
    then have run: "zeroPad P sid v h sz w = Ret (True, w')"
      using wr(1) by (simp add: zeroPad_def Let_def missing_def bindw_def)
    have rng: "w_rng w' = rng_after (IVLen (cryptoCore ?be)) 1 (w_rng w)" using wr(6) pne nb by simp
    show thesis
      by (rule that [OF run wr(2) [unfolded plain] wr(4,5) m_def]) (use wr(3) rng False in \<open>auto simp: k_def\<close>)
  qed
qed

lemma aligned_csize:
  assumes "be_ok be" "unat new = m * BS be" "0 < m" "unat new \<le> 2 ^ 56"
  shows "go_int (PlainSizeToCipherSize be new) = int (18 + m * CS be)"
proof -
  note B = be_okD [OF assms(1)]
  have n: "unat new < 2 ^ 57" using assms(4) by simp
  have "0 < m * BS be" using assms(3) B(3) by simp
  then have "csize (BS be) (OH be) (unat new) = 18 + m * CS be"
    using csize_body_len [OF B(3), of "OH be" "unat new"] body_len_aligned [OF B(3), of "OH be" m] assms(2) by simp
  then have u: "unat (PlainSizeToCipherSize be new) = 18 + m * CS be"
    using unat_PlainSizeToCipherSize [OF assms(1) n] by simp
  have "m = unat new div BS be" using assms(2) B(3) by simp
  then have "18 + m * CS be < 2 ^ 63"
    using block_offset_bound [OF assms(1), of "unat new"] assms(4) by simp
  then show ?thesis using u by (subst go_int_small) simp_all
qed

text \<open>Growing from one block boundary to another, with a header made first for an empty file.\<close>

lemma grow_aligned_spec:
  assumes P: "prims_ok P" and be: "be_ok (contentEnc v)" and o: "opened P (contentEnc v) w sid h f i c p"
    and n: "length p = m * BS (contentEnc v)" "unat new = m' * BS (contentEnc v)" "m < m'" "unat new \<le> 2 ^ 56"
    and old: "old = 0 \<longleftrightarrow> p = []" and z: "p = [] \<Longrightarrow> fst (RandBytes headerIDLen (w_rng w)) \<noteq> allZeroFileID"
    and q: "quiet (w_os w)"
  obtains w' fid c' where "grow_aligned sid v h old new w = Ret (True, w')"
    "opened P (contentEnc v) w' sid h (f\<lparr>file_ID := fid\<rparr>) i c' (resize (unat new) p)"
    "only_handle sid h w w'" "only_file i (w_os w) (w_os w')"
proof -
  let ?be = "contentEnc v"
  note B = be_okD [OF be] and result = that
  have cs: "go_int (PlainSizeToCipherSize ?be new) = int (18 + m' * CS ?be)"
    using n by (intro aligned_csize [OF be]) simp_all
  have finish: thesis if w1: "opened P ?be w1 sid h (f\<lparr>file_ID := fid\<rparr>) i c1 p" "only_handle sid h w w1"
      "only_file i (w_os w) (w_os w1)" and ok: "fid \<noteq> None \<or> 0 < m"
      and code: "grow_aligned sid v h old new w = bindw (get_handle sid h) (\<lambda>f.
         bindw (call_os (Ftruncate (file_fd f) (go_int (PlainSizeToCipherSize ?be new)))) (\<lambda>r.
           ret (errToBool r))) w1"
    for w1 fid c1
  proof -
    let ?f = "f\<lparr>file_ID := fid\<rparr>"
    have h: "holds P ?be (file_ID ?f) (resize (nat (int (18 + m' * CS ?be))) c1) (resize (m' * BS ?be) p)"
      using holds_grow [OF P be openedD(3) [OF w1(1)] n(1) less_imp_le [OF n(3)]] ok by (simp only: nat_int) simp
    have q1: "quiet (w_os w1)" using only_file_quiet [OF w1(3) q] .
    obtain w2 where t: "call_os (Ftruncate (file_fd ?f) (int (18 + m' * CS ?be))) w1 = Ret (Inr (), w2)"
      "opened P ?be w2 sid h ?f i (resize (nat (int (18 + m' * CS ?be))) c1) (resize (m' * BS ?be) p)"
      "only_handle sid h w1 w2" "only_file i (w_os w1) (w_os w2)" "w_rng w2 = w_rng w1"
      by (rule ftruncate_handle [OF w1(1) _ q1 h]) simp
    show thesis
    proof (rule result)
      show "grow_aligned sid v h old new w = Ret (True, w2)"
        using t(1) openedD(1) [OF w1(1)] by (simp add: code cs bindw_def errToBool_def)
      show "opened P ?be w2 sid h ?f i (resize (nat (int (18 + m' * CS ?be))) c1) (resize (unat new) p)"
        using t(2) n(2) by simp
      show "only_handle sid h w w2" using w1(2) t(3) by (rule only_handle_trans)
      show "only_file i (w_os w) (w_os w2)" using w1(3) t(4) by (rule only_file_trans)
    qed
  qed
  show thesis
  proof (cases "p = []")
    case False
    then have "0 < m" using n(1) by (cases m) auto
    then show thesis
      using finish [of w "file_ID f" c] o False old openedD(1) [OF o]
      by (simp add: grow_aligned_def bindw_def)
  next
    case True
    have c18: "length c \<le> 18"
      using openedD(3) [OF o] True stored_length [OF be] by (auto simp: holds_def split: option.splits)
    obtain v0 where v0: "volume_of w sid = Some v0" "contentEnc v0 = ?be" using openedD(4) [OF o] by blast
    from createHeader_spec [OF openedD(2) [OF o] c18 z [OF True]] q obtain x s' c' where
      cr: "createHeader (file_fd f) (w_os w) (w_rng w) = Ret (Inr x, s', snd (RandBytes headerIDLen (w_rng w)))"
        "file_at s' (file_fd f) i c'" "only_file i (w_os w) s'" "has_header x c'" "length c' = 18" by blast
    let ?m = "\<lambda>f s r. go_bind (createHeader (file_fd f) s r) (\<lambda>(idr, s', r'). case idr of
                    Inl e \<Rightarrow> Ret (False, f, s', r')
                  | Inr i \<Rightarrow> Ret (True, f\<lparr>file_ID := Some i\<rparr>, s', r'))"
    have m: "?m f (w_os w) (w_rng w) = Ret (True, f\<lparr>file_ID := Some x\<rparr>, s', snd (RandBytes headerIDLen (w_rng w)))"
      using cr(1) by simp
    obtain w1 where w1: "on_handle sid h ?m w = Ret (True, w1)" "w_os w1 = s'"
      "w_rng w1 = snd (RandBytes headerIDLen (w_rng w))"
      "handle_of w1 sid h = Some (f\<lparr>file_ID := Some x\<rparr>)" "only_handle sid h w w1"
      "\<exists>v'. volume_of w1 sid = Some v' \<and> contentEnc v' = contentEnc v0 \<and>
         table_lookup (fileHandles v') h = Some (f\<lparr>file_ID := Some x\<rparr>)"
      by (rule on_handle_run [OF v0(1) openedD(1) [OF o], of ?m, OF m])
    have st: "holds P ?be (Some x) c' p" using stored_header_only [OF P be cr(4,5)] True by simp
    have op: "opened P ?be w1 sid h (f\<lparr>file_ID := Some x\<rparr>) i c' p"
      using w1(2,6) v0(2) cr(2) st by (intro openedI) auto
    show thesis
      by (rule finish [OF op w1(5)]) (use cr(3) w1(1,2) old True in \<open>simp_all add: grow_aligned_def bindw_def\<close>)
  qed
qed

text \<open>Without failures, growing appends zeros up to the new size.\<close>

lemma truncateGrowFile_spec:
  assumes P: "prims_ok P" and be: "be_ok (contentEnc v)" and o: "opened P (contentEnc v) w sid h f i c p"
    and n: "unat old = length p" "length p < unat new" "unat new \<le> 2 ^ 56"
    and r: "grow_ok (contentEnc v) (w_rng w)" and q: "quiet (w_os w)"
  obtains w' fid c' where "truncateGrowFile P sid v h old new w = Ret (True, w')"
    "opened P (contentEnc v) w' sid h (f\<lparr>file_ID := fid\<rparr>) i c' (resize (unat new) p)"
    "only_handle sid h w w'" "only_file i (w_os w) (w_os w')"
proof -
  let ?be = "contentEnc v" and ?B = "BS (contentEnc v)"
  note B = be_okD [OF be]
  let ?last = "bindw (doWrite P sid v h (zeros 1) (new - 1)) (\<lambda>(_, success). ret success)"
  have lt: "\<not> new \<le> old" using n(1,2) by (simp add: word_le_nat_alt)
  have old0: "old = 0 \<longleftrightarrow> p = []" using n(1) by (metis length_0_conv unat_eq_zero)
  have oldgt: "old > 0 \<longleftrightarrow> p \<noteq> []" using old0 by (metis word_neq_0_conv)
  have e: "unat (new - 1) = unat new - 1" using n(2) by (subst unat_diff_small) simp_all
  have same: "PlainOffToBlockNo ?be (old - 1) = PlainOffToBlockNo ?be (new - 1) \<longleftrightarrow>
      (length p - 1) div ?B = (unat new - 1) div ?B" if "p \<noteq> []"
  proof -
    have "unat (old - 1) = length p - 1" using that n(1) by (subst unat_diff_small) (simp_all add: Suc_le_eq)
    then show ?thesis
      using unat_PlainOffToBlockNo [of ?be "old - 1"] unat_PlainOffToBlockNo [of ?be "new - 1"] e
      by (metis word_unat_eq_iff)
  qed
  show thesis
  proof (cases "p \<noteq> [] \<and> (length p - 1) div ?B = (unat new - 1) div ?B")
    case True
    have gap: "length p mod ?B = 0 \<or> (unat new - 1) div ?B \<le> length p div ?B"
      using True div_le_mono [of "length p - 1" "length p" ?B] by simp
    have fr: "fresh_ok ?be (file_ID f = None \<and> p = []) 1 (w_rng w)" by (rule grow_fresh [OF r])
    obtain w' fid c' where l: "?last w = Ret (True, w')"
      "opened P ?be w' sid h (f\<lparr>file_ID := fid\<rparr>) i c' (resize (unat new) p)"
      "only_handle sid h w w'" "only_file i (w_os w) (w_os w')"
      by (rule last_byte_spec [OF P be o n(2,3) gap fr q]) (rule that)
    have "truncateGrowFile P sid v h old new = ?last"
      using lt True same oldgt by (simp add: truncateGrowFile_def Let_def)
    then show thesis using that [of w' fid c'] l by simp
  next
    case False
    have n56: "length p < 2 ^ 56" using n(2,3) by simp
    have r1: "nonces_ok (IVLen (cryptoCore ?be)) 1 (w_rng w)"
      "nonces_ok (IVLen (cryptoCore ?be)) 1 (rng_after (IVLen (cryptoCore ?be)) 1 (w_rng w))"
      using r by (simp_all add: grow_ok_def nonces_ok_two del: nonces_ok.simps One_nat_def)
    obtain w1 fid1 c1 m where zp: "zeroPad P sid v h old w = Ret (True, w1)"
      "opened P ?be w1 sid h (f\<lparr>file_ID := fid1\<rparr>) i c1 (resize (m * ?B) p)"
      "only_handle sid h w w1" "only_file i (w_os w) (w_os w1)" "m = (length p + ?B - 1) div ?B"
      "fid1 \<noteq> None \<or> fid1 = file_ID f"
      "w_rng w1 = w_rng w \<and> c1 = c \<or> w_rng w1 = rng_after (IVLen (cryptoCore ?be)) 1 (w_rng w) \<and> fid1 \<noteq> None"
      "p = [] \<longrightarrow> w_rng w1 = w_rng w"
      by (rule zeroPad_spec [OF P be o n(1) n56 r1(1) q]) (rule that)
    have m0: "p = [] \<Longrightarrow> m = 0" using zp(5) B(3) by simp
    have m1: "m = (length p - 1) div ?B + 1" if "p \<noteq> []"
    proof -
      have e: "length p + ?B - 1 = length p - 1 + ?B" using that by (cases p) auto
      show ?thesis unfolding zp(5) e by (rule div_add_self2) (use B(3) in simp)
    qed
    have mlt: "m * ?B < unat new"
    proof (cases "p = []")
      case True
      then show ?thesis using m0 n(2) by simp
    next
      case ne: False
      then have "(length p - 1) div ?B < (unat new - 1) div ?B"
        using False n(2) div_le_mono [of "length p - 1" "unat new - 1" ?B] by linarith
      then have "m * ?B \<le> (unat new - 1) div ?B * ?B"
        using m1 [OF ne] by (intro mult_le_mono1) simp
      then show ?thesis using div_bounds(1) [OF B(3), of "unat new - 1"] n(2) by linarith
    qed
    have mle: "length p \<le> m * ?B"
    proof (cases "p = []")
      case ne: False
      have "length p - 1 < ((length p - 1) div ?B + 1) * ?B"
        using div_bounds(2) [OF B(3), of "length p - 1"] by simp
      then show ?thesis using m1 [OF ne] by simp
    qed simp
    have q1: "quiet (w_os w1)" using only_file_quiet [OF zp(4) q] .
    let ?p = "resize (m * ?B) p"
    have lp: "length ?p = m * ?B" by simp
    have code: "truncateGrowFile P sid v h old new w =
        (if new mod plainBS ?be = 0 then grow_aligned sid v h old new w1 else ?last w1)"
      using lt False same oldgt zp(1) by (auto simp: truncateGrowFile_def Let_def bindw_def)
    have resz: "resize (unat new) ?p = resize (unat new) p" using mle mlt by (intro resize_resize) simp_all
    have pe: "?p = [] \<longleftrightarrow> p = []" using mle m0 by (auto simp: resize_def)
    have newmod: "new mod plainBS ?be = 0 \<longleftrightarrow> unat new mod ?B = 0"
      by (metis unat_0 unat_eq_zero unat_mod_distrib)
    show thesis
    proof (cases "unat new mod ?B = 0")
      case True
      define m' where "m' = unat new div ?B"
      have new: "unat new = m' * ?B" using True by (auto simp: m'_def)
      have mm: "m < m'" using mlt unfolding new by simp
      have z: "fst (RandBytes headerIDLen (w_rng w1)) \<noteq> allZeroFileID" if "?p = []"
        using r zp(8) that by (simp add: grow_ok_def fresh_ok_def pe)
      obtain w2 fid2 c2 where g: "grow_aligned sid v h old new w1 = Ret (True, w2)"
        "opened P ?be w2 sid h (f\<lparr>file_ID := fid1\<rparr>\<lparr>file_ID := fid2\<rparr>) i c2 (resize (unat new) ?p)"
        "only_handle sid h w1 w2" "only_file i (w_os w1) (w_os w2)"
        by (rule grow_aligned_spec [OF P be zp(2) lp new mm n(3) _ z q1]) (use old0 pe that z in auto)
      show thesis
        using that [of w2 fid2 c2] g code newmod True resz zp(3,4)
        by (simp add: only_handle_trans only_file_trans) 
    next
      case nz: False
      have gap: "length ?p mod ?B = 0 \<or> (unat new - 1) div ?B \<le> length ?p div ?B" by simp
      have fr: "fresh_ok ?be (file_ID (f\<lparr>file_ID := fid1\<rparr>) = None \<and> ?p = []) 1 (w_rng w1)"
      proof (cases "w_rng w1 = w_rng w")
        case True
        then show ?thesis using grow_fresh [OF r] by (simp only:)
      next
        case nw: False
        then have "w_rng w1 = rng_after (IVLen (cryptoCore ?be)) 1 (w_rng w)" "fid1 \<noteq> None"
          using zp(7) by blast+
        then show ?thesis by (simp only:) (rule fresh_old [OF r1(2)], simp)
      qed
      obtain w2 fid2 c2 where l: "?last w1 = Ret (True, w2)"
        "opened P ?be w2 sid h (f\<lparr>file_ID := fid1\<rparr>\<lparr>file_ID := fid2\<rparr>) i c2 (resize (unat new) ?p)"
        "only_handle sid h w1 w2" "only_file i (w_os w1) (w_os w2)"
        by (rule last_byte_spec [OF P be zp(2) _ n(3) gap fr q1]) (use mlt that in auto)
      show thesis
        using that [of w2 fid2 c2] l code newmod nz resz zp(3,4)
        by (auto intro: only_handle_trans only_file_trans)
    qed
  qed
qed

section \<open>The exported reads and writes\<close>

text \<open>Storing a file object that differs only in its lock count.\<close>

lemma put_opened:
  assumes o: "opened P be w sid h f i c p" and f': "file_fd f' = file_fd f" "file_ID f' = file_ID f"
  obtains w' where "put_handle sid h f' w = Ret ((), w')" "opened P be w' sid h f' i c p"
    "w_os w' = w_os w" "w_rng w' = w_rng w" "only_handle sid h w w'"
proof -
  obtain v where v: "volume_of w sid = Some v" "contentEnc v = be" using openedD(4) [OF o] by blast
  obtain w' where w': "put_handle sid h f' w = Ret ((), w')" "w_os w' = w_os w" "w_rng w' = w_rng w"
    "handle_of w' sid h = Some f'" "only_handle sid h w w'"
    "\<exists>v'. volume_of w' sid = Some v' \<and> contentEnc v' = contentEnc v \<and> table_lookup (fileHandles v') h = Some f'"
    by (rule put_handle_run [OF v(1)])
  show thesis
  proof (rule that [OF w'(1) _ w'(2,3,5)])
    show "opened P be w' sid h f' i c p"
      using w'(2,6) v(2) f' openedD(2,3) [OF o] by (intro openedI) auto
  qed
qed

text \<open>The lock is taken and released around an operation that keeps the handle.\<close>

lemma with_rlock_run:
  assumes o: "opened P be w sid h f i c p"
    and m: "\<And>w1. opened P be w1 sid h (f\<lparr>fdReaders := fdReaders f + 1\<rparr>) i c p \<Longrightarrow> w_os w1 = w_os w \<Longrightarrow>
      w_rng w1 = w_rng w \<Longrightarrow> only_handle sid h w w1 \<Longrightarrow>
      \<exists>x w2 fid c2. m w1 = Ret (x, w2) \<and>
        opened P be w2 sid h (f\<lparr>fdReaders := fdReaders f + 1, file_ID := fid\<rparr>) i c2 p2 \<and>
        only_handle sid h w1 w2 \<and> only_file i (w_os w1) (w_os w2) \<and> Q x fid c2"
  obtains x w' fid c' where "with_rlock sid h m w = Ret (x, w')"
    "opened P be w' sid h (f\<lparr>file_ID := fid\<rparr>) i c' p2" "only_handle sid h w w'"
    "only_file i (w_os w) (w_os w')" "Q x fid c'"
proof -
  let ?f1 = "f\<lparr>fdReaders := fdReaders f + 1\<rparr>"
  obtain w1 where w1: "put_handle sid h ?f1 w = Ret ((), w1)" "opened P be w1 sid h ?f1 i c p"
    "w_os w1 = w_os w" "w_rng w1 = w_rng w" "only_handle sid h w w1"
    by (rule put_opened [OF o, of ?f1]) simp_all
  obtain x w2 fid c2 where w2: "m w1 = Ret (x, w2)" "opened P be w2 sid h (?f1\<lparr>file_ID := fid\<rparr>) i c2 p2"
    "only_handle sid h w1 w2" "only_file i (w_os w1) (w_os w2)" "Q x fid c2"
    using m [OF w1(2-5)] by auto
  obtain w3 where w3: "put_handle sid h (f\<lparr>file_ID := fid\<rparr>) w2 = Ret ((), w3)"
    "opened P be w3 sid h (f\<lparr>file_ID := fid\<rparr>) i c2 p2"
    "w_os w3 = w_os w2" "w_rng w3 = w_rng w2" "only_handle sid h w2 w3"
    by (rule put_opened [OF w2(2), of "f\<lparr>file_ID := fid\<rparr>"]) simp_all
  have "with_rlock sid h m w = Ret (x, w3)"
    using openedD(1) [OF o] w1(1) w2(1) openedD(1) [OF w2(2)] w3(1) by (simp add: with_rlock_def bindw_def)
  then show thesis
  proof (rule that [OF _ w3(2)])
    show "only_handle sid h w w3"
      using w1(5) w2(3) w3(5) by (blast intro: only_handle_trans)
    show "only_file i (w_os w) (w_os w3)" using w2(4) by (simp only: w1(3) w3(3))
  qed fact
qed

text \<open>
  \<open>gcf_read_file\<close> delivers the range of the plaintext into the front of the caller's
  buffer, as long as the file goes; an error reads as end of file.
\<close>

lemma gcf_read_file_spec:
  assumes P: "prims_ok P" and be: "be_ok be" and o: "opened P be w sid h f i c p"
    and b: "buff \<noteq> []" "length buff \<le> MAX_KERNEL_WRITE" and off: "unat off + length buff \<le> 2 ^ 57"
  obtains n b' w' fid where "gcf_read_file P sid h off buff w = Ret ((n, b'), w')"
    "opened P be w' sid h (f\<lparr>file_ID := fid\<rparr>) i c p" "only_handle sid h w w'" "only_file i (w_os w) (w_os w')"
    "n = 0 \<and> b' = buff \<or> n = of_nat (length (range_of (unat off) (length buff) p)) \<and>
       b' = overwrite 0 (range_of (unat off) (length buff) p) buff"
    "quiet (w_os w) \<and> (file_ID f \<noteq> None \<or> p \<noteq> []) \<longrightarrow>
       n = of_nat (length (range_of (unat off) (length buff) p)) \<and>
       b' = overwrite 0 (range_of (unat off) (length buff) p) buff"
proof -
  obtain v where v: "volume_of w sid = Some v" "contentEnc v = be" using openedD(4) [OF o] by blast
  let ?len = "of_nat (length buff) :: uint64" and ?out = "range_of (unat off) (length buff) p"
  have lb: "length buff \<le> 131072" using b(2) by (simp add: MAX_KERNEL_WRITE_def)
  have ul: "unat ?len = length buff" using lb by simp
  have len: "?len \<noteq> 0" "unat ?len \<le> 131072" "unat off + unat ?len \<le> 2 ^ 57"
    using b(1) lb off ul by (auto simp: unat_eq_zero [symmetric] simp del: of_nat_eq_0_iff)
  have ov: "?out @ drop (length ?out) buff = overwrite 0 ?out buff"
    by (auto simp: overwrite_def simp del: length_range_of)
  let ?m = "bindw (read_handle P sid v h off ?len) (\<lambda>r. case r of
               None \<Rightarrow> ret (0, buff)
             | Some out \<Rightarrow> ret (of_nat (length out), out @ drop (length out) buff))"
  let ?Q = "\<lambda>x fid c2. c2 = c \<and> (x = (0, buff) \<or> x = (of_nat (length ?out) :: uint32, overwrite 0 ?out buff)) \<and>
    (quiet (w_os w) \<and> (file_ID f \<noteq> None \<or> p \<noteq> []) \<longrightarrow> x = (of_nat (length ?out), overwrite 0 ?out buff))"
  have step: "\<exists>x w2 fid c2. ?m w1 = Ret (x, w2) \<and>
      opened P be w2 sid h (f\<lparr>fdReaders := fdReaders f + 1, file_ID := fid\<rparr>) i c2 p \<and>
      only_handle sid h w1 w2 \<and> only_file i (w_os w1) (w_os w2) \<and> ?Q x fid c2"
    if o1: "opened P be w1 sid h (f\<lparr>fdReaders := fdReaders f + 1\<rparr>) i c p" and os: "w_os w1 = w_os w" for w1
  proof -
    let ?f1 = "f\<lparr>fdReaders := fdReaders f + 1\<rparr>"
    obtain res w2 fid where r: "read_handle P sid v h off ?len w1 = Ret (res, w2)"
      "opened P be w2 sid h (?f1\<lparr>file_ID := fid\<rparr>) i c p" "only_handle sid h w1 w2"
      "only_file i (w_os w1) (w_os w2)"
      "res = None \<or> res = Some (range_of (unat off) (unat ?len) p) \<and> fid \<noteq> None"
      "quiet (w_os w1) \<and> (file_ID ?f1 \<noteq> None \<or> p \<noteq> []) \<longrightarrow> res \<noteq> None"
      by (rule read_handle_spec [of P v, unfolded v(2), OF P be o1 len]) (rule that, assumption+)
    define x where "x = (case res of None \<Rightarrow> (0, buff) | Some out \<Rightarrow> (of_nat (length out) :: uint32, out @ drop (length out) buff))"
    have "?m w1 = Ret (x, w2)" using r(1) by (cases res) (simp_all add: bindw_def x_def)
    moreover have "?Q x fid c"
      using r(5,6) ul os ov by (auto simp: x_def)
    ultimately show ?thesis using r(2-4) by auto
  qed
  obtain x w' fid c' where run: "with_rlock sid h ?m w = Ret (x, w')"
    "opened P be w' sid h (f\<lparr>file_ID := fid\<rparr>) i c' p" "only_handle sid h w w'"
    "only_file i (w_os w) (w_os w')" "?Q x fid c'"
    by (rule with_rlock_run [OF o, of ?m p ?Q]) (use step in blast)+
  have code: "gcf_read_file P sid h off buff w = with_rlock sid h ?m w"
    using v(1) b(2) by (simp add: gcf_read_file_def with_volume_def)
  show thesis
    using that [of "fst x" "snd x" w' fid] run code by (auto simp: prod_eq_iff)
qed

text \<open>Without failures \<open>gcf_write_file\<close> overwrites the plaintext and reports every byte.\<close>

lemma gcf_write_file_spec:
  assumes P: "prims_ok P" and be: "be_ok be" and o: "opened P be w sid h f i c p"
    and d: "d \<noteq> []" "length d \<le> MAX_KERNEL_WRITE" and off: "unat off + length d \<le> 2 ^ 56"
    and gap: "length p mod BS be = 0 \<or> unat off div BS be \<le> length p div BS be"
    and r: "fresh_ok be (file_ID f = None \<and> p = []) (nblocks (BS be) (unat off) (length d)) (w_rng w)"
    and q: "quiet (w_os w)"
  obtains w' fid c' where "gcf_write_file P sid h off d w = Ret (of_nat (length d), w')"
    "opened P be w' sid h (f\<lparr>file_ID := fid\<rparr>) i c' (overwrite (unat off) d p)" "fid \<noteq> None"
    "only_handle sid h w w'" "only_file i (w_os w) (w_os w')"
proof -
  obtain v where v: "volume_of w sid = Some v" "contentEnc v = be" using openedD(4) [OF o] by blast
  have d2: "length d \<le> 131072" using d(2) by (simp add: MAX_KERNEL_WRITE_def)
  let ?m = "bindw (doWrite P sid v h d off) (\<lambda>(n, _). ret n)"
  let ?Q = "\<lambda>x fid c2. x = (of_nat (length d) :: uint32) \<and> fid \<noteq> None"
  have step: "\<exists>x w2 fid c2. ?m w1 = Ret (x, w2) \<and>
      opened P be w2 sid h (f\<lparr>fdReaders := fdReaders f + 1, file_ID := fid\<rparr>) i c2 (overwrite (unat off) d p) \<and>
      only_handle sid h w1 w2 \<and> only_file i (w_os w1) (w_os w2) \<and> ?Q x fid c2"
    if o1: "opened P be w1 sid h (f\<lparr>fdReaders := fdReaders f + 1\<rparr>) i c p" and os: "w_os w1 = w_os w"
      and rng: "w_rng w1 = w_rng w" for w1
  proof -
    let ?f1 = "f\<lparr>fdReaders := fdReaders f + 1\<rparr>"
    have r1: "fresh_ok be (file_ID ?f1 = None \<and> p = []) (nblocks (BS be) (unat off) (length d)) (w_rng w1)"
      using r rng by simp
    have q1: "quiet (w_os w1)" using q os by simp
    obtain w2 fid c2 where wr: "doWrite P sid v h d off w1 = Ret ((of_nat (length d), True), w2)"
      "opened P be w2 sid h (?f1\<lparr>file_ID := fid\<rparr>) i c2 (overwrite (unat off) d p)" "fid \<noteq> None"
      "only_handle sid h w1 w2" "only_file i (w_os w1) (w_os w2)"
      by (rule doWrite_spec [of P v, unfolded v(2), OF P be o1 d(1) d2 off gap r1 q1]) (rule that)
    have "?m w1 = Ret (of_nat (length d), w2)" using wr(1) by (simp add: bindw_def)
    then show ?thesis using wr(2-5) by auto
  qed
  obtain x w' fid c' where run: "with_rlock sid h ?m w = Ret (x, w')"
    "opened P be w' sid h (f\<lparr>file_ID := fid\<rparr>) i c' (overwrite (unat off) d p)" "only_handle sid h w w'"
    "only_file i (w_os w) (w_os w')" "?Q x fid c'"
    by (rule with_rlock_run [OF o, of ?m "overwrite (unat off) d p" ?Q]) (use step in blast)+
  have code: "gcf_write_file P sid h off d w = with_rlock sid h ?m w"
    using v(1) d(2) by (simp add: gcf_write_file_def with_volume_def)
  show thesis
    by (rule that [of w' fid c']) (use run code in simp_all)
qed

section \<open>The exported truncation\<close>

text \<open>
  \<open>truncate\<close> looks the old size up by the path of the handle, in the volume numbered
  \<open>volume.volumeID\<close>. When that look-up reports the size of the file behind the handle,
  truncating resizes the plaintext.
\<close>

lemma truncate_spec:
  assumes P: "prims_ok P" and be: "be_ok (contentEnc v)" and o: "opened P (contentEnc v) w sid h f i c p"
    and n: "new \<noteq> 0" "unat new \<le> 2 ^ 56" and len: "length p \<le> 2 ^ 56"
    and look: "gcf_get_attrs P (volumeID v) (file_path f) w = Ret ((mode, of_nat (length p), mt, True), w1)"
      "opened P (contentEnc v) w1 sid h f i c p"
    and r: "grow_ok (contentEnc v) (w_rng w1)" and q: "quiet (w_os w1)"
  obtains w' fid c' where "truncate P sid v h new w = Ret (True, w')"
    "opened P (contentEnc v) w' sid h (f\<lparr>file_ID := fid\<rparr>) i c' (resize (unat new) p)"
    "only_handle sid h w1 w'" "only_file i (w_os w1) (w_os w')"
proof -
  let ?old = "of_nat (length p) :: uint64"
  have old: "unat ?old = length p" using len by (simp add: unat_of_nat take_bit_nat_eq_self_iff)
  have eq: "new = ?old \<longleftrightarrow> unat new = length p" using old by (metis word_unat_eq_iff)
  have gt: "new > ?old \<longleftrightarrow> length p < unat new" using old by (simp add: word_less_nat_alt)
  have code: "truncate P sid v h new w =
      (if new = ?old then ret True
       else if new > ?old then truncateGrowFile P sid v h ?old new
       else truncate_shrink P sid v h new) w1"
    using n(1) openedD(1) [OF o] look(1) by (simp add: truncate_def bindw_def)
  consider "unat new = length p" | "length p < unat new" | "unat new < length p" by linarith
  then show thesis
  proof cases
    case 1
    have "f\<lparr>file_ID := file_ID f\<rparr> = f" by simp
    then show thesis using that [of w1 "file_ID f" c] code look(2) eq 1 by simp
  next
    case 2
    obtain w' fid c' where g: "truncateGrowFile P sid v h ?old new w1 = Ret (True, w')"
      "opened P (contentEnc v) w' sid h (f\<lparr>file_ID := fid\<rparr>) i c' (resize (unat new) p)"
      "only_handle sid h w1 w'" "only_file i (w_os w1) (w_os w')"
      by (rule truncateGrowFile_spec [OF P be look(2) old 2 n(2) r q]) (rule that)
    show thesis by (rule that [OF _ g(2-4)]) (use code eq gt 2 g(1) in simp)
  next
    case 3
    have r1: "nonces_ok (IVLen (cryptoCore (contentEnc v))) 1 (w_rng w1)"
      using r unfolding grow_ok_def nonces_ok_two by (elim conjE)
    obtain w' fid c' where g: "truncate_shrink P sid v h new w1 = Ret (True, w')"
      "opened P (contentEnc v) w' sid h (f\<lparr>file_ID := fid\<rparr>) i c' (take (unat new) p)"
      "only_handle sid h w1 w'" "only_file i (w_os w1) (w_os w')"
      by (rule truncate_shrink_spec [OF P be look(2) n(1) 3 n(2) q r1]) (rule that)
    have "take (unat new) p = resize (unat new) p" using 3 by (simp add: resize_shrink)
    then show thesis using that [of w' fid c'] code eq gt 3 g by simp
  qed
qed

end
