(* ===== verification/Copying.thy ===== *)
theory Copying
  imports Readonly HandleOps
begin

unbundle bit_operations_syntax

text \<open>
  The loops that copy whole files into and out of a volume: what is put into it comes out
  again, byte for byte.
\<close>

section \<open>The random source between two writes\<close>

text \<open>The states of the source that can follow a state.\<close>

inductive later :: "rng \<Rightarrow> rng \<Rightarrow> bool" where
  later_refl: "later r r"
| later_bytes: "later r r' \<Longrightarrow> later r (snd (RandBytes n r'))"
| later_nonce: "later r r' \<Longrightarrow> nonce_Get n r' = Ret (b, r'') \<Longrightarrow> later r r''"

lemma later_trans: "later r' r'' \<Longrightarrow> later r r' \<Longrightarrow> later r r''"
  by (induction rule: later.induct) (auto intro: later.intros)

lemma later_EncryptBlock: "EncryptBlock Pr be v b i r = Ret (c, r') \<Longrightarrow> later r r'"
  by (auto simp: EncryptBlock_def go_bind_eq_Ret intro: later_nonce [OF later_refl])

lemma later_doEncryptBlocks: "doEncryptBlocks Pr be vs b i r = Ret (cs, r') \<Longrightarrow> later r r'"
proof (induction vs arbitrary: b r cs)
  case Nil
  then show ?case by (auto intro: later_refl)
next
  case (Cons v vs)
  then obtain c r1 ds where "EncryptBlock Pr be v b i r = Ret (c, r1)" "doEncryptBlocks Pr be vs (b + 1) i r1 = Ret (ds, r')"
    by (auto simp: go_bind_eq_Ret)
  then show ?case using Cons.IH later_EncryptBlock later_trans by blast
qed

lemma later_interleave: "interleave Pr be i sch xs m ys n r = Ret (cs, ds, r') \<Longrightarrow> later r r'"
proof (induction Pr be i sch xs m ys n r arbitrary: cs ds r' rule: interleave.induct)
  case (1 Pr be i s x xs m ys n r)
  from 1(2) obtain c r1 cs' where "EncryptBlock Pr be x m i r = Ret (c, r1)" "interleave Pr be i s xs (m + 1) ys n r1 = Ret (cs', ds, r')"
    by (auto simp: go_bind_eq_Ret)
  then show ?case using 1(1) later_EncryptBlock later_trans by blast
next
  case (2 Pr be i s xs m y ys n r)
  from 2(2) obtain c r1 ds' where "EncryptBlock Pr be y n i r = Ret (c, r1)" "interleave Pr be i s xs m ys (n + 1) r1 = Ret (cs, ds', r')"
    by (auto simp: go_bind_eq_Ret)
  then show ?case using 2(1) later_EncryptBlock later_trans by blast
next
  case (5 Pr be i xs m ys n r)
  from 5 obtain r1 where "doEncryptBlocks Pr be xs m i r = Ret (cs, r1)" "doEncryptBlocks Pr be ys n i r1 = Ret (ds, r')"
    by (auto simp: go_bind_eq_Ret)
  then show ?case using later_doEncryptBlocks later_trans by blast
qed auto

lemma later_EncryptBlocks: "EncryptBlocks Pr be vs b i r = Ret (c, r') \<Longrightarrow> later r r'"
  by (auto simp: EncryptBlocks_def encryptBlocksParallel_def Let_def go_bind_eq_Ret split: if_splits
      intro: later_doEncryptBlocks later_interleave)

definition ends :: "(rng \<Rightarrow> bool) \<Rightarrow> ('a \<times> 'b \<times> 'c \<times> rng) go \<Rightarrow> bool" where
  "ends Q m \<longleftrightarrow> (\<forall>x f s r. m = Ret (x, f, s, r) \<longrightarrow> Q r)"

lemma ends_simps [simp]: "ends Q (Ret (x, f, s, r)) = Q r" "ends Q (Panic p)" "ends Q Hang"
  by (simp_all add: ends_def)

lemma ends_bind: "(\<And>x. m = Ret x \<Longrightarrow> ends Q (g x)) \<Longrightarrow> ends Q (go_bind m g)"
  by (auto simp: ends_def go_bind_eq_Ret)

lemma later_write_blocks:
  assumes "later r0 r"
  shows "ends (later r0) (write_blocks Pr be f x b d off s r)"
  unfolding write_blocks_def Let_def
proof (rule ends_bind, clarsimp split: option.split, intro conjI impI allI ends_bind)
  fix f1 s1 vs y
  assume "EncryptBlocks Pr be vs (BlockNo (hd (ExplodePlainRange be off (word_of_nat (length d))))) (Some x) r = Ret y"
  then have "later r0 (snd y)" using later_EncryptBlocks later_trans [OF _ assms] by (cases y) auto
  then show "ends (later r0) (case y of (ciphertext, r1) \<Rightarrow>
      if unat (BlockCipherOff be (hd (ExplodePlainRange be off (word_of_nat (length d))))) > MaxInt64 then Ret (Failed, f1, s1, r1)
      else go_bind (EnospcPrealloc (file_fd f1) (go_int (BlockCipherOff be (hd (ExplodePlainRange be off (word_of_nat (length d))))))
             (int (length ciphertext)) s1)
         (\<lambda>(er, s2). case er of
            Some e \<Rightarrow> if b then Ret (Undone, f1, snd (Ftruncate (file_fd f1) 0 s2), r1) else Ret (Failed, f1, s2, r1)
          | None \<Rightarrow> (case File_WriteAt (file_fd f1) ciphertext
                (go_int (BlockCipherOff be (hd (ExplodePlainRange be off (word_of_nat (length d)))))) s2 of (er2, s3) \<Rightarrow>
                 go_bind (bPool_Put (CReqPool be) (grown (CReqPool be) (length ciphertext)))
                   (\<lambda>_. Ret (if er2 = None then Written (of_nat (length d)) else Failed, f1, s3, r1)))))"
    by (cases y) (auto intro!: ends_bind split: option.split prod.split)
qed (use assms in simp_all)

lemma later_createHeader: "createHeader fd s r = Ret (x, s', r') \<Longrightarrow> later r r'"
proof -
  assume c: "createHeader fd s r = Ret (x, s', r')"
  have "r' = snd (RandBytes headerIDLen r)"
    using c by (auto simp: createHeader_def RandomHeader_def Let_def go_bind_eq_Ret split: option.splits prod.splits)
  then show ?thesis by (auto intro: later_bytes later_refl)
qed

lemma later_doWrite_file:
  assumes "doWrite_file Pr be f d off s r = Ret (res, f', s', r')"
  shows "later r r'"
proof -
  have "ends (later r) (doWrite_file Pr be f d off s r)"
    unfolding doWrite_file_def
    by (auto intro!: ends_bind later_write_blocks later_refl split: option.split sum.split prod.split dest!: later_createHeader)
  then show ?thesis using assms by (simp add: ends_def)
qed

text \<open>No nonce and no file ID is all zero, from some state on.\<close>

definition fine :: "nat \<Rightarrow> rng \<Rightarrow> bool" where
  "fine n r \<longleftrightarrow> (\<forall>r'. later r r' \<longrightarrow> nonces_ok n 1 r' \<and> fst (RandBytes headerIDLen r') \<noteq> allZeroFileID)"

lemma fine_later: "fine n r \<Longrightarrow> later r r' \<Longrightarrow> fine n r'"
  using later_trans by (auto simp: fine_def)

lemma fine_nonces: "fine n r \<Longrightarrow> nonces_ok n k r"
proof (induction k arbitrary: r)
  case (Suc k)
  then have "nonces_ok n 1 r" by (auto simp: fine_def intro: later_refl)
  then obtain b r' where b: "nonce_Get n r = Ret (b, r')" "b \<noteq> zeros n" by (auto split: go.splits)
  then have "fine n r'" using Suc.prems fine_later later_nonce later_refl by blast
  then show ?case using b Suc.IH by simp
qed simp

lemma fine_fresh: "fine (IVLen (cryptoCore be)) r \<Longrightarrow> fresh_ok be b k r"
proof -
  assume f: "fine (IVLen (cryptoCore be)) r"
  then have "fine (IVLen (cryptoCore be)) (snd (RandBytes headerIDLen r))"
    using fine_later later_bytes later_refl by blast
  then show ?thesis using f fine_nonces by (auto simp: fresh_ok_def fine_def intro: later_refl)
qed

definition draws :: "'a io \<Rightarrow> bool" where
  "draws m \<longleftrightarrow> (\<forall>w x w'. m w = Ret (x, w') \<longrightarrow> later (w_rng w) (w_rng w'))"

named_theorems draw \<open>operations that take from the random source\<close>

lemma drawsD: "draws m \<Longrightarrow> m w = Ret (x, w') \<Longrightarrow> later (w_rng w) (w_rng w')"
  by (simp add: draws_def)

lemma draws_bindw [draw]:
  assumes "draws m" "\<And>x. draws (f x)"
  shows "draws (bindw m f)"
  unfolding draws_def
proof (intro allI impI)
  fix w y w'' assume "bindw m f w = Ret (y, w'')"
  then obtain x w' where "m w = Ret (x, w')" "f x w' = Ret (y, w'')" by (auto simp: bindw_eq_Ret)
  then show "later (w_rng w) (w_rng w'')" using drawsD [OF assms(1)] drawsD [OF assms(2)] later_trans by blast
qed

lemma draws_basic [draw]:
  "draws (ret x)" "draws (\<lambda>w. Hang)" "draws (close_fd fd)" "draws (get_handle sid h)" "draws (modify_volume sid g)"
  "draws (put_handle sid h f)"
  by (auto simp: draws_def close_fd_def call_os_def lift_os_def get_handle_def modify_volume_def put_handle_def
      go_bind_eq_Ret intro: later_refl)

lemma draws_branch [draw]:
  "draws m \<Longrightarrow> draws n \<Longrightarrow> draws (if b then m else n)"
  "(\<And>v. draws (f v)) \<Longrightarrow> draws (with_volume sid d f)"
  "(\<And>a b. draws (k a b)) \<Longrightarrow> draws (case q of (a, b) \<Rightarrow> k a b)"
  "(\<And>k. draws (l1 k)) \<Longrightarrow> draws l2 \<Longrightarrow> draws l3 \<Longrightarrow> draws (case r of Written k \<Rightarrow> l1 k | Failed \<Rightarrow> l2 | Undone \<Rightarrow> l3)"
  by (auto simp: draws_def with_volume_def intro: later_refl split: option.splits prod.splits write_result.splits)

lemma draws_write [draw]: "draws (gcf_write_file Pr sid h off d)"
proof -
  have o: "draws (on_handle sid h (\<lambda>f. doWrite_file Pr be f d off))" for be
    unfolding on_handle_def
  proof (intro draw, unfold draws_def, intro allI impI)
    fix f w x w' assume "go_bind (doWrite_file Pr be f d off (w_os w) (w_rng w)) (\<lambda>(x, f', s, r).
      bindw (put_handle sid h f') (\<lambda>_. ret x) (w\<lparr>w_os := s, w_rng := r\<rparr>)) = Ret (x, w')"
    then obtain y f' s r where y: "doWrite_file Pr be f d off (w_os w) (w_rng w) = Ret (y, f', s, r)"
      "bindw (put_handle sid h f') (\<lambda>_. ret y) (w\<lparr>w_os := s, w_rng := r\<rparr>) = Ret (x, w')"
      by (auto simp: go_bind_eq_Ret)
    have "draws (bindw (put_handle sid h f') (\<lambda>_. ret y))" by (intro draw)
    from drawsD [OF this y(2)] later_doWrite_file [OF y(1)] show "later (w_rng w) (w_rng w')"
      using later_trans by simp
  qed
  show ?thesis unfolding gcf_write_file_def with_rlock_def doWrite_def gcf_close_file_def by (intro draw o)
qed

section \<open>Putting data into a file\<close>

text \<open>One chunk written at the end of what has been written.\<close>

lemma write_chunk:
  assumes "prims_ok Pr" "be_ok be" and o: "opened Pr be w sid h f i c p" and off: "unat off \<le> length p"
    and d: "length d \<le> chunk" and b: "unat off + length d \<le> 2 ^ 56"
    and g: "fine (IVLen (cryptoCore be)) (w_rng w)" "quiet (w_os w)" and ne: "d \<noteq> []"
  obtains w' fid c' where "gcf_write_file Pr sid h off d w = Ret (of_nat (length d), w')"
    "opened Pr be w' sid h (f\<lparr>file_ID := fid\<rparr>) i c' (overwrite (unat off) d p)"
    "fine (IVLen (cryptoCore be)) (w_rng w')" "quiet (w_os w')" "only_handle sid h w w'" "only_file i (w_os w) (w_os w')"
proof -
  have gap: "length p mod BS be = 0 \<or> unat off div BS be \<le> length p div BS be"
    using off by (simp add: div_le_mono)
  have l: "length d \<le> MAX_KERNEL_WRITE" using d by (simp add: chunk_def MAX_KERNEL_WRITE_def)
  obtain w' fid c' where w: "gcf_write_file Pr sid h off d w = Ret (of_nat (length d), w')"
    "opened Pr be w' sid h (f\<lparr>file_ID := fid\<rparr>) i c' (overwrite (unat off) d p)"
    "only_handle sid h w w'" "only_file i (w_os w) (w_os w')"
    using gcf_write_file_spec [OF assms(1-3) ne l b gap fine_fresh [OF g(1)] g(2)] by metis
  have "fine (IVLen (cryptoCore be)) (w_rng w')" using fine_later [OF g(1) drawsD [OF draws_write w(1)]] .
  moreover have "quiet (w_os w')" using only_file_quiet [OF w(4)] g(2) by simp
  ultimately show ?thesis using that w by blast
qed

lemma overwrite_next:
  assumes "a \<le> length p"
  shows "overwrite (a + length d) e (overwrite a d p) = overwrite a (d @ e) p"
  using assms by (cases "d = []"; cases "e = []") (simp_all add: overwrite_def ac_simps)

text \<open>What has happened between two states of the program that copy into a handle.\<close>

definition copied :: "int \<Rightarrow> int \<Rightarrow> nat \<Rightarrow> proc \<Rightarrow> proc \<Rightarrow> bool" where
  "copied vid fh i pr pr' \<longleftrightarrow> only_handle vid fh (p_lib pr) (p_lib pr') \<and>
     only_file i (w_os (p_lib pr)) (w_os (p_lib pr')) \<and> p_out pr' = p_out pr"

lemma copied_trans: "copied vid fh i pr pr' \<Longrightarrow> copied vid fh i pr' pr'' \<Longrightarrow> copied vid fh i pr pr''"
  by (auto simp: copied_def intro: only_handle_trans only_file_trans)

definition ready :: "prims \<Rightarrow> contentEnc \<Rightarrow> int \<Rightarrow> int \<Rightarrow> File \<Rightarrow> nat \<Rightarrow> bytes \<Rightarrow> proc \<Rightarrow> bool" where
  "ready Pr be vid fh f i p pr \<longleftrightarrow> (\<exists>fid c. opened Pr be (p_lib pr) vid fh (f\<lparr>file_ID := fid\<rparr>) i c p) \<and>
     fine (IVLen (cryptoCore be)) (w_rng (p_lib pr)) \<and> quiet (w_os (p_lib pr))"

lemma write_step:
  assumes "prims_ok Pr" "be_ok be" "ready Pr be vid fh f i p pr" "n \<le> length p"
    "d \<noteq> []" "length d \<le> chunk" "n + length d \<le> 2 ^ 56"
  obtains pr' where "on_lib (gcf_write_file Pr vid fh (of_nat n) d) pr = Ret (Done (of_nat (length d)), pr')"
    "ready Pr be vid fh f i (overwrite n d p) pr'" "copied vid fh i pr pr'" "p_in pr' = p_in pr" "p_in_fails pr' = p_in_fails pr"
proof -
  have n: "unat (of_nat n :: uint64) = n" using assms(7) by (simp add: unat_of_nat)
  obtain fid c where o: "opened Pr be (p_lib pr) vid fh (f\<lparr>file_ID := fid\<rparr>) i c p"
    "fine (IVLen (cryptoCore be)) (w_rng (p_lib pr))" "quiet (w_os (p_lib pr))"
    using assms(3) by (auto simp: ready_def)
  obtain w' fid' c' where w: "gcf_write_file Pr vid fh (of_nat n) d (p_lib pr) = Ret (of_nat (length d), w')"
    "opened Pr be w' vid fh (f\<lparr>file_ID := fid, file_ID := fid'\<rparr>) i c' (overwrite n d p)"
    "fine (IVLen (cryptoCore be)) (w_rng w')" "quiet (w_os w')" "only_handle vid fh (p_lib pr) w'" "only_file i (w_os (p_lib pr)) (w_os w')"
    using write_chunk [OF assms(1,2) o(1) _ assms(6) _ o(2,3) assms(5), of "of_nat n"] assms(4,7) unfolding n by metis
  show ?thesis
    by (rule that [of "pr\<lparr>p_lib := w'\<rparr>"]) (use w in \<open>auto simp: on_lib_def ready_def copied_def\<close>)
qed

lemma unat_chunk: "n \<le> chunk \<Longrightarrow> unat (of_nat n :: uint32) = n"
  by (simp add: unat_of_nat chunk_def)

lemma write_step_cmd:
  assumes "prims_ok Pr" "be_ok be" "ready Pr be vid fh f i p pr" "n \<le> length p"
    "length d \<le> chunk" "n + length d \<le> 2 ^ 56"
  obtains pr' where "(if length d > 0
       then bindc (on_lib (gcf_write_file Pr vid fh (of_nat n) d)) (\<lambda>w.
         if unat w \<noteq> length d then bindc (on_lib (gcf_close_file vid fh)) (\<lambda>_. die) else retc ())
       else retc ()) pr = Ret (Done (), pr')"
    "ready Pr be vid fh f i (overwrite n d p) pr'" "copied vid fh i pr pr'" "p_in pr' = p_in pr" "p_in_fails pr' = p_in_fails pr"
proof (cases "d = []")
  case True
  then show ?thesis using assms(3) by (intro that [of pr]) (auto simp: retc_def copied_def overwrite_def)
next
  case False
  obtain pr' where pr': "on_lib (gcf_write_file Pr vid fh (of_nat n) d) pr = Ret (Done (of_nat (length d)), pr')"
    "ready Pr be vid fh f i (overwrite n d p) pr'" "copied vid fh i pr pr'" "p_in pr' = p_in pr" "p_in_fails pr' = p_in_fails pr"
    using write_step [OF assms(1-4) False assms(5,6)] by metis
  have "(if length d > 0
       then bindc (on_lib (gcf_write_file Pr vid fh (of_nat n) d)) (\<lambda>w.
         if unat w \<noteq> length d then bindc (on_lib (gcf_close_file vid fh)) (\<lambda>_. die) else retc ())
       else retc ()) pr = Ret (Done (), pr')"
    using False pr'(1) unat_chunk [OF assms(5)] by (simp add: bindc_def retc_def)
  then show ?thesis using that pr'(2-5) by blast
qed

lemma put_loop_run:
  assumes "prims_ok Pr" "be_ok be" "ready Pr be vid fh f i p pr" "n \<le> length p" "n + length (p_in pr) \<le> 2 ^ 56"
    "length (p_in pr) < k" "\<not> p_in_fails pr"
  shows "\<exists>pr'. put_loop k Pr vid fh (of_nat n) pr = Ret (Done (of_nat (n + length (p_in pr))), pr') \<and>
    ready Pr be vid fh f i (overwrite n (p_in pr) p) pr' \<and> copied vid fh i pr pr'"
  using assms(3-7)
proof (induction k arbitrary: n p pr)
  case (Suc k)
  define d where "d = take chunk (p_in pr)"
  define pr0 where "pr0 = pr\<lparr>p_in := drop chunk (p_in pr)\<rparr>"
  have d: "length d \<le> chunk" "n + length d \<le> 2 ^ 56" using Suc.prems(3) by (simp_all add: d_def)
  have r0: "ready Pr be vid fh f i p pr0" "copied vid fh i pr pr0"
    using Suc.prems(1) by (simp_all add: ready_def copied_def pr0_def)
  have R: "ReadFull chunk pr = Ret (Done (d, if chunk \<le> length (p_in pr) then None else Some False), pr0)"
    using Suc.prems(5) by (simp add: ReadFull_def d_def pr0_def)
  obtain pr1 where pr1: "(if length d > 0
       then bindc (on_lib (gcf_write_file Pr vid fh (of_nat n) d)) (\<lambda>w.
         if unat w \<noteq> length d then bindc (on_lib (gcf_close_file vid fh)) (\<lambda>_. die) else retc ())
       else retc ()) pr0 = Ret (Done (), pr1)"
    "ready Pr be vid fh f i (overwrite n d p) pr1" "copied vid fh i pr0 pr1" "p_in pr1 = p_in pr0" "p_in_fails pr1 = p_in_fails pr0"
    by (rule write_step_cmd [OF assms(1,2) r0(1) Suc.prems(2) d])
  have step: "put_loop (Suc k) Pr vid fh (of_nat n) pr =
      (if chunk \<le> length (p_in pr) then put_loop k Pr vid fh (of_nat (n + length d)) pr1
       else Ret (Done (of_nat (n + length d)), pr1))"
    unfolding put_loop.simps bindc_def R go_bind.simps prod.case ending.case pr1(1) Let_def by (simp add: retc_def)
  have c: "copied vid fh i pr pr1" using copied_trans r0(2) pr1(3) .
  show ?case
  proof (cases "chunk \<le> length (p_in pr)")
    case True
    have in1: "p_in pr1 = drop chunk (p_in pr)" "\<not> p_in_fails pr1" using pr1(4,5) Suc.prems(5) by (simp_all add: pr0_def)
    have l: "length d = chunk" "chunk > 0" using True by (simp_all add: d_def chunk_def)
    have "n + length d \<le> length (overwrite n d p)" using Suc.prems(2) l by (auto simp: overwrite_def)
    moreover have "n + length d + length (p_in pr1) \<le> 2 ^ 56" "length (p_in pr1) < k"
      using in1 l True Suc.prems(3,4) by simp_all
    ultimately obtain pr2 where "put_loop k Pr vid fh (of_nat (n + length d)) pr1 = Ret (Done (of_nat (n + length d + length (p_in pr1))), pr2)"
      "ready Pr be vid fh f i (overwrite (n + length d) (p_in pr1) (overwrite n d p)) pr2" "copied vid fh i pr1 pr2"
      using Suc.IH [OF pr1(2) _ _ _ in1(2)] by blast
    moreover have "overwrite (n + length d) (p_in pr1) (overwrite n d p) = overwrite n (p_in pr) p"
      using overwrite_next [OF Suc.prems(2), of d "p_in pr1"] by (simp add: in1 d_def)
    moreover have "n + length d + length (p_in pr1) = n + length (p_in pr)" using in1 l True by simp
    ultimately show ?thesis using step True copied_trans [OF c] by auto
  next
    case False
    then have "d = p_in pr" by (simp add: d_def)
    then show ?thesis using step False pr1(2) c by auto
  qed
qed simp

text \<open>\<open>put\<close> stores its input from the start of the file and keeps what lies behind.\<close>

lemma put_file_run:
  assumes "prims_ok Pr" "be_ok be" "ready Pr be vid fh f i p pr" "length (p_in pr) \<le> 2 ^ 56" "\<not> p_in_fails pr"
  shows "\<exists>pr'. put_file Pr vid fh pr = Ret (Done (of_nat (length (p_in pr))), pr') \<and>
    ready Pr be vid fh f i (p_in pr @ drop (length (p_in pr)) p) pr' \<and> copied vid fh i pr pr'"
proof -
  have "overwrite 0 (p_in pr) p = p_in pr @ drop (length (p_in pr)) p" by (simp add: overwrite_def)
  then show ?thesis
    using put_loop_run [OF assms(1-3), of 0 "Suc (length (p_in pr))"] assms(4,5) by (simp add: put_file_def)
qed

section \<open>Encrypting a file\<close>

text \<open>The descriptor \<open>fd\<close> is at position \<open>n\<close> of a source file other than inode \<open>i\<close>.\<close>

definition source :: "os \<Rightarrow> int \<Rightarrow> nat \<Rightarrow> bytes \<Rightarrow> nat \<Rightarrow> bool" where
  "source s fd i src n \<longleftrightarrow> (\<exists>e. get_fd s fd = Some e \<and> of_pos e = n \<and> of_ino e \<noteq> i \<and>
     inode_node (inodes s ! of_ino e) = RegF src)"

lemma read_source:
  assumes "source s fd i src n" "quiet s"
  obtains s' where "File_Read fd chunk s = ((take chunk (drop n src), if drop n src = [] then Some EOF else None), s')"
    "source s' fd i src (n + length (take chunk (drop n src)))" "quiet s'" "inodes s' = inodes s"
    "\<forall>fd'. fd' \<noteq> fd \<longrightarrow> 0 \<le> fd' \<longrightarrow> get_fd s' fd' = get_fd s fd'"
proof -
  obtain e where e: "get_fd s fd = Some e" "of_pos e = n" "of_ino e \<noteq> i" "inode_node (inodes s ! of_ino e) = RegF src"
    using assms(1) by (auto simp: source_def)
  obtain x s1 where x: "next_fault (interrupted s) = (x, s1)" by (cases "next_fault (interrupted s)")
  then obtain fs where s1: "s1 = s\<lparr>faults := fs\<rparr>" "set fs \<subseteq> set (faults s)" "x = None"
    using next_fault_interrupted [OF x] assms(2) by blast
  define got where "got = take chunk (drop n src)"
  have "range_of n chunk src = got" by (simp add: range_of_def got_def)
  moreover have "got = [] \<longleftrightarrow> drop n src = []" by (simp add: got_def chunk_def)
  ultimately have r: "File_Read fd chunk s = ((got, if drop n src = [] then Some EOF else None), set_pos fd e (n + length got) s1)"
    using e x s1(3) by (simp add: File_Read_def Let_def chunk_def)
  have g: "get_fd (set_pos fd e m s1) fd = Some (e\<lparr>of_pos := m\<rparr>)" for m
    using e(1) by (auto simp: s1(1) set_pos_def get_fd_def split: if_splits)
  have A: "source (set_pos fd e (n + length got) s1) fd i src (n + length got)"
    using e g [of "n + length got"] by (auto simp: source_def s1(1))
  have B: "quiet (set_pos fd e (n + length got) s1)" using assms(2) s1 by auto
  have C: "\<forall>fd'. fd' \<noteq> fd \<longrightarrow> 0 \<le> fd' \<longrightarrow> get_fd (set_pos fd e (n + length got) s1) fd' = get_fd s fd'"
    using e(1) by (auto simp: s1(1) set_pos_def get_fd_def split: if_splits)
  show ?thesis
    by (rule that [OF r [unfolded got_def] A [unfolded got_def] B [unfolded got_def] _ C [unfolded got_def]]) (simp add: s1(1))
qed

lemma opened_same_file:
  assumes "opened Pr be w vid fh f i c p" "inodes s' = inodes (w_os w)" "get_fd s' (file_fd f) = get_fd (w_os w) (file_fd f)"
  shows "opened Pr be (w\<lparr>w_os := s'\<rparr>) vid fh f i c p"
  using assms by (auto simp: opened_def file_at_def)

lemma source_only_file: "only_file i s s' \<Longrightarrow> source s fd i src n \<Longrightarrow> source s' fd i src n"
proof -
  assume o: "only_file i s s'" and src: "source s fd i src n"
  then have "get_fd s' fd = get_fd s fd" by (simp add: get_fd_def only_file_def)
  then show ?thesis using o src by (auto simp: source_def only_file_def)
qed

definition others_kept :: "nat \<Rightarrow> os \<Rightarrow> os \<Rightarrow> bool" where
  "others_kept i s s' \<longleftrightarrow> length (inodes s') = length (inodes s) \<and> (\<forall>j. j \<noteq> i \<longrightarrow> inodes s' ! j = inodes s ! j)"

lemma others_kept_trans: "others_kept i s s' \<Longrightarrow> others_kept i s' s'' \<Longrightarrow> others_kept i s s''"
  by (auto simp: others_kept_def)

lemma copy_in_run:
  assumes "prims_ok Pr" "be_ok be" "ready Pr be vid fh f i p pr" "source (w_os (p_lib pr)) fd i src n"
    "n \<le> length p" "n \<le> length src" "length src \<le> 2 ^ 56" "fd \<noteq> file_fd f" "0 \<le> file_fd f"
  shows "\<exists>pr'. copy_in Pr vid fh fd (of_nat n) pr = Ret (Done (), pr') \<and>
    ready Pr be vid fh f i (overwrite n (drop n src) p) pr' \<and>
    others_kept i (w_os (p_lib pr)) (w_os (p_lib pr')) \<and> p_out pr' = p_out pr"
  using assms(3-7)
proof (induction "length src - n" arbitrary: n p pr rule: less_induct)
  case less
  define d where "d = take chunk (drop n src)"
  have q: "quiet (w_os (p_lib pr))" using less.prems(1) by (simp add: ready_def)
  obtain s where s: "File_Read fd chunk (w_os (p_lib pr)) = ((d, if drop n src = [] then Some EOF else None), s)"
    "source s fd i src (n + length d)" "quiet s" "inodes s = inodes (w_os (p_lib pr))"
    "\<forall>fd'. fd' \<noteq> fd \<longrightarrow> 0 \<le> fd' \<longrightarrow> get_fd s fd' = get_fd (w_os (p_lib pr)) fd'"
    using read_source [OF less.prems(2) q] unfolding d_def by metis
  define pr0 where "pr0 = pr\<lparr>p_lib := (p_lib pr)\<lparr>w_os := s\<rparr>\<rparr>"
  have r0: "ready Pr be vid fh f i p pr0"
  proof -
    obtain fid c where o: "opened Pr be (p_lib pr) vid fh (f\<lparr>file_ID := fid\<rparr>) i c p" using less.prems(1) by (auto simp: ready_def)
    have "get_fd s (file_fd f) = get_fd (w_os (p_lib pr)) (file_fd f)" using s(5) assms(8,9) by auto
    then have "opened Pr be (p_lib pr0) vid fh (f\<lparr>file_ID := fid\<rparr>) i c p"
      using opened_same_file [OF o s(4)] by (simp add: pr0_def)
    then show ?thesis using less.prems(1) s(3) by (auto simp: ready_def pr0_def)
  qed
  have R: "on_os (\<lambda>s. Ret (File_Read fd chunk s)) pr = Ret (Done (d, if drop n src = [] then Some EOF else None), pr0)"
    by (simp add: on_os_def on_lib_def lift_os_def s(1) pr0_def)
  have d: "length d \<le> chunk" "n + length d \<le> length src" using less.prems(4) by (auto simp: d_def)
  obtain pr1 where pr1: "(if length d > 0
       then bindc (on_lib (gcf_write_file Pr vid fh (of_nat n) d)) (\<lambda>w.
         if unat w \<noteq> length d then bindc (on_lib (gcf_close_file vid fh)) (\<lambda>_. die) else retc ())
       else retc ()) pr0 = Ret (Done (), pr1)"
    "ready Pr be vid fh f i (overwrite n d p) pr1" "copied vid fh i pr0 pr1" "p_in pr1 = p_in pr0" "p_in_fails pr1 = p_in_fails pr0"
    by (rule write_step_cmd [OF assms(1,2) r0 less.prems(3) d(1) order_trans [OF d(2) less.prems(5)]])
  have o1: "others_kept i (w_os (p_lib pr)) (w_os (p_lib pr1))" "p_out pr1 = p_out pr"
    using pr1(3) by (auto simp: copied_def only_file_def others_kept_def pr0_def s(4))
  have u: "unat (of_nat m :: uint64) = m" if "m \<le> length src" for m using that less.prems(5) by (simp add: unat_of_nat)
  have step: "copy_in Pr vid fh fd (of_nat n) pr = (if drop n src = [] then Ret (Done (), pr1)
      else if n < n + length d then copy_in Pr vid fh fd (of_nat (n + length d)) pr1 else Hang)"
    using u [OF less.prems(4)] u [OF d(2)]
    by (subst copy_in.simps) (unfold bindc_def R go_bind.simps prod.case ending.case pr1(1), simp add: retc_def)
  show ?case
  proof (cases "drop n src = []")
    case True
    then have "d = []" by (simp add: d_def)
    then show ?thesis using step True pr1(2) o1 by (auto simp: overwrite_def)
  next
    case False
    then have l: "0 < length d" by (simp add: d_def chunk_def)
    have m: "length src - (n + length d) < length src - n" using l d(2) by linarith
    have "n + length d \<le> length (overwrite n d p)" using less.prems(3) l by (auto simp: overwrite_def)
    moreover have "source (w_os (p_lib pr1)) fd i src (n + length d)"
      using source_only_file [OF _ s(2), of "w_os (p_lib pr1)"] pr1(3) by (simp add: copied_def pr0_def)
    ultimately obtain pr2 where pr2: "copy_in Pr vid fh fd (of_nat (n + length d)) pr1 = Ret (Done (), pr2)"
      "ready Pr be vid fh f i (overwrite (n + length d) (drop (n + length d) src) (overwrite n d p)) pr2"
      "others_kept i (w_os (p_lib pr1)) (w_os (p_lib pr2))" "p_out pr2 = p_out pr1"
      using less.hyps [OF _ pr1(2) _ _ d(2) less.prems(5)] m by blast
    have "d @ drop (n + length d) src = drop n src"
      by (simp add: d_def min_def) (metis append_take_drop_id drop_drop add.commute)
    then show ?thesis
      using step False l pr2 o1 others_kept_trans overwrite_next [OF less.prems(3), of d "drop (n + length d) src"] by auto
  qed
qed

end
