(* ===== verification/FileLaws.thy ===== *)
theory FileLaws
  imports HandleOps
begin

text \<open>
  What the file operations do outside the conditions of \<open>HandleOps\<close>: empty requests, a
  handle that keeps the ID of a header that is gone, closing handles, and the lock.
\<close>

section \<open>Empty requests\<close>

lemma ExplodePlainRange_empty [simp]: "ExplodePlainRange be off 0 = []"
  by (subst ExplodePlainRange.simps) simp

lemma JointCiphertextRange_Nil [simp]: "JointCiphertextRange be [] = Panic OutOfRange"
  by (simp add: JointCiphertextRange_def)

lemma doRead_empty:
  assumes "file_ID f = Some x"
  shows "doRead P be f dst off 0 s = Panic OutOfRange"
  using assms by (simp add: doRead_def Let_def)

lemma doWrite_file_empty:
  assumes "file_ID f = Some x"
  shows "doWrite_file P be f [] off s r = Panic OutOfRange"
  using assms by (simp add: doWrite_file_def write_blocks_def Let_def)

text \<open>The lock around an operation that does not return.\<close>

lemma with_rlock_enter:
  assumes "volume_of w sid = Some v" "table_lookup (fileHandles v) h = Some f"
  obtains w1 where "with_rlock sid h m w = go_bind (m w1) (\<lambda>(x, w2). bindw (get_handle sid h) (\<lambda>f'.
       bindw (put_handle sid h (f'\<lparr>fdReaders := fdReaders f' - 1\<rparr>)) (\<lambda>_. ret x)) w2)"
    "volume_of w1 sid = Some (v\<lparr>fileHandles := AList.update h (f\<lparr>fdReaders := fdReaders f + 1\<rparr>) (fileHandles v)\<rparr>)"
    "handle_of w1 sid h = Some (f\<lparr>fdReaders := fdReaders f + 1\<rparr>)" "w_os w1 = w_os w" "w_rng w1 = w_rng w"
proof -
  let ?f = "f\<lparr>fdReaders := fdReaders f + 1\<rparr>"
  define w1 where "w1 = set_volume sid (v\<lparr>fileHandles := AList.update h ?f (fileHandles v)\<rparr>) w"
  have "handle_of w sid h = Some f" using assms by (simp add: handle_of_def)
  then have "with_rlock sid h m w = go_bind (m w1) (\<lambda>(x, w2). bindw (get_handle sid h) (\<lambda>f'.
       bindw (put_handle sid h (f'\<lparr>fdReaders := fdReaders f' - 1\<rparr>)) (\<lambda>_. ret x)) w2)"
    using assms(1) by (simp add: with_rlock_def bindw_def get_handle_def put_handle_def modify_volume_def w1_def)
  then show thesis
    by (rule that) (simp_all add: w1_def handle_of_def tbl.lookup_add)
qed

lemma with_rlock_stuck:
  assumes "volume_of w sid = Some v" "table_lookup (fileHandles v) h = Some f"
    and "\<And>w1. volume_of w1 sid = Some (v\<lparr>fileHandles := AList.update h (f\<lparr>fdReaders := fdReaders f + 1\<rparr>) (fileHandles v)\<rparr>) \<Longrightarrow>
      handle_of w1 sid h = Some (f\<lparr>fdReaders := fdReaders f + 1\<rparr>) \<Longrightarrow> w_os w1 = w_os w \<Longrightarrow> w_rng w1 = w_rng w \<Longrightarrow> m w1 = r"
    and "r = Panic p \<or> r = Hang"
  shows "with_rlock sid h m w = r"
proof -
  obtain w1 where w1: "with_rlock sid h m w = go_bind (m w1) (\<lambda>(x, w2). bindw (get_handle sid h) (\<lambda>f'.
       bindw (put_handle sid h (f'\<lparr>fdReaders := fdReaders f' - 1\<rparr>)) (\<lambda>_. ret x)) w2)"
    "volume_of w1 sid = Some (v\<lparr>fileHandles := AList.update h (f\<lparr>fdReaders := fdReaders f + 1\<rparr>) (fileHandles v)\<rparr>)"
    "handle_of w1 sid h = Some (f\<lparr>fdReaders := fdReaders f + 1\<rparr>)" "w_os w1 = w_os w" "w_rng w1 = w_rng w"
    by (rule with_rlock_enter [OF assms(1,2)])
  then show ?thesis using assms(3) [of w1] assms(4) by auto
qed

lemma empty_requests_panic:
  assumes "volume_of w sid = Some v" "table_lookup (fileHandles v) h = Some f" "file_ID f = Some x"
  shows "gcf_write_file P sid h off [] w = Panic OutOfRange" "gcf_read_file P sid h off [] w = Panic OutOfRange"
proof -
  let ?w = "bindw (doWrite P sid v h [] off) (\<lambda>(n, _). ret n)"
  have "with_rlock sid h ?w w = Panic OutOfRange"
    by (rule with_rlock_stuck [OF assms(1,2)])
      (use assms(3) in \<open>simp_all add: doWrite_def on_handle_def bindw_def get_handle_def doWrite_file_empty\<close>)
  then show "gcf_write_file P sid h off [] w = Panic OutOfRange"
    using assms(1) by (simp add: gcf_write_file_def with_volume_def)
  let ?r = "bindw (read_handle P sid v h off 0) (\<lambda>r. case r of
      None \<Rightarrow> ret (0, []) | Some out \<Rightarrow> ret (of_nat (length out), out))"
  have "with_rlock sid h ?r w = Panic OutOfRange"
    by (rule with_rlock_stuck [OF assms(1,2)])
      (use assms(3) in \<open>simp_all add: read_handle_def on_handle_def bindw_def get_handle_def doRead_empty\<close>)
  then show "gcf_read_file P sid h off [] w = Panic OutOfRange"
    using assms(1) by (simp add: gcf_read_file_def with_volume_def)
qed

section \<open>What a function on a file leaves alone\<close>

definition same_file :: "File \<Rightarrow> File \<Rightarrow> bool" where
  "same_file f f' \<longleftrightarrow> file_fd f' = file_fd f \<and> file_path f' = file_path f \<and> fdReaders f' = fdReaders f"

lemma same_file_simps [simp]: "same_file f f" "same_file f (f\<lparr>file_ID := x\<rparr>)" "same_file (f\<lparr>file_ID := x\<rparr>) g = same_file f g"
  by (simp_all add: same_file_def)

lemma same_file_trans: "same_file f f' \<Longrightarrow> same_file f' f'' \<Longrightarrow> same_file f f''"
  by (simp add: same_file_def)

lemma doRead_same:
  assumes "doRead P be f dst off len s = Ret (x, f', s')"
  shows "same_file f f'"
  using assms by (auto simp: doRead_def Let_def go_bind_eq_Ret split: if_splits sum.splits prod.splits option.splits)

lemma toEncrypt_loop_same:
  assumes "toEncrypt_loop P be f bs d s = Ret (x, f', s')"
  shows "same_file f f'"
  using assms
proof (induction bs arbitrary: f d s x f' s')
  case (Cons b bs)
  from Cons.prems obtain bd f1 s1 where 1: "(if IsPartial be b
           then go_bind (doRead P be f [] (BlockPlainOff be b) (plainBS be) s) (\<lambda>(oldData, f1, s1).
             case oldData of None \<Rightarrow> Ret (None, f1, s1)
             | Some old \<Rightarrow> go_bind (MergeBlocks be old (take (nat (go_int (Length b))) d) (go_int (Skip b)))
                 (\<lambda>merged. Ret (Some merged, f1, s1)))
           else Ret (Some (take (nat (go_int (Length b))) d), f, s)) = Ret (bd, f1, s1)"
    and 2: "(case bd of None \<Rightarrow> Ret (None, f1, s1)
           | Some v \<Rightarrow> go_bind (toEncrypt_loop P be f1 bs (drop (nat (go_int (Length b))) d) s1) (\<lambda>(vs, f2, s2).
               Ret (map_option ((#) v) vs, f2, s2))) = Ret (x, f', s')"
    by (auto simp: Let_def go_bind_eq_Ret)
  have "same_file f f1"
    using 1 by (auto simp: go_bind_eq_Ret split: if_splits option.splits dest: doRead_same)
  moreover have "same_file f1 f'"
    using 2 by (auto simp: go_bind_eq_Ret split: option.splits dest: Cons.IH)
  ultimately show ?case by (rule same_file_trans)
qed simp

lemma write_blocks_same:
  assumes "write_blocks P be f x we d off s r = Ret (res, f', s', r')"
  shows "same_file f f'"
proof -
  define bs where "bs = ExplodePlainRange be off (of_nat (length d))"
  from assms obtain vs f1 s1 where t: "toEncrypt_loop P be f bs d s = Ret (vs, f1, s1)"
    by (auto simp: write_blocks_def Let_def bs_def go_bind_eq_Ret)
  have "f' = f1"
  proof (cases vs)
    case None
    then show ?thesis using assms t by (simp add: write_blocks_def Let_def bs_def)
  next
    case (Some v)
    then show ?thesis
      using assms t by (cases "bs = []")
        (auto simp: write_blocks_def Let_def go_bind_eq_Ret simp flip: bs_def split: if_splits option.splits prod.splits)
  qed
  then show ?thesis using toEncrypt_loop_same [OF t] by simp
qed

lemma doWrite_file_same:
  assumes "doWrite_file P be f d off s r = Ret (res, f', s', r')"
  shows "same_file f f'"
proof (cases "file_ID f")
  case None
  obtain q s1 where r: "readFileID (file_fd f) s = (q, s1)" by (cases "readFileID (file_fd f) s")
  show ?thesis
  proof (cases q)
    case (Inl e)
    show ?thesis
    proof (cases "e = EOF")
      case True
      then obtain idr s2 r1 where c: "createHeader (file_fd f) s1 r = Ret (idr, s2, r1)"
        using assms None r Inl by (auto simp: doWrite_file_def go_bind_eq_Ret)
      show ?thesis
        using assms None r Inl True c write_blocks_same [where f = "f\<lparr>file_ID := y\<rparr>" for y]
        by (cases idr) (auto simp: doWrite_file_def)
    qed (use assms None r Inl in \<open>simp add: doWrite_file_def\<close>)
  qed (use assms None r write_blocks_same [where f = "f\<lparr>file_ID := y\<rparr>" for y] in \<open>auto simp: doWrite_file_def\<close>)
qed (use assms write_blocks_same in \<open>auto simp: doWrite_file_def\<close>)

section \<open>One block\<close>

lemma explode_one_block:
  assumes "be_ok be" "length d = BS be"
  obtains b where "ExplodePlainRange be 0 (of_nat (length d)) = [b]" "unat (BlockNo b) = 0" "unat (Skip b) = 0"
    "unat (Length b) = BS be"
proof -
  note B = be_okD [OF assms(1)]
  have l: "unat (of_nat (length d) :: uint64) = BS be" using assms(2) B(5) by simp
  have "map ib_nat (ExplodePlainRange be 0 (of_nat (length d))) = explode (BS be) 0 (BS be)"
    using ExplodePlainRange_nat [of be 0 "of_nat (length d)"] B(5,6) l by simp
  also have "\<dots> = [(0, 0, BS be)]" using explode_last [of "BS be" "BS be" 0] B(3) by simp
  finally show thesis by (auto simp: ib_nat_def intro: that)
qed

text \<open>A write of one whole block at the start of a file encrypts it without reading.\<close>

lemma one_block:
  assumes P: "prims_ok P" and be: "be_ok be" and x: "length x = headerIDLen" and d: "length d = BS be"
    and r: "nonces_ok (IVLen (cryptoCore be)) 1 r"
  obtains b c r' where "ExplodePlainRange be 0 (of_nat (length d)) = [b]" "BlockNo b = 0" "BlockCipherOff be b = 18"
    "\<forall>f s. toEncrypt_loop P be f [b] d s = Ret (Some [d], f, s)"
    "EncryptBlocks P be [d] 0 (Some x) r = Ret (c, r')" "c \<noteq> []" "length c \<le> CReqPool be" "18 + length c \<le> maxbytes"
proof -
  note B = be_okD [OF be]
  obtain b where b: "ExplodePlainRange be 0 (of_nat (length d)) = [b]" "unat (BlockNo b) = 0" "unat (Skip b) = 0"
    "unat (Length b) = BS be" by (rule explode_one_block [OF be d])
  have b0: "BlockNo b = 0" "Skip b = 0" "Length b = plainBS be" using b by (simp_all add: word_unat_eq_iff)
  have n: "nat (go_int (plainBS be)) = length d" using B(5) d by (subst nat_go_int_small) simp_all
  have k: "codec_ok (P, be, Some x)" using P be x by (simp add: codec_ok_def id_ok_def)
  have ok: "blocks_ok be [d]" using d B(3) by auto
  have r1: "nonces_ok (IVLen (cryptoCore be)) (length [d]) r" using r by simp
  obtain cs r' where cs: "EncryptBlocks P be [d] 0 (Some x) r = Ret (concat cs, r')" "sealed (P, be, Some x) 0 [d] cs"
    using EncryptBlocks_spec [OF k ok r1, of 0] by blast
  obtain c where c: "cs = [c]" "length c = BS be + OH be"
    using cs(2) d by (auto simp: sealed_def length_Suc_conv)
  show thesis
  proof (rule that [OF b(1) b0(1)])
    show "BlockCipherOff be b = 18"
      by (simp add: BlockCipherOff_def b0 BlockNoToCipherOff_def HeaderLen_def)
    show "\<forall>f s. toEncrypt_loop P be f [b] d s = Ret (Some [d], f, s)"
      using n by (simp add: b0 IsPartial_def)
    show "EncryptBlocks P be [d] 0 (Some x) r = Ret (c, r')" using cs(1) c(1) by simp
    show "c \<noteq> []" using c(2) B(3) by auto
    show "length c \<le> CReqPool be" using c(2) B(14) by simp
    have "length c \<le> 131112" using c(2) B(18) by simp
    then show "18 + length c \<le> maxbytes" by (simp add: maxbytes_def)
  qed
qed

lemma go_int_18 [simp]: "go_int 18 = 18"
  by (simp add: go_int_def)

section \<open>The lock is not re-entrant\<close>

text \<open>
  When the space for the first data of a new file cannot be reserved, the header is taken
  back and the handle is closed, while the lock of the very handle is held for reading.
\<close>

lemma undone_hangs:
  assumes v: "volume_of w sid = Some v" "volumeID v = sid" and f: "table_lookup (fileHandles v) h = Some f"
    and len: "length d \<le> MAX_KERNEL_WRITE"
    and u: "doWrite_file P (contentEnc v) (f\<lparr>fdReaders := fdReaders f + 1\<rparr>) d off (w_os w) (w_rng w)
      = Ret (Undone, f', s', r')"
  shows "gcf_write_file P sid h off d w = Hang"
proof -
  let ?f = "f\<lparr>fdReaders := fdReaders f + 1\<rparr>"
  have locked: "0 < fdReaders f'" using doWrite_file_same [OF u] by (simp add: same_file_def)
  have "with_rlock sid h (bindw (doWrite P sid v h d off) (\<lambda>(n, _). ret n)) w = Hang"
  proof (rule with_rlock_stuck [OF v(1) f])
    fix w1
    assume w1: "volume_of w1 sid = Some (v\<lparr>fileHandles := AList.update h ?f (fileHandles v)\<rparr>)"
      "handle_of w1 sid h = Some ?f" "w_os w1 = w_os w" "w_rng w1 = w_rng w"
    have u1: "doWrite_file P (contentEnc v) ?f d off (w_os w1) (w_rng w1) = Ret (Undone, f', s', r')"
      using u w1(3,4) by simp
    obtain w2 where w2: "on_handle sid h (\<lambda>f. doWrite_file P (contentEnc v) f d off) w1 = Ret (Undone, w2)"
      "handle_of w2 sid h = Some f'"
      "\<exists>v'. volume_of w2 sid = Some v' \<and> contentEnc v' = contentEnc (v\<lparr>fileHandles := AList.update h ?f (fileHandles v)\<rparr>)
         \<and> table_lookup (fileHandles v') h = Some f'"
      by (rule on_handle_run [where m = "\<lambda>f. doWrite_file P (contentEnc v) f d off", OF w1(1,2) u1])
    have "gcf_close_file sid h w2 = Hang"
      using w2(2,3) locked by (auto simp: gcf_close_file_def with_volume_def bindw_def get_handle_def)
    then show "bindw (doWrite P sid v h d off) (\<lambda>(n, _). ret n) w1 = Hang"
      using w2(1) v(2) by (simp add: bindw_def doWrite_def)
  qed simp
  then show ?thesis using v(1) len by (simp add: gcf_write_file_def with_volume_def)
qed

text \<open>A disk that has room for the header but not for the first block.\<close>

lemma no_space_undone:
  assumes P: "prims_ok P" and be: "be_ok be" and f: "file_ID f = None" "file_at s (file_fd f) i []"
    and d: "length d = BS be" and fs: "faults s = [None, None, None, Some (ENOSPC, k)]"
    and r: "fresh_ok be True 1 r"
  shows "\<exists>f' s' r'. doWrite_file P be f d 0 s r = Ret (Undone, f', s', r')"
proof -
  obtain e where e: "get_fd s (file_fd f) = Some e" "of_ino e = i" "of_wr e" "inode_node (inodes s ! i) = RegF []"
    "i < length (inodes s)"
    using f(2) by (auto simp: file_at_def split: option.splits)
  define s1 where "s1 = s\<lparr>faults := [None, None, Some (ENOSPC, k)]\<rparr>"
  have rd: "readFileID (file_fd f) s = (Inl EOF, s1)"
    using e fs by (simp add: readFileID_def File_ReadAt_def next_fault_def interrupted_def s1_def HeaderLen_def)
  obtain hd r1 where hd: "RandomHeader r = (hd, r1)" by (cases "RandomHeader r")
  have H: "r1 = snd (RandBytes headerIDLen r)" "length (fileHeader.ID hd) = headerIDLen"
    using Pack_RandomHeader [OF hd] by blast+
  obtain buf where buf: "Pack hd = Ret buf" "length buf = 18" using Pack_RandomHeader(1) [OF hd] by blast
  define s2 where "s2 = set_node i (RegF buf) (s\<lparr>faults := [Some (ENOSPC, k)]\<rparr>)"
  have wr: "File_WriteAt (file_fd f) buf 0 (s\<lparr>faults := [None, Some (ENOSPC, k)]\<rparr>) = (None, s2)"
    using e buf(2) by (auto simp: File_WriteAt_def next_fault_def interrupted_def s2_def maxbytes_def overwrite_def)
  have noE: "fst (raw_fallocate_keep_size a b c t) \<noteq> Inl EINTR" for a b c t
    by (simp add: raw_fallocate_keep_size_def split: option.splits)
  have pre: "EnospcPrealloc (file_fd f) 0 (int HeaderLen) s1 = Ret (None, s\<lparr>faults := [None, Some (ENOSPC, k)]\<rparr>)"
    unfolding EnospcPrealloc_def retryEINTR_sys [OF noE]
    using e by (simp add: s1_def sys_def interrupted_def next_fault_def raw_fallocate_keep_size_def maxbytes_def HeaderLen_def)
  have ch: "createHeader (file_fd f) s1 r = Ret (Inr (fileHeader.ID hd), s2, r1)"
    using hd buf(1) pre wr by (simp add: createHeader_def)
  have n: "nonces_ok (IVLen (cryptoCore be)) 1 r1" using r by (simp only: fresh_ok_def H if_True)
  obtain b c r' where b: "ExplodePlainRange be 0 (of_nat (length d)) = [b]" "BlockNo b = 0" "BlockCipherOff be b = 18"
    "\<forall>f s. toEncrypt_loop P be f [b] d s = Ret (Some [d], f, s)"
    "EncryptBlocks P be [d] 0 (Some (fileHeader.ID hd)) r1 = Ret (c, r')" "c \<noteq> []" "length c \<le> CReqPool be"
    "18 + length c \<le> maxbytes"
    by (rule one_block [OF P be H(2) d n])
  have pre2: "\<exists>s3. EnospcPrealloc (file_fd f) 18 (int (length c)) s2 = Ret (Some (Errno ENOSPC), s3)"
    unfolding EnospcPrealloc_def retryEINTR_sys [OF noE]
    by (simp add: s2_def set_node_def sys_def interrupted_def next_fault_def)
  then show ?thesis
    using f(1) rd ch b(1-5) by (auto simp: doWrite_file_def write_blocks_def Let_def MaxInt64_def)
qed

section \<open>A header that is gone\<close>

lemma stale_write_blocks:
  assumes P: "prims_ok P" and be: "be_ok be" and x: "length x = headerIDLen"
    and f: "file_at s (file_fd f) i []" and d: "length d = BS be" and q: "quiet s"
    and r: "nonces_ok (IVLen (cryptoCore be)) 1 r"
  shows "\<exists>s' r' ct. write_blocks P be f x False d 0 s r = Ret (Written (of_nat (length d)), f, s', r') \<and>
     file_at s' (file_fd f) i (zeros 18 @ ct) \<and> ct \<noteq> [] \<and> only_file i s s'"
proof -
  obtain b c r' where b: "ExplodePlainRange be 0 (of_nat (length d)) = [b]" "BlockNo b = 0" "BlockCipherOff be b = 18"
    "\<forall>f s. toEncrypt_loop P be f [b] d s = Ret (Some [d], f, s)"
    "EncryptBlocks P be [d] 0 (Some x) r = Ret (c, r')" "c \<noteq> []" "length c \<le> CReqPool be" "18 + length c \<le> maxbytes"
    by (rule one_block [OF P be x d r])
  have lc: "0 < int (length c)" using b(6) by (cases c) auto
  obtain er s2 where pre: "EnospcPrealloc (file_fd f) 18 (int (length c)) s = Ret (er, s2)"
    "file_at s2 (file_fd f) i []" "only_file i s s2" "quiet s \<Longrightarrow> er = None"
    using EnospcPrealloc_file [OF f _ lc, of 18] b(8) by (metis nat_int nat_numeral zero_le_numeral)
  obtain er2 c' s3 where w: "File_WriteAt (file_fd f) c 18 s2 = (er2, s3)"
    "file_at s3 (file_fd f) i c'" "only_file i s2 s3" "er2 = None \<Longrightarrow> c' = overwrite (nat 18) c []"
    "quiet s2 \<Longrightarrow> nat 18 + length c \<le> maxbytes \<Longrightarrow> er2 = None"
    using WriteAt_file [OF pre(2) _ b(6), of 18] by (metis zero_le_numeral)
  have er2: "er2 = None" using w(5) b(8) only_file_quiet [OF pre(3) q] by simp
  have "write_blocks P be f x False d 0 s r = Ret (Written (of_nat (length d)), f, s3, r')"
    using b pre(1,4) q w(1) er2 by (simp add: write_blocks_def Let_def MaxInt64_def)
  moreover have "c' = zeros 18 @ c" using w(4) [OF er2] b(6) by (simp add: overwrite_def)
  moreover have "only_file i s s3" using pre(3) w(3) by (rule only_file_trans)
  ultimately show ?thesis using w(2) b(6) by blast
qed

lemma zero_header: "\<not> has_header y (zeros 18 @ c)"
  by (simp add: has_header_def ParseHeader_def header_lens allZeroHeader_def)

text \<open>
  \<open>truncate\<close> to zero leaves the cached ID in the handle, so the next write makes no header.
\<close>

lemma truncate_zero:
  assumes o: "opened P be w sid h f i c p" and q: "quiet (w_os w)"
  obtains w' where "truncate P sid v h 0 w = Ret (True, w')" "handle_of w' sid h = Some f"
    "volume_of w' sid = volume_of w sid" "file_at (w_os w') (file_fd f) i []" "quiet (w_os w')" "w_rng w' = w_rng w"
proof -
  note O = openedD [OF o]
  obtain rr c' s1 where t: "Ftruncate (file_fd f) 0 (w_os w) = (rr, s1)" "file_at s1 (file_fd f) i c'"
    "only_file i (w_os w) s1" "rr = Inr () \<Longrightarrow> c' = resize (nat 0) c" "quiet (w_os w) \<Longrightarrow> rr = Inr ()"
    using Ftruncate_file [OF O(2), of 0] by (metis order_refl)
  have "truncate P sid v h 0 w = Ret (True, w\<lparr>w_os := s1\<rparr>)"
    using O(1) t(1) t(5) [OF q]
    by (simp add: truncate_def bindw_def get_handle_def call_os_def lift_os_def errToBool_def)
  then show thesis
    by (rule that) (use O(1) t q only_file_quiet [OF t(3) q] in \<open>simp_all add: resize_def\<close>)
qed

text \<open>A whole block written after that leaves a file that no later reader accepts.\<close>

lemma stale_write:
  assumes P: "prims_ok P" and v: "volume_of w sid = Some v" and be: "be_ok (contentEnc v)"
    and f: "handle_of w sid h = Some f" "file_ID f = Some x" "length x = headerIDLen"
    and c: "file_at (w_os w) (file_fd f) i []" and d: "length d = BS (contentEnc v)" and q: "quiet (w_os w)"
    and r: "nonces_ok (IVLen (cryptoCore (contentEnc v))) 1 (w_rng w)"
  obtains w' ct where "doWrite P sid v h d 0 w = Ret ((of_nat (length d), True), w')"
    "file_at (w_os w') (file_fd f) i (zeros 18 @ ct)" "ct \<noteq> []"
proof -
  obtain s' r' ct where b: "write_blocks P (contentEnc v) f x False d 0 (w_os w) (w_rng w)
      = Ret (Written (of_nat (length d)), f, s', r')" "file_at s' (file_fd f) i (zeros 18 @ ct)" "ct \<noteq> []"
    using stale_write_blocks [OF P be f(3) c d q r] by blast
  have m: "doWrite_file P (contentEnc v) f d 0 (w_os w) (w_rng w) = Ret (Written (of_nat (length d)), f, s', r')"
    using b(1) f(2) by (simp add: doWrite_file_def)
  obtain w' where w': "on_handle sid h (\<lambda>f. doWrite_file P (contentEnc v) f d 0) w = Ret (Written (of_nat (length d)), w')"
    "w_os w' = s'"
    by (rule on_handle_run [where m = "\<lambda>f. doWrite_file P (contentEnc v) f d 0", OF v f(1) m])
  have "doWrite P sid v h d 0 w = Ret ((of_nat (length d), True), w')"
    using w'(1) by (simp add: doWrite_def bindw_def)
  then show thesis by (rule that) (use b w'(2) in simp_all)
qed

end
