(* ===== verification/CopyOut.thy ===== *)
theory CopyOut
  imports Copying FileLaws
begin

unbundle bit_operations_syntax

text \<open>
  The loops that copy files out of a volume: \<open>cat\<close> and \<open>decryptFileToDisk\<close> deliver the whole
  plaintext of a file.
\<close>

section \<open>Reading through a handle that was opened for reading\<close>

text \<open>
  Reading does not look at the access mode of the descriptor, so a handle opened for reading
  behaves as the specification says of one that was opened for writing too.
\<close>

definition as_writable :: "int \<Rightarrow> os \<Rightarrow> os" where
  "as_writable fd s = s\<lparr>fds := map (\<lambda>k. if int k = fd then map_option (\<lambda>e. e\<lparr>of_wr := True\<rparr>) (fds s ! k) else fds s ! k)
     [0..<length (fds s)]\<rparr>"

lemma as_writable_simps [simp]:
  "inodes (as_writable fd s) = inodes s" "faults (as_writable fd s) = faults s"
  "get_fd (as_writable fd s) fd' = (if fd' = fd then map_option (\<lambda>e. e\<lparr>of_wr := True\<rparr>) (get_fd s fd') else get_fd s fd')"
  "(as_writable fd s)\<lparr>faults := fs\<rparr> = as_writable fd (s\<lparr>faults := fs\<rparr>)"
  by (auto simp: as_writable_def get_fd_def)

lemma next_fault_as_writable: "next_fault (interrupted (as_writable fd s)) = apsnd (as_writable fd) (next_fault (interrupted s))"
  by (cases "skip_eintr (faults s)") (simp_all add: next_fault_def interrupted_def)

lemma File_ReadAt_as_writable: "File_ReadAt fd n off (as_writable h s) = apsnd (as_writable h) (File_ReadAt fd n off s)"
proof (cases "get_fd s fd")
  case (Some e)
  obtain x s1 where x: "next_fault (interrupted s) = (x, s1)" by (cases "next_fault (interrupted s)")
  define e' where "e' = (if fd = h then e\<lparr>of_wr := True\<rparr> else e)"
  have g: "get_fd (as_writable h s) fd = Some e'" "of_ino e' = of_ino e" using Some by (auto simp: e'_def)
  show ?thesis
    using Some x g by (cases "inode_node (inodes s ! of_ino e)"; cases x)
      (simp_all add: File_ReadAt_def next_fault_as_writable Let_def split_beta del: as_writable_simps(3))
next
  case None
  then have "get_fd (as_writable h s) fd = None" by auto
  then show ?thesis using None by (simp add: File_ReadAt_def del: as_writable_simps(3))
qed

lemma readFileID_as_writable: "readFileID fd (as_writable h s) = apsnd (as_writable h) (readFileID fd s)"
  by (auto simp: readFileID_def File_ReadAt_as_writable split: prod.split option.split sum.split)

text \<open>Two runs that differ in the access mode only.\<close>

definition same_run :: "int \<Rightarrow> ('a \<times> 'b \<times> os) go \<Rightarrow> ('a \<times> 'b \<times> os) go \<Rightarrow> bool" where
  "same_run h m m' \<longleftrightarrow> m' = go_bind m (\<lambda>(x, f, s). Ret (x, f, as_writable h s))"

lemma same_run_simps [simp]: "same_run h (Ret (x, f, s)) (Ret (x, f, as_writable h s))" "same_run h (Panic p) (Panic p)"
  by (simp_all add: same_run_def)

lemma same_run_bind: "(\<And>x. same_run h (g x) (g' x)) \<Longrightarrow> same_run h (go_bind m g) (go_bind m g')"
  by (cases m) (simp_all add: same_run_def)

lemma same_run_read:
  "(\<And>a b s. same_run h (g a b s) (g' a b (as_writable h s))) \<Longrightarrow>
   same_run h (case x of ((a, b), s) \<Rightarrow> g a b s) (case apsnd (as_writable h) x of ((a, b), s) \<Rightarrow> g' a b s)"
  by (auto split: prod.split)

lemma same_run_if:
  "(b \<Longrightarrow> same_run h m m') \<Longrightarrow> (\<not> b \<Longrightarrow> same_run h n n') \<Longrightarrow> same_run h (if b then m else n) (if b then m' else n')"
  by simp

lemma same_run_pair:
  "(\<And>a b. same_run h (g a b) (g' a b)) \<Longrightarrow> same_run h (case q of (a, b) \<Rightarrow> g a b) (case q of (a, b) \<Rightarrow> g' a b)"
  by (cases q) simp

lemma doRead_as_writable:
  "doRead Pr be f dst off len (as_writable h s) =
     go_bind (doRead Pr be f dst off len s) (\<lambda>(x, f', s'). Ret (x, f', as_writable h s'))"
proof -
  obtain i s1 where s1: "(case file_ID f of Some i \<Rightarrow> (Inr i, s) | None \<Rightarrow> readFileID (file_fd f) s) = (i, s1)"
    by (cases "case file_ID f of Some i \<Rightarrow> (Inr i, s) | None \<Rightarrow> readFileID (file_fd f) s")
  then have s2: "(case file_ID f of Some i \<Rightarrow> (Inr i, as_writable h s) | None \<Rightarrow> readFileID (file_fd f) (as_writable h s)) = (i, as_writable h s1)"
    by (auto simp: readFileID_as_writable split: option.splits)
  have "same_run h (doRead Pr be f dst off len s) (doRead Pr be f dst off len (as_writable h s))"
    unfolding doRead_def s1 s2 Let_def File_ReadAt_as_writable prod.case
    by (cases i) (simp_all only: sum.case same_run_simps,
        (intro same_run_bind same_run_pair same_run_if same_run_read same_run_simps)+)
  then show ?thesis by (simp add: same_run_def)
qed

text \<open>The same for operations of the library.\<close>

definition with_mode :: "int \<Rightarrow> world \<Rightarrow> world" where
  "with_mode h w = w\<lparr>w_os := as_writable h (w_os w)\<rparr>"

lemma with_mode_simps [simp]:
  "w_os (with_mode h w) = as_writable h (w_os w)" "w_rng (with_mode h w) = w_rng w"
  "volume_of (with_mode h w) sid = volume_of w sid" "handle_of (with_mode h w) sid k = handle_of w sid k"
  "set_volume sid v (with_mode h w) = with_mode h (set_volume sid v w)"
  by (simp_all add: with_mode_def volume_of_def handle_of_def set_volume_def)

definition any_mode :: "'a io \<Rightarrow> bool" where
  "any_mode m \<longleftrightarrow> (\<forall>h w. m (with_mode h w) = go_bind (m w) (\<lambda>(x, w'). Ret (x, with_mode h w')))"

named_theorems mode \<open>operations that do not look at the access mode\<close>

lemma any_mode_bindw [mode]:
  assumes "any_mode m" "\<And>x. any_mode (f x)"
  shows "any_mode (bindw m f)"
  unfolding any_mode_def
proof (intro allI)
  fix h w
  show "bindw m f (with_mode h w) = go_bind (bindw m f w) (\<lambda>(x, w'). Ret (x, with_mode h w'))"
    using assms by (cases "m w") (auto simp: bindw_def any_mode_def)
qed

lemma any_mode_basic [mode]:
  "any_mode (ret x)" "any_mode (get_handle sid k)" "any_mode (put_handle sid k f)"
  by (auto simp: any_mode_def get_handle_def put_handle_def modify_volume_def deref_def split: option.split)

lemma any_mode_branch [mode]:
  "any_mode m \<Longrightarrow> any_mode n \<Longrightarrow> any_mode (if b then m else n)"
  "(\<And>v. any_mode (f v)) \<Longrightarrow> any_mode (with_volume sid d f)"
  "any_mode m \<Longrightarrow> (\<And>x. any_mode (g x)) \<Longrightarrow> any_mode (case q of None \<Rightarrow> m | Some x \<Rightarrow> g x)"
  by (auto simp: any_mode_def with_volume_def split: option.splits)

lemma any_mode_read [mode]: "any_mode (gcf_read_file Pr sid k off buf)"
proof -
  have "any_mode (read_handle Pr sid v k off len)" for v len
    unfolding read_handle_def on_handle_def
  proof (intro mode, unfold any_mode_def, intro allI)
    fix f h w
    let ?m = "\<lambda>w. go_bind (go_bind (doRead Pr (contentEnc v) f [] off len (w_os w)) (\<lambda>(out, f', s'). Ret (out, f', s', w_rng w)))
        (\<lambda>(x, f', s, r). bindw (put_handle sid k f') (\<lambda>_. ret x) (w\<lparr>w_os := s, w_rng := r\<rparr>))"
    have p: "any_mode (bindw (put_handle sid k f') (\<lambda>_. ret x))" for f' and x :: "bytes option" by (intro mode)
    have e: "(with_mode h w)\<lparr>w_os := as_writable h s, w_rng := r\<rparr> = with_mode h (w\<lparr>w_os := s, w_rng := r\<rparr>)" for s r
      by (simp add: with_mode_def)
    show "?m (with_mode h w) = go_bind (?m w) (\<lambda>(x, w'). Ret (x, with_mode h w'))"
      by (cases "doRead Pr (contentEnc v) f [] off len (w_os w)")
        (simp_all add: doRead_as_writable split_beta e p [unfolded any_mode_def, rule_format])
  qed
  then show ?thesis unfolding gcf_read_file_def with_rlock_def by (intro mode)
qed

text \<open>The handle is open, for reading at least, on a file that stands for \<open>p\<close>.\<close>

definition reads :: "prims \<Rightarrow> contentEnc \<Rightarrow> world \<Rightarrow> int \<Rightarrow> int \<Rightarrow> File \<Rightarrow> nat \<Rightarrow> bytes \<Rightarrow> bytes \<Rightarrow> bool" where
  "reads Pr be w sid h f i c p \<longleftrightarrow> opened Pr be (with_mode (file_fd f) w) sid h f i c p"

text \<open>Whatever call fails, reading delivers the whole range or nothing.\<close>

lemma reads_any:
  assumes "prims_ok Pr" "be_ok be" "reads Pr be w sid h f i c p"
    "buff \<noteq> []" "length buff \<le> MAX_KERNEL_WRITE" "unat off + length buff \<le> 2 ^ 57"
  obtains n b' w' fid where "gcf_read_file Pr sid h off buff w = Ret ((n, b'), w')"
    "reads Pr be w' sid h (f\<lparr>file_ID := fid\<rparr>) i c p" "disk (w_os w') = disk (w_os w)"
    "\<forall>fd. fd \<noteq> file_fd f \<longrightarrow> get_fd (w_os w') fd = get_fd (w_os w) fd"
    "n = 0 \<and> b' = buff \<or> n = of_nat (length (range_of (unat off) (length buff) p)) \<and> b' = overwrite 0 (range_of (unat off) (length buff) p) buff"
    "quiet (w_os w) \<longrightarrow> quiet (w_os w') \<and> n = of_nat (length (range_of (unat off) (length buff) p)) \<and>
       b' = overwrite 0 (range_of (unat off) (length buff) p) buff"
proof -
  let ?w = "with_mode (file_fd f) w"
  obtain n b' w2 fid where r: "gcf_read_file Pr sid h off buff ?w = Ret ((n, b'), w2)"
    "opened Pr be w2 sid h (f\<lparr>file_ID := fid\<rparr>) i c p" "only_handle sid h ?w w2" "only_file i (w_os ?w) (w_os w2)"
    "n = 0 \<and> b' = buff \<or> n = of_nat (length (range_of (unat off) (length buff) p)) \<and> b' = overwrite 0 (range_of (unat off) (length buff) p) buff"
    "quiet (w_os ?w) \<and> (file_ID f \<noteq> None \<or> p \<noteq> []) \<longrightarrow> n = of_nat (length (range_of (unat off) (length buff) p)) \<and>
       b' = overwrite 0 (range_of (unat off) (length buff) p) buff"
    by (rule gcf_read_file_spec [OF assms(1,2) assms(3) [unfolded reads_def] assms(4-6)])
  have nb: "n = of_nat (length (range_of (unat off) (length buff) p)) \<and> b' = overwrite 0 (range_of (unat off) (length buff) p) buff"
    if "quiet (w_os w)"
    using r(5,6) that by (cases "p = []") (auto simp: range_of_def overwrite_def)
  have "gcf_read_file Pr sid h off buff ?w = go_bind (gcf_read_file Pr sid h off buff w) (\<lambda>(x, w'). Ret (x, with_mode (file_fd f) w'))"
    using any_mode_read by (auto simp: any_mode_def)
  then obtain w' where w': "gcf_read_file Pr sid h off buff w = Ret ((n, b'), w')" "w2 = with_mode (file_fd f) w'"
    using r(1) by (cases "gcf_read_file Pr sid h off buff w") auto
  have q: "quiet (w_os w')" if "quiet (w_os w)" using only_file_quiet [OF r(4)] that w'(2) by simp
  have fds: "get_fd (w_os w2) fd = get_fd (w_os ?w) fd" for fd using r(4) by (simp add: only_file_def get_fd_def)
  have g: "\<forall>fd. fd \<noteq> file_fd f \<longrightarrow> get_fd (w_os w') fd = get_fd (w_os w) fd"
    using fds w'(2) by (metis as_writable_simps(3) with_mode_simps(1))
  have d: "disk (w_os w') = disk (w_os w)" by (rule keepsD [OF keeps_read_file w'(1)])
  have rd: "reads Pr be w' sid h (f\<lparr>file_ID := fid\<rparr>) i c p" using r(2) w'(2) by (simp add: reads_def)
  show ?thesis by (rule that [OF w'(1) rd d g r(5)]) (use nb q in blast)
qed

lemma reads_spec:
  assumes "prims_ok Pr" "be_ok be" "reads Pr be w sid h f i c p" "quiet (w_os w)"
    "buff \<noteq> []" "length buff \<le> MAX_KERNEL_WRITE" "unat off + length buff \<le> 2 ^ 57"
  obtains w' fid where
    "gcf_read_file Pr sid h off buff w = Ret ((of_nat (length (range_of (unat off) (length buff) p)),
       overwrite 0 (range_of (unat off) (length buff) p) buff), w')"
    "reads Pr be w' sid h (f\<lparr>file_ID := fid\<rparr>) i c p" "quiet (w_os w')"
    "disk (w_os w') = disk (w_os w)" "\<forall>fd. fd \<noteq> file_fd f \<longrightarrow> get_fd (w_os w') fd = get_fd (w_os w) fd"
  using reads_any [OF assms(1-3,5-7)] assms(4) by metis

section \<open>The copying loop\<close>

definition reading :: "prims \<Rightarrow> contentEnc \<Rightarrow> int \<Rightarrow> int \<Rightarrow> File \<Rightarrow> nat \<Rightarrow> bytes \<Rightarrow> bytes \<Rightarrow> proc \<Rightarrow> bool" where
  "reading Pr be vid fh f i c p pr \<longleftrightarrow>
     (\<exists>fid. reads Pr be (p_lib pr) vid fh (f\<lparr>file_ID := fid\<rparr>) i c p) \<and> quiet (w_os (p_lib pr))"

text \<open>Between two states of the program nothing happened but reading through descriptor \<open>fd\<close>.\<close>

definition read_only :: "int \<Rightarrow> proc \<Rightarrow> proc \<Rightarrow> bool" where
  "read_only fd pr pr' \<longleftrightarrow> disk (w_os (p_lib pr')) = disk (w_os (p_lib pr)) \<and>
     (\<forall>k. k \<noteq> fd \<longrightarrow> get_fd (w_os (p_lib pr')) k = get_fd (w_os (p_lib pr)) k) \<and>
     quiet (w_os (p_lib pr')) \<and> p_out pr' = p_out pr"

lemma overwrite_start: "length d \<le> length b \<Longrightarrow> take (length d) (overwrite 0 d b) = d \<and> length (overwrite 0 d b) = length b"
  by (auto simp: overwrite_def)

lemma read_step:
  assumes "prims_ok Pr" "be_ok be" "reading Pr be vid fh f i c p pr" "length buf = chunk" "n \<le> length p" "length p \<le> 2 ^ 56"
  obtains pr' where
    "on_lib (gcf_read_file Pr vid fh (of_nat n) buf) pr =
       Ret (Done (of_nat (length (take chunk (drop n p))), overwrite 0 (take chunk (drop n p)) buf), pr')"
    "reading Pr be vid fh f i c p pr'" "read_only (file_fd f) pr pr'"
proof -
  have n: "unat (of_nat n :: uint64) = n" using assms(5,6) by (simp add: unat_of_nat)
  obtain fid where o: "reads Pr be (p_lib pr) vid fh (f\<lparr>file_ID := fid\<rparr>) i c p" "quiet (w_os (p_lib pr))"
    using assms(3) by (auto simp: reading_def)
  have b: "buf \<noteq> []" "length buf \<le> MAX_KERNEL_WRITE" "unat (of_nat n :: uint64) + length buf \<le> 2 ^ 57"
    using assms(4-6) by (auto simp: n chunk_def MAX_KERNEL_WRITE_def)
  obtain w' fid' where w: "gcf_read_file Pr vid fh (of_nat n) buf (p_lib pr) =
      Ret ((of_nat (length (range_of (unat (of_nat n :: uint64)) (length buf) p)),
        overwrite 0 (range_of (unat (of_nat n :: uint64)) (length buf) p) buf), w')"
    "reads Pr be w' vid fh (f\<lparr>file_ID := fid, file_ID := fid'\<rparr>) i c p" "quiet (w_os w')"
    "disk (w_os w') = disk (w_os (p_lib pr))"
    "\<forall>fd. fd \<noteq> file_fd (f\<lparr>file_ID := fid\<rparr>) \<longrightarrow> get_fd (w_os w') fd = get_fd (w_os (p_lib pr)) fd"
    by (rule reads_spec [OF assms(1,2) o b])
  have g: "gcf_read_file Pr vid fh (of_nat n) buf (p_lib pr) =
      Ret ((of_nat (length (take chunk (drop n p))), overwrite 0 (take chunk (drop n p)) buf), w')"
    using w(1) unfolding n assms(4) range_of_def .
  show ?thesis
    by (rule that [of "pr\<lparr>p_lib := w'\<rparr>"])
      (use g w(2-5) in \<open>auto simp: on_lib_def reading_def read_only_def\<close>)
qed

text \<open>
  \<open>J k acc\<close> says what holds after the first \<open>k\<close> bytes were handed on. Reading keeps it, and
  handing on a chunk moves it forward.
\<close>

lemma read_loop_run:
  assumes "prims_ok Pr" "be_ok be" "length p \<le> 2 ^ 56"
    and stable: "\<And>k acc pr pr'. J k acc pr \<Longrightarrow> read_only (file_fd f) pr pr' \<Longrightarrow> J k acc pr'"
    and emit: "\<And>k acc d pr. J k acc pr \<Longrightarrow> reading Pr be vid fh f i c p pr \<Longrightarrow> d = take chunk (drop k p) \<Longrightarrow> d \<noteq> [] \<Longrightarrow>
      \<exists>acc' pr'. emit acc d pr = Ret (Done acc', pr') \<and> J (k + length d) acc' pr' \<and> reading Pr be vid fh f i c p pr'"
    and "reading Pr be vid fh f i c p pr" "J n acc pr" "n \<le> length p" "length buf = chunk"
  shows "\<exists>acc' pr'. read_loop emit Pr vid fh (of_nat n) buf acc pr = Ret (Done acc', pr') \<and> J (length p) acc' pr' \<and>
    reading Pr be vid fh f i c p pr'"
  using assms(6-9)
proof (induction "length p - n" arbitrary: n acc pr buf rule: less_induct)
  case less
  define d where "d = take chunk (drop n p)"
  obtain pr1 where pr1: "on_lib (gcf_read_file Pr vid fh (of_nat n) buf) pr = Ret (Done (of_nat (length d), overwrite 0 d buf), pr1)"
    "reading Pr be vid fh f i c p pr1" "read_only (file_fd f) pr pr1"
    using read_step [OF assms(1,2) less.prems(1,4,3) assms(3)] unfolding d_def by metis
  have d: "length d \<le> chunk" "n + length d \<le> length p" using less.prems(3) by (auto simp: d_def)
  have ul: "unat (of_nat (length d) :: uint32) = length d" by (rule unat_chunk) (rule d)
  have u: "unat (of_nat m :: uint64) = m" if "m \<le> length p" for m using that assms(3) by (simp add: unat_of_nat)
  have z: "(of_nat (length d) :: uint32) = 0 \<longleftrightarrow> d = []" using ul by (metis length_0_conv unat_0 unat_eq_zero)
  have o: "take (length d) (overwrite 0 d buf) = d" "length (overwrite 0 d buf) = chunk"
    using overwrite_start [of d buf] d(1) less.prems(4) by auto
  have sl: "go_slice (overwrite 0 d buf) 0 (uint (of_nat (length d) :: uint32)) = Ret d"
    using o d(1) ul by (simp add: go_slice_def uint_nat)
  have off: "(of_nat n :: uint64) + ucast (of_nat (length d) :: uint32) = of_nat (n + length d)"
  proof -
    have "(ucast (of_nat (length d) :: uint32) :: uint64) = of_nat (unat (of_nat (length d) :: uint32))" by simp
    then show ?thesis unfolding ul by simp
  qed
  have J1: "J n acc pr1" using stable [OF less.prems(2) pr1(3)] .
  show ?case
  proof (cases "d = []")
    case True
    then have "n = length p" using less.prems(3) by (simp add: d_def chunk_def)
    then show ?thesis
      using pr1 J1 True by (subst read_loop.simps) (simp add: bindc_def retc_def)
  next
    case False
    obtain acc2 pr2 where e: "emit acc d pr1 = Ret (Done acc2, pr2)" "J (n + length d) acc2 pr2" "reading Pr be vid fh f i c p pr2"
      using emit [OF J1 pr1(2) d_def False] by blast
    have m: "length p - (n + length d) < length p - n" using False d(2) by (cases d) auto
    obtain acc3 pr3 where r: "read_loop emit Pr vid fh (of_nat (n + length d)) (overwrite 0 d buf) acc2 pr2 = Ret (Done acc3, pr3)"
      "J (length p) acc3 pr3" "reading Pr be vid fh f i c p pr3"
      using less.hyps [OF m e(3,2) d(2) o(2)] by blast
    have lt: "unat (of_nat n :: uint64) < unat (of_nat (n + length d) :: uint64)"
      using u [OF less.prems(3)] u [OF d(2)] False by simp
    have "read_loop emit Pr vid fh (of_nat n) buf acc pr = Ret (Done acc3, pr3)"
      using z False by (subst read_loop.simps)
        (simp only: bindc_def pr1(1) go_bind.simps prod.case ending.case if_False go_cmd_def sl e(1) off lt if_True r(1))
    then show ?thesis using r(2,3) by blast
  qed
qed

text \<open>\<open>cat\<close> prints the file.\<close>

lemma cat_file_run:
  assumes "prims_ok Pr" "be_ok be" "reading Pr be vid fh f i c p pr" "length p \<le> 2 ^ 56"
  shows "\<exists>pr'. cat_file Pr vid fh pr = Ret (Done (), pr') \<and> p_out pr' = p_out pr @ to_string p \<and>
    reading Pr be vid fh f i c p pr'"
proof -
  define J where "J = (\<lambda>k (_ :: unit) (pr' :: proc). p_out pr' = p_out pr @ to_string (take k p))"
  have e: "\<exists>acc' pr'. (\<lambda>_ d. print (to_string d)) acc d pr1 = Ret (Done acc', pr') \<and> J (k + length d) acc' pr' \<and>
      reading Pr be vid fh f i c p pr'"
    if "J k acc pr1" "reading Pr be vid fh f i c p pr1" "d = take chunk (drop k p)" "d \<noteq> []" for k acc d pr1
  proof -
    have "take (k + length d) p = take k p @ d" using that(3) by (simp add: take_add min_def)
    then show ?thesis using that by (auto simp: print_def J_def reading_def)
  qed
  have "\<exists>acc' pr'. read_loop (\<lambda>_ d. print (to_string d)) Pr vid fh (of_nat 0) (zeros chunk) () pr = Ret (Done acc', pr') \<and>
      J (length p) acc' pr' \<and> reading Pr be vid fh f i c p pr'"
    by (rule read_loop_run [where J = J, OF assms(1,2,4) _ e assms(3)]) (auto simp: J_def read_only_def)
  then show ?thesis by (auto simp: cat_file_def J_def)
qed

text \<open>\<open>decryptFileToDisk\<close> writes the file.\<close>

definition target :: "os \<Rightarrow> int \<Rightarrow> nat \<Rightarrow> bytes \<Rightarrow> bool" where
  "target s out k d \<longleftrightarrow> (\<exists>e. get_fd s out = Some e \<and> of_pos e = length d \<and> of_wr e \<and> of_ino e = k \<and>
     k < length (inodes s) \<and> inode_node (inodes s ! k) = RegF d)"

lemma reading_other:
  assumes "reading Pr be vid fh f i c p pr" "inodes s' ! i = inodes (w_os (p_lib pr)) ! i"
    "length (inodes s') = length (inodes (w_os (p_lib pr)))"
    "get_fd s' (file_fd f) = get_fd (w_os (p_lib pr)) (file_fd f)" "quiet s'"
  shows "reading Pr be vid fh f i c p (pr\<lparr>p_lib := (p_lib pr)\<lparr>w_os := s'\<rparr>\<rparr>)"
proof -
  obtain fid where o: "opened Pr be (with_mode (file_fd f) (p_lib pr)) vid fh (f\<lparr>file_ID := fid\<rparr>) i c p"
    using assms(1) by (auto simp: reading_def reads_def)
  then have "opened Pr be (with_mode (file_fd f) ((p_lib pr)\<lparr>w_os := s'\<rparr>)) vid fh (f\<lparr>file_ID := fid\<rparr>) i c p"
    using assms(2-4) unfolding opened_def file_at_def by simp
  then show ?thesis using assms(5) by (auto simp: reading_def reads_def)
qed

lemma write_out_step:
  assumes r: "reading Pr be vid fh f i c p pr" and t: "target (w_os (p_lib pr)) out k e" and d: "d \<noteq> []"
    and m: "length e + length d \<le> maxbytes" and ne: "k \<noteq> i" "out \<noteq> file_fd f" "0 \<le> file_fd f"
  shows "\<exists>pr'. write_out out d pr = Ret (Done (), pr') \<and> target (w_os (p_lib pr')) out k (e @ d) \<and>
    reading Pr be vid fh f i c p pr'"
proof -
  let ?s = "w_os (p_lib pr)"
  obtain en where en: "get_fd ?s out = Some en" "of_pos en = length e" "of_wr en" "of_ino en = k"
    "k < length (inodes ?s)" "inode_node (inodes ?s ! k) = RegF e"
    using t by (auto simp: target_def)
  have q: "quiet ?s" using r by (simp add: reading_def)
  obtain x s1 where x: "next_fault (interrupted ?s) = (x, s1)" by (cases "next_fault (interrupted ?s)")
  then obtain fs where s1: "s1 = ?s\<lparr>faults := fs\<rparr>" "set fs \<subseteq> set (faults ?s)" "x = None"
    using next_fault_interrupted [OF x] q by blast
  have ov: "overwrite (length e) d e = e @ d" using d by (simp add: overwrite_def)
  define s' where "s' = set_pos out en (length e + length d) (set_node k (RegF (e @ d)) s1)"
  have w: "File_Write out d ?s = (None, s')"
    using en x s1(3) d m by (simp add: File_Write_def File_WriteAt_def ov s'_def)
  have g: "get_fd s' out = Some (en\<lparr>of_pos := length e + length d\<rparr>)" "get_fd s' (file_fd f) = get_fd ?s (file_fd f)"
    using en(1) ne(2,3) by (auto simp: s'_def s1(1) set_pos_def set_node_def get_fd_def split: if_splits)
  have n: "inodes s' ! i = inodes ?s ! i" "length (inodes s') = length (inodes ?s)" "quiet s'"
    "inode_node (inodes s' ! k) = RegF (e @ d)"
    using ne(1) en(5) q s1(2) by (auto simp: s'_def s1(1) set_pos_def set_node_def)
  have "write_out out d pr = Ret (Done (), pr\<lparr>p_lib := (p_lib pr)\<lparr>w_os := s'\<rparr>\<rparr>)"
    by (simp add: write_out_def bindc_def on_os_def on_lib_def lift_os_def w retc_def)
  moreover have "target s' out k (e @ d)" using g(1) n(2,4) en by (auto simp: target_def)
  ultimately show ?thesis using reading_other [OF r n(1,2) g(2) n(3)] by auto
qed

lemma decrypt_loop_run:
  assumes "prims_ok Pr" "be_ok be" "reading Pr be vid fh f i c p pr" "length p \<le> 2 ^ 56"
    "target (w_os (p_lib pr)) out k []" "k \<noteq> i" "out \<noteq> file_fd f" "0 \<le> file_fd f"
  shows "\<exists>pr'. read_loop (\<lambda>_. write_out out) Pr vid fh 0 (zeros chunk) () pr = Ret (Done (), pr') \<and>
    target (w_os (p_lib pr')) out k p \<and> reading Pr be vid fh f i c p pr'"
proof -
  define J where "J = (\<lambda>n (_ :: unit) (pr' :: proc). target (w_os (p_lib pr')) out k (take n p))"
  have e: "\<exists>acc' pr'. (\<lambda>_. write_out out) acc d pr1 = Ret (Done acc', pr') \<and> J (n + length d) acc' pr' \<and>
      reading Pr be vid fh f i c p pr'"
    if "J n acc pr1" "reading Pr be vid fh f i c p pr1" "d = take chunk (drop n p)" "d \<noteq> []" for n acc d pr1
  proof -
    have t: "take (n + length d) p = take n p @ d" using that(3) by (simp add: take_add min_def)
    have "length (take n p) + length d \<le> length p" using that(3) by auto
    then have "length (take n p) + length d \<le> maxbytes" using assms(4) by (simp add: maxbytes_def)
    from write_out_step [OF that(2) _ that(4) this assms(6-8)] show ?thesis
      using that(1) unfolding J_def t by blast
  qed
  have st: "J n acc pr2" if "J n acc pr1" "read_only (file_fd f) pr1 pr2" for n acc pr1 pr2
    using that assms(7) by (auto simp: J_def target_def read_only_def disk_def)
  have "\<exists>acc' pr'. read_loop (\<lambda>_. write_out out) Pr vid fh (of_nat 0) (zeros chunk) () pr = Ret (Done acc', pr') \<and>
      J (length p) acc' pr' \<and> reading Pr be vid fh f i c p pr'"
    by (rule read_loop_run [where J = J, OF assms(1,2,4) st e assms(3)]) (use assms(5) in \<open>auto simp: J_def\<close>)
  then show ?thesis by (auto simp: J_def)
qed

section \<open>Errors look like the end of the file\<close>

text \<open>
  Whatever call fails, \<open>cat\<close> ends normally after some of the chunks: when a read fails,
  \<open>gcf_read_file\<close> returns 0, and the loop ends as at the end of the file.
\<close>

lemma cat_loop_any:
  assumes "prims_ok Pr" "be_ok be" "length p \<le> 2 ^ 56"
    and "reads Pr be (p_lib pr) vid fh (f\<lparr>file_ID := fid\<rparr>) i c p" "n \<le> length p" "length buf = chunk"
  shows "\<exists>j pr'. read_loop (\<lambda>_ d. print (to_string d)) Pr vid fh (of_nat n) buf () pr = Ret (Done (), pr') \<and>
    p_out pr' = p_out pr @ to_string (take (j * chunk) (drop n p)) \<and>
    disk (w_os (p_lib pr')) = disk (w_os (p_lib pr))"
  using assms(4-6)
proof (induction "length p - n" arbitrary: n fid pr buf rule: less_induct)
  case less
  define d where "d = take chunk (drop n p)"
  have u: "unat (of_nat m :: uint64) = m" if "m \<le> length p" for m using that assms(3) by (simp add: unat_of_nat)
  have b: "buf \<noteq> []" "length buf \<le> MAX_KERNEL_WRITE" "unat (of_nat n :: uint64) + length buf \<le> 2 ^ 57"
    using less.prems(2,3) assms(3) by (auto simp: u chunk_def MAX_KERNEL_WRITE_def)
  obtain m b' w' fid' where w: "gcf_read_file Pr vid fh (of_nat n) buf (p_lib pr) = Ret ((m, b'), w')"
    "reads Pr be w' vid fh (f\<lparr>file_ID := fid, file_ID := fid'\<rparr>) i c p" "disk (w_os w') = disk (w_os (p_lib pr))"
    "m = 0 \<and> b' = buf \<or> m = of_nat (length (range_of (unat (of_nat n :: uint64)) (length buf) p)) \<and>
       b' = overwrite 0 (range_of (unat (of_nat n :: uint64)) (length buf) p) buf"
    by (rule reads_any [OF assms(1,2) less.prems(1) b])
  have mb: "m = 0 \<or> m = of_nat (length d) \<and> b' = overwrite 0 d buf"
    using w(4) unfolding u [OF less.prems(2)] less.prems(3) range_of_def d_def by blast
  let ?pr = "pr\<lparr>p_lib := w'\<rparr>"
  have R: "on_lib (gcf_read_file Pr vid fh (of_nat n) buf) pr = Ret (Done (m, b'), ?pr)"
    using w(1) by (simp add: on_lib_def)
  have dl: "length d \<le> chunk" "n + length d \<le> length p" using less.prems(2) by (auto simp: d_def)
  have ul: "unat (of_nat (length d) :: uint32) = length d" by (rule unat_chunk) (rule dl)
  show ?case
  proof (cases "m = 0")
    case True
    then show ?thesis
      using R w(3) by (subst read_loop.simps) (auto simp: bindc_def retc_def intro: exI [of _ 0])
  next
    case False
    then have m: "m = of_nat (length d)" "b' = overwrite 0 d buf" and dn: "0 < length d" using mb by auto
    have o: "take (length d) b' = d" "length b' = chunk" using overwrite_start [of d buf] dl(1) less.prems(3) m(2) by auto
    have sl: "go_slice b' 0 (uint m) = Ret d" using o dl(1) ul m(1) by (simp add: go_slice_def uint_nat)
    have off: "(of_nat n :: uint64) + ucast m = of_nat (n + length d)"
    proof -
      have "(ucast (of_nat (length d) :: uint32) :: uint64) = of_nat (unat (of_nat (length d) :: uint32))" by simp
      then show ?thesis unfolding ul m(1) by simp
    qed
    have lt: "unat (of_nat n :: uint64) < unat (of_nat (n + length d) :: uint64)"
      using u [OF less.prems(2)] u [OF dl(2)] dn by simp
    let ?pr2 = "?pr\<lparr>p_out := p_out ?pr @ to_string d\<rparr>"
    have rd: "reads Pr be (p_lib ?pr2) vid fh (f\<lparr>file_ID := fid'\<rparr>) i c p" using w(2) by simp
    have sm: "length p - (n + length d) < length p - n" using dn dl(2) by linarith
    obtain j pr3 where r: "read_loop (\<lambda>_ d. print (to_string d)) Pr vid fh (of_nat (n + length d)) b' () ?pr2 = Ret (Done (), pr3)"
      "p_out pr3 = p_out ?pr2 @ to_string (take (j * chunk) (drop (n + length d) p))" "disk (w_os (p_lib pr3)) = disk (w_os (p_lib ?pr2))"
      using less.hyps [OF sm rd dl(2) o(2)] by blast
    have "read_loop (\<lambda>_ d. print (to_string d)) Pr vid fh (of_nat n) buf () pr = Ret (Done (), pr3)"
      by (subst read_loop.simps) (simp only: bindc_def R go_bind.simps prod.case ending.case False if_False go_cmd_def sl
          print_def off lt if_True r(1))
    moreover have "to_string d @ to_string (take (j * chunk) (drop (n + length d) p)) = to_string (take (Suc j * chunk) (drop n p))"
    proof (cases "length d = chunk")
      case True
      then have "take (Suc j * chunk) (drop n p) = d @ take (j * chunk) (drop (n + length d) p)"
        by (simp add: d_def take_add add.commute)
      then show ?thesis by simp
    next
      case False
      then have "n + length d = length p" "d = drop n p" using dl less.prems(2) by (auto simp: d_def)
      moreover have "take (Suc j * chunk) (drop n p) = drop n p" using dl(1) calculation(2) by simp
      ultimately show ?thesis by simp
    qed
    ultimately show ?thesis using r(2,3) w(3) by (intro exI [of _ "Suc j"] exI [of _ pr3]) simp
  qed
qed

text \<open>
  A handle that was just opened has no file ID: the first read fetches the header, the second
  one the data. When either fails, nothing is delivered.
\<close>

lemma doRead_error:
  assumes be: "be_ok be" and f: "file_ID f = Some x" and len: "len \<noteq> 0" "unat len \<le> 131072" and off: "unat off + unat len \<le> 2 ^ 57"
    and e: "get_fd s (file_fd f) = Some e" "inode_node (inodes s ! of_ino e) = RegF c"
    and fault: "next_fault (interrupted s) = (Some (er, k), s')"
  shows "doRead Pr be f dst off len s = Ret (None, f, s')"
proof -
  obtain aOff aLen where j: "JointCiphertextRange be (ExplodePlainRange be off len) = Ret (aOff, aLen)"
    "unat aOff < 2 ^ 63 - 2 ^ 61" "go_int aOff = int (unat aOff)" "unat aLen = nblocks (BS be) (unat off) (unat len) * CS be"
    "go_int aLen = int (unat aLen)" "unat aLen \<le> CReqPool be"
    by (rule JointCiphertextRange_spec [OF be len off])
  have "0 < unat len" using len(1) by (simp add: unat_gt_0)
  then have "0 < nblocks (BS be) (unat off) (unat len)" by (rule nblocks_pos)
  then have a: "0 < unat aLen" using j(4) be_okD(3) [OF be] by simp
  have m: "\<not> unat aOff > MaxInt64" using j(2) by (simp add: MaxInt64_def)
  define aO aL where "aO = unat aOff" and "aL = unat aLen"
  have r: "File_ReadAt (file_fd f) aL (int aO) s = ((take k (range_of aO aL c), Some (Errno er)), s')"
    using e fault a by (simp add: File_ReadAt_def Let_def aL_def)
  have "f\<lparr>file_ID := Some x\<rparr> = f" using f by (cases f) simp
  then show ?thesis
    using j(1) j(3,5,6) [folded aO_def aL_def] m [folded aO_def] r f
    by (simp add: doRead_def Let_def aO_def [symmetric] aL_def [symmetric])
qed

lemma doRead_fresh_error:
  assumes be: "be_ok be" and f: "file_ID f = None" and len: "len \<noteq> 0" "unat len \<le> 131072" and off: "unat off + unat len \<le> 2 ^ 57"
    and e: "get_fd s (file_fd f) = Some e" "inode_node (inodes s ! of_ino e) = RegF c" "has_header x c" "18 < length c"
    and fault: "next_fault (interrupted s) = (r1, s1)" "r1 \<noteq> None \<or> fst (next_fault (interrupted s1)) \<noteq> None"
  obtains f' s' where "doRead Pr be f dst off len s = Ret (None, f', s')"
proof (cases r1)
  case (Some er)
  obtain n k where "er = (n, k)" by (cases er)
  then have "readFileID (file_fd f) s = (Inl (Errno n), s1)"
    using e fault(1) Some by (simp add: readFileID_def File_ReadAt_def HeaderLen_def Let_def)
  then have "doRead Pr be f dst off len s = Ret (None, f, s1)" using f by (simp add: doRead_def)
  then show ?thesis by (rule that)
next
  case None
  obtain er s2 where er: "next_fault (interrupted s1) = (Some er, s2)"
    using fault(2) None by (metis fst_conv not_None_eq prod.collapse)
  obtain n k where nk: "er = (n, k)" by (cases er)
  have "readFileID (file_fd f) s = (Inr x, s1)"
    using e fault(1) None by (simp add: readFileID_def File_ReadAt_def HeaderLen_def Let_def range_of_def has_header_def min_def)
  then have "doRead Pr be f dst off len s = doRead Pr be (f\<lparr>file_ID := Some x\<rparr>) dst off len s1"
    using f by (simp add: doRead_def)
  moreover have "fds s1 = fds s" "inodes s1 = inodes s"
    using fault(1) by (auto simp: next_fault_def interrupted_def split: list.splits)
  then have "get_fd s1 (file_fd (f\<lparr>file_ID := Some x\<rparr>)) = Some e" "inode_node (inodes s1 ! of_ino e) = RegF c"
    using e(1,2) by (auto simp: get_fd_def split: if_splits)
  then have "doRead Pr be (f\<lparr>file_ID := Some x\<rparr>) dst off len s1 = Ret (None, f\<lparr>file_ID := Some x\<rparr>, s2)"
    using er nk by (intro doRead_error [OF be _ len off, where k = k and er = n]) simp_all
  ultimately show ?thesis using that by simp
qed

lemma read_error:
  assumes v: "volume_of w sid = Some v" "table_lookup (fileHandles v) h = Some f"
    and b: "length buf \<le> 131072"
    and d: "doRead Pr (contentEnc v) (f\<lparr>fdReaders := fdReaders f + 1\<rparr>) [] off (of_nat (length buf)) (w_os w) = Ret (None, f', s')"
  obtains w' where "gcf_read_file Pr sid h off buf w = Ret ((0, buf), w')"
proof -
  let ?f = "f\<lparr>fdReaders := fdReaders f + 1\<rparr>" and ?len = "of_nat (length buf) :: uint64"
  let ?m = "bindw (read_handle Pr sid v h off ?len) (\<lambda>r. case r of
       None \<Rightarrow> ret (0, buf) | Some out \<Rightarrow> ret (of_nat (length out), out @ drop (length out) buf)) :: (uint32 \<times> bytes) io"
  obtain w1 where w1: "with_rlock sid h ?m w = go_bind (?m w1) (\<lambda>(x, w2). bindw (get_handle sid h) (\<lambda>f'.
       bindw (put_handle sid h (f'\<lparr>fdReaders := fdReaders f' - 1\<rparr>)) (\<lambda>_. ret x)) w2)"
    "volume_of w1 sid = Some (v\<lparr>fileHandles := AList.update h ?f (fileHandles v)\<rparr>)"
    "handle_of w1 sid h = Some ?f" "w_os w1 = w_os w"
    by (rule with_rlock_enter [OF v])
  define m where "m = (\<lambda>f s r. go_bind (doRead Pr (contentEnc v) f [] off ?len s) (\<lambda>(out, f', s'). Ret (out, f', s', r :: rng)))"
  have "m ?f (w_os w1) (w_rng w1) = Ret (None, f', s', w_rng w1)" using d w1(4) by (simp add: m_def)
  then obtain w2 where w2: "on_handle sid h m w1 = Ret (None, w2)"
    "handle_of w2 sid h = Some f'" "\<exists>v'. volume_of w2 sid = Some v'"
    by (rule on_handle_run [where m = m, OF w1(2,3)]) blast
  then obtain v2 where v2: "volume_of w2 sid = Some v2" by blast
  obtain w3 where w3: "put_handle sid h (f'\<lparr>fdReaders := fdReaders f' - 1\<rparr>) w2 = Ret ((), w3)"
    using put_handle_run [OF v2] by metis
  have "with_rlock sid h ?m w = Ret ((0, buf), w3)"
    unfolding w1(1) using w2(1,2) w3 by (simp add: bindw_def read_handle_def m_def)
  then have "gcf_read_file Pr sid h off buf w = Ret ((0, buf), w3)"
    using b v(1) by (simp add: gcf_read_file_def MAX_KERNEL_WRITE_def with_volume_def)
  then show ?thesis by (rule that)
qed

text \<open>The loops of \<open>cat\<close>, \<open>decryptFileToDisk\<close> and \<open>sha256Vol\<close> start with such a handle.\<close>

lemma read_loop_error:
  assumes v: "volume_of (p_lib pr) vid = Some v" "be_ok (contentEnc v)" "table_lookup (fileHandles v) fh = Some f" "file_ID f = None"
    and e: "get_fd (w_os (p_lib pr)) (file_fd f) = Some e" "inode_node (inodes (w_os (p_lib pr)) ! of_ino e) = RegF c"
      "has_header x c" "18 < length c"
    and fault: "next_fault (interrupted (w_os (p_lib pr))) = (r1, s1)" "r1 \<noteq> None \<or> fst (next_fault (interrupted s1)) \<noteq> None"
  shows "\<exists>pr'. read_loop emit Pr vid fh 0 (zeros chunk) acc pr = Ret (Done acc, pr') \<and> p_out pr' = p_out pr \<and>
    disk (w_os (p_lib pr')) = disk (w_os (p_lib pr))"
proof -
  let ?len = "of_nat (length (zeros chunk)) :: uint64"
  have b: "?len \<noteq> 0" "unat ?len \<le> 131072" "unat (0 :: uint64) + unat ?len \<le> 2 ^ 57" "length (zeros chunk) \<le> 131072"
    by (simp_all add: chunk_def)
  have f: "file_ID (f\<lparr>fdReaders := fdReaders f + 1\<rparr>) = None"
    "get_fd (w_os (p_lib pr)) (file_fd (f\<lparr>fdReaders := fdReaders f + 1\<rparr>)) = Some e"
    using v(4) e(1) by simp_all
  obtain f' s' where d: "doRead Pr (contentEnc v) (f\<lparr>fdReaders := fdReaders f + 1\<rparr>) [] 0 ?len (w_os (p_lib pr)) = Ret (None, f', s')"
    by (rule doRead_fresh_error [OF v(2) f(1) b(1-3) f(2) e(2-4) fault])
  obtain w' where w': "gcf_read_file Pr vid fh 0 (zeros chunk) (p_lib pr) = Ret ((0, zeros chunk), w')"
    by (rule read_error [OF v(1,3) b(4) d])
  have "read_loop emit Pr vid fh 0 (zeros chunk) acc pr = Ret (Done acc, pr\<lparr>p_lib := w'\<rparr>)"
    using w' by (subst read_loop.simps) (simp add: bindc_def on_lib_def retc_def)
  then show ?thesis using keepsD [OF keeps_read_file w'] by simp
qed

end
