(* ===== verification/Toy.thy ===== *)
theory Toy
  imports Volume
begin

text \<open>
  A concrete instance of the parameters, on which the theorems are applied: primitives with
  a constant tag that meet \<open>prims_ok\<close>, a block size of 4, and small states of the world.
\<close>

definition toy_tag :: bytes where "toy_tag = replicate 16 7"

definition toy_open :: "bytes \<Rightarrow> bytes option" where
  "toy_open c = (if 16 \<le> length c \<and> drop (length c - 16) c = toy_tag then Some (take (length c - 16) c) else None)"

definition toy_prims :: prims where
  "toy_prims = \<lparr>
     gcm_seal = \<lambda>k n p ad. p @ toy_tag, gcm_open = \<lambda>k n c ad. toy_open c,
     evp_gcm_seal = \<lambda>k n p ad. p @ toy_tag, evp_gcm_open = \<lambda>k n c ad. toy_open c,
     evp_chacha_seal = \<lambda>k n p ad. p @ toy_tag, evp_chacha_open = \<lambda>k n c ad. toy_open c,
     xchacha_seal = \<lambda>k n p ad. p @ toy_tag, xchacha_open = \<lambda>k n c ad. toy_open c,
     hchacha20 = \<lambda>k n. replicate 32 3,
     siv_encrypt = \<lambda>k p as. Some (p @ toy_tag), siv_decrypt = \<lambda>k c as. toy_open c,
     hkdf_sha256 = \<lambda>k i n. replicate n 1,
     sha512 = \<lambda>d. replicate 64 2, sha256 = \<lambda>d. replicate 32 2,
     scrypt_key = \<lambda>pw salt n r p len. Some (replicate (nat len) 5),
     eme_encrypt = \<lambda>k iv d. rev d, eme_decrypt = \<lambda>k iv d. rev d,
     num_cpu = 1, schedule = \<lambda>n. [], path_match = \<lambda>p s. None\<rparr>"

lemma toy_open_iff: "toy_open c = Some p \<longleftrightarrow> c = p @ toy_tag"
  by (auto simp: toy_open_def toy_tag_def) (metis append_take_drop_id)

lemma toy_prims_ok: "prims_ok toy_prims"
  by (auto simp: prims_ok_def aead_law_def siv_law_def eme_law_def toy_prims_def toy_open_iff)
     (simp_all add: toy_tag_def)

text \<open>Two processors, and a cipher whose tag is the first 16 bytes of the associated data, padded with zeros.\<close>

definition toy_mac :: "bytes \<Rightarrow> bytes" where
  "toy_mac ad = take 16 (ad @ zeros 16)"

definition mac_prims :: prims where
  "mac_prims = toy_prims\<lparr>gcm_seal := \<lambda>k n p ad. p @ toy_mac ad,
     gcm_open := \<lambda>k n c ad. if 16 \<le> length c \<and> drop (length c - 16) c = toy_mac ad then Some (take (length c - 16) c) else None,
     num_cpu := 2, schedule := \<lambda>n. [True, False]\<rparr>"

lemma mac_prims_ok: "prims_ok mac_prims"
proof -
  have "aead_law (gcm_seal mac_prims) (gcm_open mac_prims)"
    by (auto simp: aead_law_def mac_prims_def toy_mac_def) (metis append_take_drop_id)
  then show ?thesis using toy_prims_ok by (simp add: prims_ok_def mac_prims_def)
qed

definition toy_cc :: cryptocore where
  "toy_cc = \<lparr>EMECipher = Some (replicate 32 1), AEADCipher = Some (GoGCM (replicate 32 1) 16),
     AEADBackend = BackendGoGCM, nonceLen = 16, IVLen = 16\<rparr>"

definition toy_be :: contentEnc where
  "toy_be = \<lparr>cryptoCore = toy_cc, plainBS = 4, cipherBS = 36, allZeroBlock = zeros 36,
     allZeroNonce = zeros 16, cBlockPool = 36, pBlockPool = 4, CReqPool = 1179684, PReqPool = 131076\<rparr>"

lemma toy_be_ok: "be_ok toy_be"
  by (simp add: be_ok_def cc_ok_def toy_be_def toy_cc_def contentenc_New_def MAX_KERNEL_WRITE_def AuthTagLen_def
      KeyLen_def)

lemma toy_be_simps [simp]: "plainBS toy_be = 4" "IVLen (cryptoCore toy_be) = 16"
  by (simp_all add: toy_be_def toy_cc_def)

definition toy_rng :: rng where
  "toy_rng = \<lparr>stream = \<lambda>i. 9, pos = 0, prefetched = replicate 200 9\<rparr>"

definition toy_nt :: NameTransform where
  "toy_nt = \<lparr>emeCipher = Some (replicate 32 1), longNameMax = 255, raw64 = True, badnamePatterns = [],
     deterministicNames = False\<rparr>"

text \<open>One regular file, inode 0, open for writing on descriptor 0.\<close>

definition toy_os :: "bytes \<Rightarrow> os" where
  "toy_os c = \<lparr>inodes = [\<lparr>inode_node = RegF c, inode_perm = 0x180, inode_mtime = 0\<rparr>,
       \<lparr>inode_node = DirF [(''a'', 0)], inode_perm = 0x1C0, inode_mtime = 0\<rparr>],
     fds = [Some \<lparr>of_ino = 0, of_pos = 0, of_wr = True\<rparr>], host = [(''/v'', 1)], now = 1, faults = []\<rparr>"

definition toy_file :: "bytes option \<Rightarrow> File" where
  "toy_file fid = \<lparr>file_fd = 0, file_path = ''/a'', file_ID = fid, fdReaders = 0\<rparr>"

definition toy_volume :: "bool \<Rightarrow> (int \<times> File) list \<Rightarrow> volume" where
  "toy_volume plain hs = \<lparr>volumeID = 0, rootCipherDir = ''/v'', plainTextNames = plain, nameTransform = toy_nt,
     contentEnc = toy_be, dirCache = new_dirCache (if plain then 0 else 16), fileHandles = hs\<rparr>"

definition toy_world :: "os \<Rightarrow> bool \<Rightarrow> (int \<times> File) list \<Rightarrow> world" where
  "toy_world s plain hs = \<lparr>w_os = s, w_rng = toy_rng, OpenedVolumes = [(0, toy_volume plain hs)]\<rparr>"

lemma toy_file_at: "file_at (toy_os c) 0 0 c"
  by (simp add: file_at_def toy_os_def get_fd_def)

text \<open>
  An encoding of configurations in place of JSON: numbers in unary, lists with their length
  in front.
\<close>

definition enc_nat :: "nat \<Rightarrow> bytes" where "enc_nat n = replicate n 1 @ [0]"

definition dec_nat :: "bytes \<Rightarrow> nat \<times> bytes" where
  "dec_nat b = (length (takeWhile (\<lambda>x. x = 1) b), tl (dropWhile (\<lambda>x. x = 1) b))"

definition enc_int :: "int \<Rightarrow> bytes" where "enc_int i = enc_nat (nat i) @ enc_nat (nat (- i))"

definition dec_int :: "bytes \<Rightarrow> int \<times> bytes" where
  "dec_int b = (case dec_nat b of (m, b1) \<Rightarrow> case dec_nat b1 of (n, b2) \<Rightarrow> (int m - int n, b2))"

definition enc_bytes :: "bytes \<Rightarrow> bytes" where "enc_bytes bs = enc_nat (length bs) @ bs"

definition dec_bytes :: "bytes \<Rightarrow> bytes \<times> bytes" where
  "dec_bytes b = (case dec_nat b of (n, b1) \<Rightarrow> (take n b1, drop n b1))"

fun enc_flags :: "string list \<Rightarrow> bytes" where
  "enc_flags [] = []"
| "enc_flags (f # fs) = enc_bytes (to_bytes f) @ enc_flags fs"

fun dec_flags :: "nat \<Rightarrow> bytes \<Rightarrow> string list \<times> bytes" where
  "dec_flags 0 b = ([], b)"
| "dec_flags (Suc n) b = (case dec_bytes b of (f, b1) \<Rightarrow> case dec_flags n b1 of (fs, b2) \<Rightarrow> (to_string f # fs, b2))"

definition toy_json :: json where
  "toy_json = \<lparr>
     MarshalIndent = \<lambda>cf. Some (enc_bytes (to_bytes (Creator cf)) @ enc_bytes (EncryptedKey cf) @
       enc_bytes (Salt (ScryptObject cf)) @ enc_int (N (ScryptObject cf)) @ enc_int (R (ScryptObject cf)) @
       enc_int (P (ScryptObject cf)) @ enc_int (KDF_KeyLen (ScryptObject cf)) @ enc_nat (unat (cf_Version cf)) @
       enc_nat (length (FeatureFlags cf)) @ enc_flags (FeatureFlags cf) @ [LongNameMax cf]),
     Unmarshal = \<lambda>b cf.
       case dec_bytes b of (cr, b) \<Rightarrow> case dec_bytes b of (ek, b) \<Rightarrow> case dec_bytes b of (sa, b) \<Rightarrow>
       case dec_int b of (n, b) \<Rightarrow> case dec_int b of (r, b) \<Rightarrow> case dec_int b of (p, b) \<Rightarrow> case dec_int b of (kl, b) \<Rightarrow>
       case dec_nat b of (ve, b) \<Rightarrow> case dec_nat b of (nf, b) \<Rightarrow> case dec_flags nf b of (fl, b) \<Rightarrow>
       (case b of [] \<Rightarrow> None | lm # _ \<Rightarrow> Some \<lparr>Creator = to_string cr, EncryptedKey = ek,
          ScryptObject = \<lparr>Salt = sa, N = n, R = r, P = p, KDF_KeyLen = kl\<rparr>, cf_Version = of_nat ve,
          FeatureFlags = fl, FIDO2 = None, LongNameMax = lm, cf_filename = cf_filename cf\<rparr>)\<rparr>"

lemma dec_nat_enc [simp]: "dec_nat (enc_nat n @ b) = (n, b)"
  by (induction n) (auto simp: dec_nat_def enc_nat_def)

lemma dec_int_enc [simp]: "dec_int (enc_int i @ b) = (i, b)"
  by (simp add: dec_int_def enc_int_def)

lemma dec_bytes_enc [simp]: "dec_bytes (enc_bytes d @ b) = (d, b)"
  by (simp add: dec_bytes_def enc_bytes_def)

lemma dec_flags_enc [simp]: "dec_flags (length fs) (enc_flags fs @ b) = (fs, b)"
  by (induction fs) (simp_all add: comp_def)

lemma toy_json_ok: "json_ok toy_json"
proof -
  have "enc_bytes b \<noteq> []" for b by (simp add: enc_bytes_def enc_nat_def)
  moreover have "cf\<lparr>cf_filename := fn\<rparr> = \<lparr>Creator = Creator cf, EncryptedKey = EncryptedKey cf,
      ScryptObject = \<lparr>Salt = Salt (ScryptObject cf), N = N (ScryptObject cf), R = R (ScryptObject cf),
        P = P (ScryptObject cf), KDF_KeyLen = KDF_KeyLen (ScryptObject cf)\<rparr>,
      cf_Version = cf_Version cf, FeatureFlags = FeatureFlags cf, FIDO2 = FIDO2 cf,
      LongNameMax = LongNameMax cf, cf_filename = fn\<rparr>" for cf fn
    by simp
  ultimately show ?thesis by (auto simp: json_ok_def toy_json_def conf_ascii_def empty_conf_def comp_def)
qed

lemma length_enc [simp]:
  "length (enc_nat n) = n + 1" "length (enc_int i) = nat (abs i) + 2" "length (enc_bytes d) = 2 * length d + 1"
  by (auto simp: enc_nat_def enc_int_def enc_bytes_def)

lemma toy_scrypt: "scrypt_key toy_prims pw salt n r p len = Some (replicate (nat len) 5)"
  by (simp add: toy_prims_def)

end
