(* ===== verification/FileClaims.thy ===== *)
theory FileClaims
  imports FileLaws Toy
begin

text \<open>
  The properties of open files: what reads, writes and truncations do to the plaintext, what
  a failed write leaves, and the cases in which the code does not do what it means to.
\<close>

section \<open>A concrete file\<close>

lemma toy_opened:
  assumes "holds toy_prims toy_be fid c p"
  shows "opened toy_prims toy_be (toy_world (toy_os c) plain [(0, toy_file fid)]) 0 0 (toy_file fid) 0 c p"
  using assms toy_file_at [of c]
  by (simp add: opened_def volume_of_def toy_world_def table_lookup_def toy_volume_def toy_file_def)

definition toy_id :: bytes where "toy_id = replicate 16 9"
definition toy_header :: bytes where "toy_header = put_uint16_be CurrentVersion @ toy_id"

lemma toy_has_header: "has_header toy_id toy_header" "length toy_header = 18" "length toy_id = headerIDLen"
proof -
  show "has_header toy_id toy_header" by code_simp
  show "length toy_header = 18" by code_simp
  show "length toy_id = headerIDLen" by code_simp
qed

lemma toy_stored: "stored toy_prims toy_be toy_id toy_header []"
  by (rule stored_header_only [OF toy_prims_ok toy_be_ok toy_has_header(1,2)])

lemma toy_nonces: "nonces_ok 16 1 toy_rng" "nonces_ok 16 2 toy_rng"
  by code_simp+

lemma toy_fresh: "fresh_ok toy_be True 2 toy_rng" "fresh_ok toy_be True 1 toy_rng"
  by (simp only: fresh_ok_def toy_be_simps if_True, code_simp)+

abbreviation toy_new :: world where
  "toy_new \<equiv> toy_world (toy_os []) False [(0, toy_file None)]"

lemma toy_new:
  shows "opened toy_prims toy_be toy_new 0 0 (toy_file None) 0 [] []"
    and "fresh_ok toy_be (file_ID (toy_file None) = None \<and> [] = ([] :: bytes))
      (nblocks (BS toy_be) (unat (0 :: uint64)) (length [1, 2, 3, 4, 5 :: byte])) (w_rng toy_new)"
proof -
  show "opened toy_prims toy_be toy_new 0 0 (toy_file None) 0 [] []"
    by (rule toy_opened) (simp add: holds_def)
  show "fresh_ok toy_be (file_ID (toy_file None) = None \<and> [] = ([] :: bytes))
      (nblocks (BS toy_be) (unat (0 :: uint64)) (length [1, 2, 3, 4, 5 :: byte])) (w_rng toy_new)"
    using toy_fresh(1) by (simp add: toy_file_def nblocks_def toy_world_def flip: numeral_2_eq_2)
qed

text \<open>What \<open>gcf_get_attrs\<close> finds out about the file, which is \<^verbatim>\<open>/a\<close> in a volume with plaintext names.\<close>

definition toy_look :: "contentEnc \<Rightarrow> (uint32 \<times> uint64 \<times> uint64 \<times> bool) \<times> world \<Rightarrow> bool" where
  "toy_look be r = (case r of ((mode, sz, mt, ok), w1) \<Rightarrow> sz = 0 \<and> ok \<and>
     (case volume_of w1 0 of None \<Rightarrow> False
      | Some v \<Rightarrow> contentEnc v = be \<and> table_lookup (fileHandles v) 0 = Some (toy_file (Some toy_id))) \<and>
     file_at (w_os w1) 0 0 toy_header \<and> faults (w_os w1) = [] \<and> nonces_ok 16 2 (w_rng w1) \<and>
     fst (RandBytes 16 (w_rng w1)) \<noteq> allZeroFileID \<and> nonces_ok 16 1 (snd (RandBytes 16 (w_rng w1))))"

lemma toy_looked:
  "case gcf_get_attrs toy_prims 0 ''/a'' \<lparr>w_os = toy_os toy_header, w_rng = toy_rng,
     OpenedVolumes = [(0, \<lparr>volumeID = 0, rootCipherDir = ''/v'', plainTextNames = True, nameTransform = toy_nt,
       contentEnc = be, dirCache = new_dirCache 0, fileHandles = [(0, toy_file (Some toy_id))]\<rparr>)]\<rparr> of
     Ret r \<Rightarrow> toy_look be r | _ \<Rightarrow> False"
  by code_simp

section \<open>Writing and reading\<close>

text \<open>C1: On a system without failures, writing through a handle overwrites the plaintext of
  the file at the offset, reports every byte, and touches no other file and no other handle.
  The write may start inside the file, at its end, or past the end of a file that ends at a
  block boundary.\<close>

theorem write_overwrites:
  assumes "prims_ok Pr" "be_ok be" "opened Pr be w sid h f i c p"
    and "d \<noteq> []" "length d \<le> MAX_KERNEL_WRITE" "unat off + length d \<le> 2 ^ 56"
    and "length p mod BS be = 0 \<or> unat off div BS be \<le> length p div BS be"
    and "fresh_ok be (file_ID f = None \<and> p = []) (nblocks (BS be) (unat off) (length d)) (w_rng w)"
    and "quiet (w_os w)"
  shows "\<exists>w' fid c'. gcf_write_file Pr sid h off d w = Ret (of_nat (length d), w') \<and>
    opened Pr be w' sid h (f\<lparr>file_ID := fid\<rparr>) i c' (overwrite (unat off) d p) \<and>
    only_handle sid h w w' \<and> only_file i (w_os w) (w_os w')"
  using gcf_write_file_spec [OF assms] by metis

theorem write_overwrites_witness:
  "\<exists>w' fid c'. gcf_write_file toy_prims 0 0 0 [1, 2, 3, 4, 5] toy_new
      = Ret (5, w') \<and>
    opened toy_prims toy_be w' 0 0 (toy_file None\<lparr>file_ID := fid\<rparr>) 0 c' [1, 2, 3, 4, 5]"
proof -
  have n: "overwrite (unat (0 :: uint64)) [1, 2, 3, 4, 5] [] = [1, 2, 3, 4, 5 :: byte]" "of_nat (length [1, 2, 3, 4, 5 :: byte]) = (5 :: uint32)"
    by (simp_all add: overwrite_def)
  show ?thesis
    using write_overwrites [OF toy_prims_ok toy_be_ok toy_new(1) _ _ _ _ toy_new(2)] unfolding n
    by (simp add: MAX_KERNEL_WRITE_def toy_world_def toy_os_def) blast
qed

text \<open>C3: Reading through a handle never changes the file. It delivers the bytes of the
  plaintext range that exist and leaves the rest of the caller's buffer alone, or it reports
  0 bytes and leaves the whole buffer alone; on a system without failures a file that has a
  header or content is always read.\<close>

theorem read_range:
  assumes "prims_ok Pr" "be_ok be" "opened Pr be w sid h f i c p"
    and "buff \<noteq> []" "length buff \<le> MAX_KERNEL_WRITE" "unat off + length buff \<le> 2 ^ 57"
  shows "\<exists>n b' w' fid. gcf_read_file Pr sid h off buff w = Ret ((n, b'), w') \<and>
    opened Pr be w' sid h (f\<lparr>file_ID := fid\<rparr>) i c p \<and> only_handle sid h w w' \<and> only_file i (w_os w) (w_os w') \<and>
    (n = 0 \<and> b' = buff \<or> n = of_nat (length (range_of (unat off) (length buff) p)) \<and>
       b' = overwrite 0 (range_of (unat off) (length buff) p) buff) \<and>
    (quiet (w_os w) \<and> (file_ID f \<noteq> None \<or> p \<noteq> []) \<longrightarrow>
       n = of_nat (length (range_of (unat off) (length buff) p)) \<and>
       b' = overwrite 0 (range_of (unat off) (length buff) p) buff)"
  by (rule gcf_read_file_spec [OF assms]) (intro exI conjI; assumption)

theorem read_range_witness:
  "\<exists>n b' w'. gcf_read_file toy_prims 0 0 2 [1, 2, 3] (toy_world (toy_os toy_header) False [(0, toy_file (Some toy_id))])
     = Ret ((n, b'), w') \<and> n = 0 \<and> b' = [1, 2, 3]"
proof -
  let ?w = "toy_world (toy_os toy_header) False [(0, toy_file (Some toy_id))]"
  have o: "opened toy_prims toy_be ?w 0 0 (toy_file (Some toy_id)) 0 toy_header []"
    by (rule toy_opened) (simp add: toy_stored)
  show ?thesis
    using read_range [OF toy_prims_ok toy_be_ok o, of "[1, 2, 3]" 2]
    by (simp add: MAX_KERNEL_WRITE_def) metis
qed

text \<open>C2: Bytes written through a handle are read back through it.\<close>

theorem read_after_write:
  assumes "prims_ok Pr" "be_ok be" "opened Pr be w sid h f i c p"
    and d: "d \<noteq> []" "length d \<le> MAX_KERNEL_WRITE" "unat off + length d \<le> 2 ^ 56"
    and "length p mod BS be = 0 \<or> unat off div BS be \<le> length p div BS be"
    and "fresh_ok be (file_ID f = None \<and> p = []) (nblocks (BS be) (unat off) (length d)) (w_rng w)"
    and q: "quiet (w_os w)" and b: "length buff = length d"
  shows "\<exists>w1 w2. gcf_write_file Pr sid h off d w = Ret (of_nat (length d), w1) \<and>
    gcf_read_file Pr sid h off buff w1 = Ret ((of_nat (length d), d), w2)"
proof -
  obtain w1 fid c1 where w1: "gcf_write_file Pr sid h off d w = Ret (of_nat (length d), w1)"
    "opened Pr be w1 sid h (f\<lparr>file_ID := fid\<rparr>) i c1 (overwrite (unat off) d p)" "fid \<noteq> None"
    "only_handle sid h w w1" "only_file i (w_os w) (w_os w1)"
    by (rule gcf_write_file_spec [OF assms(1-9)])
  have q1: "quiet (w_os w1)" using only_file_quiet [OF w1(5) q] .
  have buff: "buff \<noteq> []" "length buff \<le> MAX_KERNEL_WRITE" "unat off + length buff \<le> 2 ^ 57"
    using d b by auto
  have r: "range_of (unat off) (length buff) (overwrite (unat off) d p) = d"
    using d(1) b by (simp add: range_of_overwrite_same)
  obtain n b' w2 fid2 where w2: "gcf_read_file Pr sid h off buff w1 = Ret ((n, b'), w2)"
    "quiet (w_os w1) \<and> (file_ID (f\<lparr>file_ID := fid\<rparr>) \<noteq> None \<or> overwrite (unat off) d p \<noteq> []) \<longrightarrow>
       n = of_nat (length d) \<and> b' = overwrite 0 d buff"
    by (rule gcf_read_file_spec [OF assms(1,2) w1(2) buff]) (rule that, assumption, simp only: r)
  have "overwrite 0 d buff = d" using b d(1) by (simp add: overwrite_def)
  then show ?thesis using w1(1,3) w2 q1 by auto
qed

theorem read_after_write_witness:
  "\<exists>w1 w2. gcf_write_file toy_prims 0 0 0 [1, 2, 3, 4, 5] toy_new = Ret (5, w1) \<and>
    gcf_read_file toy_prims 0 0 0 [0, 0, 0, 0, 0] w1 = Ret ((5, [1, 2, 3, 4, 5]), w2)"
proof -
  show ?thesis
    using read_after_write [OF toy_prims_ok toy_be_ok toy_new(1) _ _ _ _ toy_new(2), of "[0, 0, 0, 0, 0]"]
    by (simp add: MAX_KERNEL_WRITE_def toy_world_def toy_os_def)
qed

section \<open>Truncating\<close>

text \<open>C8: \<open>truncate\<close> to a size other than 0 cuts the plaintext or extends it with zeros,
  whatever the sizes: within a block, across blocks, to or from a block boundary. It relies on
  the size that \<open>gcf_get_attrs\<close> reports for the path of the handle.\<close>

theorem truncate_resizes:
  assumes "prims_ok Pr" "be_ok (contentEnc v)" "opened Pr (contentEnc v) w sid h f i c p"
    and "new \<noteq> 0" "unat new \<le> 2 ^ 56" "length p \<le> 2 ^ 56"
    and "gcf_get_attrs Pr (volumeID v) (file_path f) w = Ret ((mode, of_nat (length p), mt, True), w1)"
    and "opened Pr (contentEnc v) w1 sid h f i c p" "grow_ok (contentEnc v) (w_rng w1)" "quiet (w_os w1)"
  shows "\<exists>w' fid c'. FileOps.truncate Pr sid v h new w = Ret (True, w') \<and>
    opened Pr (contentEnc v) w' sid h (f\<lparr>file_ID := fid\<rparr>) i c' (resize (unat new) p) \<and>
    only_handle sid h w1 w' \<and> only_file i (w_os w1) (w_os w')"
  by (rule truncate_spec [OF assms]) (intro exI conjI; assumption)

theorem truncate_resizes_witness:
  "\<exists>w' fid c'. FileOps.truncate toy_prims 0 (toy_volume True [(0, toy_file (Some toy_id))]) 0 5
      (toy_world (toy_os toy_header) True [(0, toy_file (Some toy_id))]) = Ret (True, w') \<and>
    opened toy_prims toy_be w' 0 0 (toy_file (Some toy_id)\<lparr>file_ID := fid\<rparr>) 0 c' [0, 0, 0, 0, 0]"
proof -
  let ?v = "toy_volume True [(0, toy_file (Some toy_id))]"
  let ?w = "toy_world (toy_os toy_header) True [(0, toy_file (Some toy_id))]"
  have be: "contentEnc ?v = toy_be" "volumeID ?v = 0" by (simp_all add: toy_volume_def)
  have f: "file_ID (toy_file (Some toy_id)) = Some toy_id" "file_fd (toy_file (Some toy_id)) = 0"
    "file_path (toy_file (Some toy_id)) = ''/a''" by (simp_all add: toy_file_def)
  from toy_looked [of toy_be] obtain r where r: "gcf_get_attrs toy_prims 0 ''/a'' ?w = Ret r" "toy_look toy_be r"
    by (auto simp: toy_world_def toy_volume_def simp del: One_nat_def split: go.splits)
  obtain mode sz mt ok w1 where r': "r = ((mode, sz, mt, ok), w1)" by (metis surj_pair)
  then have "sz = 0" "ok" using r(2) by (simp_all add: toy_look_def)
  with r r' have look: "gcf_get_attrs toy_prims 0 ''/a'' ?w = Ret ((mode, 0, mt, True), w1)"
    and l: "toy_look toy_be ((mode, 0, mt, True), w1)" by simp_all
  have o: "opened toy_prims toy_be w1 0 0 (toy_file (Some toy_id)) 0 toy_header []"
    by (rule openedI) (use l toy_stored in \<open>auto simp: toy_look_def f split: option.splits\<close>)
  have g: "grow_ok toy_be (w_rng w1)" using l by (simp add: grow_ok_def fresh_ok_def toy_look_def headerIDLen_def)
  have q: "quiet (w_os w1)" using l by (simp add: toy_look_def)
  have e: "resize (unat (5 :: uint64)) ([] :: bytes) = [0, 0, 0, 0, 0]" by code_simp
  have o0: "opened toy_prims toy_be ?w 0 0 (toy_file (Some toy_id)) 0 toy_header []"
    by (rule toy_opened) (simp add: toy_stored)
  have s: "(5 :: uint64) \<noteq> 0" "unat (5 :: uint64) \<le> 2 ^ 56" "length ([] :: bytes) \<le> 2 ^ 56" by simp_all
  have look': "gcf_get_attrs toy_prims (volumeID ?v) (file_path (toy_file (Some toy_id))) ?w
      = Ret ((mode, of_nat (length ([] :: bytes)), mt, True), w1)"
    using look by (simp add: be f)
  from truncate_resizes [where v = ?v, unfolded be(1), OF toy_prims_ok toy_be_ok o0 s look' o g q, unfolded e]
  show ?thesis by blast
qed

section \<open>Failures\<close>

text \<open>C4: Whatever system call fails during a write to a file with a header, the write returns,
  and the ciphertext outside the blocks that the write covers stays as it was. The write
  reports success only when the whole plaintext range has been overwritten.\<close>

theorem write_confined:
  assumes "prims_ok Pr" "be_ok be" "file_at s (file_fd f) i c" "file_ID f = Some x" "stored Pr be x c p"
    and "d \<noteq> []" "length d \<le> 131072" "unat off + length d \<le> 2 ^ 56"
    and "length p mod BS be = 0 \<or> unat off div BS be \<le> length p div BS be"
    and "nonces_ok (IVLen (cryptoCore be)) (nblocks (BS be) (unat off) (length d)) r"
  shows "\<exists>res s' r' ct. doWrite_file Pr be f d off s r = Ret (res, f, s', r') \<and>
    file_at s' (file_fd f) i (overwrite (18 + unat off div BS be * CS be) ct c) \<and> only_file i s s' \<and>
    length ct \<le> nblocks (BS be) (unat off) (length d) * CS be \<and>
    (\<forall>n. res = Written n \<longrightarrow> n = of_nat (length d) \<and>
       stored Pr be x (overwrite (18 + unat off div BS be * CS be) ct c) (overwrite (unat off) d p)) \<and>
    (quiet s \<longrightarrow> res = Written (of_nat (length d)))"
proof -
  have r: "fresh_ok be (file_ID f = None \<and> p = []) (nblocks (BS be) (unat off) (length d)) r"
    using assms(4,10) by (simp add: fresh_ok_def)
  have h: "holds Pr be (file_ID f) c p" using assms(4,5) by simp
  obtain res fid s' r' c' where w: "doWrite_file Pr be f d off s r = Ret (res, f\<lparr>file_ID := fid\<rparr>, s', r')"
    "file_at s' (file_fd f) i c'" "only_file i s s'" "file_ID f \<noteq> None \<longrightarrow> fid = file_ID f"
    "\<forall>n. res = Written n \<longrightarrow> n = of_nat (length d) \<and> fid \<noteq> None \<and> holds Pr be fid c' (overwrite (unat off) d p)"
    "\<not> (file_ID f = None \<and> p = []) \<longrightarrow> (\<exists>ct. length ct \<le> nblocks (BS be) (unat off) (length d) * CS be \<and>
       c' = overwrite (18 + unat off div BS be * CS be) ct c)"
    "quiet s \<longrightarrow> res = Written (of_nat (length d))"
    using doWrite_file_spec [OF assms(1-3) h assms(6-9) r] by (elim exE conjE) (rule that)
  have id: "fid = Some x" using w(4) assms(4) by simp
  then have f: "f\<lparr>file_ID := fid\<rparr> = f" using assms(4) by (cases f) simp
  from w(6) assms(4) obtain ct where "length ct \<le> nblocks (BS be) (unat off) (length d) * CS be"
    "c' = overwrite (18 + unat off div BS be * CS be) ct c" by auto
  moreover have "doWrite_file Pr be f d off s r = Ret (res, f, s', r')" using w(1) unfolding f .
  moreover have "\<forall>n. res = Written n \<longrightarrow> n = of_nat (length d) \<and> stored Pr be x c' (overwrite (unat off) d p)"
    using w(5) unfolding id by simp
  ultimately show ?thesis using w(2,3,7) by blast
qed

theorem write_confined_witness:
  "\<exists>res s' r' ct. doWrite_file toy_prims toy_be (toy_file (Some toy_id)) [1, 2, 3] 2 (toy_os toy_header) toy_rng
      = Ret (res, toy_file (Some toy_id), s', r') \<and> length ct \<le> 72 \<and>
    file_at s' (file_fd (toy_file (Some toy_id))) 0 (overwrite 18 ct toy_header)"
proof -
  have n: "nblocks (BS toy_be) (unat (2 :: uint64)) (length [1, 2, 3 :: byte]) = 2"
    by (simp add: nblocks_def)
  have nn: "nonces_ok (IVLen (cryptoCore toy_be)) 2 toy_rng" by (simp only: toy_be_simps toy_nonces)
  have cs: "2 * CS toy_be = 72" "18 + unat (2 :: uint64) div BS toy_be * CS toy_be = 18" by simp_all
  have f: "file_at (toy_os toy_header) (file_fd (toy_file (Some toy_id))) 0 toy_header"
    using toy_file_at by (simp add: toy_file_def)
  have i: "file_ID (toy_file (Some toy_id)) = Some toy_id" by (simp add: toy_file_def)
  have "length [1, 2, 3 :: byte] \<le> 131072" "unat (2 :: uint64) + length [1, 2, 3 :: byte] \<le> 2 ^ 56"
    "length ([] :: bytes) mod BS toy_be = 0 \<or> unat (2 :: uint64) div BS toy_be \<le> length ([] :: bytes) div BS toy_be"
    by simp_all
  from write_confined [OF toy_prims_ok toy_be_ok f i toy_stored list.distinct(2) this, unfolded n cs, OF nn]
  show ?thesis by (elim exE conjE) (intro exI conjI, assumption+)
qed

section \<open>Where the code stops\<close>

text \<open>C34: An empty write or read on a handle that has been used panics with an index out of
  range, although the code says that empty writes do nothing and are allowed.\<close>

theorem empty_request_panics:
  assumes "volume_of w sid = Some v" "table_lookup (fileHandles v) h = Some f" "file_ID f = Some x"
  shows "gcf_write_file Pr sid h off [] w = Panic OutOfRange \<and> gcf_read_file Pr sid h off [] w = Panic OutOfRange"
  using empty_requests_panic [OF assms] by blast

theorem empty_request_panics_witness:
  "gcf_write_file toy_prims 0 0 7 [] (toy_world (toy_os toy_header) False [(0, toy_file (Some toy_id))]) = Panic OutOfRange"
  using empty_request_panics [of "toy_world (toy_os toy_header) False [(0, toy_file (Some toy_id))]" 0
      "toy_volume False [(0, toy_file (Some toy_id))]" 0 "toy_file (Some toy_id)" toy_id toy_prims 7]
  by (simp add: volume_of_def toy_world_def table_lookup_def toy_volume_def toy_file_def)

text \<open>C32: The first write to a new file on a disk that has room for the header but not for the
  data never returns: the code takes the new header back and closes the handle, which waits
  for the lock that the write itself holds. (This is on volume 0, the only one whose number
  matches the field \<open>volumeID\<close>, which is never set.)\<close>

theorem failed_first_write_hangs:
  assumes "prims_ok Pr" "be_ok (contentEnc v)" "volume_of w sid = Some v" "volumeID v = sid"
    and "table_lookup (fileHandles v) h = Some f" "file_ID f = None" "file_at (w_os w) (file_fd f) i []"
    and "length d = BS (contentEnc v)" "faults (w_os w) = [None, None, None, Some (ENOSPC, k)]"
    and "fresh_ok (contentEnc v) True 1 (w_rng w)"
  shows "gcf_write_file Pr sid h 0 d w = Hang"
proof -
  let ?f = "f\<lparr>fdReaders := fdReaders f + 1\<rparr>"
  have "file_ID ?f = None" "file_at (w_os w) (file_fd ?f) i []" using assms(6,7) by simp_all
  then obtain f' s' r' where "doWrite_file Pr (contentEnc v) ?f d 0 (w_os w) (w_rng w) = Ret (Undone, f', s', r')"
    using no_space_undone [OF assms(1,2) _ _ assms(8-10)] by blast
  moreover have "length d \<le> MAX_KERNEL_WRITE"
    using be_okD(5) [OF assms(2)] assms(8) by (simp add: MAX_KERNEL_WRITE_def)
  ultimately show ?thesis using undone_hangs [OF assms(3-5)] by blast
qed

theorem failed_first_write_hangs_witness:
  "gcf_write_file toy_prims 0 0 0 [1, 2, 3, 4]
     (toy_world ((toy_os [])\<lparr>faults := [None, None, None, Some (ENOSPC, 0)]\<rparr>) False [(0, toy_file None)]) = Hang"
proof (rule failed_first_write_hangs [OF toy_prims_ok, where v = "toy_volume False [(0, toy_file None)]" and f = "toy_file None" and i = 0 and k = 0])
  show "fresh_ok (contentEnc (toy_volume False [(0, toy_file None)])) True 1
     (w_rng (toy_world ((toy_os [])\<lparr>faults := [None, None, None, Some (ENOSPC, 0)]\<rparr>) False [(0, toy_file None)]))"
    using toy_fresh(2) by (simp only: toy_volume_def toy_world_def world.select_convs volume.select_convs)
qed (use toy_be_ok toy_file_at [of "[]"] in
    \<open>simp_all add: toy_volume_def toy_world_def toy_file_def volume_of_def table_lookup_def\<close>)

text \<open>C33: After a truncation to zero the handle keeps the ID of the header that is gone. A block
  written through it then lands behind 18 zero bytes: the write succeeds, and the file has no
  header, so that every later opening fails to read it.\<close>

theorem truncate_loses_header:
  assumes "prims_ok Pr" "be_ok (contentEnc v)" "volume_of w sid = Some v"
    and "opened Pr (contentEnc v) w sid h f i c p" "file_ID f = Some x"
    and "length d = BS (contentEnc v)" "quiet (w_os w)" "nonces_ok (IVLen (cryptoCore (contentEnc v))) 1 (w_rng w)"
  shows "\<exists>w1 w2 c'. FileOps.truncate Pr sid v h 0 w = Ret (True, w1) \<and>
    doWrite Pr sid v h d 0 w1 = Ret ((of_nat (length d), True), w2) \<and>
    file_at (w_os w2) (file_fd f) i c' \<and> length c' > 18 \<and> (\<forall>y. \<not> has_header y c')"
proof -
  note O = openedD [OF assms(4)]
  have x: "length x = headerIDLen" using O(3) assms(5) has_headerD(2) by (auto simp: stored_def)
  obtain w1 where w1: "FileOps.truncate Pr sid v h 0 w = Ret (True, w1)" "handle_of w1 sid h = Some f"
    "volume_of w1 sid = volume_of w sid" "file_at (w_os w1) (file_fd f) i []" "quiet (w_os w1)" "w_rng w1 = w_rng w"
    by (rule truncate_zero [OF assms(4,7)])
  have v1: "volume_of w1 sid = Some v" using w1(3) assms(3) by simp
  have r1: "nonces_ok (IVLen (cryptoCore (contentEnc v))) 1 (w_rng w1)" using assms(8) w1(6) by simp
  obtain w2 ct where "doWrite Pr sid v h d 0 w1 = Ret ((of_nat (length d), True), w2)"
    "file_at (w_os w2) (file_fd f) i (zeros 18 @ ct)" "ct \<noteq> []"
    by (rule stale_write [OF assms(1) v1 assms(2) w1(2) assms(5) x w1(4) assms(6) w1(5) r1])
  then show ?thesis using w1(1) zero_header by (intro exI [of _ w1] exI [of _ w2] exI [of _ "zeros 18 @ ct"]) simp
qed

theorem truncate_loses_header_witness:
  "\<exists>w1 w2 c'. FileOps.truncate toy_prims 0 (toy_volume False [(0, toy_file (Some toy_id))]) 0 0
      (toy_world (toy_os toy_header) False [(0, toy_file (Some toy_id))]) = Ret (True, w1) \<and>
    doWrite toy_prims 0 (toy_volume False [(0, toy_file (Some toy_id))]) 0 [1, 2, 3, 4] 0 w1 = Ret ((4, True), w2) \<and>
    file_at (w_os w2) 0 0 c' \<and> \<not> has_header toy_id c'"
proof -
  let ?v = "toy_volume False [(0, toy_file (Some toy_id))]"
  let ?w = "toy_world (toy_os toy_header) False [(0, toy_file (Some toy_id))]"
  have be: "contentEnc ?v = toy_be" by (simp add: toy_volume_def)
  have v: "volume_of ?w 0 = Some ?v" by (simp add: volume_of_def toy_world_def table_lookup_def)
  have o: "opened toy_prims (contentEnc ?v) ?w 0 0 (toy_file (Some toy_id)) 0 toy_header []"
    unfolding be by (rule toy_opened) (simp add: toy_stored)
  have r: "nonces_ok (IVLen (cryptoCore (contentEnc ?v))) 1 (w_rng ?w)"
    using toy_nonces(1) by (simp only: be toy_be_simps) (simp only: toy_world_def world.select_convs)
  have x: "file_ID (toy_file (Some toy_id)) = Some toy_id" "file_fd (toy_file (Some toy_id)) = 0"
    by (simp_all add: toy_file_def)
  have d: "length [1, 2, 3, 4 :: byte] = BS (contentEnc ?v)" "quiet (w_os ?w)" "be_ok (contentEnc ?v)"
    using toy_be_ok by (simp_all add: be toy_world_def toy_os_def)
  have n: "of_nat (length [1, 2, 3, 4 :: byte]) = (4 :: uint32)" by simp
  from truncate_loses_header [OF toy_prims_ok d(3) v o x(1) d(1,2) r, unfolded n x(2)] show ?thesis by blast
qed

section \<open>Handles\<close>

text \<open>A new handle gets the smallest number that is not in use; no other handle of any
  volume changes.\<close>

theorem new_handle_number:
  assumes "volume_of w sid = Some v"
  shows "\<exists>c w'. registerFileHandle sid fd path w = Ret (c, w') \<and> 0 \<le> c \<and> handle_of w sid c = None \<and>
    (\<forall>j. 0 \<le> j \<and> j < c \<longrightarrow> handle_of w sid j \<noteq> None) \<and>
    (\<forall>sid' j. handle_of w' sid' j = (if sid' = sid \<and> j = c
       then Some \<lparr>file_fd = fd, file_path = path, file_ID = None, fdReaders = 0\<rparr> else handle_of w sid' j))"
  by (rule registerFileHandle_spec [OF assms, of fd path]) blast

theorem new_handle_number_witness:
  "\<exists>c w'. registerFileHandle 0 7 ''/b'' toy_new = Ret (c, w') \<and> handle_of w' 0 0 = Some (toy_file None)"
proof -
  have v: "volume_of toy_new 0 = Some (toy_volume False [(0, toy_file None)])"
    by (simp add: volume_of_def toy_world_def table_lookup_def)
  have h: "handle_of toy_new 0 0 = Some (toy_file None)"
    by (simp add: handle_of_def v table_lookup_def toy_volume_def)
  obtain c w' where "registerFileHandle 0 7 ''/b'' toy_new = Ret (c, w')" "handle_of toy_new 0 c = None"
    "\<forall>sid' j. handle_of w' sid' j = (if sid' = 0 \<and> j = c
       then Some \<lparr>file_fd = 7, file_path = ''/b'', file_ID = None, fdReaders = 0\<rparr> else handle_of toy_new sid' j)"
    using new_handle_number [OF v, of 7 "''/b''"] by blast
  then show ?thesis using h by (metis option.distinct(1))
qed

end
