(* ===== verification/NameLaws.thy ===== *)
theory NameLaws
  imports FileOps
begin

unbundle bit_operations_syntax

text \<open>
  What the name layer promises to the operations on paths: total encryption of names, names
  on disk that cannot be confused, complete symbolic links, listings that show valid names
  only, and a walk along a path that ends.
\<close>

lemma sum_case_eq:
  "(case r of Inl e \<Rightarrow> f e | Inr x \<Rightarrow> g x) = y \<longleftrightarrow> (\<exists>e. r = Inl e \<and> f e = y) \<or> (\<exists>x. r = Inr x \<and> g x = y)"
  "(case r of Inl e \<Rightarrow> f' e | Inr x \<Rightarrow> g' x) w = y \<longleftrightarrow> (\<exists>e. r = Inl e \<and> f' e w = y) \<or> (\<exists>x. r = Inr x \<and> g' x w = y)"
  by (cases r; simp)+

section \<open>Encrypting and hashing\<close>

text \<open>
  The three outcomes: the name is too long, it is invalid, or it is encrypted, and hashed when the
  encryption is too long for the file system.
\<close>

lemma EncryptAndHashName_cases:
  assumes "prims_ok P" "length iv = 16" "emeCipher n = Some key"
  obtains (long) "length s > 255" "EncryptAndHashName P n s iv = Ret (Inl (Errno ENAMETOOLONG))"
  | (invalid) "length s \<le> 255" "IsValidName s \<noteq> None" "EncryptAndHashName P n s iv = Ret (Inl (Errno EBADMSG))"
  | (plain) c where "IsValidName s = None" "EncryptName P n s iv = Ret (Inr c)" "int (length c) \<le> longNameMax n"
      "EncryptAndHashName P n s iv = Ret (Inr c)" "CHR ''.'' \<notin> set c" "CHR ''/'' \<notin> set c" "c \<noteq> []"
  | (hashed) c where "IsValidName s = None" "EncryptName P n s iv = Ret (Inr c)" "int (length c) > longNameMax n"
      "EncryptAndHashName P n s iv = Ret (Inr (HashLongName P n c))"
proof -
  have k: "nkey_ok (P, key, iv, raw64 n)" using assms by (simp add: nkey_ok_def)
  consider "length s > 255" | "length s \<le> 255" "IsValidName s \<noteq> None" | "IsValidName s = None"
    by fastforce
  then show thesis
  proof cases
    case 1
    then show ?thesis using long by (simp add: EncryptAndHashName_def NameMax_def)
  next
    case 2
    then show ?thesis using invalid EncryptName_valid(2) [OF k assms(3)] by (simp add: EncryptAndHashName_def NameMax_def)
  next
    case 3
    then obtain c where c: "EncryptName P n s iv = Ret (Inr c)"
      "length c = b64_EncodedLen (raw64 n) ((length s div 16 + 1) * 16)" "CHR ''.'' \<notin> set c" "CHR ''/'' \<notin> set c"
      using EncryptName_valid(1) [OF k assms(3)] by blast
    have l: "\<not> length s > NameMax" using 3 by (auto simp: IsValidName_def split: if_splits)
    have "0 < length c" unfolding c(2) by (auto simp: b64_EncodedLen_def)
    then have "c \<noteq> []" by simp
    then show ?thesis
      using plain hashed c 3 l
      by (cases "int (length c) > longNameMax n") (simp_all add: EncryptAndHashName_def)
  qed
qed

lemma EncryptName_inj:
  assumes "prims_ok P" "length iv = 16" "emeCipher n = Some key"
    and "EncryptName P n s iv = Ret (Inr c)" "EncryptName P n s' iv = Ret (Inr c)"
  shows "s = s'"
proof -
  have k: "nkey_ok (P, key, iv, raw64 n)" using assms by (simp add: nkey_ok_def)
  have "decryptName P n c iv = Ret (Inr t)" if "EncryptName P n t iv = Ret (Inr c)" for t
  proof -
    have "IsValidName t = None" "encryptName P n t iv = Ret c"
      using that by (auto simp: EncryptName_def go_bind_eq_Ret split: if_splits)
    then show ?thesis
      using decryptName_iff [OF k assms(3)] by (auto simp: IsValidName_def NameMax_def split: if_splits)
  qed
  from this [OF assms(4)] this [OF assms(5)] show ?thesis by simp
qed

lemma EncryptName_DecryptName:
  assumes "prims_ok P" "length iv = 16" "emeCipher n = Some key" "badnamePatterns n = []"
  shows "DecryptName P n c iv = Ret (Inr s) \<longleftrightarrow> EncryptName P n s iv = Ret (Inr c)"
proof -
  have k: "nkey_ok (P, key, iv, raw64 n)" using assms by (simp add: nkey_ok_def)
  have "DecryptName P n c iv = Ret (Inr s) \<longleftrightarrow> decryptName P n c iv = Ret (Inr s) \<and> IsValidName s = None"
    using assms(4) by (auto simp: DecryptName_def HaveBadnamePatterns_def go_bind_eq_Ret sum_case_eq split: if_splits)
  also have "\<dots> \<longleftrightarrow> encryptName P n s iv = Ret c \<and> IsValidName s = None"
    using decryptName_iff [OF k assms(3)] by (auto simp: IsValidName_def NameMax_def split: if_splits)
  also have "\<dots> \<longleftrightarrow> EncryptName P n s iv = Ret (Inr c)"
    by (auto simp: EncryptName_def go_bind_eq_Ret)
  finally show ?thesis .
qed

text \<open>Hashed names: their shape, and what equal ones mean.\<close>

lemma HashLongName_shape:
  assumes "prims_ok P"
  shows "length (HashLongName P n c) = (if raw64 n then 62 else 63)" "CHR ''/'' \<notin> set (HashLongName P n c)"
    "CHR ''.'' \<in> set (HashLongName P n c)" "take 19 (HashLongName P n c) = longNamePrefix"
proof -
  have s: "length (sha256 P (to_bytes c)) = 32" using assms by (simp add: prims_ok_def)
  show "length (HashLongName P n c) = (if raw64 n then 62 else 63)"
    by (simp add: HashLongName_def length_b64_encode s b64_EncodedLen_def longNamePrefix_def)
  show "CHR ''/'' \<notin> set (HashLongName P n c)" "CHR ''.'' \<in> set (HashLongName P n c)"
    "take 19 (HashLongName P n c) = longNamePrefix"
    using b64_encode_no_dot by (simp_all add: HashLongName_def longNamePrefix_def)
qed

lemma HashLongName_eq:
  "HashLongName P n c = HashLongName P n c' \<longleftrightarrow> sha256 P (to_bytes c) = sha256 P (to_bytes c')"
  unfolding HashLongName_def using b64_opt_encode by (metis append_same_eq same_append_eq option.inject)

section \<open>Symbolic links\<close>

text \<open>However long the target is, \<open>Readlinkat\<close> ends, and a success is the whole target.\<close>

definition link_target :: "os \<Rightarrow> int \<Rightarrow> string \<Rightarrow> bytes option" where
  "link_target s dirfd name = (case resolve s dirfd name of
     Inl e \<Rightarrow> None | Inr j \<Rightarrow> (case inode_node (inodes s ! j) of LnkF t \<Rightarrow> Some t | _ \<Rightarrow> None))"

lemma sys_readlink_target:
  assumes "sys (raw_readlinkat dirfd name bufsz) s = (Inr b, s')"
  shows "\<exists>t fs. link_target s dirfd name = Some t \<and> b = take bufsz t \<and> s' = s\<lparr>faults := fs\<rparr>"
proof -
  obtain f s1 where f: "next_fault s = (f, s1)" by (cases "next_fault s")
  then have s1: "\<exists>fs. s1 = s\<lparr>faults := fs\<rparr>"
    by (auto simp: next_fault_def split: list.splits intro: exI [of _ "faults s"])
  have "raw_readlinkat dirfd name bufsz s1 = (Inr b, s')"
    using assms f by (auto simp: sys_def split: option.splits)
  then show ?thesis
    using s1 by (auto simp: raw_readlinkat_def link_target_def split: sum.splits node.splits)
qed

lemma link_target_faults [simp]: "link_target (s\<lparr>faults := fs\<rparr>) d n = link_target s d n"
  by (simp add: link_target_def split: sum.splits node.splits)

lemma Readlinkat_loop_spec:
  "0 < bufsz \<Longrightarrow> \<exists>r fs. Readlinkat_loop dirfd name bufsz s = Ret (r, s\<lparr>faults := fs\<rparr>) \<and>
     (\<forall>b. r = Inr b \<longrightarrow> link_target s dirfd name = Some b)"
proof (induction dirfd name bufsz s rule: Readlinkat_loop.induct)
  case (1 dirfd name bufsz s)
  obtain r s1 where c: "sys (raw_readlinkat dirfd name bufsz) s = (r, s1)"
    by (cases "sys (raw_readlinkat dirfd name bufsz) s")
  show ?case
  proof (cases r)
    case (Inl e)
    have "\<exists>fs. s1 = s\<lparr>faults := fs\<rparr>"
      using c by (auto simp: sys_def next_fault_def raw_readlinkat_def split: list.splits option.splits sum.splits
          node.splits intro: exI [of _ "faults s"])
    then show ?thesis using 1(2) c Inl by (subst Readlinkat_loop.simps) auto
  next
    case (Inr b)
    obtain t fs where t: "link_target s dirfd name = Some t" "b = take bufsz t" "s1 = s\<lparr>faults := fs\<rparr>"
      using sys_readlink_target c Inr by blast
    show ?thesis
    proof (cases "length b < bufsz")
      case True
      then have "b = t" using t(2) by simp
      then show ?thesis using 1(2) c Inr t True by (subst Readlinkat_loop.simps) auto
    next
      case False
      have "bufsz \<noteq> 0" "0 < 2 * bufsz" using 1(2) by simp_all
      from 1(1) [OF this(1) c [symmetric] Inr False this(2)] show ?thesis
        using 1(2) c Inr t False by (subst Readlinkat_loop.simps) auto
    qed
  qed
qed

lemma Readlinkat_spec:
  "\<exists>r fs. Readlinkat dirfd name s = Ret (r, s\<lparr>faults := fs\<rparr>) \<and> (\<forall>b. r = Inr b \<longrightarrow> link_target s dirfd name = Some b)"
  unfolding Readlinkat_def by (rule Readlinkat_loop_spec) simp

section \<open>Listings\<close>

lemma DecryptName_valid: "DecryptName P n c iv = Ret (Inr s) \<Longrightarrow> IsValidName s = None"
  by (auto simp: DecryptName_def go_bind_eq_Ret sum_case_eq split: if_splits)

lemma list_entry_valid:
  assumes "list_entry P v fd dir iv c w = Ret (Some name, w')" "\<not> plainTextNames v"
  shows "IsValidName name = None"
  using assms
  by (auto simp: list_entry_def Let_def or_return_def bindw_eq_Ret lift_go_def go_bind_eq_Ret sum_case_eq
      split: name_type.splits if_splits dest: DecryptName_valid)

lemma list_entries_valid:
  assumes "list_entries P v fd dir iv cs w = Ret (es, w')" "\<not> plainTextNames v"
  shows "(\<forall>e \<in> set es. IsValidName (fst e) = None) \<and> length es \<le> length cs \<and> set (map snd es) \<subseteq> set (map snd cs)"
  using assms(1)
proof (induction cs arbitrary: w es)
  case (Cons c cs)
  then obtain r w1 rs where r: "list_entry P v fd dir iv (fst c) w = Ret (r, w1)"
    "list_entries P v fd dir iv cs w1 = Ret (rs, w')" "es = (case r of None \<Rightarrow> rs | Some name \<Rightarrow> (name, snd c) # rs)"
    by (auto simp: bindw_eq_Ret)
  show ?case
    using Cons.IH [of w1 rs] r list_entry_valid [OF _ assms(2)] by (cases r) auto
qed simp

text \<open>How the caller takes the C string apart.\<close>

fun split_nul :: "string \<Rightarrow> string \<Rightarrow> string list" where
  "split_nul acc [] = []"
| "split_nul acc (c # cs) = (if c = CHR 0x00 then acc # split_nul [] cs else split_nul (acc @ [c]) cs)"

lemma split_nul_name: "CHR 0x00 \<notin> set n \<Longrightarrow> split_nul acc (n @ CHR 0x00 # cs) = (acc @ n) # split_nul [] cs"
  by (induction n arbitrary: acc) auto

lemma split_pack_names:
  assumes "\<forall>e \<in> set es. IsValidName (fst e) = None"
  shows "split_nul [] (fst (pack_names es)) = map fst es \<and> snd (pack_names es) = map snd es"
  using assms
proof (induction es)
  case (Cons e es)
  have "CHR 0x00 \<notin> set (fst e)" using Cons.prems by (auto simp: IsValidName_def split: if_splits)
  then show ?case
    using Cons split_nul_name [of "fst e" "[]"] by (simp add: pack_names_def case_prod_beta)
qed (simp add: pack_names_def)

section \<open>The walk along a path\<close>

text \<open>
  What a walk needs of the process and keeps: standard input is open, and the volume \<open>v\<close>
  number \<open>sid\<close> is open with a cache whose entries have IVs of the length of the volume.
  Nothing but the cache changes in the volume.
\<close>

definition cache_ok :: "nat \<Rightarrow> dirCache \<Rightarrow> bool" where
  "cache_ok n d \<longleftrightarrow> ivLen d = n \<and> nextIndex d < dirCacheSize \<and> length (entries d) = dirCacheSize \<and>
     (\<forall>e \<in> set (entries d). dce_fd e > 0 \<longrightarrow> length (dce_iv e) = n)"

definition iv_len :: "volume \<Rightarrow> nat" where
  "iv_len v = (if plainTextNames v then 0 else DirIVLen)"

definition walk_ok :: "volume \<Rightarrow> int \<Rightarrow> world \<Rightarrow> bool" where
  "walk_ok v sid w \<longleftrightarrow> stdin_open (w_os w) \<and>
     (\<exists>d. volume_of w sid = Some (v\<lparr>dirCache := d\<rparr>) \<and> cache_ok (iv_len v) d)"

definition safe :: "volume \<Rightarrow> int \<Rightarrow> ('a \<Rightarrow> bool) \<Rightarrow> 'a io \<Rightarrow> bool" where
  "safe v sid Q m \<longleftrightarrow> (\<forall>w. walk_ok v sid w \<longrightarrow> (\<exists>x w'. m w = Ret (x, w') \<and> walk_ok v sid w' \<and> Q x))"

lemma safeD: "safe v sid Q m \<Longrightarrow> walk_ok v sid w \<Longrightarrow> \<exists>x w'. m w = Ret (x, w') \<and> walk_ok v sid w' \<and> Q x"
  by (simp add: safe_def)

lemma safe_ret: "Q x \<Longrightarrow> safe v sid Q (ret x)"
  by (simp add: safe_def)

lemma safe_bind:
  assumes "safe v sid R m" "\<And>x. R x \<Longrightarrow> safe v sid Q (f x)"
  shows "safe v sid Q (bindw m f)"
  using assms by (fastforce simp: safe_def bindw_def)

lemma safe_os:
  assumes "\<And>s. stdin_open s \<Longrightarrow> \<exists>x s'. f s = Ret (x, s') \<and> stdin_open s' \<and> Q x"
  shows "safe v sid Q (lift_os f)"
  using assms by (fastforce simp: safe_def lift_os_def walk_ok_def)

lemma safe_go: "m = Ret x \<Longrightarrow> Q x \<Longrightarrow> safe v sid Q (lift_go m)"
  by (simp add: safe_def lift_go_def)

lemma safe_close:
  assumes "fd \<noteq> 0"
  shows "safe v sid (\<lambda>_. True) (close_fd fd)"
  unfolding close_fd_def call_os_def
proof (rule safe_os)
  fix s assume "stdin_open s"
  moreover have "get_fd (close_quietly fd s) 0 = get_fd s 0"
  proof (cases "fd > 0")
    case False
    then show ?thesis using assms by (simp add: close_quietly_def Close_def get_fd_def)
  qed (simp add: close_quietly_fd0)
  ultimately show "\<exists>x s'. Ret ((), close_quietly fd s) = Ret (x, s') \<and> stdin_open s' \<and> True"
    by (simp add: stdin_open_def)
qed

lemma safe_defer: "safe v sid Q m \<Longrightarrow> fd \<noteq> 0 \<Longrightarrow> safe v sid Q (defer_close fd m)"
  unfolding defer_close_def by (rule safe_bind, assumption, rule safe_bind, rule safe_close) (simp_all add: safe_ret)

text \<open>Interruptions aside, a system call is one run of its operation or one failure.\<close>

lemma retry_sys:
  assumes "\<And>s. fst (f s) \<noteq> Inl EINTR"
  shows "\<exists>fs. (\<exists>e. retryEINTR (sys f) s = Ret (Inl e, s\<lparr>faults := fs\<rparr>)) \<or> retryEINTR (sys f) s = Ret (f (s\<lparr>faults := fs\<rparr>))"
proof -
  obtain x s1 where n: "next_fault (interrupted s) = (x, s1)" by (cases "next_fault (interrupted s)")
  then obtain fs where "s1 = s\<lparr>faults := fs\<rparr>" using next_fault_interrupted(1) by blast
  then show ?thesis using retryEINTR_sys [of f s, OF assms] n by (cases x) (auto simp: sys_def)
qed

lemma stdin_faults [simp]: "stdin_open (s\<lparr>faults := fs\<rparr>) = stdin_open s"
  by (simp add: stdin_open_def)

lemma alloc_fd_stdin:
  assumes "stdin_open s" "alloc_fd e s = (fd, s')"
  shows "fd > 0 \<and> stdin_open s'"
  using assms stdin_free_slot [of s]
  by (auto simp: alloc_fd_def Let_def stdin_open_def get_fd_def nth_append nth_list_update split: if_splits)

text \<open>Calls that deliver a descriptor deliver a positive one.\<close>

definition good_fd :: "errno + int \<Rightarrow> bool" where
  "good_fd r \<longleftrightarrow> (\<forall>fd. r = Inr fd \<longrightarrow> fd > 0)"

lemma raw_open_stdin:
  assumes "stdin_open s"
  shows "fst (raw_open_inode j fl s) \<noteq> Inl EINTR \<and> good_fd (fst (raw_open_inode j fl s)) \<and> stdin_open (snd (raw_open_inode j fl s))"
  using assms alloc_fd_stdin [OF assms]
  by (auto simp: raw_open_inode_def Let_def good_fd_def split: node.splits prod.splits)

lemma fds_simps [simp]: "stdin_open (set_node i nd s) = stdin_open s"
  "stdin_open (snd (new_inode nd pm s)) = stdin_open s"
  by (simp_all add: stdin_open_def new_inode_def get_fd_def set_node_def)

lemma dir_at_errors: "dir_at s fd \<noteq> Inl EINTR"
  by (auto simp: dir_at_def split: option.splits node.splits)

lemma entry_errors: "entry s i es n \<noteq> Inl EINTR"
  by (auto simp: entry_def split: option.splits)

lemma raw_openat_stdin:
  assumes "stdin_open s"
  shows "fst (raw_openat d n fl mode s) \<noteq> Inl EINTR \<and> good_fd (fst (raw_openat d n fl mode s)) \<and>
    stdin_open (snd (raw_openat d n fl mode s))"
proof (cases "dir_at s d")
  case (Inl e)
  then show ?thesis using assms dir_at_errors by (auto simp: raw_openat_def good_fd_def)
next
  case (Inr x)
  obtain i es where x: "x = (i, es)" by (cases x)
  show ?thesis
  proof (cases "entry s i es n")
    case (Inl e)
    obtain j s1 where n: "new_inode (RegF []) mode s = (j, s1)" by (cases "new_inode (RegF []) mode s")
    have "stdin_open s1" using fds_simps(2) [of "RegF []" mode s] assms n by simp
    then have "stdin_open (set_node i (DirF (es @ [(n, j)])) s1)" by simp
    from raw_open_stdin [OF this, of j fl] show ?thesis
      using Inl Inr x assms entry_errors
      by (auto simp: raw_openat_def open_in_def n) (simp_all add: good_fd_def)
  next
    case (Inr j)
    then show ?thesis
      using \<open>dir_at s d = Inr x\<close> x assms raw_open_stdin by (auto simp: raw_openat_def open_in_def good_fd_def)
  qed
qed

lemma retry_stdin:
  assumes "\<And>s. fst (f s) \<noteq> Inl EINTR"
    and "\<And>s. stdin_open s \<Longrightarrow> Q (fst (f s)) \<and> stdin_open (snd (f s))" "\<And>e. Q (Inl e)" "stdin_open s"
  shows "\<exists>x s'. retryEINTR (sys f) s = Ret (x, s') \<and> stdin_open s' \<and> Q x"
proof -
  obtain fs where "(\<exists>e. retryEINTR (sys f) s = Ret (Inl e, s\<lparr>faults := fs\<rparr>)) \<or>
      retryEINTR (sys f) s = Ret (f (s\<lparr>faults := fs\<rparr>))"
    using retry_sys [of f s, OF assms(1)] by blast
  then show ?thesis
  proof
    assume "retryEINTR (sys f) s = Ret (f (s\<lparr>faults := fs\<rparr>))"
    then show ?thesis using assms(2) [of "s\<lparr>faults := fs\<rparr>"] assms(4) by (cases "f (s\<lparr>faults := fs\<rparr>)") simp
  next
    assume "\<exists>e. retryEINTR (sys f) s = Ret (Inl e, s\<lparr>faults := fs\<rparr>)"
    then show ?thesis using assms(3,4) by auto
  qed
qed

lemma lookup_no_EINTR: "fst (raw_openat d n fl mode s) \<noteq> Inl EINTR" "fst (raw_open_dir p s) \<noteq> Inl EINTR"
  "fst (raw_fstatat d n s) \<noteq> Inl EINTR"
proof -
  have i: "fst (raw_open_inode j fl s) \<noteq> Inl EINTR" for j fl s
    by (auto simp: raw_open_inode_def Let_def split: node.splits prod.splits)
  then show "fst (raw_openat d n fl mode s) \<noteq> Inl EINTR"
    using dir_at_errors entry_errors by (auto simp: raw_openat_def open_in_def Let_def split: sum.splits prod.splits)
  show "fst (raw_open_dir p s) \<noteq> Inl EINTR"
    using i by (auto simp: raw_open_dir_def split: option.splits)
  show "fst (raw_fstatat d n s) \<noteq> Inl EINTR"
    using dir_at_errors entry_errors by (auto simp: raw_fstatat_def resolve_def split: sum.splits prod.splits)
qed

lemma Openat_stdin: "stdin_open s \<Longrightarrow> \<exists>x s'. Openat d n fl mode s = Ret (x, s') \<and> stdin_open s' \<and> good_fd x"
  unfolding Openat_def Let_def
  by (rule retry_stdin) (use lookup_no_EINTR(1) raw_openat_stdin in \<open>auto simp: good_fd_def\<close>)

lemma safe_openat: "safe v sid good_fd (lift_os (Openat d n fl mode))"
  by (rule safe_os) (rule Openat_stdin)

lemma Open_dir_stdin: "stdin_open s \<Longrightarrow> \<exists>x s'. Open_dir p s = Ret (x, s') \<and> stdin_open s' \<and> good_fd x"
  unfolding Open_dir_def
  by (rule retry_stdin)
    (use lookup_no_EINTR(2) raw_open_stdin in \<open>auto simp: good_fd_def raw_open_dir_def split: option.splits\<close>)

lemma Fstatat_stdin: "stdin_open s \<Longrightarrow> \<exists>x s'. Fstatat d n s = Ret (x, s') \<and> stdin_open s'"
proof -
  assume "stdin_open s"
  moreover have "snd (raw_fstatat d n s) = s" for s
    by (auto simp: raw_fstatat_def split: sum.splits)
  ultimately show ?thesis
    using retry_stdin [of "raw_fstatat d n" "\<lambda>_. True" s] lookup_no_EINTR(3) by (auto simp: Fstatat_def)
qed

text \<open>Reading a directory IV, with the descriptor for it closed again.\<close>

lemma close_quietly_stdin: "fd > 0 \<Longrightarrow> stdin_open (close_quietly fd s) = stdin_open s"
  by (simp add: stdin_open_def close_quietly_fd0)

lemma set_pos_stdin: "fd > 0 \<Longrightarrow> stdin_open (set_pos fd e n s) = stdin_open s"
  by (simp add: stdin_open_def set_pos_def get_fd_def)

lemma fdReadDirIV_stdin:
  assumes "fd > 0"
  shows "stdin_open (snd (fdReadDirIV fd s)) = stdin_open s"
    "fst (fdReadDirIV fd s) = Inr iv \<Longrightarrow> length iv = DirIVLen"
proof -
  obtain b er s' where r: "File_Read fd (DirIVLen + 1) s = ((b, er), s')" by (metis surj_pair)
  have "stdin_open s' = stdin_open s"
  proof -
    have "\<exists>fs. snd (next_fault (interrupted t)) = t\<lparr>faults := fs\<rparr>" for t
      using next_fault_interrupted(1) [of t] by (metis surj_pair snd_conv)
    then show ?thesis
      using r set_pos_stdin [OF assms]
      by (auto simp: File_Read_def Let_def split: if_splits option.splits node.splits prod.splits)
        (metis snd_conv stdin_faults)+
  qed
  then show "stdin_open (snd (fdReadDirIV fd s)) = stdin_open s" unfolding fdReadDirIV_def r by simp
  show "fst (fdReadDirIV fd s) = Inr iv \<Longrightarrow> length iv = DirIVLen" unfolding fdReadDirIV_def r by (auto split: if_splits)
qed

lemma ReadDirIVAt_stdin:
  assumes "stdin_open s"
  shows "\<exists>x s'. ReadDirIVAt n d s = Ret (x, s') \<and> stdin_open s' \<and> (\<forall>iv. x = Inr iv \<longrightarrow> length iv = DirIVLen)"
proof (cases "deterministicNames n")
  case False
  obtain r s1 where o: "Openat d DirIVFilename (O_RDONLY OR O_NOFOLLOW) 0 s = Ret (r, s1)" "stdin_open s1" "good_fd r"
    using Openat_stdin [OF assms] by blast
  show ?thesis
  proof (cases r)
    case (Inr fd)
    then have p: "fd > 0" using o(3) by (simp add: good_fd_def)
    obtain x s2 where x: "fdReadDirIV fd s1 = (x, s2)" by (cases "fdReadDirIV fd s1")
    show ?thesis
      using False o(1,2) Inr x fdReadDirIV_stdin [OF p, of s1] close_quietly_stdin [OF p]
      by (simp add: ReadDirIVAt_def)
  qed (use False o in \<open>simp add: ReadDirIVAt_def\<close>)
qed (use assms in \<open>simp add: ReadDirIVAt_def\<close>)

text \<open>Encrypting a name, with the search for badly named files on disk.\<close>

lemma EncryptName_total:
  assumes "prims_ok P" "length iv = 16" "emeCipher n = Some key"
  shows "\<exists>r. EncryptName P n s iv = Ret r"
proof -
  have k: "nkey_ok (P, key, iv, raw64 n)" using assms by (simp add: nkey_ok_def)
  show ?thesis using EncryptName_valid [OF k assms(3), of s] by blast
qed

lemma EncryptAndHashName_total:
  assumes "prims_ok P" "length iv = 16" "emeCipher n = Some key"
  shows "\<exists>r. EncryptAndHashName P n s iv = Ret r"
  by (rule EncryptAndHashName_cases [OF assms, of s]) blast+

lemma badname_search_stdin:
  assumes "prims_ok P" "length iv = 16" "emeCipher n = Some key" "stdin_open s"
  shows "\<exists>x s'. badname_search P n name iv d k acc s = Ret (x, s') \<and> stdin_open s'"
  using assms(4)
proof (induction k arbitrary: acc s)
  case (Suc k)
  obtain r where r: "EncryptName P n (take (Suc k) name) iv = Ret r" using EncryptName_total [OF assms(1-3)] by blast
  show ?case
  proof (cases r)
    case (Inr c)
    define c1 where "c1 = (if int (length ([] :: string)) > longNameMax n then HashLongName P n [] else c)
       @ drop (Suc k) (take (length name - length BadnameSuffix) name)"
    obtain x s1 where x: "Fstatat d c1 s = Ret (x, s1)" "stdin_open s1" using Fstatat_stdin [OF Suc.prems] by blast
    have "badname_search P n name iv d (Suc k) acc s = (case x of
        Inr _ \<Rightarrow> badname_search P n name iv d k (fst acc + 1, c1) s1 | Inl _ \<Rightarrow> badname_search P n name iv d k acc s1)"
      by (simp only: badname_search.simps r Inr go_bind.simps sum.case Let_def c1_def [symmetric] x(1) prod.case)
    then show ?thesis using Suc.IH [OF x(2)] by (cases x) auto
  qed (use r Suc in simp)
qed simp

lemma EncryptAndHashBadName_stdin:
  assumes "prims_ok P" "length iv = 16" "emeCipher n = Some key" "stdin_open s"
  shows "\<exists>x s'. EncryptAndHashBadName P n name iv d s = Ret (x, s') \<and> stdin_open s'"
proof -
  obtain r where r: "EncryptAndHashName P n name iv = Ret r" using EncryptAndHashName_total [OF assms(1-3)] by blast
  show ?thesis
  proof (cases "has_suffix name BadnameSuffix \<and> (\<exists>c0. r = Inr c0)")
    case True
    then obtain c0 where c0: "r = Inr c0" by blast
    obtain x s1 where x: "Fstatat d c0 s = Ret (x, s1)" "stdin_open s1" using Fstatat_stdin [OF assms(4)] by blast
    let ?p = "take (length name - length BadnameSuffix) name"
    obtain y s2 where y: "Fstatat d ?p s1 = Ret (y, s2)" "stdin_open s2" using Fstatat_stdin [OF x(2)] by blast
    obtain z s3 where z: "badname_search P n name iv d (length ?p) (case y of Inr _ \<Rightarrow> (1, ?p) | Inl _ \<Rightarrow> (0, c0)) s2 = Ret (z, s3)"
      "stdin_open s3"
      using badname_search_stdin [OF assms(1-3) y(2)] by blast
    show ?thesis
      using True r c0 x y z by (cases x; cases z) (auto simp: EncryptAndHashBadName_def Let_def)
  qed (use r assms(4) in \<open>auto simp: EncryptAndHashBadName_def split: sum.splits\<close>)
qed

text \<open>The cache during a walk.\<close>

lemma Dup_stdin:
  assumes "Dup fd s = (r, s')" "stdin_open s"
  shows "stdin_open s' \<and> good_fd r"
proof -
  obtain f s1 where f: "next_fault s = (f, s1)" by (cases "next_fault s")
  then have s1: "stdin_open s1"
    using assms(2) by (auto simp: next_fault_def split: list.splits)
  show ?thesis
    using assms(1) f s1 alloc_fd_stdin [OF s1]
    by (cases f) (auto simp: Dup_def sys_def raw_dup_def good_fd_def split: option.splits prod.splits)
qed

lemma Lookup_walk:
  assumes "cache_ok n d" "stdin_open s"
  shows "\<exists>fd iv s'. dirCache_Lookup d p s = Ret ((fd, iv), s') \<and> stdin_open s' \<and> (fd > 0 \<longrightarrow> length iv = n)"
proof (cases "List.find (live_at p) (entries d)")
  case (Some e)
  then have e: "dce_fd e > 0" "e \<in> set (entries d)" by (auto simp: find_Some_iff live_at_def)
  then have l: "length (dce_iv e) = n" "ivLen d = n" using assms(1) by (simp_all add: cache_ok_def)
  obtain r s1 where du: "Dup (dce_fd e) s = (r, s1)" by (cases "Dup (dce_fd e) s")
  then have "stdin_open s1" "good_fd r" using Dup_stdin assms(2) by blast+
  then show ?thesis using Some du l by (cases r) (auto simp: dirCache_Lookup_def good_fd_def)
qed (use assms in \<open>simp add: dirCache_Lookup_def\<close>)

lemma Store_walk:
  assumes "cache_ok n d" "stdin_open s" "fd > 0" "length iv = n"
  shows "\<exists>d' s'. dirCache_Store d p fd iv s = Ret (d', s') \<and> stdin_open s' \<and> cache_ok n d'"
proof -
  obtain s1 where c: "dirCacheEntry_Clear (entries d ! nextIndex d) s = (cleared, s1)" and s1: "stdin_open s1"
    using assms(2) close_quietly_stdin by (auto simp: dirCacheEntry_Clear_def)
  obtain r s2 where du: "Dup fd s1 = (r, s2)" by (cases "Dup fd s1")
  have s2: "stdin_open s2" using Dup_stdin [OF du s1] ..
  have m: "(nextIndex d + 1) mod dirCacheSize < dirCacheSize" by (simp add: dirCacheSize_def)
  have k: "cache_ok n (d\<lparr>nextIndex := (nextIndex d + 1) mod dirCacheSize, entries := (entries d)[i := e]\<rparr>)"
    if "dce_fd e > 0 \<longrightarrow> length (dce_iv e) = n" for i e
    using assms(1) that m by (auto simp: cache_ok_def dest!: subsetD [OF set_update_subset_insert])
  have k2: "cache_ok n (d'\<lparr>expireThreadRunning := b\<rparr>) = cache_ok n d'" for d' b by (simp add: cache_ok_def)
  have i: "nextIndex d < length (entries d)" "ivLen d = n" using assms(1) by (simp_all add: cache_ok_def)
  show ?thesis
  proof (cases r)
    case (Inl e)
    then show ?thesis using k [of cleared "nextIndex d"] assms(3,4) i c du s2 by (simp add: dirCache_Store_def Let_def)
  next
    case (Inr fd2)
    define e where "e = \<lparr>dce_path = p, dce_fd = fd2, dce_iv = iv\<rparr>"
    have "cache_ok n (d\<lparr>nextIndex := (nextIndex d + 1) mod dirCacheSize,
        entries := (entries d)[nextIndex d := e], expireThreadRunning := True\<rparr>)"
      using k [of e "nextIndex d"] assms(4) by (simp add: k2 e_def)
    then show ?thesis using assms(3,4) i c du s2 Inr by (simp add: dirCache_Store_def Let_def e_def)
  qed
qed

lemma safe_lookup:
  "safe v sid (\<lambda>(fd, iv). fd > 0 \<longrightarrow> length iv = iv_len v) (cache_lookup sid p)"
  unfolding safe_def
proof (intro allI impI)
  fix w assume w: "walk_ok v sid w"
  then obtain d where d: "volume_of w sid = Some (v\<lparr>dirCache := d\<rparr>)" "cache_ok (iv_len v) d" "stdin_open (w_os w)"
    by (auto simp: walk_ok_def)
  from Lookup_walk [OF d(2,3), of p]
  show "\<exists>x w'. cache_lookup sid p w = Ret (x, w') \<and> walk_ok v sid w' \<and> (case x of (fd, iv) \<Rightarrow> fd > 0 \<longrightarrow> length iv = iv_len v)"
    using d by (auto simp: cache_lookup_def walk_ok_def)
qed

lemma safe_store:
  assumes "fd > 0" "length iv = iv_len v"
  shows "safe v sid (\<lambda>_. True) (cache_store sid p fd iv)"
  unfolding safe_def
proof (intro allI impI)
  fix w assume w: "walk_ok v sid w"
  then obtain d where d: "volume_of w sid = Some (v\<lparr>dirCache := d\<rparr>)" "cache_ok (iv_len v) d" "stdin_open (w_os w)"
    by (auto simp: walk_ok_def)
  from Store_walk [OF d(2,3) assms, of p]
  show "\<exists>x w'. cache_store sid p fd iv w = Ret (x, w') \<and> walk_ok v sid w' \<and> True"
    using d by (auto simp: cache_store_def walk_ok_def)
qed

text \<open>The name of the child, and the descent.\<close>

definition good_pos :: "err + int \<times> string \<Rightarrow> bool" where
  "good_pos r \<longleftrightarrow> (\<forall>fd c. r = Inr (fd, c) \<longrightarrow> fd \<noteq> 0)"

lemma safe_name:
  assumes P: "prims_ok P" "emeCipher (nameTransform v) = Some key" and fd: "fd > 0" and iv: "length iv = iv_len v"
  shows "safe v sid good_pos (name_in_dir P v fd child iv)"
proof (cases "plainTextNames v")
  case False
  then have l: "length iv = 16" using iv by (simp add: iv_len_def DirIVLen_def)
  have "safe v sid (\<lambda>_. True) (encrypt_child P v fd child iv)"
  proof (cases "HaveBadnamePatterns (nameTransform v)")
    case True
    have "safe v sid (\<lambda>_. True) (lift_os (EncryptAndHashBadName P (nameTransform v) child iv fd))"
      using EncryptAndHashBadName_stdin [OF P(1) l P(2)] by (intro safe_os) blast
    then show ?thesis using True by (simp add: encrypt_child_def)
  next
    case False
    obtain r where "EncryptAndHashName P (nameTransform v) child iv = Ret r"
      using EncryptAndHashName_total [OF P(1) l P(2)] by blast
    then show ?thesis using False by (auto simp: encrypt_child_def intro: safe_go)
  qed
  then show ?thesis
    unfolding name_in_dir_def if_not_P [OF False]
    by (rule safe_bind)
      (auto split: sum.split intro!: safe_ret simp: good_pos_def fd intro: safe_bind [OF safe_close] simp: less_imp_neq [OF fd, symmetric])
qed (use fd in \<open>simp add: name_in_dir_def safe_ret good_pos_def\<close>)

lemma safe_open_parent:
  assumes P: "prims_ok P" "emeCipher (nameTransform v) = Some key"
    and m: "safe v sid good_pos (myself parent)"
  shows "safe v sid good_pos (open_parent P myself sid v parent child)"
  unfolding open_parent_def
proof (rule safe_bind [OF m])
  fix r assume r: "good_pos r"
  show "safe v sid good_pos (case r of Inl e \<Rightarrow> ret (Inl e) | Inr (parentDirfd, myCName) \<Rightarrow>
      defer_close parentDirfd
        (bindw (lift_os (Openat parentDirfd myCName (O_NOFOLLOW OR O_DIRECTORY OR O_PATH) 0)) (\<lambda>o1.
         case o1 of Inl e \<Rightarrow> ret (Inl (Errno e))
         | Inr dirfd \<Rightarrow>
             bindw (if plainTextNames v then ret (Inr []) else lift_os (ReadDirIVAt (nameTransform v) dirfd)) (\<lambda>ivr.
             case ivr of Inl e \<Rightarrow> bindw (close_fd dirfd) (\<lambda>_. ret (Inl e))
             | Inr iv \<Rightarrow> bindw (cache_store sid parent dirfd iv) (\<lambda>_. name_in_dir P v dirfd child iv)))))"
  proof (cases r)
    case (Inr x)
    obtain fd0 c0 where x: "x = (fd0, c0)" by (cases x)
    have fd0: "fd0 \<noteq> 0" using r Inr x by (simp add: good_pos_def)
    have rest: "safe v sid good_pos (case ivr of Inl e \<Rightarrow> bindw (close_fd dirfd) (\<lambda>_. ret (Inl e))
             | Inr iv \<Rightarrow> bindw (cache_store sid parent dirfd iv) (\<lambda>_. name_in_dir P v dirfd child iv))"
      if "dirfd > 0" "\<forall>iv. ivr = Inr iv \<longrightarrow> length iv = iv_len v" for dirfd and ivr :: "err + bytes"
      using that safe_name [OF P that(1)]
      by (cases ivr) (auto intro!: safe_bind [OF safe_close] safe_bind [OF safe_store] safe_ret simp: good_pos_def)
    have iv: "safe v sid (\<lambda>ivr. \<forall>iv. ivr = Inr iv \<longrightarrow> length iv = iv_len v)
        (if plainTextNames v then ret (Inr []) else lift_os (ReadDirIVAt (nameTransform v) dirfd))" for dirfd
      using ReadDirIVAt_stdin by (auto simp: iv_len_def intro: safe_ret safe_os)
    have "safe v sid good_pos (case o1 of Inl e \<Rightarrow> ret (Inl (Errno e))
         | Inr dirfd \<Rightarrow>
             bindw (if plainTextNames v then ret (Inr []) else lift_os (ReadDirIVAt (nameTransform v) dirfd)) (\<lambda>ivr.
             case ivr of Inl e \<Rightarrow> bindw (close_fd dirfd) (\<lambda>_. ret (Inl e))
             | Inr iv \<Rightarrow> bindw (cache_store sid parent dirfd iv) (\<lambda>_. name_in_dir P v dirfd child iv)))" if "good_fd o1" for o1
    proof (cases o1)
      case (Inr dirfd)
      then have "dirfd > 0" using that by (simp add: good_fd_def)
      then show ?thesis unfolding Inr sum.case by (rule safe_bind [OF iv rest])
    qed (simp add: safe_ret good_pos_def)
    then have "safe v sid good_pos (bindw (lift_os (Openat fd0 c0 (O_NOFOLLOW OR O_DIRECTORY OR O_PATH) 0)) (\<lambda>o1.
         case o1 of Inl e \<Rightarrow> ret (Inl (Errno e))
         | Inr dirfd \<Rightarrow>
             bindw (if plainTextNames v then ret (Inr []) else lift_os (ReadDirIVAt (nameTransform v) dirfd)) (\<lambda>ivr.
             case ivr of Inl e \<Rightarrow> bindw (close_fd dirfd) (\<lambda>_. ret (Inl e))
             | Inr iv \<Rightarrow> bindw (cache_store sid parent dirfd iv) (\<lambda>_. name_in_dir P v dirfd child iv))))"
      by (rule safe_bind [OF safe_openat])
    then show ?thesis using Inr x fd0 by (simp add: safe_defer)
  qed (simp add: safe_ret good_pos_def)
qed

lemma safe_prepare_child:
  assumes "prims_ok P" "emeCipher (nameTransform v) = Some key"
    and "safe v sid good_pos (myself (getParentPath path))"
  shows "safe v sid good_pos (prepare_child P myself sid v path)"
  unfolding prepare_child_def Let_def
  by (auto intro!: safe_ret safe_bind [OF safe_lookup] safe_name [OF assms(1,2)] safe_open_parent [OF assms(1,2), where myself = myself, OF assms(3)]
      split: if_splits simp: good_pos_def)

lemma safe_open_root: "safe v sid good_pos (open_root v)"
  unfolding open_root_def
  by (rule safe_bind, rule safe_os, rule Open_dir_stdin)
    (auto split: sum.split intro!: safe_ret simp: good_pos_def good_fd_def)

text \<open>On an absolute path the walk comes to an end, and delivers a position or an error.\<close>

lemma safe_Myself:
  assumes "prims_ok P" "emeCipher (nameTransform v) = Some key"
  shows "is_abs p \<Longrightarrow> length p \<le> n \<Longrightarrow> safe v sid good_pos (prepareAtSyscallMyself n P sid v p)"
proof (induction n arbitrary: p)
  case (Suc n)
  show ?case
  proof (cases "p = ''/''")
    case False
    note par = path_Dir_abs [OF Suc.prems(1) False]
    have "safe v sid good_pos (prepareAtSyscallMyself n P sid v (getParentPath p))"
      using Suc.prems par by (intro Suc.IH) auto
    then show ?thesis using False safe_prepare_child [OF assms] by simp
  qed (simp add: safe_open_root)
qed (simp add: is_abs_def)

lemma safe_prepare:
  assumes "prims_ok P" "emeCipher (nameTransform v) = Some key" "is_abs p" "length p \<le> n"
  shows "safe v sid good_pos (prepareAtSyscall n P sid v p)"
  using safe_Myself [OF assms] Myself_eq [OF assms(3,4)] by metis

section \<open>The small files in the directories\<close>

text \<open>Descriptors that are in use survive the allocation and release of another one.\<close>

lemma free_slot_free:
  "free_slot xs \<le> length xs" "free_slot xs < length xs \<Longrightarrow> xs ! free_slot xs = None"
proof -
  show "free_slot xs \<le> length xs" by (induction xs rule: free_slot.induct) simp_all
  show "free_slot xs < length xs \<Longrightarrow> xs ! free_slot xs = None" by (induction xs rule: free_slot.induct) simp_all
qed

lemma alloc_fd_get:
  assumes "alloc_fd e s = (fd, s')"
  shows "0 \<le> fd" "get_fd s' fd = Some e" "get_fd s fd = None" "get_fd s g = Some x \<Longrightarrow> g \<noteq> fd \<and> get_fd s' g = Some x"
    "inodes s' = inodes s" "faults s' = faults s" "now s' = now s"
  using assms free_slot_free [of "fds s"]
  by (auto simp: alloc_fd_def Let_def get_fd_def nth_list_update nth_append split: if_splits)

lemma quiet_fault: "quiet s \<Longrightarrow> \<exists>fs. next_fault s = (None, s\<lparr>faults := fs\<rparr>) \<and> set fs \<subseteq> {None}"
  by (cases "faults s") (auto simp: next_fault_def intro: exI [of _ "faults s"])

lemma quiet_interrupted: "quiet s \<Longrightarrow> interrupted s = s"
  by (cases "faults s" rule: skip_eintr.cases) (auto simp: interrupted_def)

lemma quiet_sys: "quiet s \<Longrightarrow> \<exists>fs. set fs \<subseteq> {None} \<and> (\<forall>f. sys f s = f (s\<lparr>faults := fs\<rparr>))"
  using quiet_fault [of s] by (auto simp: sys_def)

lemma Openat_quiet:
  assumes "quiet s"
  shows "\<exists>fs. set fs \<subseteq> {None} \<and> Openat d n fl mode s = Ret (raw_openat d n
     ((if fl AND O_CREAT = 0 \<and> fl AND O_NOFOLLOW = 0 then fl OR O_NOFOLLOW else fl) OR O_CLOEXEC) mode (s\<lparr>faults := fs\<rparr>))"
proof -
  obtain fs where fs: "set fs \<subseteq> {None}" "\<And>f. sys f s = (f (s\<lparr>faults := fs\<rparr>) :: (errno + int) \<times> os)"
    using quiet_sys [OF assms] by blast
  have "retryEINTR (sys (raw_openat d n fl' mode)) s = Ret (raw_openat d n fl' mode (s\<lparr>faults := fs\<rparr>))" for fl'
    using retryEINTR_sys [of "raw_openat d n fl' mode" s, OF lookup_no_EINTR(1)] fs(2)
    by (simp add: quiet_interrupted [OF assms])
  then show ?thesis using fs(1) by (auto simp: Openat_def Let_def)
qed

lemma dir_at_cong:
  assumes "get_fd s' d = get_fd s d" "inodes s' = inodes s"
  shows "dir_at s' d = dir_at s d"
  using assms by (simp add: dir_at_def split: option.splits node.splits)

lemma dir_at_faults [simp]: "dir_at (s\<lparr>faults := fs\<rparr>) d = dir_at s d"
  by (simp add: dir_at_def split: option.splits node.splits)

lemma open_small:
  assumes "quiet s" "dir_at s d = Inr (i, es)" "map_of es n = Some j" "name_ok n" "inode_node (inodes s ! j) = RegF c"
  obtains fd s' where "Openat d n (O_RDONLY OR O_NOFOLLOW) 0 s = Ret (Inr fd, s')" "0 \<le> fd"
    "get_fd s' fd = Some \<lparr>of_ino = j, of_pos = 0, of_wr = False\<rparr>" "inodes s' = inodes s" "quiet s'"
    "\<forall>g x. get_fd s g = Some x \<longrightarrow> g \<noteq> fd \<and> get_fd s' g = Some x"
proof -
  obtain fs where fs: "set fs \<subseteq> {None}" "Openat d n (O_RDONLY OR O_NOFOLLOW) 0 s
      = Ret (raw_openat d n ((O_RDONLY OR O_NOFOLLOW) OR O_CLOEXEC) 0 (s\<lparr>faults := fs\<rparr>))"
    using Openat_quiet [OF assms(1), of d n "O_RDONLY OR O_NOFOLLOW" 0] by (auto simp: open_flags)
  let ?fl = "(O_RDONLY OR O_NOFOLLOW) OR O_CLOEXEC"
  have fl: "\<not> flag_set ?fl O_CREAT" "\<not> flag_set ?fl O_DIRECTORY" "?fl AND O_ACCMODE = O_RDONLY"
    by (simp_all add: flag_set_def open_flags)
  obtain fd s' where a: "alloc_fd \<lparr>of_ino = j, of_pos = 0, of_wr = False\<rparr> (s\<lparr>faults := fs\<rparr>) = (fd, s')"
    by (cases "alloc_fd \<lparr>of_ino = j, of_pos = 0, of_wr = False\<rparr> (s\<lparr>faults := fs\<rparr>)")
  have "n \<noteq> ''.''" "length n \<le> 255" using assms(4) by (simp_all add: name_ok_def)
  then have "entry (s\<lparr>faults := fs\<rparr>) i es n = Inr j" using assms(3) by (simp add: entry_def)
  then have "raw_openat d n ?fl 0 (s\<lparr>faults := fs\<rparr>) = (Inr fd, s')"
    using assms(2,5) fl a by (simp add: raw_openat_def open_in_def raw_open_inode_def Let_def)
  moreover have "\<forall>g x. get_fd s g = Some x \<longrightarrow> g \<noteq> fd \<and> get_fd s' g = Some x"
    using alloc_fd_get(4) [OF a] by simp
  ultimately show thesis using fs alloc_fd_get(1,2,5,6) [OF a] by (intro that [of fd s']) simp_all
qed

lemma Close_quiet:
  assumes "quiet s" "get_fd s fd = Some e"
  obtains s' where "Close fd s = (Inr (), s')" "quiet s'" "inodes s' = inodes s" "now s' = now s"
    "\<forall>g. g \<noteq> fd \<longrightarrow> get_fd s' g = get_fd s g"
proof -
  obtain fs where "set fs \<subseteq> {None}" "next_fault s = (None, s\<lparr>faults := fs\<rparr>)" using quiet_fault [OF assms(1)] by blast
  then show thesis using assms(2)
    by (intro that [of "s\<lparr>faults := fs, fds := (fds s)[nat fd := None]\<rparr>"])
      (auto simp: Close_def get_fd_def nth_list_update split: if_splits)
qed

text \<open>Writing the whole content to a new descriptor and closing it.\<close>

lemma write_close:
  assumes "quiet s" "file_at s fd j []" "get_fd s fd = Some e" "of_pos e = 0" "data \<noteq> []" "length data \<le> maxbytes"
  obtains s1 s' where "File_Write fd data s = (None, s1)" "Close fd s1 = (Inr (), s')" "quiet s'"
    "inode_node (inodes s' ! j) = RegF data" "\<forall>k. k \<noteq> j \<longrightarrow> inodes s' ! k = inodes s ! k"
    "length (inodes s') = length (inodes s)" "\<forall>g. g \<noteq> fd \<longrightarrow> get_fd s' g = get_fd s g"
proof -
  obtain er c' s1 where w: "File_WriteAt fd data 0 s = (er, s1)" "file_at s1 fd j c'" "only_file j s s1"
    "er = None \<Longrightarrow> c' = overwrite (nat 0) data []" "quiet s \<Longrightarrow> nat 0 + length data \<le> maxbytes \<Longrightarrow> er = None"
    by (rule WriteAt_file [OF assms(2) order.refl assms(5)]) (rule that, assumption+)
  then have er: "er = None" "c' = data" using assms(1,5,6) by (simp_all add: overwrite_def)
  have fds: "fds s1 = fds s" "length (inodes s1) = length (inodes s)" "\<And>k. k \<noteq> j \<Longrightarrow> inodes s1 ! k = inodes s ! k" "quiet s1"
    using w(3) only_file_quiet [OF w(3) assms(1)] by (simp_all add: only_file_def)
  have j: "inode_node (inodes s1 ! j) = RegF data" using w(2) er(2) by (simp add: file_at_def)
  define s2 where "s2 = set_pos fd e (of_pos e + length data) s1"
  have W: "File_Write fd data s = (None, s2)" using assms(3,4) w(1) er(1) by (simp add: File_Write_def s2_def)
  have g2: "get_fd s2 fd = Some (e\<lparr>of_pos := of_pos e + length data\<rparr>)" "\<forall>g. g \<noteq> fd \<longrightarrow> get_fd s2 g = get_fd s g"
    using assms(3) fds(1) by (auto simp: s2_def set_pos_def get_fd_def nth_list_update split: if_splits)
  have i2: "inodes s2 = inodes s1" "quiet s2" using fds by (simp_all add: s2_def set_pos_def)
  obtain s3 where "Close fd s2 = (Inr (), s3)" "quiet s3" "inodes s3 = inodes s2" "\<forall>g. g \<noteq> fd \<longrightarrow> get_fd s3 g = get_fd s2 g"
    by (rule Close_quiet [OF i2(2) g2(1)]) (rule that, assumption+)
  with W j fds g2(2) i2(1) show thesis by (intro that [of s2 s3]) simp_all
qed

text \<open>A new small file holds its content, and its name is in the directory.\<close>

lemma create_small_quiet:
  assumes q: "quiet s" and d: "dir_at s d = Inr (i, es)" "i < length (inodes s)" and n: "map_of es n = None" "name_ok n"
    and data: "data \<noteq> []" "length data \<le> maxbytes"
  obtains s' where "create_small_file d n perms data s = Ret (None, s')" "quiet s'"
    "dir_at s' d = Inr (i, es @ [(n, length (inodes s))])" "i < length (inodes s')"
    "inode_node (inodes s' ! length (inodes s)) = RegF data"
    "\<forall>k. k < length (inodes s) \<and> k \<noteq> i \<longrightarrow> inodes s' ! k = inodes s ! k"
proof -
  let ?cr = "O_WRONLY OR O_CREAT OR O_EXCL" and ?j = "length (inodes s)"
  let ?fl = "?cr OR O_CLOEXEC"
  obtain fs where fs: "set fs \<subseteq> {None}" "Openat d n ?cr perms s = Ret (raw_openat d n ?fl perms (s\<lparr>faults := fs\<rparr>))"
    using Openat_quiet [OF q, of d n ?cr perms] by (auto simp: open_flags)
  have fl: "flag_set ?fl O_CREAT" "\<not> flag_set ?fl O_DIRECTORY" "?fl AND O_ACCMODE \<noteq> O_RDONLY"
    by (simp_all add: flag_set_def open_flags)
  define s1 where "s1 = set_node i (DirF (es @ [(n, ?j)])) (snd (new_inode (RegF []) perms (s\<lparr>faults := fs\<rparr>)))"
  obtain fd s2 where a: "alloc_fd \<lparr>of_ino = ?j, of_pos = 0, of_wr = True\<rparr> s1 = (fd, s2)"
    by (cases "alloc_fd \<lparr>of_ino = ?j, of_pos = 0, of_wr = True\<rparr> s1")
  note A = alloc_fd_get [OF a]
  have i1: "length (inodes s1) = Suc ?j" "inode_node (inodes s1 ! ?j) = RegF []" "inode_node (inodes s1 ! i) = DirF (es @ [(n, ?j)])"
    "\<And>k. k < ?j \<Longrightarrow> k \<noteq> i \<Longrightarrow> inodes s1 ! k = inodes s ! k" "quiet s1" "\<And>g. get_fd s1 g = get_fd s g"
    using d(2) fs(1) by (auto simp: s1_def set_node_def new_inode_def nth_append get_fd_def)
  have "entry (s\<lparr>faults := fs\<rparr>) i es n = Inl ENOENT" using n by (simp add: entry_def name_ok_def)
  then have "raw_openat d n ?fl perms (s\<lparr>faults := fs\<rparr>) = (Inr fd, s2)"
    using d n(2) fl a i1(2)
    by (simp add: raw_openat_def open_in_def raw_open_inode_def Let_def new_inode_def s1_def)
  then have O: "Openat d n ?cr perms s = Ret (Inr fd, s2)" using fs(2) by simp
  obtain e0 where e0: "get_fd s d = Some e0" "of_ino e0 = i"
    using d(1) by (auto simp: dir_at_def split: option.splits node.splits)
  have dd: "d \<noteq> fd" "get_fd s2 d = Some e0" using A(4) [of d e0] e0(1) i1(6) by simp_all
  have f2: "file_at s2 fd ?j []" using A(2,5) i1(1,2) by (simp add: file_at_def)
  have q2: "quiet s2" using A(6) i1(5) by simp
  obtain s3 s4 where w: "File_Write fd data s2 = (None, s3)" "Close fd s3 = (Inr (), s4)" "quiet s4"
    "inode_node (inodes s4 ! ?j) = RegF data" "\<forall>k. k \<noteq> ?j \<longrightarrow> inodes s4 ! k = inodes s2 ! k"
    "length (inodes s4) = length (inodes s2)" "\<forall>g. g \<noteq> fd \<longrightarrow> get_fd s4 g = get_fd s2 g"
    by (rule write_close [OF q2 f2 A(2) _ data]) simp
  have "create_small_file d n perms data s = Ret (None, s4)" using O w(1,2) by (simp add: create_small_file_def)
  moreover have "inode_node (inodes s4 ! i) = DirF (es @ [(n, ?j)])" using w(5) d(2) A(5) i1(3) by simp
  then have "dir_at s4 d = Inr (i, es @ [(n, ?j)])" using w(7) dd e0(2) by (simp add: dir_at_def)
  moreover have "i < length (inodes s4)" "\<forall>k. k < ?j \<and> k \<noteq> i \<longrightarrow> inodes s4 ! k = inodes s ! k"
    using w(5,6) A(5) i1(1,4) d(2) by simp_all
  ultimately show thesis using w(3,4) by (intro that)
qed

lemma read_small:
  assumes "quiet s" "get_fd s fd = Some e" "inode_node (inodes s ! of_ino e) = RegF c" "0 < n"
  shows "\<exists>fs. set fs \<subseteq> {None} \<and> File_Read fd n s =
      ((range_of (of_pos e) n c, if range_of (of_pos e) n c = [] then Some EOF else None),
       set_pos fd e (of_pos e + length (range_of (of_pos e) n c)) (s\<lparr>faults := fs\<rparr>))"
    and "length c < n \<Longrightarrow> \<exists>s'. File_ReadAt fd n 0 s = ((c, Some EOF), s')"
proof -
  obtain fs where fs: "set fs \<subseteq> {None}" and f: "next_fault (interrupted s) = (None, s\<lparr>faults := fs\<rparr>)"
    using quiet_fault [OF assms(1)] quiet_interrupted [OF assms(1)] by auto
  show "\<exists>fs. set fs \<subseteq> {None} \<and> File_Read fd n s =
      ((range_of (of_pos e) n c, if range_of (of_pos e) n c = [] then Some EOF else None),
       set_pos fd e (of_pos e + length (range_of (of_pos e) n c)) (s\<lparr>faults := fs\<rparr>))"
    using assms(2-4) f fs by (auto simp: File_Read_def Let_def)
  show "length c < n \<Longrightarrow> \<exists>s'. File_ReadAt fd n 0 s = ((c, Some EOF), s')"
    using assms(2-4) f by (auto simp: File_ReadAt_def range_of_def Let_def)
qed

lemma close_quietly_quiet:
  assumes "quiet s" "get_fd s fd = Some e"
  shows "quiet (close_quietly fd s) \<and> inodes (close_quietly fd s) = inodes s \<and>
    (\<forall>g. g \<noteq> fd \<longrightarrow> get_fd (close_quietly fd s) g = get_fd s g)"
  by (rule Close_quiet [OF assms]) (simp add: close_quietly_def)

text \<open>A directory IV that was written is the one that is read; so it is with long names.\<close>

lemma diriv_read_back:
  assumes "quiet s" "dir_at s d = Inr (i, es)" "map_of es DirIVFilename = Some j" "inode_node (inodes s ! j) = RegF iv"
    and "length iv = DirIVLen" "iv \<noteq> allZeroDirIV" "\<not> deterministicNames n"
  shows "\<exists>s'. ReadDirIVAt n d s = Ret (Inr iv, s') \<and> quiet s' \<and> inodes s' = inodes s \<and> dir_at s' d = dir_at s d"
proof -
  have nm: "name_ok DirIVFilename" by code_simp
  let ?e = "\<lparr>of_ino = j, of_pos = 0, of_wr = False\<rparr>"
  obtain fd s1 where o: "Openat d DirIVFilename (O_RDONLY OR O_NOFOLLOW) 0 s = Ret (Inr fd, s1)" "0 \<le> fd"
    "get_fd s1 fd = Some ?e" "inodes s1 = inodes s" "quiet s1" "\<forall>g x. get_fd s g = Some x \<longrightarrow> g \<noteq> fd \<and> get_fd s1 g = Some x"
    by (rule open_small [OF assms(1-3) nm assms(4)])
  have r: "range_of 0 (DirIVLen + 1) iv = iv" "iv \<noteq> []" using assms(5) by (auto simp: range_of_def DirIVLen_def)
  obtain fs where fs: "set fs \<subseteq> {None}"
    "File_Read fd (DirIVLen + 1) s1 = ((iv, None), set_pos fd ?e (length iv) (s1\<lparr>faults := fs\<rparr>))"
    using read_small(1) [OF o(5,3), of iv "DirIVLen + 1"] o(4) assms(4,5) r by auto
  define s2 where "s2 = set_pos fd ?e (length iv) (s1\<lparr>faults := fs\<rparr>)"
  have f: "fdReadDirIV fd s1 = (Inr iv, s2)" unfolding fdReadDirIV_def fs(2) s2_def using assms(5,6) by simp
  have s2: "quiet s2" "inodes s2 = inodes s" "get_fd s2 fd = Some (?e\<lparr>of_pos := length iv\<rparr>)"
    "\<forall>g. g \<noteq> fd \<longrightarrow> get_fd s2 g = get_fd s1 g"
    using fs(1) o(3,4) by (auto simp: s2_def set_pos_def get_fd_def nth_list_update split: if_splits)
  obtain e0 where e0: "get_fd s d = Some e0" using assms(2) by (auto simp: dir_at_def split: option.splits)
  have "get_fd (close_quietly fd s2) d = get_fd s d"
    using close_quietly_quiet [OF s2(1,3)] o(6) e0 s2(4) by auto
  then have "dir_at (close_quietly fd s2) d = dir_at s d"
    using close_quietly_quiet [OF s2(1,3)] s2(2) by (intro dir_at_cong) auto
  then show ?thesis
    using o(1) assms(7) f close_quietly_quiet [OF s2(1,3)] s2(2) by (simp add: ReadDirIVAt_def)
qed

lemma longname_read_back:
  assumes "quiet s" "dir_at s d = Inr (i, es)" "map_of es (c @ LongNameSuffix) = Some j" "name_ok (c @ LongNameSuffix)"
    and "inode_node (inodes s ! j) = RegF b" "b \<noteq> []" "length b \<le> 344"
  shows "\<exists>s'. ReadLongNameAt d c s = Ret (Inr (to_string b), s')"
proof -
  obtain fd s1 where o: "Openat d (c @ LongNameSuffix) (O_RDONLY OR O_NOFOLLOW) 0 s = Ret (Inr fd, s1)" "0 \<le> fd"
    "get_fd s1 fd = Some \<lparr>of_ino = j, of_pos = 0, of_wr = False\<rparr>" "inodes s1 = inodes s" "quiet s1"
    by (rule open_small [OF assms(1-5)]) (rule that)
  obtain s2 where "File_ReadAt fd (344 + 1) 0 s1 = ((b, Some EOF), s2)"
    using read_small(2) [OF o(5,3), of b "344 + 1"] o(4) assms(5,7) by auto
  then show ?thesis using o(1) assms(6,7) by (simp add: ReadLongNameAt_def)
qed

lemma new_diriv:
  assumes "quiet s" "dir_at s d = Inr (i, es)" "i < length (inodes s)" "map_of es DirIVFilename = None"
    and "fst (RandBytes DirIVLen r) \<noteq> allZeroDirIV" "\<not> deterministicNames n"
  shows "\<exists>s1 r1 s2. WriteDirIVAt d s r = Ret (None, s1, r1) \<and> ReadDirIVAt n d s1 = Ret (Inr (fst (RandBytes DirIVLen r)), s2)"
proof -
  obtain iv r' where iv: "RandBytes DirIVLen r = (iv, r')" by (cases "RandBytes DirIVLen r")
  then have l: "length iv = DirIVLen" using RandBytes_simps(1) [of DirIVLen r] by simp
  have nm: "name_ok DirIVFilename" by code_simp
  have b: "iv \<noteq> []" "length iv \<le> maxbytes" using l by (auto simp: DirIVLen_def maxbytes_def)
  obtain s' where s': "create_small_file d DirIVFilename dirivPerms iv s = Ret (None, s')" "quiet s'"
    "dir_at s' d = Inr (i, es @ [(DirIVFilename, length (inodes s))])" "i < length (inodes s')"
    "inode_node (inodes s' ! length (inodes s)) = RegF iv"
    by (rule create_small_quiet [OF assms(1-4) nm b])
  have "map_of (es @ [(DirIVFilename, length (inodes s))]) DirIVFilename = Some (length (inodes s))"
    using assms(4) by (simp add: map_add_def)
  from diriv_read_back [OF s'(2,3) this s'(5) l _ assms(6)] show ?thesis
    using assms(5) s'(1) iv by (auto simp: WriteDirIVAt_def)
qed

text \<open>A long name that is written next to its hash is listed under the plaintext name.\<close>

lemma long_name_roundtrip:
  assumes P: "prims_ok P" "emeCipher n = Some key" "badnamePatterns n = []" "\<not> deterministicNames n"
    and s: "quiet s" "dir_at s d = Inr (i, es)" "i < length (inodes s)"
    and iv: "map_of es DirIVFilename = Some j" "j < length (inodes s)" "j \<noteq> i" "inode_node (inodes s ! j) = RegF iv"
      "length iv = DirIVLen" "iv \<noteq> allZeroDirIV"
    and h: "EncryptAndHashName P n (path_Base path) iv = Ret (Inr h)" "IsLongContent h" "map_of es (h @ LongNameSuffix) = None"
  obtains s1 c where "WriteLongNameAt P n d h path s = Ret (None, s1)" "EncryptName P n (path_Base path) iv = Ret (Inr c)"
    "\<exists>s2. ReadLongNameAt d h s1 = Ret (Inr c, s2)"
proof -
  have l: "length iv = 16" using iv(5) by (simp add: DirIVLen_def)
  obtain c where c: "EncryptName P n (path_Base path) iv = Ret (Inr c)" "h = HashLongName P n c" "IsValidName (path_Base path) = None"
  proof (rule EncryptAndHashName_cases [OF P(1) l P(2), of "path_Base path"])
    fix c assume "EncryptAndHashName P n (path_Base path) iv = Ret (Inr c)" "CHR ''.'' \<notin> set c"
    then show thesis using h NameType_no_dot [of c] by (simp add: IsLongContent_def)
  qed (use h that in auto)
  have k: "nkey_ok (P, key, iv, raw64 n)" using P l by (simp add: nkey_ok_def)
  have "length c = b64_EncodedLen (raw64 n) ((length (path_Base path) div 16 + 1) * 16)"
    using EncryptName_valid(1) [OF k P(2) c(3)] c(1) by auto
  moreover have "length (path_Base path) \<le> 255" using c(3) by (auto simp: IsValidName_def NameMax_def split: if_splits)
  then have "length (path_Base path) div 16 + 1 \<le> 16" by simp
  then have "b64_EncodedLen (raw64 n) ((length (path_Base path) div 16 + 1) * 16) \<le> 344"
    "0 < b64_EncodedLen (raw64 n) ((length (path_Base path) div 16 + 1) * 16)"
    by (auto simp: b64_EncodedLen_def)
  ultimately have cl: "c \<noteq> []" "length c \<le> 344" by auto
  obtain s1 where s1: "ReadDirIVAt n d s = Ret (Inr iv, s1)" "quiet s1" "inodes s1 = inodes s" "dir_at s1 d = dir_at s d"
    using diriv_read_back [OF s(1,2) iv(1,4,5,6) P(4)] by blast
  have nm: "name_ok (h @ LongNameSuffix)"
  proof -
    have "length h \<le> 63" "CHR ''/'' \<notin> set h" using HashLongName_shape(1,2) [OF P(1), of n c] c(2) by simp_all
    then show ?thesis by (auto simp: name_ok_def LongNameSuffix_def)
  qed
  have dd: "dir_at s1 d = Inr (i, es)" "i < length (inodes s1)" using s(2,3) s1(3,4) by simp_all
  have b: "to_bytes c \<noteq> []" "length (to_bytes c) \<le> maxbytes" using cl by (auto simp: maxbytes_def)
  obtain s2 where s2: "create_small_file d (h @ LongNameSuffix) namePerms (to_bytes c) s1 = Ret (None, s2)" "quiet s2"
    "dir_at s2 d = Inr (i, es @ [(h @ LongNameSuffix, length (inodes s1))])"
    "inode_node (inodes s2 ! length (inodes s1)) = RegF (to_bytes c)"
    by (rule create_small_quiet [OF s1(2) dd h(3) nm b])
  have m: "map_of (es @ [(h @ LongNameSuffix, length (inodes s1))]) (h @ LongNameSuffix) = Some (length (inodes s1))"
    using h(3) by (simp add: map_add_def)
  have "\<exists>s3. ReadLongNameAt d h s2 = Ret (Inr c, s3)"
    using longname_read_back [OF s2(2,3) m nm s2(4) b(1), unfolded to_string_to_bytes] cl(2) by simp
  moreover have "WriteLongNameAt P n d h path s = Ret (None, s2)"
    using s1(1) c(1) s2(1) by (simp add: WriteLongNameAt_def Let_def)
  ultimately show thesis using c(1) that by blast
qed

lemma long_name_listed:
  assumes P: "prims_ok P" "emeCipher (nameTransform v) = Some key" "badnamePatterns (nameTransform v) = []"
    and v: "\<not> plainTextNames v" "length iv = DirIVLen"
    and h: "IsLongContent h" "EncryptName P (nameTransform v) name iv = Ret (Inr c)"
    and r: "ReadLongNameAt d h (w_os w) = Ret (Inr c, s2)"
  shows "list_entry P v d dir iv h w = Ret (Some name, w\<lparr>w_os := s2\<rparr>)"
proof -
  have l: "length iv = 16" using v(2) by (simp add: DirIVLen_def)
  have D: "DecryptName P (nameTransform v) c iv = Ret (Inr name)"
    using EncryptName_DecryptName [OF P(1) l P(2,3)] h(2) by simp
  have "NameType DirIVFilename = LongNameNone" "NameType ConfDefaultName = LongNameNone" by code_simp+
  then have "h \<noteq> DirIVFilename" "h \<noteq> ConfDefaultName" using h(1) by (auto simp: IsLongContent_def)
  then show ?thesis
    using v(1) h(1) r D
    by (simp add: list_entry_def Let_def IsLongContent_def or_return_def bindw_def lift_os_def lift_go_def)
qed

section \<open>Relative paths\<close>

text \<open>The parent of a relative path is the empty path, which is its own parent.\<close>

lemma no_parent:
  assumes "volume_of w sid = Some v" "\<forall>e \<in> set (entries (dirCache v)). \<not> live_at [] e"
    and "getParentPath p = []" "\<not> isFiltered v0 p" "myself [] w = Panic StackOverflow"
  shows "prepare_child P myself sid v0 p w = Panic StackOverflow"
proof -
  have "List.find (live_at []) (entries (dirCache v)) = None" using assms(2) by (simp add: find_None_iff)
  then have "cache_lookup sid [] w = Ret ((-1, []), w)"
    using assms(1) by (simp add: cache_lookup_def dirCache_Lookup_def)
  then show ?thesis
    using assms(3-5) by (simp add: prepare_child_def Let_def bindw_def open_parent_def)
qed

lemma empty_path_overflows:
  assumes "volume_of w sid = Some v" "\<forall>e \<in> set (entries (dirCache v)). \<not> live_at [] e"
  shows "prepareAtSyscallMyself n P sid v0 [] w = Panic StackOverflow"
proof (induction n)
  case (Suc n)
  have "\<not> isFiltered v0 []" by (simp add: isFiltered_def ConfDefaultName_def)
  from no_parent [OF assms getParentPath_relative this, of "prepareAtSyscallMyself n P sid v0" P] Suc
  show ?case by simp
qed simp

section \<open>Sizes\<close>

lemma Fstatat_quiet:
  assumes "quiet s" "resolve s d n = Inr j"
  shows "\<exists>fs. Fstatat d n s = Ret (Inr (stat_of (inodes s ! j)), s\<lparr>faults := fs\<rparr>)"
proof -
  obtain fs where "sys (raw_fstatat d n) s = raw_fstatat d n (s\<lparr>faults := fs\<rparr>)" using quiet_sys [OF assms(1)] by blast
  then show ?thesis
    using retryEINTR_sys [of "raw_fstatat d n" s, OF lookup_no_EINTR(3)] quiet_interrupted [OF assms(1)] assms(2)
    by (auto simp: Fstatat_def raw_fstatat_def)
qed

lemma holds_plain_size:
  assumes "be_ok be" "holds P be None c p" "length p \<le> 2 ^ 57"
  shows "CipherSizeToPlainSize be (of_nat (length c)) = Ret (of_nat (length p))"
proof -
  note B = be_okD [OF assms(1)]
  have "length c < 2 ^ 63"
  proof (cases "p = []")
    case False
    then have "length c \<le> 18 + length p * 41"
      using holds_size(2) [OF assms(1,2)] csize_bound [OF B(3,17)] by simp
    then show ?thesis using assms(3) by simp
  qed (use assms(2) in \<open>simp add: holds_def\<close>)
  then have c: "unat (of_nat (length c) :: uint64) = length c" by (simp add: unat_of_nat)
  then have "unat (of_nat (length c) :: uint64) < 2 ^ 63" using \<open>length c < 2 ^ 63\<close> by simp
  then obtain q where q: "CipherSizeToPlainSize be (of_nat (length c)) = Ret q"
    "unat q = psize (BS be) (OH be) (unat (of_nat (length c) :: uint64))"
    using CipherSizeToPlainSize_spec [OF assms(1)] by blast
  have "unat q = length p" using q(2) holds_size(1) [OF assms(1,2)] unfolding c by simp
  from this [symmetric] have "q = of_nat (length p)" by simp
  then show ?thesis using q(1) by simp
qed

text \<open>The attributes of a regular file.\<close>

lemma get_attrs_regular:
  assumes "be_ok (contentEnc v)" "holds P (contentEnc v) None c p" "length p \<le> 2 ^ 57"
    and "volume_of w sid = Some v" "prepareAtSyscall (depth path) P sid v path w = Ret (Inr (d, n), w1)"
    and "quiet (w_os w1)" "resolve (w_os w1) d n = Inr j" "inode_node (inodes (w_os w1) ! j) = RegF c"
    and "inode_perm (inodes (w_os w1) ! j) AND S_IFMT = 0"
  shows "\<exists>w2. gcf_get_attrs P sid path w = Ret ((S_IFREG OR inode_perm (inodes (w_os w1) ! j), of_nat (length p),
      of_int (inode_mtime (inodes (w_os w1) ! j)), True), w2)"
proof -
  obtain fs where f: "Fstatat d n (w_os w1) = Ret (Inr (stat_of (inodes (w_os w1) ! j)), (w_os w1)\<lparr>faults := fs\<rparr>)"
    using Fstatat_quiet [OF assms(6,7)] by blast
  have m: "isRegular (S_IFREG OR inode_perm (inodes (w_os w1) ! j))"
  proof -
    have "(S_IFREG OR inode_perm (inodes (w_os w1) ! j)) AND S_IFMT
        = (S_IFREG AND S_IFMT) OR (inode_perm (inodes (w_os w1) ! j) AND S_IFMT)"
      by (rule bit.conj_disj_distrib2)
    also have "\<dots> = S_IFREG" unfolding assms(9) by (simp add: S_IFREG_def S_IFMT_def)
    finally show ?thesis by (simp add: isRegular_def)
  qed
  show ?thesis
    using f m assms(4,5,8) holds_plain_size [OF assms(1-3)]
    by (simp add: gcf_get_attrs_def with_volume_def or_return_def bindw_def defer_close_def lift_os_def translateSize_def
        stat_of_def lift_go_def close_fd_def call_os_def)
qed

section \<open>Flags\<close>

lemma accmode_wronly: "(x :: uint64) AND O_ACCMODE = O_WRONLY \<Longrightarrow> bit x 0 \<and> \<not> bit x 1"
proof -
  assume a: "x AND O_ACCMODE = O_WRONLY"
  have "bit (x AND O_ACCMODE) 0 = bit O_WRONLY 0" "bit (x AND O_ACCMODE) 1 = bit O_WRONLY 1" using a by simp_all
  then show ?thesis by (simp add: bit_and_iff open_flags)
qed

lemma disjoint_bits: "a AND b = 0 \<Longrightarrow> bit (a :: uint64) k \<Longrightarrow> \<not> bit b k"
  by (metis bit_and_iff bit_0_eq bot_apply bot_bool_def)

lemma mangled_flags:
  "mangleOpenFlags f AND O_ACCMODE \<noteq> O_WRONLY \<and> mangleOpenFlags f AND O_APPEND = 0 \<and>
   mangleOpenFlags f AND O_DIRECT = 0 \<and> mangleOpenFlags f AND O_CREAT = 0 \<and> mangleOpenFlags f AND O_NOFOLLOW = O_NOFOLLOW"
proof -
  define g where "g = (if ucast f AND O_ACCMODE = O_WRONLY then (ucast f XOR O_WRONLY) OR O_RDWR else ucast f :: uint64)"
  have m: "mangleOpenFlags f = (((g AND NOT O_APPEND) AND NOT O_DIRECT) AND NOT O_CREAT) OR O_NOFOLLOW"
    by (simp add: mangleOpenFlags_def g_def Let_def)
  have d: "O_NOFOLLOW AND O_APPEND = 0" "O_NOFOLLOW AND O_DIRECT = 0" "O_NOFOLLOW AND O_CREAT = 0"
    by (simp_all add: open_flags)
  have "mangleOpenFlags f AND O_APPEND = 0" "mangleOpenFlags f AND O_DIRECT = 0" "mangleOpenFlags f AND O_CREAT = 0"
    by (rule bit_word_eqI; use d [THEN disjoint_bits] in \<open>auto simp: m bit_simps\<close>)+
  moreover have "mangleOpenFlags f AND O_NOFOLLOW = O_NOFOLLOW"
    by (rule bit_word_eqI) (auto simp: m bit_simps)
  moreover have "mangleOpenFlags f AND O_ACCMODE \<noteq> O_WRONLY"
  proof
    assume "mangleOpenFlags f AND O_ACCMODE = O_WRONLY"
    then have b: "bit (mangleOpenFlags f) 0" "\<not> bit (mangleOpenFlags f) 1" using accmode_wronly by blast+
    then have g: "bit g 0" "\<not> bit g 1" by (auto simp: m bit_simps open_flags)
    show False
    proof (cases "ucast f AND O_ACCMODE = (O_WRONLY :: uint64)")
      case True
      then show ?thesis using g(2) by (simp add: g_def bit_simps open_flags)
    next
      case False
      have "x AND O_ACCMODE = O_WRONLY" if "bit x 0" "\<not> bit x 1" for x :: uint64
        using that by (intro bit_word_eqI) (auto simp: bit_simps open_flags bit_numeral_rec numeral_One bit_1_iff intro: gr0I split: nat.splits)
      then show ?thesis using False g by (simp add: g_def)
    qed
  qed
  ultimately show ?thesis by blast
qed

end
