(* ===== verification/NameClaims.thy ===== *)
theory NameClaims
  imports NameLaws Toy
begin

text \<open>
  The properties of names and paths: encryption of names, the files that hold IVs and long
  names, the cache of directories, the walk along a path, symbolic links and listings.
\<close>

section \<open>Concrete values\<close>

lemma toy_nt_key: "emeCipher toy_nt = Some (replicate 32 1)" "badnamePatterns toy_nt = []" "\<not> deterministicNames toy_nt"
  "raw64 toy_nt"
  by (simp_all add: toy_nt_def)

text \<open>
  A volume on disk: its root directory, inode 1, holds its IV, the file \<^verbatim>\<open>a\<close> under its encrypted
  name, and a symbolic link.
\<close>

definition toy_iv :: bytes where "toy_iv = replicate 16 4"

definition toy_dir_os :: os where
  "toy_dir_os = \<lparr>inodes = [\<lparr>inode_node = RegF [], inode_perm = 0x180, inode_mtime = 0\<rparr>,
       \<lparr>inode_node = DirF [(DirIVFilename, 2), (''Dw8PDw8PDw8PDw8PDw8PYQ'', 0), (''l'', 3)], inode_perm = 0x1C0, inode_mtime = 0\<rparr>,
       \<lparr>inode_node = RegF toy_iv, inode_perm = 0x124, inode_mtime = 0\<rparr>,
       \<lparr>inode_node = LnkF [120, 121], inode_perm = 0x1FF, inode_mtime = 0\<rparr>],
     fds = [Some \<lparr>of_ino = 0, of_pos = 0, of_wr = False\<rparr>, Some \<lparr>of_ino = 1, of_pos = 0, of_wr = False\<rparr>],
     host = [(''/v'', 1)], now = 1, faults = []\<rparr>"

lemma toy_dir_at: "dir_at toy_dir_os 1 = Inr (1, [(DirIVFilename, 2), (''Dw8PDw8PDw8PDw8PDw8PYQ'', 0), (''l'', 3)])"
  by code_simp

section \<open>Names\<close>

text \<open>C9: A name encrypts exactly when it is valid, and an encrypted name decrypts to a name exactly when
  it is the encryption of that name: every valid name has one encrypted name and no other
  string decrypts to it. (Without the patterns for badly named files.)\<close>

theorem name_roundtrip:
  assumes "prims_ok Pr" "length iv = 16" "emeCipher n = Some key" "badnamePatterns n = []"
  shows "(DecryptName Pr n c iv = Ret (Inr s) \<longleftrightarrow> EncryptName Pr n s iv = Ret (Inr c)) \<and>
    ((\<exists>d. EncryptName Pr n s iv = Ret (Inr d)) \<longleftrightarrow> IsValidName s = None)"
proof -
  have k: "nkey_ok (Pr, key, iv, raw64 n)" using assms(1,2) by (simp add: nkey_ok_def)
  have "(\<exists>d. EncryptName Pr n s iv = Ret (Inr d)) \<longleftrightarrow> IsValidName s = None"
    using EncryptName_valid [OF k assms(3), of s] by fastforce
  then show ?thesis using EncryptName_DecryptName [OF assms] by blast
qed

theorem name_roundtrip_witness:
  "DecryptName toy_prims toy_nt ''Dw8PDw8PDw8PDw8PDw8PYQ'' toy_iv = Ret (Inr ''a'') \<and>
   EncryptName toy_prims toy_nt ''a'' toy_iv = Ret (Inr ''Dw8PDw8PDw8PDw8PDw8PYQ'')"
proof -
  have "EncryptName toy_prims toy_nt ''a'' toy_iv = Ret (Inr ''Dw8PDw8PDw8PDw8PDw8PYQ'')" by code_simp
  then show ?thesis
    using name_roundtrip [OF toy_prims_ok _ toy_nt_key(1,2), of toy_iv "''Dw8PDw8PDw8PDw8PDw8PYQ''" "''a''"]
    by (simp add: toy_iv_def)
qed

text \<open>C24: What stands in a directory for a name is a possible file name, at most as long as the limit
  (a hash has up to 63 characters), never one of the files the program itself keeps there. Two
  different names share it only if both encrypt to more than the limit and SHA-256 gives the
  same value for just these two encrypted names.\<close>

theorem names_on_disk:
  assumes "prims_ok Pr" "length iv = 16" "emeCipher n = Some key" "longNameMax n \<le> 255"
    and "EncryptAndHashName Pr n s iv = Ret (Inr c)"
  shows "name_ok c \<and> (int (length c) \<le> longNameMax n \<or> length c \<le> 63) \<and>
    c \<noteq> DirIVFilename \<and> c \<noteq> ConfDefaultName \<and> NameType c \<noteq> LongNameFilename \<and>
    (EncryptAndHashName Pr n s' iv = Ret (Inr c) \<longrightarrow> s = s' \<or>
      (\<exists>e e'. EncryptName Pr n s iv = Ret (Inr e) \<and> EncryptName Pr n s' iv = Ret (Inr e') \<and> e \<noteq> e' \<and>
         longNameMax n < int (length e) \<and> longNameMax n < int (length e') \<and>
         sha256 Pr (to_bytes e) = sha256 Pr (to_bytes e')))"
proof -
  have own: "CHR ''.'' \<in> set DirIVFilename" "CHR ''.'' \<in> set ConfDefaultName"
    "take 19 DirIVFilename \<noteq> longNamePrefix" "take 19 ConfDefaultName \<noteq> longNamePrefix" by code_simp+
  have name: "name_ok c \<and> (int (length c) \<le> longNameMax n \<or> length c \<le> 63) \<and>
    c \<noteq> DirIVFilename \<and> c \<noteq> ConfDefaultName \<and> NameType c \<noteq> LongNameFilename"
  proof (rule EncryptAndHashName_cases [OF assms(1-3), of s])
    fix d assume d: "EncryptAndHashName Pr n s iv = Ret (Inr d)" "int (length d) \<le> longNameMax n"
      "CHR ''.'' \<notin> set d" "CHR ''/'' \<notin> set d" "d \<noteq> []"
    then have "c = d" using assms(5) by simp
    moreover have "d \<noteq> ''.''" "d \<noteq> ''..''" "d \<noteq> DirIVFilename" "d \<noteq> ConfDefaultName" using d(3) own(1,2) by auto
    ultimately show ?thesis using d assms(4) NameType_no_dot [of d] by (simp add: name_ok_def)
  next
    fix d assume "EncryptAndHashName Pr n s iv = Ret (Inr (HashLongName Pr n d))"
    then have c: "c = HashLongName Pr n d" using assms(5) by simp
    note H = HashLongName_shape [OF assms(1), of n d]
    have "length c \<le> 63" "c \<noteq> []" "c \<noteq> ''.''" "c \<noteq> ''..''" using H(1) by (auto simp: c split: if_splits)
    then show ?thesis using H(2,4) own(3,4) NameType_HashLongName [OF assms(1), of n d] by (auto simp: c name_ok_def)
  qed (use assms(5) in simp_all)
  let ?clash = "\<exists>e e'. EncryptName Pr n s iv = Ret (Inr e) \<and> EncryptName Pr n s' iv = Ret (Inr e') \<and> e \<noteq> e' \<and>
     longNameMax n < int (length e) \<and> longNameMax n < int (length e') \<and> sha256 Pr (to_bytes e) = sha256 Pr (to_bytes e')"
  have "s = s' \<or> ?clash" if s': "EncryptAndHashName Pr n s' iv = Ret (Inr c)"
  proof (rule EncryptAndHashName_cases [OF assms(1-3), of s]; rule EncryptAndHashName_cases [OF assms(1-3), of s'])
    fix d d' assume "EncryptAndHashName Pr n s iv = Ret (Inr d)" "EncryptName Pr n s iv = Ret (Inr d)"
      "EncryptAndHashName Pr n s' iv = Ret (Inr d')" "EncryptName Pr n s' iv = Ret (Inr d')"
    then show ?thesis using EncryptName_inj [OF assms(1-3)] assms(5) s' by simp
  next
    fix d d' assume d: "EncryptAndHashName Pr n s iv = Ret (Inr (HashLongName Pr n d))" "EncryptName Pr n s iv = Ret (Inr d)"
      "EncryptAndHashName Pr n s' iv = Ret (Inr (HashLongName Pr n d'))" "EncryptName Pr n s' iv = Ret (Inr d')"
      and l: "longNameMax n < int (length d)" "longNameMax n < int (length d')"
    then have h: "sha256 Pr (to_bytes d) = sha256 Pr (to_bytes d')" using assms(5) s' HashLongName_eq [of Pr n d d'] by simp
    show ?thesis
    proof (cases "d = d'")
      case True
      then show ?thesis using EncryptName_inj [OF assms(1-3) d(2)] d(4) by simp
    next
      case False
      then show ?thesis using h d(2,4) l by blast
    qed
  qed (use assms(5) s' HashLongName_shape(3) [OF assms(1)] in auto)
  then show ?thesis using name by blast
qed

theorem names_on_disk_witness:
  "name_ok ''Dw8PDw8PDw8PDw8PDw8PYQ'' \<and> ''Dw8PDw8PDw8PDw8PDw8PYQ'' \<noteq> DirIVFilename \<and>
   EncryptAndHashName toy_prims toy_nt ''a'' toy_iv = Ret (Inr ''Dw8PDw8PDw8PDw8PDw8PYQ'') \<and>
   EncryptAndHashName toy_prims toy_nt ''b'' toy_iv \<noteq> Ret (Inr ''Dw8PDw8PDw8PDw8PDw8PYQ'')"
proof -
  have e: "EncryptAndHashName toy_prims toy_nt ''a'' toy_iv = Ret (Inr ''Dw8PDw8PDw8PDw8PDw8PYQ'')"
    "EncryptName toy_prims toy_nt ''a'' toy_iv = Ret (Inr ''Dw8PDw8PDw8PDw8PDw8PYQ'')" by code_simp+
  have l: "length toy_iv = 16" "longNameMax toy_nt = 255" by (simp_all add: toy_iv_def toy_nt_def)
  note T = names_on_disk [OF toy_prims_ok l(1) toy_nt_key(1) _ e(1)]
  have "EncryptAndHashName toy_prims toy_nt ''b'' toy_iv \<noteq> Ret (Inr ''Dw8PDw8PDw8PDw8PDw8PYQ'')"
    using T [of "''b''"] e(2) by (auto simp: l(2))
  then show ?thesis using T e(1) by (simp add: l(2))
qed

text \<open>Encrypting a name for the disk never panics; it fails with \<open>ENAMETOOLONG\<close> exactly for more
  than 255 bytes and with \<open>EBADMSG\<close> exactly for the other invalid names.\<close>

theorem name_errors:
  assumes "prims_ok Pr" "length iv = 16" "emeCipher n = Some key"
  shows "\<exists>r. EncryptAndHashName Pr n s iv = Ret r \<and>
    (r = Inl (Errno ENAMETOOLONG) \<longleftrightarrow> length s > 255) \<and>
    (r = Inl (Errno EBADMSG) \<longleftrightarrow> length s \<le> 255 \<and> IsValidName s \<noteq> None) \<and>
    ((\<exists>c. r = Inr c) \<longleftrightarrow> IsValidName s = None)"
proof -
  have l: "length s > 255 \<Longrightarrow> IsValidName s \<noteq> None" "IsValidName s = None \<Longrightarrow> \<not> length s > 255"
    by (auto simp: IsValidName_def NameMax_def split: if_splits)
  show ?thesis by (rule EncryptAndHashName_cases [OF assms, of s]) (use l in auto)
qed

theorem name_errors_witness:
  "\<exists>e. EncryptAndHashName toy_prims toy_nt ''a/b'' toy_iv = Ret (Inl e) \<and> e = Errno EBADMSG"
proof -
  have "IsValidName ''a/b'' \<noteq> None" by code_simp
  then show ?thesis
    using name_errors [OF toy_prims_ok _ toy_nt_key(1), of toy_iv "''a/b''"] by (auto simp: toy_iv_def)
qed

section \<open>The files of a directory\<close>

text \<open>On a system without failures, the IV that is written for a new directory is the one that
  is read for it from then on.\<close>

theorem diriv_roundtrip:
  assumes "quiet s" "dir_at s d = Inr (i, es)" "i < length (inodes s)" "map_of es DirIVFilename = None"
    and "fst (RandBytes DirIVLen r) \<noteq> allZeroDirIV" "\<not> deterministicNames n"
  shows "\<exists>s1 r1 s2. WriteDirIVAt d s r = Ret (None, s1, r1) \<and>
    ReadDirIVAt n d s1 = Ret (Inr (fst (RandBytes DirIVLen r)), s2)"
  by (rule new_diriv [OF assms])

theorem diriv_roundtrip_witness:
  "\<exists>s1 r1 s2. WriteDirIVAt 0 (toy_dir_os\<lparr>fds := [Some \<lparr>of_ino = 4, of_pos = 0, of_wr = False\<rparr>],
       inodes := inodes toy_dir_os @ [\<lparr>inode_node = DirF [], inode_perm = 0x1C0, inode_mtime = 0\<rparr>]\<rparr>) toy_rng = Ret (None, s1, r1) \<and>
     ReadDirIVAt toy_nt 0 s1 = Ret (Inr (replicate 16 9), s2)"
proof -
  let ?s = "toy_dir_os\<lparr>fds := [Some \<lparr>of_ino = 4, of_pos = 0, of_wr = False\<rparr>],
       inodes := inodes toy_dir_os @ [\<lparr>inode_node = DirF [], inode_perm = 0x1C0, inode_mtime = 0\<rparr>]\<rparr>"
  have d: "dir_at ?s 0 = Inr (4, [])" "quiet ?s" "4 < length (inodes ?s)" by code_simp+
  have r: "fst (RandBytes DirIVLen toy_rng) = replicate 16 9" "replicate 16 9 \<noteq> allZeroDirIV" by code_simp+
  show ?thesis using diriv_roundtrip [OF d(2,1,3), of toy_rng toy_nt] r toy_nt_key(3) by simp
qed

text \<open>C25: On a system without failures, a name that is too long for the directory is kept in a file
  next to its hash, and the entry with the hash is listed under the original name.\<close>

theorem long_name_kept:
  assumes "prims_ok Pr" "emeCipher (nameTransform v) = Some key" "badnamePatterns (nameTransform v) = []"
    and "\<not> deterministicNames (nameTransform v)" "\<not> plainTextNames v"
    and "quiet (w_os w)" "dir_at (w_os w) d = Inr (i, es)" "i < length (inodes (w_os w))"
    and "map_of es DirIVFilename = Some j" "j < length (inodes (w_os w))" "j \<noteq> i" "inode_node (inodes (w_os w) ! j) = RegF iv"
      "length iv = DirIVLen" "iv \<noteq> allZeroDirIV"
    and "EncryptAndHashName Pr (nameTransform v) (path_Base path) iv = Ret (Inr h)" "IsLongContent h"
      "map_of es (h @ LongNameSuffix) = None"
  shows "\<exists>s1 s2. WriteLongNameAt Pr (nameTransform v) d h path (w_os w) = Ret (None, s1) \<and>
    list_entry Pr v d dir iv h (w\<lparr>w_os := s1\<rparr>) = Ret (Some (path_Base path), w\<lparr>w_os := s2\<rparr>)"
proof -
  obtain s1 c s2 where s1: "WriteLongNameAt Pr (nameTransform v) d h path (w_os w) = Ret (None, s1)"
    "EncryptName Pr (nameTransform v) (path_Base path) iv = Ret (Inr c)" "ReadLongNameAt d h s1 = Ret (Inr c, s2)"
    using long_name_roundtrip [OF assms(1-4,6-17)] by metis
  have "ReadLongNameAt d h (w_os (w\<lparr>w_os := s1\<rparr>)) = Ret (Inr c, s2)" using s1(3) by simp
  from long_name_listed [OF assms(1-3,5,13,16) s1(2) this, of dir] show ?thesis using s1(1) by auto
qed

text \<open>A name of 200 bytes does not fit when it is encrypted.\<close>

theorem long_name_kept_witness:
  "\<exists>h s1 s2. WriteLongNameAt toy_prims toy_nt 1 h (CHR ''/'' # replicate 200 (CHR ''x'')) toy_dir_os = Ret (None, s1) \<and>
    list_entry toy_prims (toy_volume False []) 1 ''/'' toy_iv h ((toy_world toy_dir_os False [])\<lparr>w_os := s1\<rparr>)
      = Ret (Some (replicate 200 (CHR ''x'')), (toy_world toy_dir_os False [])\<lparr>w_os := s2\<rparr>)"
proof -
  let ?p = "CHR ''/'' # replicate 200 (CHR ''x'')" and ?w = "toy_world toy_dir_os False []" and ?v = "toy_volume False []"
  define h where "h = longNamePrefix @ b64_encode True (replicate 32 2)"
  have nt: "nameTransform ?v = toy_nt" "\<not> plainTextNames ?v" "w_os ?w = toy_dir_os" by (simp_all add: toy_volume_def toy_world_def)
  have p: "path_Base ?p = replicate 200 (CHR ''x'')" by code_simp
  have e: "EncryptAndHashName toy_prims toy_nt (path_Base ?p) toy_iv = Ret (Inr h)" unfolding h_def by code_simp
  have q: "quiet (w_os ?w)" "1 < length (inodes (w_os ?w))" "2 < length (inodes (w_os ?w))" "(2 :: nat) \<noteq> 1"
    "inode_node (inodes (w_os ?w) ! 2) = RegF toy_iv" "length toy_iv = DirIVLen" "toy_iv \<noteq> allZeroDirIV"
    unfolding nt by code_simp+
  have l: "IsLongContent h" "map_of [(DirIVFilename, 2), (''Dw8PDw8PDw8PDw8PDw8PYQ'', 0), (''l'', 3)] (h @ LongNameSuffix) = (None :: nat option)"
    "map_of [(DirIVFilename, 2), (''Dw8PDw8PDw8PDw8PDw8PYQ'', 0), (''l'', 3)] DirIVFilename = Some (2 :: nat)"
    unfolding h_def by code_simp+
  have d: "dir_at (w_os ?w) 1 = Inr (1, [(DirIVFilename, 2), (''Dw8PDw8PDw8PDw8PDw8PYQ'', 0), (''l'', 3)])"
    using toy_dir_at by (simp add: nt)
  from long_name_kept [where v = ?v, unfolded nt(1), OF toy_prims_ok toy_nt_key(1,2,3) nt(2) q(1) d q(2) l(3) q(3-7) e l(1,2), of "''/''"]
  show ?thesis unfolding p nt(3) by blast
qed

section \<open>The cache of directories\<close>

text \<open>C11: Whatever stores, deletions and clearings a cache goes through, whatever calls fail in
  them, a lookup returns, and the IV of a hit has the length of the IVs and was stored for this
  path since the last clearing. In a regular history, where a path was stored only while the
  cache did not hold it, it is the IV stored last, not deleted since, and the entries are kept
  apart. \<open>prepareAtSyscall\<close> leaves the regular histories when duplicating the descriptor of an
  entry fails: the lookup misses, the path is stored twice, and \<open>Delete\<close> removes one of the two,
  so that a deleted path is answered, as the witness shows.\<close>

theorem cache_answers:
  assumes "cache_run n d ops reg"
  shows "\<exists>fd iv s'. dirCache_Lookup d p s = Ret ((fd, iv), s') \<and>
    (fd > 0 \<longrightarrow> length iv = n \<and> iv \<in> set (all_stored ops p) \<and> (reg \<longrightarrow> last_stored ops p = Some iv)) \<and>
    (reg \<longrightarrow> cache_inv (cache_of d))"
proof -
  obtain fd iv s' where l: "dirCache_Lookup d p s = Ret ((fd, iv), s')"
    "fd > 0 \<longrightarrow> length iv = n \<and> iv \<in> set (all_stored ops p)"
    using Lookup_shape [OF cache_run_shape [OF assms], of p s] by blast
  have "last_stored ops p = Some iv" if "reg" "fd > 0"
    using cache_run_inv [OF assms that(1)] Lookup_hit [OF l(1) that(2)] by fastforce
  then show ?thesis using l cache_run_inv [OF assms] by blast
qed

text \<open>A store, a lookup in which \<open>dup\<close> fails, the second store, and a deletion.\<close>

definition toy_double :: "os \<Rightarrow> ((int \<times> bytes) \<times> dirCache \<times> os) go" where
  "toy_double s = go_bind (dirCache_Store (new_dirCache 2) ''/a'' 1 [7, 8] s) (\<lambda>(d1, s1).
     go_bind (dirCache_Lookup d1 ''/a'' (s1\<lparr>faults := [Some (EIO, 0)]\<rparr>)) (\<lambda>(miss, s2).
     go_bind (dirCache_Store d1 ''/a'' 1 [7, 8] s2) (\<lambda>(d2, s3).
     Ret (miss, dirCache_Delete d2 ''/a'' s3))))"

lemma toy_double_run:
  assumes "toy_double s = Ret (miss, d, s')"
  shows "\<exists>reg. cache_run 2 d [DeleteOp ''/a'', StoreOp ''/a'' [7, 8], StoreOp ''/a'' [7, 8]] reg"
proof -
  from assms obtain d1 s1 s2 d2 s3 where d: "dirCache_Store (new_dirCache 2) ''/a'' 1 [7, 8] s = Ret (d1, s1)"
    "dirCache_Store d1 ''/a'' 1 [7, 8] s2 = Ret (d2, s3)" "dirCache_Delete d2 ''/a'' s3 = (d, s')"
    by (auto simp: toy_double_def go_bind_eq_Ret)
  show ?thesis using run_delete [OF run_store [OF run_store [OF run_new d(1)] d(2)] d(3)] by blast
qed

theorem cache_answers_witness:
  "(\<exists>d s. cache_run 2 d [StoreOp ''/a'' [7, 8]] True \<and>
     (case dirCache_Lookup d ''/a'' s of Ret ((fd, iv), s') \<Rightarrow> fd > 0 \<and> last_stored [StoreOp ''/a'' [7, 8]] ''/a'' = Some iv | _ \<Rightarrow> False)) \<and>
   (\<exists>d s. cache_run 2 d [DeleteOp ''/a'', StoreOp ''/a'' [7, 8], StoreOp ''/a'' [7, 8]] False \<and>
     (case dirCache_Lookup d ''/a'' s of Ret ((fd, iv), s') \<Rightarrow> fd > 0 \<and> iv = [7, 8] | _ \<Rightarrow> False))"
proof
  have v: "cache_view (cache_of (new_dirCache 2)) ''/a'' = None" "stdin_open toy_dir_os" by code_simp+
  have "case dirCache_Store (new_dirCache 2) ''/a'' 1 [7, 8] toy_dir_os of
      Ret (d, s) \<Rightarrow> (case dirCache_Lookup d ''/a'' s of Ret ((fd, iv), s') \<Rightarrow> fd > 0 | _ \<Rightarrow> False) | _ \<Rightarrow> False"
    by code_simp
  then obtain d s where d: "dirCache_Store (new_dirCache 2) ''/a'' 1 [7, 8] toy_dir_os = Ret (d, s)"
    "case dirCache_Lookup d ''/a'' s of Ret ((fd, iv), s') \<Rightarrow> fd > 0 | _ \<Rightarrow> False"
    by (cases "dirCache_Store (new_dirCache 2) ''/a'' 1 [7, 8] toy_dir_os") auto
  have r: "cache_run 2 d [StoreOp ''/a'' [7, 8]] True" using run_store [OF run_new d(1)] v by simp
  show "\<exists>d s. cache_run 2 d [StoreOp ''/a'' [7, 8]] True \<and>
     (case dirCache_Lookup d ''/a'' s of Ret ((fd, iv), s') \<Rightarrow> fd > 0 \<and> last_stored [StoreOp ''/a'' [7, 8]] ''/a'' = Some iv | _ \<Rightarrow> False)"
    using cache_answers [OF r, of "''/a''" s] r d(2) by (intro exI [of _ d] exI [of _ s]) auto
  have "case toy_double toy_dir_os of
      Ret ((miss, iv), d, s) \<Rightarrow> miss < 0 \<and> (case dirCache_Lookup d ''/a'' s of Ret ((fd, iv), s') \<Rightarrow> fd > 0 \<and> iv = [7, 8] | _ \<Rightarrow> False) | _ \<Rightarrow> False"
    by code_simp
  then obtain miss d s where t: "toy_double toy_dir_os = Ret (miss, d, s)"
    "case dirCache_Lookup d ''/a'' s of Ret ((fd, iv), s') \<Rightarrow> fd > 0 \<and> iv = [7, 8] | _ \<Rightarrow> False"
    by (cases "toy_double toy_dir_os") auto
  obtain reg where g: "cache_run 2 d [DeleteOp ''/a'', StoreOp ''/a'' [7, 8], StoreOp ''/a'' [7, 8]] reg"
    using toy_double_run [OF t(1)] by blast
  have "\<not> reg" using cache_answers [OF g, of "''/a''" s] t(2) by (auto split: go.splits)
  then show "\<exists>d s. cache_run 2 d [DeleteOp ''/a'', StoreOp ''/a'' [7, 8], StoreOp ''/a'' [7, 8]] False \<and>
     (case dirCache_Lookup d ''/a'' s of Ret ((fd, iv), s') \<Rightarrow> fd > 0 \<and> iv = [7, 8] | _ \<Rightarrow> False)"
    using g t(2) by (intro exI [of _ d] exI [of _ s]) auto
qed

section \<open>Paths\<close>

text \<open>C10: The walk along an absolute path always comes to an end, whatever system calls fail on the
  way: \<open>prepareAtSyscall\<close> delivers a descriptor and a name or an error, without a panic and
  without running out of stack, and leaves the volume and its cache in order.\<close>

theorem path_walk_returns:
  assumes "prims_ok Pr" "emeCipher (nameTransform v) = Some key" "is_abs p" "length p \<le> n" "walk_ok v sid w"
  shows "\<exists>r w'. prepareAtSyscall n Pr sid v p w = Ret (r, w') \<and> walk_ok v sid w' \<and> (\<forall>fd c. r = Inr (fd, c) \<longrightarrow> fd \<noteq> 0)"
  using safeD [OF safe_prepare [OF assms(1-4)] assms(5)] by (auto simp: good_pos_def)

theorem path_walk_returns_witness:
  "\<exists>r w'. prepareAtSyscall 4 toy_prims 0 (toy_volume False []) ''/a/b'' (toy_world toy_dir_os False []) = Ret (r, w')"
proof -
  have "stdin_open toy_dir_os" "cache_ok 16 (new_dirCache 16)" by code_simp+
  then have w: "walk_ok (toy_volume False []) 0 (toy_world toy_dir_os False [])"
    by (auto simp: walk_ok_def toy_world_def volume_of_def table_lookup_def toy_volume_def iv_len_def DirIVLen_def
        intro!: exI [of _ "new_dirCache 16"])
  have k: "emeCipher (nameTransform (toy_volume False [])) = Some (replicate 32 1)"
    by (simp add: toy_volume_def toy_nt_key)
  show ?thesis using path_walk_returns [OF toy_prims_ok k _ _ w, of "''/a/b''" 4] by (auto simp: is_abs_def)
qed

text \<open>C35: A path without a slash has the empty path as its parent, which is its own parent: unless the
  cache happens to hold an entry for the empty path, \<open>prepareAtSyscall\<close> overflows the stack,
  however deep the calls may go.\<close>

theorem relative_path_overflows:
  assumes "volume_of w sid = Some v" "\<forall>e \<in> set (entries (dirCache v)). \<not> live_at [] e"
    and "slash \<notin> set p" "\<not> isFiltered v p"
  shows "prepareAtSyscall n Pr sid v p w = Panic StackOverflow"
proof -
  have "p \<noteq> ''/''" using assms(3) by auto
  then show ?thesis
    using no_parent [OF assms(1,2) getParentPath_relative [OF assms(3)] assms(4)] empty_path_overflows [OF assms(1,2)]
    by (simp add: prepareAtSyscall_def)
qed

theorem relative_path_overflows_witness:
  "prepareAtSyscall 1000 toy_prims 0 (toy_volume False []) ''a'' (toy_world toy_dir_os False []) = Panic StackOverflow"
proof -
  have "\<forall>e \<in> set (entries (new_dirCache 16)). \<not> live_at [] e" by code_simp
  then show ?thesis
    using relative_path_overflows [of "toy_world toy_dir_os False []" 0 "toy_volume False []" "''a''" 1000 toy_prims]
    by (simp add: toy_world_def volume_of_def table_lookup_def toy_volume_def isFiltered_def)
qed

section \<open>Symbolic links\<close>

text \<open>Reading a symbolic link ends for every length of the target, changes nothing, and a success is the
  complete target: the buffer is doubled until the target fits.\<close>

theorem readlink_complete:
  "\<exists>r fs. Readlinkat d name s = Ret (r, s\<lparr>faults := fs\<rparr>) \<and>
     (case r of Inl e \<Rightarrow> True | Inr b \<Rightarrow> link_target s d name = Some b)"
proof -
  obtain r fs where "Readlinkat d name s = Ret (r, s\<lparr>faults := fs\<rparr>)" "\<forall>b. r = Inr b \<longrightarrow> link_target s d name = Some b"
    using Readlinkat_spec by blast
  then show ?thesis by (intro exI [of _ r] exI [of _ fs]) (cases r; simp)
qed

section \<open>Listings\<close>

text \<open>C28: The names that \<open>gcf_list_dir\<close> delivers for an encrypted volume are valid: not empty, without
  slash or NUL, not \<^verbatim>\<open>.\<close> or \<^verbatim>\<open>..\<close>. So the caller gets them back by splitting the string at
  the NULs, one for each mode.\<close>

theorem listed_names_valid:
  assumes "volume_of w sid = Some v" "\<not> plainTextNames v"
    and "gcf_list_dir Pr sid dir w = Ret (Some (names, modes), w')"
  shows "length (split_nul [] names) = length modes \<and> (\<forall>n \<in> set (split_nul [] names). IsValidName n = None)"
proof -
  obtain P d iv cs es w1 w2 where "list_entries Pr v d dir iv cs w1 = Ret (es, w2)" "pack_names es = (names, modes)"
    using assms by (auto simp: gcf_list_dir_def with_volume_def or_return_def bindw_eq_Ret defer_close_def sum_case_eq)
  then show ?thesis
    using list_entries_valid [OF _ assms(2)] split_pack_names [of es] by fastforce
qed

lemma toy_listed:
  "case gcf_list_dir toy_prims 0 ''/'' \<lparr>w_os = toy_dir_os, w_rng = toy_rng,
     OpenedVolumes = [(0, \<lparr>volumeID = 0, rootCipherDir = ''/v'', plainTextNames = False, nameTransform = toy_nt,
       contentEnc = be, dirCache = new_dirCache 16, fileHandles = []\<rparr>)]\<rparr> of
     Ret (Some (n, m), w') \<Rightarrow> n = [CHR ''a'', CHR 0x00] | _ \<Rightarrow> False"
  by code_simp

theorem listed_names_valid_witness:
  "\<exists>m w'. gcf_list_dir toy_prims 0 ''/'' (toy_world toy_dir_os False []) = Ret (Some ([CHR ''a'', CHR 0x00], m), w') \<and>
     length m = 1 \<and> IsValidName ''a'' = None"
proof -
  let ?w = "toy_world toy_dir_os False []" and ?v = "toy_volume False []"
  obtain m w' where l: "gcf_list_dir toy_prims 0 ''/'' ?w = Ret (Some ([CHR ''a'', CHR 0x00], m), w')"
    using toy_listed [of toy_be] by (auto simp: toy_world_def toy_volume_def split: go.splits option.splits)
  have "volume_of ?w 0 = Some ?v" "\<not> plainTextNames ?v" by (simp_all add: toy_world_def volume_of_def table_lookup_def toy_volume_def)
  from listed_names_valid [OF this l] show ?thesis using l by auto
qed

section \<open>Flags\<close>

text \<open>Files are never opened for writing only, in append mode, with direct I/O, or through a symbolic
  link, whatever flags are asked for.\<close>

theorem open_flags_safe:
  "mangleOpenFlags f AND O_ACCMODE \<noteq> O_WRONLY \<and> mangleOpenFlags f AND O_APPEND = 0 \<and>
   mangleOpenFlags f AND O_DIRECT = 0 \<and> mangleOpenFlags f AND O_CREAT = 0 \<and> mangleOpenFlags f AND O_NOFOLLOW = O_NOFOLLOW"
  by (rule mangled_flags)

end
