(* ===== verification/VolumeLaws.thy ===== *)
theory VolumeLaws
  imports Volume
begin

text \<open>
  Facts about configuration files and volumes: which combinations of flags are created and
  accepted, that a validated configuration opens, and that the master key survives being
  locked with a password.
\<close>

section \<open>Flags\<close>

lemma knownFlags_inj [simp]: "knownFlags a = knownFlags b \<longleftrightarrow> a = b"
  by (cases a; cases b) simp_all

lemma isFeatureFlagKnown_knownFlags [simp]: "isFeatureFlagKnown (knownFlags k)"
  by (cases k) (simp_all add: isFeatureFlagKnown_def all_flags_def)

lemma IsFeatureFlagSet_set [simp]:
  "IsFeatureFlagSet (setFeatureFlag k cf) j \<longleftrightarrow> k = j \<or> IsFeatureFlagSet cf j"
  by (auto simp: IsFeatureFlagSet_def setFeatureFlag_def list_ex_iff)

lemma setFeatureFlag_fields [simp]:
  "LongNameMax (setFeatureFlag k cf) = LongNameMax cf" "cf_Version (setFeatureFlag k cf) = cf_Version cf"
  "ScryptObject (setFeatureFlag k cf) = ScryptObject cf" "Creator (setFeatureFlag k cf) = Creator cf"
  "FIDO2 (setFeatureFlag k cf) = FIDO2 cf" "cf_filename (setFeatureFlag k cf) = cf_filename cf"
  "EncryptedKey (setFeatureFlag k cf) = EncryptedKey cf"
  by (simp_all add: setFeatureFlag_def)

lemma setFeatureFlag_known:
  "list_all isFeatureFlagKnown (FeatureFlags cf) \<Longrightarrow> list_all isFeatureFlagKnown (FeatureFlags (setFeatureFlag k cf))"
  by (simp add: setFeatureFlag_def)

lemma IsFeatureFlagSet_update [simp]:
  "IsFeatureFlagSet (cf\<lparr>LongNameMax := x\<rparr>) k = IsFeatureFlagSet cf k"
  "IsFeatureFlagSet (cf\<lparr>ScryptObject := y\<rparr>) k = IsFeatureFlagSet cf k"
  "IsFeatureFlagSet (cf\<lparr>EncryptedKey := z\<rparr>) k = IsFeatureFlagSet cf k"
  by (simp_all add: IsFeatureFlagSet_def)

text \<open>The flags \<open>Create\<close> sets on an empty object.\<close>

lemma create_flags_set:
  assumes "FeatureFlags cf0 = []"
  shows "IsFeatureFlagSet (create_flags a cf0) k \<longleftrightarrow> (case k of
     FlagHKDF \<Rightarrow> True
   | FlagXChaCha20Poly1305 \<Rightarrow> XChaCha20Poly1305 a
   | FlagGCMIV128 \<Rightarrow> \<not> XChaCha20Poly1305 a
   | FlagAESSIV \<Rightarrow> AESSIV a
   | FlagPlaintextNames \<Rightarrow> PlaintextNames a
   | FlagDirIV \<Rightarrow> \<not> PlaintextNames a \<and> \<not> DeterministicNames a
   | FlagLongNameMax \<Rightarrow> \<not> PlaintextNames a \<and> ca_LongNameMax a \<noteq> 0 \<and> ca_LongNameMax a \<noteq> 255
   | FlagEMENames \<Rightarrow> \<not> PlaintextNames a
   | FlagLongNames \<Rightarrow> \<not> PlaintextNames a
   | FlagRaw64 \<Rightarrow> \<not> PlaintextNames a
   | FlagFIDO2 \<Rightarrow> False)"
proof -
  have "\<not> IsFeatureFlagSet cf0 j" for j using assms by (simp add: IsFeatureFlagSet_def)
  then show ?thesis by (cases k) (simp_all add: create_flags_def Let_def)
qed

lemma create_flags_fields:
  "cf_Version (create_flags a cf0) = cf_Version cf0" "cf_filename (create_flags a cf0) = cf_filename cf0"
  "LongNameMax (create_flags a cf0) =
     (if \<not> PlaintextNames a \<and> ca_LongNameMax a \<noteq> 0 \<and> ca_LongNameMax a \<noteq> 255 then ca_LongNameMax a
      else LongNameMax cf0)"
  "FeatureFlags cf0 = [] \<Longrightarrow> list_all isFeatureFlagKnown (FeatureFlags (create_flags a cf0))"
  by (auto simp: create_flags_def Let_def intro!: setFeatureFlag_known)

text \<open>A configuration that \<open>Create\<close> builds is valid unless two ciphers are asked for.\<close>

lemma Validate_create:
  assumes "FeatureFlags cf0 = []" "LongNameMax cf0 = 0" "cf_Version cf0 = CurrentVersion"
    and "validateParams kdf = None"
  shows "Validate ((create_flags a cf0)\<lparr>ScryptObject := kdf\<rparr>) = None \<longleftrightarrow> \<not> (XChaCha20Poly1305 a \<and> AESSIV a)"
  using assms create_flags_fields(4) [OF assms(1), of a]
  by (auto simp: Validate_def Validate_content_def Validate_names_def Let_def create_flags_set create_flags_fields)

section \<open>scrypt parameters\<close>

lemma NewScryptKDF_fields:
  assumes "NewScryptKDF logN r = (kdf, r')"
  shows "Salt kdf = fst (RandBytes 32 r)" "R kdf = 8" "P kdf = 1" "KDF_KeyLen kdf = 32" "r' = snd (RandBytes 32 r)"
    "N kdf = (if logN \<le> 0 then 2 ^ 16 else sint (push_bit (nat (logN mod 2 ^ 32)) (1 :: 64 word)))"
  using assms by (auto simp: NewScryptKDF_def KeyLen_def ScryptDefaultLogN_def split: prod.splits)

lemma sint_push_bit_one:
  assumes "k < 63"
  shows "sint (push_bit k (1 :: 64 word)) = 2 ^ k"
proof -
  have lt: "(2 :: nat) ^ k < 2 ^ 63" using assms by (rule power_strict_increasing) simp
  have "push_bit k (1 :: 64 word) = of_nat (2 ^ k)" by simp
  then have u: "unat (push_bit k (1 :: 64 word)) = 2 ^ k"
    using lt by (simp only: unat_of_nat) (simp add: take_bit_nat_eq_self_iff)
  then have "go_int (push_bit k 1) = int (2 ^ k)" using u lt by (subst go_int_small) simp_all
  then show ?thesis by (simp add: go_int_def)
qed

lemma NewScryptKDF_N:
  assumes "NewScryptKDF logN r = (kdf, r')" "logN \<le> 0 \<or> logN < 63"
  shows "N kdf = 2 ^ (if logN \<le> 0 then 16 else nat logN)"
  using NewScryptKDF_fields(6) [OF assms(1)] assms(2) sint_push_bit_one [of "nat logN"] by auto

lemma NewScryptKDF_valid:
  assumes "NewScryptKDF logN r = (kdf, r')" "logN < 63"
  shows "validateParams kdf = None \<longleftrightarrow> logN \<le> 0 \<or> 10 \<le> logN"
proof -
  have "(2 :: int) ^ 10 \<le> 2 ^ nat logN \<longleftrightarrow> 10 \<le> nat logN" by (rule power_increasing_iff) simp
  then show ?thesis
    using NewScryptKDF_fields [OF assms(1)] NewScryptKDF_N [OF assms(1)] assms(2)
    by (auto simp: validateParams_def scryptMinLogN_def scryptMinR_def scryptMinP_def scryptMinSaltLen_def KeyLen_def)
qed

text \<open>
  What is relied on of scrypt: with the parameters that the code creates, it delivers a
  key of the length asked for. The library limits \<open>N\<close> to below \<open>2\<^sup>53\<close> for \<open>r = 8\<close>.
\<close>

definition scrypt_ok :: "prims \<Rightarrow> bool" where
  "scrypt_ok Pr \<longleftrightarrow> (\<forall>pw salt k. 10 \<le> k \<and> k \<le> 52 \<longrightarrow>
     (case scrypt_key Pr pw salt (2 ^ k) 8 1 32 of None \<Rightarrow> False | Some h \<Rightarrow> length h = 32))"

lemma DeriveKey_new:
  assumes "scrypt_ok Pr" "NewScryptKDF logN r = (kdf, r')" "logN \<le> 0 \<or> 10 \<le> logN \<and> logN \<le> 52"
  obtains h where "DeriveKey Pr kdf pw = Ret h" "length h = 32"
proof -
  define k where "k = (if logN \<le> 0 then 16 else nat logN)"
  have k: "10 \<le> k \<and> k \<le> 52" using assms(3) by (auto simp: k_def)
  have N: "N kdf = 2 ^ k" using NewScryptKDF_N [OF assms(2)] assms(3) by (auto simp: k_def)
  have v: "validateParams kdf = None" using NewScryptKDF_valid [OF assms(2)] assms(3) by auto
  note f = NewScryptKDF_fields [OF assms(2)]
  have "case scrypt_key Pr pw (Salt kdf) (2 ^ k) 8 1 32 of None \<Rightarrow> False | Some h \<Rightarrow> length h = 32"
    using assms(1) k unfolding scrypt_ok_def by blast
  then obtain h where h: "scrypt_key Pr pw (Salt kdf) (2 ^ k) 8 1 32 = Some h" "length h = 32"
    by (cases "scrypt_key Pr pw (Salt kdf) (2 ^ k) 8 1 32") simp_all
  show thesis
    by (rule that [of h]) (use h v in \<open>simp_all add: DeriveKey_def f(2-4) N\<close>)
qed

section \<open>Locking and unlocking the master key\<close>

lemma getKeyEncrypter_spec:
  assumes "prims_ok Pr" "length h = 32"
  obtains ce where "getKeyEncrypter Pr h b = Ret ce" "be_ok ce" "BS ce = 4096"
    "IVLen (cryptoCore ce) = (if b then 16 else 12)" "\<exists>x. ContentEnc_Wipe ce = Ret x"
proof -
  define bits :: nat where "bits = (if b then 128 else 96)"
  have "returns (New_cryptocore Pr h BackendGoGCM bits b)"
    using New_cryptocore_spec(1) [OF assms(1)] assms(2) by (simp add: supported_def bits_def)
  then obtain cc where cc: "New_cryptocore Pr h BackendGoGCM bits b = Ret cc" by (auto simp: returns_iff)
  note c = New_cryptocore_spec(2) [OF assms(1) cc]
  have iv: "IVLen cc = (if b then 16 else 12)" using c by (auto simp: bits_def split: if_splits)
  obtain ce where ce: "contentenc_New cc 4096 = Ret ce"
    by (simp add: contentenc_New_def MAX_KERNEL_WRITE_def Let_def)
  have le: "IVLen cc \<le> 24" using iv by simp
  note e = contentenc_New_fields [OF ce le]
  show thesis
  proof (rule that)
    show "getKeyEncrypter Pr h b = Ret ce"
      using cc ce by (cases b) (simp_all add: getKeyEncrypter_def bits_def DefaultIVBits_def)
    show "be_ok ce" using c e(1,2) ce by (simp add: be_ok_def)
    show "BS ce = 4096" using e(2) by simp
    show "IVLen (cryptoCore ce) = (if b then 16 else 12)" using e(1) iv by simp
    show "\<exists>x. ContentEnc_Wipe ce = Ret x" using c e(1) by (simp add: ContentEnc_Wipe_def cryptocore_Wipe_def)
  qed
qed

text \<open>Unlocking never fails otherwise than with the exit code for a wrong password.\<close>

lemma DecryptMasterKey_hash_total:
  assumes "prims_ok Pr" "length h = 32" "length (EncryptedKey cf) \<le> 2 ^ 37"
  obtains r where "DecryptMasterKeyWithScryptHash Pr cf h = Ret r"
    "\<And>e. r = Inl e \<Longrightarrow> e = Coded ''Password incorrect.'' 12"
proof -
  obtain ce where ce: "getKeyEncrypter Pr h (IsFeatureFlagSet cf FlagHKDF) = Ret ce" "be_ok ce"
    "\<exists>x. ContentEnc_Wipe ce = Ret x"
    by (rule getKeyEncrypter_spec [OF assms(1,2)])
  have k: "codec_ok (Pr, ce, None)" using assms(1) ce(2) by (simp add: codec_ok_def id_ok_def)
  obtain d where d: "DecryptBlock Pr ce (EncryptedKey cf) 0 None = Ret d"
    using DecryptBlock_returns [OF k assms(3)] by blast
  show thesis
    by (rule that [of "case d of Inl e \<Rightarrow> Inl (Coded ''Password incorrect.'' 12) | Inr key \<Rightarrow> Inr key"])
       (use d ce in \<open>auto simp: DecryptMasterKeyWithScryptHash_def exit_PasswordIncorrect_def split: sum.splits\<close>)
qed

lemma Encrypt_Decrypt_key:
  assumes P: "prims_ok Pr" "scrypt_ok Pr" and key: "key \<noteq> []" "length key \<le> 4096"
    and logN: "logN \<le> 0 \<or> 10 \<le> logN \<and> logN \<le> 52"
    and r: "nonces_ok (if IsFeatureFlagSet cf FlagHKDF then 16 else 12) 1 (snd (RandBytes 32 r))"
  obtains h kdf c r' where
    "EncryptKey Pr cf key pw logN give r = Ret (if give then h else [], cf\<lparr>ScryptObject := kdf, EncryptedKey := c\<rparr>, r')"
    "validateParams kdf = None" "length h = 32" "length c \<le> 4136"
    "DecryptMasterKey Pr (cf\<lparr>ScryptObject := kdf, EncryptedKey := c\<rparr>) pw give2 = Ret (Inr key, if give2 then h else [])"
    "DecryptMasterKeyWithScryptHash Pr (cf\<lparr>ScryptObject := kdf, EncryptedKey := c\<rparr>) h = Ret (Inr key)"
    "NewScryptKDF logN r = (kdf, snd (RandBytes 32 r))"
proof -
  let ?b = "IsFeatureFlagSet cf FlagHKDF"
  obtain kdf r1 where kdf: "NewScryptKDF logN r = (kdf, r1)" by (cases "NewScryptKDF logN r")
  have r1: "r1 = snd (RandBytes 32 r)" using NewScryptKDF_fields(5) [OF kdf] .
  obtain h where h: "DeriveKey Pr kdf pw = Ret h" "length h = 32"
    by (rule DeriveKey_new [OF P(2) kdf logN])
  have v: "validateParams kdf = None" using NewScryptKDF_valid [OF kdf] logN by auto
  obtain ce where ce: "getKeyEncrypter Pr h ?b = Ret ce" "be_ok ce" "BS ce = 4096"
    "IVLen (cryptoCore ce) = (if ?b then 16 else 12)" "\<exists>x. ContentEnc_Wipe ce = Ret x"
    by (rule getKeyEncrypter_spec [OF P(1) h(2)])
  have k: "codec_ok (Pr, ce, None)" using P(1) ce(2) by (simp add: codec_ok_def id_ok_def)
  obtain n r2 where n: "nonce_Get (IVLen (cryptoCore ce)) r1 = Ret (n, r2)" "n \<noteq> zeros (IVLen (cryptoCore ce))"
    using r unfolding r1 [symmetric] ce(4) [symmetric] One_nat_def by (elim nonces_ok_SucD)
  obtain c where c: "EncryptBlock Pr ce key 0 None r1 = Ret (c, r2)" "length c = length key + OH ce"
    "DecryptBlock Pr ce c 0 None = Ret (Inr key)"
    using EncryptBlock_spec [OF k key(1) _ n] key(2) ce(3) by auto
  let ?cf = "cf\<lparr>ScryptObject := kdf, EncryptedKey := c\<rparr>"
  have dec: "DecryptMasterKeyWithScryptHash Pr ?cf h = Ret (Inr key)"
    using ce(1,5) c(3) by (auto simp: DecryptMasterKeyWithScryptHash_def)
  show thesis
  proof (rule that)
    show "EncryptKey Pr cf key pw logN give r = Ret (if give then h else [], ?cf, r2)"
      using kdf h ce(1,5) c(1) by (auto simp: EncryptKey_def Let_def)
    show "length c \<le> 4136" using c(2) key(2) ce(4) by simp
    show "DecryptMasterKey Pr ?cf pw give2 = Ret (Inr key, if give2 then h else [])"
      using h dec by (simp add: DecryptMasterKey_def)
    show "NewScryptKDF logN r = (kdf, snd (RandBytes 32 r))" using kdf r1 by simp
  qed (fact v h(2) dec)+
qed

text \<open>An empty encrypted key unlocks with any password, to an empty master key.\<close>

lemma empty_key_unlocks:
  assumes "prims_ok Pr" "length h = 32" "EncryptedKey cf = []"
  shows "DecryptMasterKeyWithScryptHash Pr cf h = Ret (Inr [])"
proof -
  obtain ce where "getKeyEncrypter Pr h (IsFeatureFlagSet cf FlagHKDF) = Ret ce" "\<exists>x. ContentEnc_Wipe ce = Ret x"
    by (rule getKeyEncrypter_spec [OF assms(1,2)])
  then show ?thesis
    using assms(3) by (auto simp: DecryptMasterKeyWithScryptHash_def DecryptBlock_def Let_def)
qed

section \<open>A validated configuration opens\<close>

lemma choose_backend_supported:
  assumes "ContentEncryption cf = Inr b"
  shows "supported (choose_backend m b) (NonceSize (choose_backend m b) * 8) (IsFeatureFlagSet cf FlagHKDF)"
proof -
  have v: "Validate_content cf = None" using assms
    by (auto simp: ContentEncryption_def Validate_def split: option.splits if_splits)
  have "IsFeatureFlagSet cf FlagXChaCha20Poly1305 \<Longrightarrow> IsFeatureFlagSet cf FlagHKDF"
    using v by (auto simp: Validate_content_def Let_def split: if_splits)
  moreover have "b = BackendXChaCha20Poly1305 \<and> IsFeatureFlagSet cf FlagXChaCha20Poly1305 \<or>
      b = BackendAESSIV \<or> b = BackendGoGCM"
    using assms by (auto simp: ContentEncryption_def split: option.splits if_splits)
  ultimately show ?thesis
    by (elim disjE conjE) (simp_all add: choose_backend_def supported_def, simp_all add: backend_defs)
qed

lemma newVolume_spec:
  assumes "prims_ok Pr" "length masterkey = 32" "ContentEncryption cf = Inr b"
  obtains v where "newVolume Pr m root masterkey cf b = Ret v" "be_ok (contentEnc v)" "plainBS (contentEnc v) = 4096"
    "rootCipherDir v = root" "plainTextNames v = IsFeatureFlagSet cf FlagPlaintextNames"
    "emeCipher (nameTransform v) \<noteq> None" "fileHandles v = []" "volumeID v = 0"
    "AEADBackend (cryptoCore (contentEnc v)) = choose_backend m b"
proof -
  let ?t = "choose_backend m b" and ?h = "IsFeatureFlagSet cf FlagHKDF"
  have "returns (New_cryptocore Pr masterkey ?t (NonceSize ?t * 8) ?h)"
    using New_cryptocore_spec(1) [OF assms(1)] choose_backend_supported [OF assms(3)] assms(2) by simp
  then obtain cc where cc: "New_cryptocore Pr masterkey ?t (NonceSize ?t * 8) ?h = Ret cc" by (auto simp: returns_iff)
  note c = New_cryptocore_spec(2) [OF assms(1) cc]
  have le: "IVLen cc \<le> 24" using c by (auto simp: cc_ok_def)
  obtain ce where ce: "contentenc_New cc DefaultBS = Ret ce"
    by (simp add: contentenc_New_def MAX_KERNEL_WRITE_def DefaultBS_def Let_def)
  note e = contentenc_New_fields [OF ce le]
  have be: "be_ok ce" using c e(1,2) ce by (simp add: be_ok_def)
  define v where "v = \<lparr>volumeID = 0, rootCipherDir = root,
     plainTextNames = IsFeatureFlagSet cf FlagPlaintextNames,
     nameTransform = New_NameTransform (EMECipher cc) True (LongNameMax cf) (IsFeatureFlagSet cf FlagRaw64) []
                       (\<not> IsFeatureFlagSet cf FlagDirIV),
     contentEnc = ce,
     dirCache = new_dirCache (if IsFeatureFlagSet cf FlagPlaintextNames then 0 else DirIVLen),
     fileHandles = []\<rparr>"
  have run: "newVolume Pr m root masterkey cf b = Ret v"
    using cc ce by (simp add: newVolume_def Let_def v_def)
  show thesis
    by (rule that [OF run]) (use c e(1,2) be in \<open>simp_all add: v_def DefaultBS_def New_NameTransform_def\<close>)
qed

end
