(* ===== verification/Reachable.thy ===== *)
theory Reachable
  imports IoRules NameLaws FileLaws VolumeLaws
begin

text \<open>
  The states that the library can get into: from a process without open volumes, by calls of
  the exported functions in any order and with any arguments, while everything outside the
  process changes in any way. In all of them the open volumes are in order and nobody holds
  the lock of a file.
\<close>

section \<open>What no operation does\<close>

text \<open>What stays the same in a volume while it is open.\<close>

definition core :: "volume \<Rightarrow> int \<times> string \<times> bool \<times> NameTransform \<times> contentEnc \<times> nat" where
  "core v = (volumeID v, rootCipherDir v, plainTextNames v, nameTransform v, contentEnc v, ivLen (dirCache v))"

definition volume_ok :: "volume \<Rightarrow> bool" where
  "volume_ok v \<longleftrightarrow> be_ok (contentEnc v) \<and> volumeID v = 0 \<and> emeCipher (nameTransform v) \<noteq> None \<and>
     badnamePatterns (nameTransform v) = [] \<and> ivLen (dirCache v) = (if plainTextNames v then 0 else DirIVLen) \<and>
     returns (cryptocore_Wipe (cryptoCore (contentEnc v)))"

definition idle :: "volume \<Rightarrow> bool" where
  "idle v \<longleftrightarrow> (\<forall>h f. table_lookup (fileHandles v) h = Some f \<longrightarrow> fdReaders f = 0)"

text \<open>The readers of a handle are those from before, or none.\<close>

definition no_new_lock :: "volume \<Rightarrow> volume \<Rightarrow> bool" where
  "no_new_lock v v' \<longleftrightarrow> (\<forall>h f'. table_lookup (fileHandles v') h = Some f' \<longrightarrow>
     fdReaders f' = 0 \<or> (\<exists>f. table_lookup (fileHandles v) h = Some f \<and> fdReaders f = fdReaders f'))"

text \<open>Every open volume is in order and idle, or was open and has its core and its locks.\<close>

definition tame :: "world \<Rightarrow> world \<Rightarrow> bool" where
  "tame w w' \<longleftrightarrow> (\<forall>sid v'. volume_of w' sid = Some v' \<longrightarrow>
     volume_ok v' \<and> idle v' \<or> (\<exists>v. volume_of w sid = Some v \<and> core v' = core v \<and> no_new_lock v v'))"

lemma no_new_lock_refl [simp]: "no_new_lock v v"
  by (auto simp: no_new_lock_def)

lemma no_new_lock_same: "fileHandles v' = fileHandles v \<Longrightarrow> no_new_lock v v'"
  by (auto simp: no_new_lock_def)

lemma no_new_lock_trans: "no_new_lock v v' \<Longrightarrow> no_new_lock v' v'' \<Longrightarrow> no_new_lock v v''"
  unfolding no_new_lock_def by metis

lemma no_new_lock_idle: "no_new_lock v v' \<Longrightarrow> idle v \<Longrightarrow> idle v'"
  by (fastforce simp: no_new_lock_def idle_def)

lemma volume_ok_core: "core v' = core v \<Longrightarrow> volume_ok v' = volume_ok v"
  by (simp add: core_def volume_ok_def)

lemma tameI:
  assumes "\<And>sid v'. volume_of w' sid = Some v' \<Longrightarrow>
    volume_ok v' \<and> idle v' \<or> (\<exists>v. volume_of w sid = Some v \<and> core v' = core v \<and> no_new_lock v v')"
  shows "tame w w'"
  using assms by (simp add: tame_def)

lemma tameE:
  assumes "tame w w'" "volume_of w' sid = Some v'"
  obtains "volume_ok v'" "idle v'" | v where "volume_of w sid = Some v" "core v' = core v" "no_new_lock v v'"
  using assms by (auto simp: tame_def)

lemma tame_trans:
  assumes "tame w w'" "tame w' w''"
  shows "tame w w''"
proof (rule tameI)
  fix sid v2 assume "volume_of w'' sid = Some v2"
  with assms(2) show "volume_ok v2 \<and> idle v2 \<or> (\<exists>v. volume_of w sid = Some v \<and> core v2 = core v \<and> no_new_lock v v2)"
  proof (cases rule: tameE)
    case (2 v1)
    from assms(1) 2(1) show ?thesis
    proof (cases rule: tameE)
      case 1
      then show ?thesis using 2 volume_ok_core no_new_lock_idle by blast
    next
      case (2 v)
      then show ?thesis using \<open>core v2 = core v1\<close> \<open>no_new_lock v1 v2\<close> no_new_lock_trans by metis
    qed
  qed simp
qed

interpretation tm: table_relation tame
proof (unfold_locales, goal_cases)
  case (2 w w' w'')
  then show ?case by (rule tame_trans)
qed (auto simp: tame_def)

named_theorems tamed \<open>operations that keep the volumes and the locks\<close>

lemmas [tamed] = tm.table_rules

section \<open>The tables\<close>

text \<open>Setting an open volume to one with the same core and locks.\<close>

lemma tame_set_volume:
  assumes "volume_of w sid = Some v" "core v' = core v" "no_new_lock v v'"
  shows "tame w (set_volume sid v' (w\<lparr>w_os := s, w_rng := r\<rparr>))"
  by (rule tameI) (use assms in \<open>auto split: if_splits\<close>)

lemma tame_set_volume':
  assumes "volume_of w sid = Some v" "core v' = core v" "no_new_lock v v'"
  shows "tame w (set_volume sid v' w)" "tame w (set_volume sid v' (w\<lparr>w_os := s\<rparr>))"
proof -
  have "w = w\<lparr>w_os := w_os w, w_rng := w_rng w\<rparr>" "w\<lparr>w_os := s\<rparr> = w\<lparr>w_os := s, w_rng := w_rng w\<rparr>" by simp_all
  then show "tame w (set_volume sid v' w)" "tame w (set_volume sid v' (w\<lparr>w_os := s\<rparr>))"
    using tame_set_volume [OF assms] by metis+
qed

lemma tamed_register [tamed]: "tm.along (registerFileHandle sid fd path)"
  by (rule tm.alongI) (auto simp: registerFileHandle_def go_bind_eq_Ret Let_def core_def no_new_lock_def table_lookup_def update_conv'
      intro!: tame_set_volume' split: if_splits)

lemma tamed_delete [tamed]: "tm.along (modify_volume sid (\<lambda>v. v\<lparr>fileHandles := AList.delete h (fileHandles v)\<rparr>))"
  by (rule tm.alongI) (auto simp: modify_volume_def go_bind_eq_Ret core_def no_new_lock_def tbl.lookup_remove
      intro!: tame_set_volume' split: if_splits)

lemma tame_put_handle:
  assumes "put_handle sid h f' w = Ret (x, w')" "handle_of w sid h = Some f" "fdReaders f' = fdReaders f \<or> fdReaders f' = 0"
  shows "tame w w'"
  using assms by (auto simp: put_handle_def modify_volume_def handle_of_def go_bind_eq_Ret core_def no_new_lock_def tbl.lookup_add
      intro!: tame_set_volume' split: if_splits option.splits)

lemma tamed_on_handle:
  assumes "\<And>f s r x f' s' r'. m f s r = Ret (x, f', s', r') \<Longrightarrow> same_file f f'"
  shows "tm.along (on_handle sid h m)"
proof (rule tm.alongI)
  fix w y w' assume "on_handle sid h m w = Ret (y, w')"
  then obtain f f' s r where f: "handle_of w sid h = Some f" "m f (w_os w) (w_rng w) = Ret (y, f', s, r)"
    and p: "put_handle sid h f' (w\<lparr>w_os := s, w_rng := r\<rparr>) = Ret ((), w')"
    by (auto simp: on_handle_def bindw_def get_handle_def go_bind_eq_Ret)
  have "tame (w\<lparr>w_os := s, w_rng := r\<rparr>) w'"
    by (rule tame_put_handle [OF p]) (use f assms [OF f(2)] in \<open>auto simp: same_file_def\<close>)
  then show "tame w w'" using tm.both tame_trans by blast
qed

text \<open>The lock that an operation takes is released when it returns.\<close>

lemma tamed_with_rlock [tamed]:
  assumes "tm.along m"
  shows "tm.along (with_rlock sid h m)"
proof (rule tm.alongI)
  fix w y w3 assume "with_rlock sid h m w = Ret (y, w3)"
  then obtain f w1 w2 f' where f: "handle_of w sid h = Some f"
    and w1: "put_handle sid h (f\<lparr>fdReaders := fdReaders f + 1\<rparr>) w = Ret ((), w1)" and m: "m w1 = Ret (y, w2)"
    and f': "handle_of w2 sid h = Some f'" and w3: "put_handle sid h (f'\<lparr>fdReaders := fdReaders f' - 1\<rparr>) w2 = Ret ((), w3)"
    by (auto simp: with_rlock_def bindw_eq_Ret get_handle_def go_bind_eq_Ret)
  have t: "tame w1 w2" by (rule tm.alongD [OF assms m])
  obtain v where v: "volume_of w sid = Some v" "table_lookup (fileHandles v) h = Some f"
    using f by (auto simp: handle_of_def split: option.splits)
  obtain v2 where v2: "volume_of w2 sid = Some v2" "table_lookup (fileHandles v2) h = Some f'"
    using f' by (auto simp: handle_of_def split: option.splits)
  define v1 where "v1 = v\<lparr>fileHandles := AList.update h (f\<lparr>fdReaders := fdReaders f + 1\<rparr>) (fileHandles v)\<rparr>"
  define v3 where "v3 = v2\<lparr>fileHandles := AList.update h (f'\<lparr>fdReaders := fdReaders f' - 1\<rparr>) (fileHandles v2)\<rparr>"
  have e1: "w1 = set_volume sid v1 w" and e3: "w3 = set_volume sid v3 w2"
    using w1 w3 v(1) v2(1) by (simp_all add: put_handle_def modify_volume_def v1_def v3_def)
  have c: "core v1 = core v" "core v3 = core v2" by (simp_all add: core_def v1_def v3_def)
  show "tame w w3"
  proof (rule tameI)
    fix sid' u assume u: "volume_of w3 sid' = Some u"
    show "volume_ok u \<and> idle u \<or> (\<exists>v. volume_of w sid' = Some v \<and> core u = core v \<and> no_new_lock v u)"
    proof (cases "sid' = sid")
      case False
      then have "volume_of w2 sid' = Some u" "volume_of w1 sid' = volume_of w sid'" using u by (simp_all add: e1 e3)
      then show ?thesis using tameE [OF t] by metis
    next
      case True
      then have u3: "u = v3" using u by (simp add: e3)
      from t v2(1) show ?thesis
      proof (cases rule: tameE)
        case 1
        then have "idle v3" using v2(2) by (auto simp: idle_def v3_def tbl.lookup_add split: if_splits)
        then show ?thesis using 1(1) volume_ok_core [OF c(2)] u3 by simp
      next
        case (2 v')
        then have v': "v' = v1" by (simp add: e1)
        have "no_new_lock v v3"
          unfolding no_new_lock_def
        proof (intro allI impI)
          fix k g assume g: "table_lookup (fileHandles v3) k = Some g"
          obtain g2 where g2: "table_lookup (fileHandles v2) k = Some g2" "fdReaders g = (if k = h then fdReaders g2 - 1 else fdReaders g2)"
            using g v2(2) by (auto simp: v3_def tbl.lookup_add split: if_splits)
          then consider "fdReaders g2 = 0" | g1 where "table_lookup (fileHandles v1) k = Some g1" "fdReaders g1 = fdReaders g2"
            using 2(3) v' unfolding no_new_lock_def by metis
          then show "fdReaders g = 0 \<or> (\<exists>f. table_lookup (fileHandles v) k = Some f \<and> fdReaders f = fdReaders g)"
            using g2(2) v(2) by cases (auto simp: v1_def tbl.lookup_add split: if_splits)
        qed
        then show ?thesis using v(1) 2(2) c True u3 v' by (auto simp: core_def)
      qed
    qed
  qed
qed

section \<open>The exported functions\<close>

lemma tame_cache:
  assumes "volume_of w sid = Some v" "ivLen d = ivLen (dirCache v)"
  shows "tame w (set_volume sid (v\<lparr>dirCache := d\<rparr>) (w\<lparr>w_os := s\<rparr>))"
  by (rule tame_set_volume' [OF assms(1)]) (use assms(2) in \<open>simp_all add: core_def no_new_lock_same\<close>)

lemma ivLen_Store: "dirCache_Store d p fd iv s = Ret (d', s') \<Longrightarrow> ivLen d' = ivLen d"
  by (auto simp: dirCache_Store_def Let_def split: if_splits prod.splits sum.splits)

lemma tamed_cache_lookup [tamed]: "tm.along (cache_lookup sid path)"
  by (auto simp: tm.along_def cache_lookup_def go_bind_eq_Ret tm.os)

lemma tamed_cache_store [tamed]: "tm.along (cache_store sid path fd iv)"
  by (auto simp: tm.along_def cache_store_def go_bind_eq_Ret ivLen_Store intro!: tame_cache)

lemma tamed_cache_drop [tamed]: "tm.along (cache_delete sid path)" "tm.along (cache_clear sid)"
  by (auto simp: tm.along_def cache_delete_def cache_clear_def go_bind_eq_Ret case_prod_unfold ivLen_ops intro!: tame_cache)

lemma tamed_rand [tamed]: "tm.along rand_uint64"
  by (auto simp: tm.along_def rand_uint64_def tm.rng split: prod.splits)

lemma tamed_prepare [tamed]: "tm.along (prepareAtSyscallMyself n Pr sid v path)" "tm.along (prepareAtSyscall n Pr sid v path)"
proof -
  have c: "tm.along (prepare_child Pr m sid v p)" if "\<And>q. tm.along (m q)" for m p
    unfolding prepare_child_def open_parent_def name_in_dir_def encrypt_child_def Let_def by (intro tamed that)
  show m: "tm.along (prepareAtSyscallMyself n Pr sid v path)" for n path
  proof (induction n arbitrary: path)
    case (Suc n)
    then show ?case unfolding prepareAtSyscallMyself.simps open_root_def by (intro tamed c)
  qed (simp add: tm.along_def)
  show "tm.along (prepareAtSyscall n Pr sid v path)" unfolding prepareAtSyscall_def by (intro tamed c m)
qed

lemma tamed_attrs [tamed]: "tm.along (gcf_get_attrs Pr sid path)" "tm.along (gcf_set_mtime Pr sid path t)"
  unfolding gcf_get_attrs_def gcf_set_mtime_def translateSize_def readlink_def by (intro tamed)+

lemma tamed_list [tamed]: "tm.along (gcf_list_dir Pr sid dir)"
proof -
  have "tm.along (list_entries Pr v fd dir iv es)" for v fd iv es
  proof (induction es)
    case (Cons e es)
    have "tm.along (list_entry Pr v fd dir iv n)" for n
      unfolding list_entry_def Let_def by (cases "NameType n"; simp only: name_type.case; intro tamed)
    then show ?case unfolding list_entries.simps by (intro tamed Cons)
  qed (simp add: tamed)
  then show ?thesis unfolding gcf_list_dir_def by (intro tamed)
qed

lemma tamed_dirs [tamed]: "tm.along (gcf_mkdir Pr sid path mode)" "tm.along (gcf_rmdir Pr sid path)"
  unfolding gcf_mkdir_def mkdirWithIv_def fix_mode_def gcf_rmdir_def rmdir_dance_def Let_def by (intro tamed)+

lemma tamed_rename [tamed]: "tm.along (gcf_rename Pr sid old new)"
  unfolding gcf_rename_def rename_name_file_def rename_retry_def delete_long_def by (intro tamed)

lemma tamed_open [tamed]: "tm.along (gcf_open_read_mode Pr sid path)" "tm.along (gcf_open_write_mode Pr sid path mode)"
  "tm.along (gcf_remove_file Pr sid path)"
  unfolding gcf_open_read_mode_def gcf_open_write_mode_def delete_long_def gcf_remove_file_def Let_def by (intro tamed)+

lemma tamed_close_file [tamed]: "tm.along (gcf_close_file sid h)"
  unfolding gcf_close_file_def by (intro tamed)

lemma tamed_doWrite [tamed]: "tm.along (doWrite Pr sid v h d off)"
proof -
  have "tm.along (on_handle sid h (\<lambda>f. doWrite_file Pr (contentEnc v) f d off))"
    by (rule tamed_on_handle) (rule doWrite_file_same)
  moreover have "tm.along (case r of Written n \<Rightarrow> ret (n, True) | Failed \<Rightarrow> ret (0, False)
      | Undone \<Rightarrow> bindw (gcf_close_file (volumeID v) h) (\<lambda>_. ret (0, False)))" for r
    by (cases r; simp only: write_result.case; intro tamed)
  ultimately show ?thesis unfolding doWrite_def by (intro tamed)
qed

lemma tamed_read_handle [tamed]: "tm.along (read_handle Pr sid v h off n)"
  unfolding read_handle_def by (rule tamed_on_handle) (auto simp: go_bind_eq_Ret dest: doRead_same)

lemma tamed_read_write [tamed]: "tm.along (gcf_read_file Pr sid h off b)" "tm.along (gcf_write_file Pr sid h off d)"
  unfolding gcf_read_file_def gcf_write_file_def by (intro tamed)+

lemma tamed_truncate [tamed]: "tm.along (gcf_truncate Pr ord sid path n)"
proof -
  have h: "tm.along (on_handle sid h (\<lambda>f s r. go_bind (createHeader (file_fd f) s r) (\<lambda>(idr, s', r'). case idr of
       Inl e \<Rightarrow> Ret (False, f, s', r') | Inr i \<Rightarrow> Ret (True, f\<lparr>file_ID := Some i\<rparr>, s', r'))))" for h
    by (rule tamed_on_handle) (auto simp: go_bind_eq_Ret sum_case_eq)
  have "tm.along (FileOps.truncate Pr sid v h m)" for v h m
    unfolding FileOps.truncate_def truncateGrowFile_def zeroPad_def grow_aligned_def truncate_shrink_def Let_def by (intro tamed h)
  then show ?thesis unfolding gcf_truncate_def by (intro tamed)
qed

section \<open>Opening and closing a volume\<close>

lemma New_cryptocore_wipes:
  assumes "New_cryptocore Pr key t bits h = Ret cc"
  shows "returns (cryptocore_Wipe cc)"
proof -
  obtain a eme where a: "New_aead Pr key t bits h = Ret a" and
    cc: "cc = \<lparr>EMECipher = Some eme, AEADCipher = Some a, AEADBackend = t, nonceLen = bits div 8, IVLen = bits div 8\<rparr>"
    using assms by (auto simp: New_cryptocore_def go_bind_eq_Ret split: if_splits)
  then show ?thesis
    by (cases a) (auto simp: cryptocore_Wipe_def New_aead_def backend_defs Let_def go_bind_eq_Ret NewAES256GCM_def siv_New_def
        NewXchacha20poly1305_def split: if_splits)
qed

lemma newVolume_ok:
  assumes "prims_ok Pr" "newVolume Pr m root key cf b = Ret v"
  shows "volume_ok v" "idle v"
proof -
  obtain cc ce where cc: "New_cryptocore Pr key (choose_backend m b) (NonceSize (choose_backend m b) * 8) (IsFeatureFlagSet cf FlagHKDF) = Ret cc"
    and ce: "contentenc_New cc DefaultBS = Ret ce"
    and v: "contentEnc v = ce" "volumeID v = 0" "emeCipher (nameTransform v) = EMECipher cc" "badnamePatterns (nameTransform v) = []"
      "ivLen (dirCache v) = (if plainTextNames v then 0 else DirIVLen)" "fileHandles v = []"
    using assms(2) by (auto simp: newVolume_def Let_def go_bind_eq_Ret New_NameTransform_def new_dirCache_def)
  note c = New_cryptocore_spec(2) [OF assms(1) cc]
  have "IVLen cc \<le> 24" using c by (auto simp: cc_ok_def)
  note e = contentenc_New_fields [OF ce this]
  have "be_ok ce" using c e(1,2) ce by (simp add: be_ok_def)
  then show "volume_ok v" using c v e(1) New_cryptocore_wipes [OF cc] by (auto simp: volume_ok_def)
  show "idle v" using v(6) by (simp add: idle_def table_lookup_def)
qed

lemma tamed_register_volume [tamed]:
  assumes "prims_ok Pr"
  shows "tm.along (registerNewVolume Pr m root key cf)"
proof (rule tm.alongI)
  fix w x w' assume r: "registerNewVolume Pr m root key cf w = Ret (x, w')"
  show "tame w w'"
  proof (cases "ContentEncryption cf")
    case (Inr b)
    with r obtain v where v: "newVolume Pr m root key cf b = Ret v" and st: "storeNewVolume v w = Ret (x, w')"
      by (auto simp: registerNewVolume_def bindw_eq_Ret lift_go_def go_bind_eq_Ret)
    have "\<forall>j. volume_of w' j = (if j = x then Some v else volume_of w j)"
      by (rule storeNewVolume_spec [of v w]) (use st in auto)
    then show ?thesis using newVolume_ok [OF assms v] by (intro tameI) (auto split: if_splits)
  qed (use r in \<open>simp add: registerNewVolume_def tm.refl\<close>)
qed

lemma tamed_init [tamed]: "prims_ok Pr \<Longrightarrow> tm.along (gcf_init Pr J m root pw gh buff)"
  unfolding gcf_init_def by (intro tamed)

lemma tamed_close_files: "tm.along (close_files sid is)"
  by (induction "is") (simp_all add: tamed)

lemma tamed_close [tamed]: "tm.along (gcf_close sid)"
proof (rule tm.alongI)
  fix w w' and x :: unit assume c: "gcf_close sid w = Ret (x, w')"
  show "tame w w'"
  proof (cases "volume_of w sid")
    case (Some v)
    with c obtain v' w2 w3 where "close_files sid (map int [0..<length (fileHandles v)]) (set_volume sid v' w) = Ret ((), w2)"
      "cache_clear sid w2 = Ret ((), w3)" and w': "w' = w3\<lparr>OpenedVolumes := AList.delete sid (OpenedVolumes w3)\<rparr>"
      by (auto simp: gcf_close_def with_volume_def bindw_eq_Ret lift_go_def modify_volume_def go_bind_eq_Ret)
    then have t: "tame (set_volume sid v' w) w3"
      using tm.trans tm.alongD [OF tamed_close_files] tm.alongD [OF tamed_cache_drop(2)] by blast
    show ?thesis
    proof (rule tameI)
      fix j u assume "volume_of w' j = Some u"
      then have j: "j \<noteq> sid" "volume_of w3 j = Some u" by (auto simp: w' volume_of_def tbl.lookup_remove split: if_splits)
      from tameE [OF t j(2)] j(1)
      show "volume_ok u \<and> idle u \<or> (\<exists>v. volume_of w j = Some v \<and> core u = core v \<and> no_new_lock v u)"
        by (metis volume_of_set)
    qed
  qed (use c in \<open>simp add: gcf_close_def with_volume_def tm.refl\<close>)
qed

lemma tamed_config [tamed]:
  "tm.along (gcf_change_password Pr J root old gh new buff)"
  "tm.along (gcf_create_volume Pr J m root pw plain xc logN creator buff)"
  unfolding gcf_change_password_def gcf_create_volume_def Let_def by (intro tamed)+

lemma tamed_is_closed [tamed]: "tm.along (gcf_is_closed sid)"
  by (simp add: tm.along_def gcf_is_closed_def tm.refl)

section \<open>Calls\<close>

text \<open>A call of an exported function with its arguments; \<open>Truncate\<close> also has the order in which Go visits the handles.\<close>

datatype call =
    Init platform string bytes bytes bytes
  | CloseVolume int
  | IsClosed int
  | ChangePassword string bytes bytes bytes bytes
  | CreateVolume platform string bytes bool "8 word" int string bytes
  | OpenRead int string
  | OpenWrite int string uint32
  | TruncateTo "(int \<times> File) list \<Rightarrow> (int \<times> File) list" int string uint64
  | ReadFile int int uint64 bytes
  | WriteTo int int uint64 bytes
  | CloseFile int int
  | RemoveFile int string
  | ListDir int string
  | Mkdir int string uint32
  | Rmdir int string
  | GetAttrs int string
  | SetMtime int string int
  | Rename int string string

fun perform :: "prims \<Rightarrow> json \<Rightarrow> call \<Rightarrow> unit io" where
  "perform Pr J (Init m root pw gh buff) = bindw (gcf_init Pr J m root pw gh buff) (\<lambda>_. ret ())"
| "perform Pr J (CloseVolume sid) = gcf_close sid"
| "perform Pr J (IsClosed sid) = bindw (gcf_is_closed sid) (\<lambda>_. ret ())"
| "perform Pr J (ChangePassword root old gh new buff) = bindw (gcf_change_password Pr J root old gh new buff) (\<lambda>_. ret ())"
| "perform Pr J (CreateVolume m root pw plain xc logN creator buff) =
     bindw (gcf_create_volume Pr J m root pw plain xc logN creator buff) (\<lambda>_. ret ())"
| "perform Pr J (OpenRead sid path) = bindw (gcf_open_read_mode Pr sid path) (\<lambda>_. ret ())"
| "perform Pr J (OpenWrite sid path mode) = bindw (gcf_open_write_mode Pr sid path mode) (\<lambda>_. ret ())"
| "perform Pr J (TruncateTo ord sid path n) = bindw (gcf_truncate Pr ord sid path n) (\<lambda>_. ret ())"
| "perform Pr J (ReadFile sid h off buff) = bindw (gcf_read_file Pr sid h off buff) (\<lambda>_. ret ())"
| "perform Pr J (WriteTo sid h off d) = bindw (gcf_write_file Pr sid h off d) (\<lambda>_. ret ())"
| "perform Pr J (CloseFile sid h) = gcf_close_file sid h"
| "perform Pr J (RemoveFile sid path) = bindw (gcf_remove_file Pr sid path) (\<lambda>_. ret ())"
| "perform Pr J (ListDir sid dir) = bindw (gcf_list_dir Pr sid dir) (\<lambda>_. ret ())"
| "perform Pr J (Mkdir sid path mode) = bindw (gcf_mkdir Pr sid path mode) (\<lambda>_. ret ())"
| "perform Pr J (Rmdir sid path) = bindw (gcf_rmdir Pr sid path) (\<lambda>_. ret ())"
| "perform Pr J (GetAttrs sid path) = bindw (gcf_get_attrs Pr sid path) (\<lambda>_. ret ())"
| "perform Pr J (SetMtime sid path t) = bindw (gcf_set_mtime Pr sid path t) (\<lambda>_. ret ())"
| "perform Pr J (Rename sid old new) = bindw (gcf_rename Pr sid old new) (\<lambda>_. ret ())"

lemma tamed_perform: "prims_ok Pr \<Longrightarrow> tm.along (perform Pr J c)"
  by (cases c; simp only: perform.simps; intro tamed)

text \<open>The calls run one after the other; between two of them the outside may change in any way.\<close>

inductive reachable :: "prims \<Rightarrow> json \<Rightarrow> world \<Rightarrow> bool" for Pr J where
  start: "OpenedVolumes w = [] \<Longrightarrow> reachable Pr J w"
| outside: "reachable Pr J w \<Longrightarrow> reachable Pr J (w\<lparr>w_os := s, w_rng := r\<rparr>)"
| call: "reachable Pr J w \<Longrightarrow> perform Pr J c w = Ret ((), w') \<Longrightarrow> reachable Pr J w'"

definition in_order :: "world \<Rightarrow> bool" where
  "in_order w \<longleftrightarrow> (\<forall>sid v. volume_of w sid = Some v \<longrightarrow> volume_ok v \<and> idle v)"

lemma in_orderD: "in_order w \<Longrightarrow> volume_of w sid = Some v \<Longrightarrow> volume_ok v \<and> idle v"
  by (simp add: in_order_def)

lemma tame_in_order: "tame w w' \<Longrightarrow> in_order w \<Longrightarrow> in_order w'"
  unfolding in_order_def by (metis tameE volume_ok_core no_new_lock_idle)

lemma reachable_in_order:
  assumes "reachable Pr J w" "prims_ok Pr"
  shows "in_order w"
  using assms
proof (induction rule: reachable.induct)
  case (start w)
  then show ?case by (simp add: in_order_def volume_of_def table_lookup_def)
next
  case (outside w s r)
  then show ?case using tm.both tame_in_order by blast
next
  case (call w c w')
  then show ?case using tm.alongD [OF tamed_perform] tame_in_order by blast
qed

section \<open>Closing when nobody reads\<close>

lemma close_file_run:
  assumes "volume_of w sid = Some v" "idle v" "table_lookup (fileHandles v) h = Some f"
  obtains s where "gcf_close_file sid h w =
    Ret ((), set_volume sid (v\<lparr>fileHandles := AList.delete h (fileHandles v)\<rparr>) (w\<lparr>w_os := s\<rparr>))"
proof -
  have "fdReaders f = 0" using assms(2,3) by (simp add: idle_def)
  then show thesis using assms
    by (intro that) (simp add: gcf_close_file_def with_volume_def bindw_def get_handle_def handle_of_def close_fd_def
        call_os_def lift_os_def modify_volume_def)
qed

lemma close_file_nil:
  assumes "volume_of w sid = Some v" "table_lookup (fileHandles v) h = None"
  shows "gcf_close_file sid h w = Panic NilDeref"
  using assms by (simp add: gcf_close_file_def with_volume_def bindw_def get_handle_def handle_of_def)

lemma idle_delete: "idle v \<Longrightarrow> idle (v\<lparr>fileHandles := AList.delete h (fileHandles v)\<rparr>)"
  by (simp add: idle_def tbl.lookup_remove)

lemma close_files_run:
  assumes "volume_of w sid = Some v" "idle v" "distinct is" "\<forall>i\<in>set is. table_lookup (fileHandles v) i \<noteq> None"
  shows "\<exists>w' v'. close_files sid is w = Ret ((), w') \<and> volume_of w' sid = Some v' \<and>
    (\<forall>j. j \<noteq> sid \<longrightarrow> volume_of w' j = volume_of w j)"
  using assms
proof (induction "is" arbitrary: w v)
  case (Cons i "is")
  obtain f where f: "table_lookup (fileHandles v) i = Some f" using Cons.prems(4) by auto
  obtain s where s: "gcf_close_file sid i w =
      Ret ((), set_volume sid (v\<lparr>fileHandles := AList.delete i (fileHandles v)\<rparr>) (w\<lparr>w_os := s\<rparr>))"
    by (rule close_file_run [OF Cons.prems(1,2) f])
  let ?v = "v\<lparr>fileHandles := AList.delete i (fileHandles v)\<rparr>" and ?w = "w\<lparr>w_os := s\<rparr>"
  have "\<forall>k\<in>set is. table_lookup (fileHandles ?v) k \<noteq> None" using Cons.prems(3,4) by (auto simp: tbl.lookup_remove)
  with Cons.prems(3) Cons.IH [of "set_volume sid ?v ?w" ?v] idle_delete [OF Cons.prems(2)] s
  show ?case by (simp add: bindw_def)
qed (simp add: ret_def)

lemma close_files_stop:
  assumes "volume_of w sid = Some v" "idle v" "i \<in> set is" "table_lookup (fileHandles v) i = None"
  shows "close_files sid is w = Panic NilDeref"
  using assms
proof (induction "is" arbitrary: w v)
  case (Cons k "is")
  show ?case
  proof (cases "table_lookup (fileHandles v) k")
    case None
    then show ?thesis using close_file_nil [OF Cons.prems(1)] by (simp add: bindw_def)
  next
    case (Some f)
    obtain s where s: "gcf_close_file sid k w =
        Ret ((), set_volume sid (v\<lparr>fileHandles := AList.delete k (fileHandles v)\<rparr>) (w\<lparr>w_os := s\<rparr>))"
      by (rule close_file_run [OF Cons.prems(1,2) Some])
    let ?v = "v\<lparr>fileHandles := AList.delete k (fileHandles v)\<rparr>" and ?w = "w\<lparr>w_os := s\<rparr>"
    have "i \<in> set is" "table_lookup (fileHandles ?v) i = None"
      using Cons.prems(3,4) Some by (auto simp: tbl.lookup_remove)
    with Cons.IH [of "set_volume sid ?v ?w" ?v] idle_delete [OF Cons.prems(2)] s
    show ?thesis by (simp add: bindw_def)
  qed
qed simp

text \<open>
  \<open>gcf_close\<close> on a volume in order: it goes through the numbers below the number of open
  handles, and comes to its end when those are the open ones.
\<close>

lemma close_volume_run:
  assumes v: "volume_of w sid = Some v" "volume_ok v" "idle v"
  shows "if \<forall>i < length (fileHandles v). table_lookup (fileHandles v) (int i) \<noteq> None
    then \<exists>w'. gcf_close sid w = Ret ((), w') \<and> volume_of w' sid = None \<and> (\<forall>j. j \<noteq> sid \<longrightarrow> volume_of w' j = volume_of w j)
    else gcf_close sid w = Panic NilDeref"
proof -
  obtain a cc where "cryptocore_Wipe (cryptoCore (contentEnc v)) = Ret (a, cc)"
    using v(2) by (auto simp: volume_ok_def returns_iff)
  then obtain v' where v': "wipe_volume v = Ret v'" "fileHandles v' = fileHandles v" by (simp add: wipe_volume_def)
  define w1 where "w1 = set_volume sid v' w"
  define ks where "ks = map int [0..<length (fileHandles v)]"
  have w1: "volume_of w1 sid = Some v'" "idle v'" "\<And>j. j \<noteq> sid \<Longrightarrow> volume_of w1 j = volume_of w j"
    using v(3) v'(2) by (simp_all add: w1_def idle_def)
  have run: "gcf_close sid w = bindw (close_files sid ks) (\<lambda>_. bindw (cache_clear sid)
      (\<lambda>_ w. Ret ((), w\<lparr>OpenedVolumes := AList.delete sid (OpenedVolumes w)\<rparr>))) w1"
    using v(1) v'(1) by (simp add: gcf_close_def with_volume_def bindw_def lift_go_def modify_volume_def w1_def ks_def)
  show ?thesis
  proof (cases "\<forall>i < length (fileHandles v). table_lookup (fileHandles v) (int i) \<noteq> None")
    case True
    then have "\<forall>i\<in>set ks. table_lookup (fileHandles v') i \<noteq> None" "distinct ks"
      by (auto simp: ks_def v'(2) distinct_map)
    with close_files_run [OF w1(1,2), of ks] obtain w2 v2 where w2: "close_files sid ks w1 = Ret ((), w2)"
      "volume_of w2 sid = Some v2" "\<And>j. j \<noteq> sid \<Longrightarrow> volume_of w2 j = volume_of w1 j" by blast
    obtain d s where d: "dirCache_Clear (dirCache v2) (w_os w2) = (d, s)" by fastforce
    define w3 where "w3 = set_volume sid (v2\<lparr>dirCache := d\<rparr>) (w2\<lparr>w_os := s\<rparr>)"
    have "gcf_close sid w = Ret ((), w3\<lparr>OpenedVolumes := AList.delete sid (OpenedVolumes w3)\<rparr>)"
      using w2(1,2) d by (simp add: run bindw_def cache_clear_def w3_def)
    moreover have "volume_of (w3\<lparr>OpenedVolumes := AList.delete sid (OpenedVolumes w3)\<rparr>) j =
        (if j = sid then None else volume_of w j)" for j
      using w2(3) w1(3) by (simp add: volume_of_def [of "_\<lparr>OpenedVolumes := _\<rparr>"] tbl.lookup_remove volume_of_def [symmetric])
        (simp add: w3_def)
    ultimately show ?thesis using True by auto
  next
    case False
    then obtain i where i: "int i \<in> set ks" "table_lookup (fileHandles v') (int i) = None"
      by (fastforce simp: ks_def v'(2))
    have "close_files sid ks w1 = Panic NilDeref" by (rule close_files_stop [OF w1(1,2) i])
    then show ?thesis by (simp only: False if_False run bindw_def) simp
  qed
qed

end
