(* ===== verification/ConfigStore.thy ===== *)
theory ConfigStore
  imports VolumeLaws
begin

unbundle bit_operations_syntax

text \<open>
  The configuration file on disk: \<open>WriteFile\<close> replaces it as a whole or leaves it as it
  was, whatever fails, and \<open>Load\<close> reads back what was written.
\<close>

section \<open>Paths of the file and of its temporary copy\<close>

lemma path_Dir_suffix: "slash \<notin> set t \<Longrightarrow> path_Dir (p @ t) = path_Dir p"
  by (simp add: path_Dir_def dropWhile_append)

lemma path_Base_suffix:
  assumes "p \<noteq> []" "last p \<noteq> slash" "t \<noteq> []" "slash \<notin> set t"
  shows "path_Base (p @ t) = path_Base p @ t"
proof -
  have keep: "dropWhile (\<lambda>c. c = slash) (rev q) = rev q" if "q \<noteq> []" "last q \<noteq> slash" for q
    using that by (cases q rule: rev_cases) simp_all
  have l: "last (p @ t) \<noteq> slash" using assms(3,4) by (cases t rule: rev_cases) auto
  have t: "takeWhile (\<lambda>c. c \<noteq> slash) (rev t @ rev p) = rev t @ takeWhile (\<lambda>c. c \<noteq> slash) (rev p)"
    using assms(4) by (intro takeWhile_append2) auto
  show ?thesis
    using assms(1-3) keep [of p] keep [of "p @ t"] l t by (simp add: path_Base_def Let_def)
qed

lemma host_dir_suffix: "slash \<notin> set t \<Longrightarrow> host_dir s (p @ t) = host_dir s p"
  by (simp add: host_dir_def path_Dir_suffix)

section \<open>The content under a path\<close>

definition file_bytes :: "os \<Rightarrow> string \<Rightarrow> bytes option" where
  "file_bytes s path = (case host_dir s path of
     Inl e \<Rightarrow> None
   | Inr (i, es) \<Rightarrow> (case map_of es (path_Base path) of
       None \<Rightarrow> None
     | Some j \<Rightarrow> (case inode_node (inodes s ! j) of RegF c \<Rightarrow> Some c | _ \<Rightarrow> None)))"

text \<open>
  The directory of the file exists, its name and the temporary one are acceptable, and the
  name is not taken by a directory.
\<close>

definition store_ok :: "os \<Rightarrow> string \<Rightarrow> nat \<Rightarrow> (string \<times> nat) list \<Rightarrow> bool" where
  "store_ok s path i es \<longleftrightarrow> path \<noteq> [] \<and> last path \<noteq> slash \<and>
     name_ok (path_Base path) \<and> name_ok (path_Base path @ ''.tmp'') \<and>
     host_dir s path = Inr (i, es) \<and> i < length (inodes s) \<and>
     (case map_of es (path_Base path) of None \<Rightarrow> True
      | Some j \<Rightarrow> j < length (inodes s) \<and> (case inode_node (inodes s ! j) of DirF _ \<Rightarrow> False | _ \<Rightarrow> True))"

text \<open>Only descriptors and pending failures differ.\<close>

definition same_files :: "os \<Rightarrow> os \<Rightarrow> bool" where
  "same_files s s' \<longleftrightarrow> inodes s' = inodes s \<and> host s' = host s"

lemma same_files_host_dir: "same_files s s' \<Longrightarrow> host_dir s' p = host_dir s p"
  by (simp add: same_files_def host_dir_def cong: option.case_cong)

lemma same_files_bytes: "same_files s s' \<Longrightarrow> file_bytes s' p = file_bytes s p"
  using same_files_host_dir [of s s' p]
  by (auto simp: same_files_def file_bytes_def split: sum.splits option.splits)

lemma same_files_store: "same_files s s' \<Longrightarrow> store_ok s' p i es = store_ok s p i es"
  using same_files_host_dir [of s s' p]
  by (auto simp: same_files_def store_ok_def split: option.splits)

lemma same_files_trans: "same_files s s' \<Longrightarrow> same_files s' s'' \<Longrightarrow> same_files s s''"
  by (simp add: same_files_def)

lemma same_files_refl [simp]: "same_files s s"
  by (simp add: same_files_def)

lemma next_fault_same: "next_fault (interrupted s) = (f, s') \<Longrightarrow> same_files s s' \<and> fds s' = fds s"
  by (auto simp: next_fault_def interrupted_def same_files_def split: list.splits)

lemma next_fault_plain_same: "next_fault s = (f, s') \<Longrightarrow> same_files s s' \<and> fds s' = fds s"
  by (auto simp: next_fault_def same_files_def split: list.splits)

lemma Close_same: "Close fd s = (r, s') \<Longrightarrow> same_files s s'"
  using next_fault_plain_same [of s]
  by (auto simp: Close_def same_files_def split: option.splits prod.splits)

lemma close_quietly_same: "same_files s (close_quietly fd s)"
  using Close_same [of fd s] by (cases "Close fd s") (simp add: close_quietly_def)

lemma Sync_same: "same_files s (Sync s) \<and> fds (Sync s) = fds s"
  using next_fault_same [of s] by (cases "next_fault (interrupted s)") (simp add: Sync_def)

text \<open>A retried system call either fails outright or runs once.\<close>

lemma retry_cases:
  assumes "\<And>s. fst (f s) \<noteq> Inl EINTR"
  obtains e s1 where "retryEINTR (sys f) s = Ret (Inl e, s1)" "same_files s s1" "fds s1 = fds s" "\<not> quiet s"
  | s1 where "retryEINTR (sys f) s = Ret (f s1)" "same_files s s1" "fds s1 = fds s" "quiet s \<longrightarrow> quiet s1"
proof -
  obtain g s1 where g: "next_fault (interrupted s) = (g, s1)" by (cases "next_fault (interrupted s)")
  note same = next_fault_same [OF g] and nf = next_fault_interrupted [OF g]
  have run: "retryEINTR (sys f) s = Ret (sys f (interrupted s))" by (rule retryEINTR_sys) fact
  show thesis
  proof (cases g)
    case None
    then have "retryEINTR (sys f) s = Ret (f s1)" using run g by (simp add: sys_def)
    moreover have "quiet s \<longrightarrow> quiet s1" using nf(1) by auto
    ultimately show thesis using that(2) same by blast
  next
    case (Some ek)
    then have "retryEINTR (sys f) s = Ret (Inl (fst ek), s1)" using run g by (simp add: sys_def split: prod.splits)
    moreover have "\<not> quiet s" using nf(2) Some by auto
    ultimately show thesis using that(1) same by blast
  qed
qed

section \<open>Reading\<close>

lemma entry_no_EINTR: "entry s i es n \<noteq> Inl EINTR"
  by (simp add: entry_def split: option.splits)

lemma open_in_no_EINTR: "fst (open_in i es n fl m s) \<noteq> Inl EINTR"
  using entry_no_EINTR [of s i es n]
  by (auto simp: open_in_def raw_open_inode_def Let_def split: sum.splits node.splits prod.splits if_splits)

lemma raw_open_no_EINTR: "fst (raw_open p fl m s) \<noteq> Inl EINTR"
  using open_in_no_EINTR
  by (auto simp: raw_open_def host_dir_def split: sum.splits option.splits node.splits prod.splits)

lemma free_slot_le: "free_slot xs \<le> length xs"
  by (induction xs rule: free_slot.induct) auto

lemma get_fd_alloc:
  "alloc_fd e s = (fd, s') \<Longrightarrow>
     get_fd s' fd = Some e \<and> inodes s' = inodes s \<and> host s' = host s \<and> faults s' = faults s"
  using free_slot_le [of "fds s"]
  by (auto simp: alloc_fd_def Let_def get_fd_def nth_append split: if_splits)

text \<open>Without failures a readable file is read as a whole.\<close>

lemma os_ReadFile_spec:
  assumes q: "quiet s" and c: "file_bytes s p = Some c" and n: "name_ok (path_Base p)"
  shows "\<exists>s'. os_ReadFile p s = Ret (Inr c, s') \<and> same_files s s'"
proof -
  obtain i es j where d: "host_dir s p = Inr (i, es)" "map_of es (path_Base p) = Some j"
    "inode_node (inodes s ! j) = RegF c"
    using c by (auto simp: file_bytes_def split: sum.splits option.splits node.splits)
  let ?op = "raw_open p (O_RDONLY OR O_CLOEXEC) 0"
  have nf: "\<not> flag_set (O_RDONLY OR O_CLOEXEC) O_CREAT" "\<not> flag_set (O_RDONLY OR O_CLOEXEC) O_DIRECTORY"
    by (simp_all add: flag_set_def open_flags)
  have en: "entry s1 i es (path_Base p) = Inr j" for s1
    using d(2) n by (auto simp: entry_def name_ok_def)
  obtain s1 where run: "retryEINTR (sys ?op) s = Ret (?op s1)" "same_files s s1" "quiet s1"
    using retry_cases [of ?op s] raw_open_no_EINTR q by metis
  obtain fd s2 where al: "alloc_fd \<lparr>of_ino = j, of_pos = 0, of_wr = (O_RDONLY OR O_CLOEXEC) AND O_ACCMODE \<noteq> O_RDONLY\<rparr> s1 = (fd, s2)"
    by (cases "alloc_fd \<lparr>of_ino = j, of_pos = 0, of_wr = (O_RDONLY OR O_CLOEXEC) AND O_ACCMODE \<noteq> O_RDONLY\<rparr> s1")
  note g = get_fd_alloc [OF al]
  have i1: "inodes s1 = inodes s" using run(2) by (simp add: same_files_def)
  have op: "?op s1 = (Inr fd, s2)"
    using d(1,3) en nf al i1 same_files_host_dir [OF run(2), of p]
    by (simp add: raw_open_def open_in_def raw_open_inode_def Let_def)
  have fc: "file_content s2 fd = Some c" using g d(3) i1 by (simp add: file_content_def)
  have q2: "quiet s2" using al run(3) by (auto simp: alloc_fd_def Let_def)
  obtain f s3 where nx: "next_fault (interrupted s2) = (f, s3)" by (cases "next_fault (interrupted s2)")
  have f: "f = None" using next_fault_interrupted(2) [OF nx] q2 by simp
  have "same_files s (close_quietly fd s3)"
    using run(2) g next_fault_same [OF nx] close_quietly_same [of s3 fd] by (simp add: same_files_def)
  moreover have "os_ReadFile p s = Ret (Inr c, close_quietly fd s3)"
    using run(1) op fc nx f by (simp add: os_ReadFile_def)
  ultimately show ?thesis by blast
qed

section \<open>Creating the temporary file\<close>

lemma open_in_create:
  assumes "flag_set fl O_CREAT" "flag_set fl O_EXCL" "fl AND O_ACCMODE \<noteq> O_RDONLY" "\<not> flag_set fl O_DIRECTORY"
    and "open_in i es n fl m s = (r, s')" "i < length (inodes s)"
  shows "(\<exists>e. r = Inl e) \<and> s' = s \<and> (map_of es n \<noteq> None \<or> \<not> name_ok n) \<or>
    (\<exists>fd. r = Inr fd \<and> map_of es n = None \<and> name_ok n \<and>
       get_fd s' fd = Some \<lparr>of_ino = length (inodes s), of_pos = 0, of_wr = True\<rparr> \<and> host s' = host s \<and>
       length (inodes s') = Suc (length (inodes s)) \<and> inode_node (inodes s' ! length (inodes s)) = RegF [] \<and>
       inode_node (inodes s' ! i) = DirF (es @ [(n, length (inodes s))]) \<and> faults s' = faults s \<and>
       (\<forall>k < length (inodes s). k \<noteq> i \<longrightarrow> inodes s' ! k = inodes s ! k))"
proof (cases "entry s i es n")
  case (Inr j)
  then have "map_of es n \<noteq> None \<or> \<not> name_ok n"
    by (auto simp: entry_def name_ok_def split: if_splits option.splits)
  then show ?thesis using Inr assms(1,2,5) by (auto simp: open_in_def)
next
  case (Inl e)
  show ?thesis
  proof (cases "e = ENOENT \<and> name_ok n")
    case False
    then have "map_of es n \<noteq> None \<or> \<not> name_ok n"
      using Inl by (auto simp: entry_def name_ok_def split: if_splits option.splits)
    then show ?thesis using False Inl assms(5) by (auto simp: open_in_def)
  next
    case True
    define s1 where "s1 = set_node i (DirF (es @ [(n, length (inodes s))])) (snd (new_inode (RegF []) m s))"
    have s1: "length (inodes s1) = Suc (length (inodes s))" "inode_node (inodes s1 ! length (inodes s)) = RegF []"
      "inode_node (inodes s1 ! i) = DirF (es @ [(n, length (inodes s))])" "host s1 = host s"
      "\<forall>k < length (inodes s). k \<noteq> i \<longrightarrow> inodes s1 ! k = inodes s ! k" "faults s1 = faults s"
      using assms(6) by (auto simp: s1_def set_node_def new_inode_def nth_append)
    have "map_of es n = None" using Inl True by (auto simp: entry_def split: if_splits option.splits)
    moreover obtain fd s2 where al: "alloc_fd \<lparr>of_ino = length (inodes s), of_pos = 0, of_wr = True\<rparr> s1 = (fd, s2)"
      by (cases "alloc_fd \<lparr>of_ino = length (inodes s), of_pos = 0, of_wr = True\<rparr> s1")
    moreover have "open_in i es n fl m s = (Inr fd, s2)"
      using Inl True assms(1,3,4) al s1(2)
      by (simp add: open_in_def new_inode_def raw_open_inode_def Let_def s1_def)
    ultimately show ?thesis using get_fd_alloc [OF al] s1 assms(5) True by auto
  qed
qed

section \<open>Moving it over the old file\<close>

lemma rename_in_over:
  assumes d: "i < length (inodes s)" "inode_node (inodes s ! i) = DirF es"
    and t: "map_of es t = Some j" "j \<noteq> i" "name_ok t" "inode_node (inodes s ! j) = RegF c"
    and n: "name_ok n" "n \<noteq> t"
      "case map_of es n of None \<Rightarrow> True | Some k \<Rightarrow> k \<noteq> j \<and> (case inode_node (inodes s ! k) of DirF _ \<Rightarrow> False | _ \<Rightarrow> True)"
  shows "\<exists>s' es'. rename_in i es t i es n s = (Inr (), s') \<and> host s' = host s \<and>
     inode_node (inodes s' ! i) = DirF es' \<and> map_of es' n = Some j \<and> inode_node (inodes s' ! j) = RegF c"
proof -
  let ?s1 = "set_node i (DirF (filter (\<lambda>(m, _). m \<noteq> t) es)) s"
  let ?es = "filter (\<lambda>(m, _). m \<noteq> n) (filter (\<lambda>(m, _). m \<noteq> t) es) @ [(n, j)]"
  let ?s2 = "set_node i (DirF ?es) ?s1"
  have et: "entry s i es t = Inr j" using t(1,3) by (auto simp: entry_def name_ok_def)
  have ne: "t \<noteq> ''.''" "n \<noteq> ''.''" using t(3) n(1) by (auto simp: name_ok_def)
  have n1: "inode_node (inodes ?s1 ! i) = DirF (filter (\<lambda>(m, _). m \<noteq> t) es)"
    using d(1) by (simp add: set_node_def)
  have "rename_in i es t i es n s = (Inr (), ?s2)"
  proof (cases "map_of es n")
    case None
    then have "entry s i es n = Inl ENOENT" using n(1) by (auto simp: entry_def name_ok_def)
    then show ?thesis using et ne t(4) n(1) n1 by (simp add: rename_in_def Let_def)
  next
    case (Some k)
    then have "entry s i es n = Inr k" using n(1) by (auto simp: entry_def name_ok_def)
    then show ?thesis using et ne t(4) n(3) Some n1 by (simp add: rename_in_def Let_def split: node.splits)
  qed
  moreover have "map_of ?es n = Some j"
  proof -
    have "map_of (filter (\<lambda>(m, _). m \<noteq> n) xs @ [(n, j)]) n = Some j" for xs :: "(string \<times> nat) list"
      by (induction xs) auto
    then show ?thesis .
  qed
  moreover have "inode_node (inodes ?s2 ! i) = DirF ?es" "host ?s2 = host s"
    "inode_node (inodes ?s2 ! j) = RegF c"
    using d(1) t(2,4) by (simp_all add: set_node_def)
  ultimately show ?thesis by blast
qed

section \<open>Replacing the file\<close>

lemma host_dir_iff:
  "host_dir s p = Inr (i, es) \<longleftrightarrow> map_of (host s) (path_Dir p) = Some i \<and> inode_node (inodes s ! i) = DirF es"
  by (auto simp: host_dir_def split: option.splits node.splits)

text \<open>The content under a path depends on its directory entry and the inode it leads to.\<close>

lemma file_bytes_keep:
  assumes "host_dir s p = Inr (i, es)" "host_dir s' p = Inr (i, es')"
    and "map_of es' (path_Base p) = map_of es (path_Base p)"
    and "\<And>k. map_of es (path_Base p) = Some k \<Longrightarrow> inodes s' ! k = inodes s ! k"
  shows "file_bytes s' p = file_bytes s p"
  using assms by (auto simp: file_bytes_def split: option.splits)

text \<open>
  The states while the temporary file exists: it is inode \<open>j\<close>, with content \<open>c\<close>, and the
  old file is as it was in \<open>s\<close>.
\<close>

definition tmp_state :: "os \<Rightarrow> string \<Rightarrow> nat \<Rightarrow> (string \<times> nat) list \<Rightarrow> nat \<Rightarrow> bytes \<Rightarrow> os \<Rightarrow> bool" where
  "tmp_state s p i es j c s' \<longleftrightarrow> host s' = host s \<and> i \<noteq> j \<and> i < length (inodes s') \<and> j < length (inodes s') \<and>
     inode_node (inodes s' ! i) = DirF (es @ [(path_Base p @ ''.tmp'', j)]) \<and>
     map_of es (path_Base p @ ''.tmp'') = None \<and> inode_node (inodes s' ! j) = RegF c \<and>
     (\<forall>k. map_of es (path_Base p) = Some k \<longrightarrow> k \<noteq> j \<and> inodes s' ! k = inodes s ! k)"

lemma tmp_state_bytes:
  assumes "store_ok s p i es" "tmp_state s p i es j c s'"
  shows "file_bytes s' p = file_bytes s p"
proof (rule file_bytes_keep)
  show "host_dir s p = Inr (i, es)" using assms(1) by (simp add: store_ok_def)
  then show "host_dir s' p = Inr (i, es @ [(path_Base p @ ''.tmp'', j)])"
    using assms(2) by (simp add: host_dir_iff tmp_state_def)
  show "map_of (es @ [(path_Base p @ ''.tmp'', j)]) (path_Base p) = map_of es (path_Base p)"
    by (simp add: map_of_append map_add_def split: option.splits)
  show "inodes s' ! k = inodes s ! k" if "map_of es (path_Base p) = Some k" for k
    using assms(2) that by (simp add: tmp_state_def)
qed

lemma tmp_state_same: "tmp_state s p i es j c s' \<Longrightarrow> same_files s' s'' \<Longrightarrow> tmp_state s p i es j c s''"
  by (simp add: tmp_state_def same_files_def)

lemma raw_rename_no_EINTR: "fst (raw_rename p q s) \<noteq> Inl EINTR"
  using entry_no_EINTR
  by (auto simp: raw_rename_def rename_in_def host_dir_def Let_def
      split: sum.splits option.splits node.splits prod.splits if_splits)

lemma tmp_create:
  assumes st: "store_ok s p i es"
  obtains e s1 where "retryEINTR (sys (raw_open (p @ ''.tmp'') (O_WRONLY OR O_CREAT OR O_EXCL OR O_CLOEXEC) m)) s = Ret (Inl e, s1)"
    "same_files s s1" "quiet s \<longrightarrow> map_of es (path_Base p @ ''.tmp'') \<noteq> None"
  | fd s1 where "retryEINTR (sys (raw_open (p @ ''.tmp'') (O_WRONLY OR O_CREAT OR O_EXCL OR O_CLOEXEC) m)) s = Ret (Inr fd, s1)"
    "tmp_state s p i es (length (inodes s)) [] s1" "file_at s1 fd (length (inodes s)) []"
    "get_fd s1 fd = Some \<lparr>of_ino = length (inodes s), of_pos = 0, of_wr = True\<rparr>" "quiet s \<longrightarrow> quiet s1"
proof -
  let ?fl = "O_WRONLY OR O_CREAT OR O_EXCL OR O_CLOEXEC" and ?t = "path_Base p @ ''.tmp''"
  let ?op = "raw_open (p @ ''.tmp'') ?fl m"
  have fl: "flag_set ?fl O_CREAT" "flag_set ?fl O_EXCL" "?fl AND O_ACCMODE \<noteq> O_RDONLY" "\<not> flag_set ?fl O_DIRECTORY"
    by (simp_all add: flag_set_def open_flags)
  have base: "path_Base (p @ ''.tmp'') = ?t"
    using st by (intro path_Base_suffix) (auto simp: store_ok_def)
  have il: "i < length (inodes s)" and hd: "host_dir s p = Inr (i, es)" using st by (simp_all add: store_ok_def)
  have op: "?op s1 = open_in i es ?t ?fl m s1" if "same_files s s1" for s1
    using same_files_host_dir [OF that, of p] hd host_dir_suffix [of "''.tmp''" s1 p]
    by (simp add: raw_open_def base)
  from retry_cases [of ?op s, OF raw_open_no_EINTR] show thesis
  proof cases
    case (1 e s1)
    then show thesis using that(1) by blast
  next
    case (2 s1)
    obtain r s2 where r: "open_in i es ?t ?fl m s1 = (r, s2)" by (cases "open_in i es ?t ?fl m s1")
    have i1: "inodes s1 = inodes s" "host s1 = host s" using 2(2) by (simp_all add: same_files_def)
    have run: "retryEINTR (sys ?op) s = Ret (r, s2)" using 2(1) op [OF 2(2)] r by simp
    have il1: "i < length (inodes s1)" using il i1 by simp
    from open_in_create [OF fl r il1] show thesis
    proof
      assume "(\<exists>e. r = Inl e) \<and> s2 = s1 \<and> (map_of es ?t \<noteq> None \<or> \<not> name_ok ?t)"
      then obtain e where "r = Inl e" "s2 = s1" "map_of es ?t \<noteq> None"
        using st by (auto simp: store_ok_def)
      then show thesis using that(1) run 2(2) by blast
    next
      assume "\<exists>fd. r = Inr fd \<and> map_of es ?t = None \<and> name_ok ?t \<and>
         get_fd s2 fd = Some \<lparr>of_ino = length (inodes s1), of_pos = 0, of_wr = True\<rparr> \<and> host s2 = host s1 \<and>
         length (inodes s2) = Suc (length (inodes s1)) \<and> inode_node (inodes s2 ! length (inodes s1)) = RegF [] \<and>
         inode_node (inodes s2 ! i) = DirF (es @ [(?t, length (inodes s1))]) \<and> faults s2 = faults s1 \<and>
         (\<forall>k < length (inodes s1). k \<noteq> i \<longrightarrow> inodes s2 ! k = inodes s1 ! k)"
      then obtain fd where fd: "r = Inr fd" "map_of es ?t = None"
        "get_fd s2 fd = Some \<lparr>of_ino = length (inodes s), of_pos = 0, of_wr = True\<rparr>" "host s2 = host s"
        "length (inodes s2) = Suc (length (inodes s))" "inode_node (inodes s2 ! length (inodes s)) = RegF []"
        "inode_node (inodes s2 ! i) = DirF (es @ [(?t, length (inodes s))])" "faults s2 = faults s1"
        "\<forall>k < length (inodes s). k \<noteq> i \<longrightarrow> inodes s2 ! k = inodes s ! k"
        unfolding i1 by blast
      have old: "k \<noteq> length (inodes s) \<and> inodes s2 ! k = inodes s ! k" if "map_of es (path_Base p) = Some k" for k
        using that st fd(9) hd by (auto simp: store_ok_def host_dir_iff)
      show thesis
      proof (rule that(2) [OF run [unfolded fd(1)]])
        show "tmp_state s p i es (length (inodes s)) [] s2"
          using fd il old by (simp add: tmp_state_def)
        show "file_at s2 fd (length (inodes s)) []" using fd by (simp add: file_at_def)
        show "quiet s \<longrightarrow> quiet s2" using 2(4) fd(8) by simp
      qed (rule fd(3))
    qed
  qed
qed

text \<open>Writing the new content into the temporary file.\<close>

lemma tmp_write:
  assumes t: "tmp_state s p i es j [] s1" and f: "file_at s1 fd j []"
    and e: "get_fd s1 fd = Some \<lparr>of_ino = j, of_pos = 0, of_wr = True\<rparr>" and d: "data \<noteq> []"
  obtains er c s2 where "File_Write fd data s1 = (er, s2)" "tmp_state s p i es j c s2"
    "er = None \<longrightarrow> c = data" "quiet s1 \<and> length data \<le> maxbytes \<longrightarrow> er = None \<and> quiet s2"
    "get_fd s2 fd \<noteq> None"
proof -
  obtain er c s2 where w: "File_WriteAt fd data 0 s1 = (er, s2)" "file_at s2 fd j c" "only_file j s1 s2"
    "er = None \<Longrightarrow> c = overwrite (nat 0) data []" "quiet s1 \<Longrightarrow> nat 0 + length data \<le> maxbytes \<Longrightarrow> er = None"
    using WriteAt_file [OF f _ d, of 0] by (metis order_refl)
  let ?e = "\<lparr>of_ino = j, of_pos = 0, of_wr = True\<rparr>"
  let ?s3 = "set_pos fd ?e (of_pos ?e + length data) s2"
  have run: "File_Write fd data s1 = (er, ?s3)" using e w(1) by (simp add: File_Write_def)
  have fd2: "get_fd s2 fd = Some ?e"
    using w(3) e by (auto simp: only_file_def get_fd_def split: if_splits)
  have j: "inode_node (inodes s2 ! j) = RegF c" "j < length (inodes s2)" using w(2) by (simp_all add: file_at_def)
  show thesis
  proof (rule that [OF run])
    show "tmp_state s p i es j c ?s3"
      using t w(3) j by (auto simp: tmp_state_def only_file_def set_pos_def)
    show "er = None \<longrightarrow> c = data" using w(4) d by (simp add: overwrite_def)
    show "quiet s1 \<and> length data \<le> maxbytes \<longrightarrow> er = None \<and> quiet ?s3"
      using w(5) only_file_quiet [OF w(3)] by (auto simp: set_pos_def)
    show "get_fd ?s3 fd \<noteq> None" using fd2 by (auto simp: set_pos_def get_fd_def split: if_splits)
  qed
qed

lemma tmp_rename:
  assumes st: "store_ok s p i es" and t: "tmp_state s p i es j c s1"
  obtains e s2 where "retryEINTR (sys (raw_rename (p @ ''.tmp'') p)) s1 = Ret (Inl e, s2)"
    "file_bytes s2 p = file_bytes s p" "\<not> quiet s1"
  | s2 where "retryEINTR (sys (raw_rename (p @ ''.tmp'') p)) s1 = Ret (Inr (), s2)" "file_bytes s2 p = Some c"
proof -
  let ?t = "path_Base p @ ''.tmp''" and ?op = "raw_rename (p @ ''.tmp'') p"
  have base: "path_Base (p @ ''.tmp'') = ?t"
    using st by (intro path_Base_suffix) (auto simp: store_ok_def)
  from retry_cases [of ?op s1, OF raw_rename_no_EINTR] show thesis
  proof cases
    case (1 e s2)
    have "file_bytes s2 p = file_bytes s p"
      using tmp_state_bytes [OF st tmp_state_same [OF t 1(2)]] .
    then show thesis using that(1) 1 by blast
  next
    case (2 s2)
    note t2 = tmp_state_same [OF t 2(2)]
    let ?es = "es @ [(?t, j)]"
    have hd: "host_dir s2 p = Inr (i, ?es)" "host_dir s2 (p @ ''.tmp'') = Inr (i, ?es)"
      using st t2 host_dir_suffix [of "''.tmp''" s2 p] by (auto simp: host_dir_iff tmp_state_def store_ok_def)
    have mt: "map_of ?es ?t = Some j" using t2 by (simp add: tmp_state_def map_of_append map_add_def)
    have mn: "map_of ?es (path_Base p) = map_of es (path_Base p)"
      by (simp add: map_of_append map_add_def split: option.splits)
    have old: "case map_of ?es (path_Base p) of None \<Rightarrow> True
      | Some k \<Rightarrow> k \<noteq> j \<and> (case inode_node (inodes s2 ! k) of DirF _ \<Rightarrow> False | _ \<Rightarrow> True)"
      using st t2 unfolding mn by (auto simp: store_ok_def tmp_state_def split: option.splits)
    obtain s3 es' where r: "rename_in i ?es ?t i ?es (path_Base p) s2 = (Inr (), s3)" "host s3 = host s2"
      "inode_node (inodes s3 ! i) = DirF es'" "map_of es' (path_Base p) = Some j" "inode_node (inodes s3 ! j) = RegF c"
      using rename_in_over [of i s2 ?es ?t j c "path_Base p"] t2 st mt old
      by (auto simp: tmp_state_def store_ok_def)
    have "retryEINTR (sys ?op) s1 = Ret (Inr (), s3)"
      using 2(1) hd r(1) by (simp add: raw_rename_def base)
    moreover have "host_dir s3 p = Inr (i, es')"
      using hd(1) r(2,3) by (simp add: host_dir_iff)
    then have "file_bytes s3 p = Some c" using r(4,5) by (simp add: file_bytes_def)
    ultimately show thesis using that(2) by blast
  qed
qed

text \<open>
  Whatever fails, the file under the name is the old one or the complete new one, and the
  result says which.
\<close>

lemma WriteFile_atomic:
  assumes st: "store_ok s (cf_filename cf) i es"
  obtains er s' where "WriteFile J cf s = Ret (er, s')"
    "er \<noteq> None \<longrightarrow> file_bytes s' (cf_filename cf) = file_bytes s (cf_filename cf)"
    "er = None \<longrightarrow> Validate cf = None \<and>
       (\<exists>js. MarshalIndent J cf = Some js \<and> file_bytes s' (cf_filename cf) = Some (js @ [10]))"
    "quiet s \<and> Validate cf = None \<and> map_of es (path_Base (cf_filename cf) @ ''.tmp'') = None \<and>
       (\<exists>js. MarshalIndent J cf = Some js \<and> length (js @ [10]) \<le> maxbytes) \<longrightarrow> er = None"
proof -
  let ?p = "cf_filename cf"
  let ?fl = "O_WRONLY OR O_CREAT OR O_EXCL OR O_CLOEXEC" and ?j = "length (inodes s)"
  show thesis
  proof (cases "Validate cf")
    case (Some e)
    then show thesis using that [of "Some e" s] by (simp add: WriteFile_def)
  next
    case v: None
    from tmp_create [OF st, where m = "0x100"] show thesis
    proof cases
      case (1 e s1)
      then show thesis
        using that [of "Some (Errno e)" s1] v same_files_bytes [OF 1(2)] by (auto simp: WriteFile_def Let_def)
    next
      case (2 fd s1)
      show thesis
      proof (cases "MarshalIndent J cf")
        case None
        then show thesis
          using that [of "Some (ErrMsg ''json'')" s1] v 2(1) tmp_state_bytes [OF st 2(2)]
          by (simp add: WriteFile_def Let_def)
      next
        case (Some js)
        have d: "js @ [10] \<noteq> []" by simp
        obtain er c s2 where w: "File_Write fd (js @ [10]) s1 = (er, s2)" "tmp_state s ?p i es ?j c s2"
          "er = None \<longrightarrow> c = js @ [10]" "quiet s1 \<and> length (js @ [10]) \<le> maxbytes \<longrightarrow> er = None \<and> quiet s2"
          "get_fd s2 fd \<noteq> None"
          by (rule tmp_write [OF 2(2-4) d])
        show thesis
        proof (cases er)
          case (Some e)
          then show thesis
            using that [of "Some e" s2] v 2(1,5) \<open>MarshalIndent J cf = Some js\<close> w tmp_state_bytes [OF st w(2)]
            by (auto simp: WriteFile_def Let_def)
        next
          case er: None
          obtain cr s3 where cl: "Close fd (Sync s2) = (cr, s3)" by (cases "Close fd (Sync s2)")
          have "same_files s2 s3" using Sync_same [of s2] Close_same [OF cl] same_files_trans by blast
          then have t3: "tmp_state s ?p i es ?j c s3" using tmp_state_same [OF w(2)] by blast
          have q3: "cr = Inr () \<and> quiet s3" if "quiet s2"
          proof -
            obtain g s2' where g: "next_fault (interrupted s2) = (g, s2')" by (cases "next_fault (interrupted s2)")
            have "quiet (Sync s2)" using next_fault_interrupted(1) [OF g] that g by (auto simp: Sync_def)
            moreover have "get_fd (Sync s2) fd \<noteq> None" using w(5) Sync_same [of s2] by (auto simp: get_fd_def split: if_splits)
            ultimately show ?thesis
              using cl by (auto simp: Close_def next_fault_def split: option.splits list.splits prod.splits)
          qed
          show thesis
          proof (cases cr)
            case (Inl e)
            then show thesis
              using that [of "Some (Errno e)" s3] v 2(1,5) \<open>MarshalIndent J cf = Some js\<close> w er cl q3
                tmp_state_bytes [OF st t3]
              by (auto simp: WriteFile_def Let_def)
          next
            case (Inr u)
            from tmp_rename [OF st t3] show thesis
            proof cases
              case (1 e s4)
              then show thesis
                using that [of "Some (Errno e)" s4] v 2(1,5) \<open>MarshalIndent J cf = Some js\<close> w er cl Inr q3
                by (auto simp: WriteFile_def Let_def)
            next
              case (2 s4)
              then show thesis
                using that [of None s4] v \<open>retryEINTR (sys (raw_open (?p @ ''.tmp'') ?fl 0x100)) s = Ret (Inr fd, s1)\<close>
                  \<open>MarshalIndent J cf = Some js\<close> w er cl Inr
                by (simp add: WriteFile_def Let_def)
            qed
          qed
        qed
      qed
    qed
  qed
qed

text \<open>A file that holds the marshalled form of a valid configuration loads as that configuration.\<close>

lemma Load_spec:
  assumes "json_ok J" "conf_ascii cf" "Validate cf = None" "MarshalIndent J cf = Some js"
    and "quiet s" "file_bytes s (cf_filename cf) = Some (js @ [10])" "name_ok (path_Base (cf_filename cf))"
  shows "\<exists>s'. Load J (cf_filename cf) s = Ret (Inr cf, s') \<and> same_files s s'"
proof -
  obtain s' where r: "os_ReadFile (cf_filename cf) s = Ret (Inr (js @ [10]), s')" "same_files s s'"
    using os_ReadFile_spec [OF assms(5-7)] by blast
  have u: "Unmarshal J (js @ [10]) (empty_conf (cf_filename cf)) = Some cf"
    using assms(1,2,4) by (auto simp: json_ok_def split: option.splits)
  show ?thesis using r u assms(3) by (simp add: Load_def)
qed

end
