(* ===== verification/VolumeLife.thy ===== *)
theory VolumeLife
  imports ConfigStore
begin

text \<open>
  From \<open>Create\<close> to \<open>gcf_init\<close>: the configuration file that a creation leaves on disk opens
  with the password, or with the hash that the creation returned.
\<close>

section \<open>The configuration that is written\<close>

definition created_conf :: "CreateArgs \<Rightarrow> ScryptKDF \<Rightarrow> bytes \<Rightarrow> ConfFile" where
  "created_conf a kdf c =
     (create_flags a ((empty_conf (Filename a))\<lparr>Creator := ca_Creator a, cf_Version := CurrentVersion\<rparr>))
       \<lparr>ScryptObject := kdf, EncryptedKey := c\<rparr>"

text \<open>The encodings of the configurations that a creation may write fit into a file.\<close>

definition json_fits :: "json \<Rightarrow> CreateArgs \<Rightarrow> bool" where
  "json_fits J a \<longleftrightarrow> (\<forall>kdf c. length c \<le> 4136 \<and> length (Salt kdf) = 32 \<and> 0 \<le> N kdf \<and> N kdf \<le> 2 ^ 52 \<and>
     R kdf = 8 \<and> P kdf = 1 \<and> KDF_KeyLen kdf = 32 \<longrightarrow>
     (case MarshalIndent J (created_conf a kdf c) of None \<Rightarrow> True | Some js \<Rightarrow> length js < maxbytes))"

lemma create_flags_Creator [simp]: "Creator (create_flags a cf) = Creator cf"
  "FIDO2 (create_flags a cf) = FIDO2 cf"
  by (simp_all add: create_flags_def Let_def)

lemma created_fields [simp]:
  "Creator (created_conf a kdf c) = ca_Creator a" "cf_filename (created_conf a kdf c) = Filename a"
  "EncryptedKey (created_conf a kdf c) = c" "ScryptObject (created_conf a kdf c) = kdf"
  "FIDO2 (created_conf a kdf c) = None"
  by (simp_all add: created_conf_def create_flags_fields empty_conf_def)

lemma created_flag:
  "IsFeatureFlagSet (created_conf a kdf c) k = IsFeatureFlagSet (create_flags a (empty_conf (Filename a))) k"
  by (simp add: created_conf_def create_flags_set empty_conf_def)

lemma known_ascii: "isFeatureFlagKnown f \<Longrightarrow> ascii f"
  by (auto simp: isFeatureFlagKnown_def all_flags_def ascii_def)

lemma created_ascii:
  assumes "ascii (ca_Creator a)"
  shows "conf_ascii (created_conf a kdf c)"
proof -
  have "list_all isFeatureFlagKnown (FeatureFlags (created_conf a kdf c))"
    using create_flags_fields(4) [of "(empty_conf (Filename a))\<lparr>Creator := ca_Creator a, cf_Version := CurrentVersion\<rparr>" a]
    by (simp add: created_conf_def empty_conf_def)
  then show ?thesis using assms known_ascii by (auto simp: conf_ascii_def list_all_iff)
qed

lemma Validate_key [simp]: "Validate (cf\<lparr>EncryptedKey := c\<rparr>) = Validate cf"
proof -
  have "IsFeatureFlagSet (cf\<lparr>EncryptedKey := c\<rparr>) = IsFeatureFlagSet cf" by (simp add: fun_eq_iff)
  then have "Validate_content (cf\<lparr>EncryptedKey := c\<rparr>) = Validate_content cf"
    "Validate_names (cf\<lparr>EncryptedKey := c\<rparr>) = Validate_names cf"
    by (simp_all add: Validate_content_def Validate_names_def Let_def)
  then show ?thesis by (simp add: Validate_def cong: option.case_cong)
qed

lemma created_valid:
  assumes "validateParams kdf = None" "\<not> (XChaCha20Poly1305 a \<and> AESSIV a)"
  shows "Validate (created_conf a kdf c) = None"
proof -
  let ?cf0 = "(empty_conf (Filename a))\<lparr>Creator := ca_Creator a, cf_Version := CurrentVersion\<rparr>"
  have "Validate ((create_flags a ?cf0)\<lparr>ScryptObject := kdf\<rparr>) = None"
    using Validate_create [of ?cf0 kdf a] assms by (simp add: empty_conf_def)
  then show ?thesis unfolding created_conf_def by simp
qed

section \<open>Creating\<close>

text \<open>
  Without failures, and with no left-over temporary file, \<open>Create\<close> succeeds. It leaves an
  encoded configuration on disk whose key the password, or the returned hash, unlocks.
\<close>

lemma Create_spec:
  assumes P: "prims_ok Pr" "scrypt_ok Pr" and J: "json_ok J" "json_fits J a"
    and st: "store_ok s (Filename a) i es" "map_of es (path_Base (Filename a) @ ''.tmp'') = None" and q: "quiet s"
    and a: "ascii (ca_Creator a)" "\<not> (XChaCha20Poly1305 a \<and> AESSIV a)" "Masterkey a = None"
    and logN: "ca_LogN a \<le> 0 \<or> 10 \<le> ca_LogN a \<and> ca_LogN a \<le> 52"
    and r: "nonces_ok 16 1 (snd (RandBytes 32 (snd (RandBytes 32 (snd (RandBytes 32 r))))))"
    and b: "buff = [] \<or> 32 \<le> length buff"
  obtains h kdf c js s' r' where
    "Create Pr J a buff s r = Ret ((None, if buff = [] then [] else h @ drop 32 buff), s', r')"
    "length h = 32" "file_bytes s' (Filename a) = Some (js @ [10])"
    "MarshalIndent J (created_conf a kdf c) = Some js" "validateParams kdf = None"
    "DecryptMasterKey Pr (created_conf a kdf c) (Password a) False = Ret (Inr (fst (RandBytes 32 (snd (RandBytes 32 r)))), [])"
    "DecryptMasterKeyWithScryptHash Pr (created_conf a kdf c) h = Ret (Inr (fst (RandBytes 32 (snd (RandBytes 32 r)))))"
    "N kdf = 2 ^ (if ca_LogN a \<le> 0 then 16 else nat (ca_LogN a))"
proof -
  let ?cf0 = "(empty_conf (Filename a))\<lparr>Creator := ca_Creator a, cf_Version := CurrentVersion\<rparr>"
  define key r2 where kr: "key = fst (RandBytes 32 (snd (RandBytes 32 r)))" "r2 = snd (RandBytes 32 (snd (RandBytes 32 r)))"
  obtain kdf0 r1 where kdf0: "NewScryptKDF (ca_LogN a) r = (kdf0, r1)" by (cases "NewScryptKDF (ca_LogN a) r")
  have r1: "r1 = snd (RandBytes 32 r)" using NewScryptKDF_fields(5) [OF kdf0] .
  have v0: "validateParams kdf0 = None" using NewScryptKDF_valid [OF kdf0] logN by auto
  define cf where "cf = (create_flags a ?cf0)\<lparr>ScryptObject := kdf0\<rparr>"
  have V0: "Validate cf = None"
    using Validate_create [of ?cf0 kdf0 a] v0 a(2) by (simp add: cf_def empty_conf_def)
  have hk: "IsFeatureFlagSet cf FlagHKDF" by (simp add: cf_def create_flags_set empty_conf_def)
  have "length key = 32" by (simp add: kr)
  then have key: "key \<noteq> []" "length key \<le> 4096" by auto
  have nn: "nonces_ok (if IsFeatureFlagSet cf FlagHKDF then 16 else 12) 1 (snd (RandBytes 32 r2))"
    using r hk by (simp only: kr if_True)
  obtain h kdf c r' where e: "EncryptKey Pr cf key (Password a) (ca_LogN a) (length buff > 0) r2
      = Ret (if length buff > 0 then h else [], cf\<lparr>ScryptObject := kdf, EncryptedKey := c\<rparr>, r')"
    "validateParams kdf = None" "length h = 32" "length c \<le> 4136"
    "DecryptMasterKey Pr (cf\<lparr>ScryptObject := kdf, EncryptedKey := c\<rparr>) (Password a) False = Ret (Inr key, if False then h else [])"
    "DecryptMasterKeyWithScryptHash Pr (cf\<lparr>ScryptObject := kdf, EncryptedKey := c\<rparr>) h = Ret (Inr key)"
    "NewScryptKDF (ca_LogN a) r2 = (kdf, snd (RandBytes 32 r2))"
    by (rule Encrypt_Decrypt_key [OF P key logN nn])
  have cc: "cf\<lparr>ScryptObject := kdf, EncryptedKey := c\<rparr> = created_conf a kdf c"
    by (simp add: cf_def created_conf_def)
  have V: "Validate (created_conf a kdf c) = None" by (rule created_valid [OF e(2) a(2)])
  have asc: "conf_ascii (created_conf a kdf c)" by (rule created_ascii [OF a(1)])
  obtain js where js: "MarshalIndent J (created_conf a kdf c) = Some js"
    using J(1) asc unfolding json_ok_def by (fastforce split: option.splits)
  note kf = NewScryptKDF_fields [OF e(7)]
  have Nk: "N kdf = 2 ^ (if ca_LogN a \<le> 0 then 16 else nat (ca_LogN a))"
    using NewScryptKDF_N [OF e(7)] logN by auto
  moreover have "(2::int) ^ k \<le> 2 ^ 52" if "k \<le> 52" for k by (rule power_increasing [OF that]) simp
  ultimately have Nb: "0 \<le> N kdf" "N kdf \<le> 2 ^ 52" using logN by auto
  have fits: "length js < maxbytes"
    using J(2) [unfolded json_fits_def, rule_format, of c kdf] js e(4) kf(1-4) Nb by simp
  have fn: "cf_filename (created_conf a kdf c) = Filename a" by simp
  obtain er s' where w: "WriteFile J (created_conf a kdf c) s = Ret (er, s')"
    "er \<noteq> None \<longrightarrow> file_bytes s' (cf_filename (created_conf a kdf c)) = file_bytes s (cf_filename (created_conf a kdf c))"
    "er = None \<longrightarrow> Validate (created_conf a kdf c) = None \<and>
       (\<exists>js. MarshalIndent J (created_conf a kdf c) = Some js \<and> file_bytes s' (cf_filename (created_conf a kdf c)) = Some (js @ [10]))"
    "quiet s \<and> Validate (created_conf a kdf c) = None \<and> map_of es (path_Base (cf_filename (created_conf a kdf c)) @ ''.tmp'') = None \<and>
       (\<exists>js. MarshalIndent J (created_conf a kdf c) = Some js \<and> length (js @ [10]) \<le> maxbytes) \<longrightarrow> er = None"
    by (rule WriteFile_atomic [OF st(1) [folded fn]])
  have er: "er = None" using w(4) q V st(2) js fits by (simp add: Suc_le_eq)
  have fb: "file_bytes s' (Filename a) = Some (js @ [10])" using w(3) er js by simp
  have rh: "return_hash (if 0 < length buff then h else []) buff = Ret (if buff = [] then [] else h @ drop 32 buff)"
    using b e(3) by (auto simp: return_hash_def)
  have "Create Pr J a buff s r = Ret ((None, if buff = [] then [] else h @ drop 32 buff), s', r')"
    unfolding Create_def Let_def kdf0 prod.case cf_def [symmetric] V0 option.case a(3)
    using e(1) rh w(1) er by (simp add: KeyLen_def r1 kr cc case_prod_beta)
  then show thesis
    by (rule that) (use e js fb cc Nk in \<open>simp_all add: kr\<close>)
qed

section \<open>Opening\<close>

text \<open>A volume opens from a configuration file whose key unlocks to 32 bytes.\<close>

lemma register_new:
  assumes "prims_ok Pr" "length key = 32" "Validate cf = None"
  obtains sid w' v where "registerNewVolume Pr m root key cf w = Ret (sid, w')" "0 \<le> sid"
    "volume_of w sid = None" "volume_of w' sid = Some v" "be_ok (contentEnc v)" "rootCipherDir v = root"
    "plainTextNames v = IsFeatureFlagSet cf FlagPlaintextNames" "fileHandles v = []"
    "\<forall>j. j \<noteq> sid \<longrightarrow> volume_of w' j = volume_of w j"
proof -
  obtain b where b: "ContentEncryption cf = Inr b"
    using assms(3) by (cases "ContentEncryption cf") (auto simp: ContentEncryption_def split: if_splits)
  obtain v where v: "newVolume Pr m root key cf b = Ret v" "be_ok (contentEnc v)" "plainBS (contentEnc v) = 4096"
    "rootCipherDir v = root" "plainTextNames v = IsFeatureFlagSet cf FlagPlaintextNames"
    "emeCipher (nameTransform v) \<noteq> None" "fileHandles v = []" "volumeID v = 0"
    "AEADBackend (cryptoCore (contentEnc v)) = choose_backend m b"
    by (rule newVolume_spec [OF assms(1,2) b])
  obtain sid w' where s: "storeNewVolume v w = Ret (sid, w')" "0 \<le> sid" "volume_of w sid = None"
    "\<And>j. 0 \<le> j \<Longrightarrow> j < sid \<Longrightarrow> volume_of w j \<noteq> None"
    "\<And>j. volume_of w' j = (if j = sid then Some v else volume_of w j)" "w_os w' = w_os w"
    using storeNewVolume_spec [of v w thesis] by metis
  have "registerNewVolume Pr m root key cf w = Ret (sid, w')"
    using b v(1) s(1) by (simp add: registerNewVolume_def bindw_def lift_go_def)
  then show thesis
    by (rule that) (use s v in simp_all)
qed

lemma GetMasterkey_simps:
  "GetMasterkey Pr cf pw [] [] = go_bind (DecryptMasterKey Pr cf pw False) (\<lambda>(r, h). go_bind (return_hash h []) (\<lambda>b. Ret (r, b)))"
  "h \<noteq> [] \<Longrightarrow> GetMasterkey Pr cf pw h buff = go_bind (DecryptMasterKeyWithScryptHash Pr cf h) (\<lambda>r. Ret (r, buff))"
  by (simp_all add: GetMasterkey_def)

text \<open>
  A volume opens when its configuration file loads and the secret given unlocks a key of 32
  bytes; the password is wiped.
\<close>

lemma gcf_init_spec:
  assumes P: "prims_ok Pr" and l: "Load J (path_Join root ConfDefaultName) (w_os w) = Ret (Inr cf, s1)" "Validate cf = None"
    and g: "GetMasterkey Pr cf pw gh buff = Ret (Inr key, buff')" "length key = 32"
  obtains sid w' v where "gcf_init Pr J m root pw gh buff w = Ret ((sid, wipe pw, buff'), w')" "0 \<le> sid"
    "volume_of w sid = None" "volume_of w' sid = Some v" "be_ok (contentEnc v)" "rootCipherDir v = root"
    "plainTextNames v = IsFeatureFlagSet cf FlagPlaintextNames" "fileHandles v = []"
proof -
  define w1 where "w1 = w\<lparr>w_os := s1\<rparr>"
  obtain sid w' v where r: "registerNewVolume Pr m root key cf w1 = Ret (sid, w')" "0 \<le> sid"
    "volume_of w1 sid = None" "volume_of w' sid = Some v" "be_ok (contentEnc v)" "rootCipherDir v = root"
    "plainTextNames v = IsFeatureFlagSet cf FlagPlaintextNames" "fileHandles v = []"
    "\<forall>j. j \<noteq> sid \<longrightarrow> volume_of w' j = volume_of w1 j"
    by (rule register_new [OF P g(2) l(2), where root = root and m = m and w = w1])
  have "gcf_init Pr J m root pw gh buff w = Ret ((sid, wipe pw, buff'), w')"
    using l(1) g(1) r(1) by (simp add: gcf_init_def bindw_def lift_os_def lift_go_def w1_def)
  then show thesis
    by (rule that) (use r in \<open>simp_all add: w1_def\<close>)
qed

section \<open>Changing the password\<close>

lemma LogN_power:
  assumes "N k = 2 ^ j" "1 \<le> j" "j < 63"
  shows "LogN k = int j"
proof -
  have "(2::int) ^ (2 * i - 1) \<le> N k * N k \<longleftrightarrow> i \<le> j" if "1 \<le> i" for i
  proof -
    have "N k * N k = 2 ^ (2 * j)" by (simp add: assms(1) power_add mult_2)
    then have "(2::int) ^ (2 * i - 1) \<le> N k * N k \<longleftrightarrow> 2 * i - 1 \<le> 2 * j" by simp
    also have "\<dots> \<longleftrightarrow> i \<le> j" using that by auto
    finally show ?thesis .
  qed
  then have "filter (\<lambda>i. (2::int) ^ (2 * i - 1) \<le> N k * N k) [1..<64] = filter (\<lambda>i. i \<le> j) [1..<64]"
    by (intro filter_cong) auto
  also have "\<dots> = filter (\<lambda>i. i \<le> j) ([1..<Suc j] @ [Suc j..<64])"
    using upt_add_eq_append [of 1 "Suc j" "63 - j"] assms(2,3) by (simp del: upt_Suc)
  also have "\<dots> = [1..<Suc j]"
    by (auto simp: filter_id_conv filter_empty_conv)
  finally have "length (filter (\<lambda>i. (2::int) ^ (2 * i - 1) \<le> N k * N k) [1..<64]) = length [1..<Suc j]"
    by (rule arg_cong)
  then show ?thesis by (simp only: LogN_def length_upt diff_Suc_1)
qed

text \<open>
  The password of a volume is changed by encrypting the same master key again: the new
  configuration file unlocks it with the new password.
\<close>

lemma change_password_spec:
  assumes P: "prims_ok Pr" "scrypt_ok Pr" and fn: "p = path_Join root ConfDefaultName"
    and l: "Load J p (w_os w) = Ret (Inr cf, s1)" "Validate cf = None" "cf_filename cf = p"
    and g: "GetMasterkey Pr cf old gh [] = Ret (Inr key, [])" "length key = 32"
    and st: "store_ok s1 p i es"
    and N: "N (ScryptObject cf) = 2 ^ j" "10 \<le> j" "j \<le> 52"
    and r: "nonces_ok (if IsFeatureFlagSet cf FlagHKDF then 16 else 12) 1 (snd (RandBytes 32 (w_rng w)))"
  obtains ok w' kdf c where
    "gcf_change_password Pr J root old gh new [] w = Ret ((ok, wipe old, wipe gh, wipe new, []), w')"
    "\<not> ok \<longrightarrow> file_bytes (w_os w') p = file_bytes s1 p"
    "ok \<longrightarrow> (\<exists>js. MarshalIndent J (cf\<lparr>ScryptObject := kdf, EncryptedKey := c\<rparr>) = Some js \<and>
       file_bytes (w_os w') p = Some (js @ [10]))"
    "GetMasterkey Pr (cf\<lparr>ScryptObject := kdf, EncryptedKey := c\<rparr>) new [] [] = Ret (Inr key, [])"
proof -
  have logN: "LogN (ScryptObject cf) \<le> 0 \<or> 10 \<le> LogN (ScryptObject cf) \<and> LogN (ScryptObject cf) \<le> 52"
    using LogN_power [OF N(1)] N by simp
  have key: "key \<noteq> []" "length key \<le> 4096" using g(2) by auto
  obtain h kdf c r' where e: "EncryptKey Pr cf key new (LogN (ScryptObject cf)) False (w_rng w)
      = Ret (if False then h else [], cf\<lparr>ScryptObject := kdf, EncryptedKey := c\<rparr>, r')"
    "validateParams kdf = None" "length h = 32" "length c \<le> 4136"
    "DecryptMasterKey Pr (cf\<lparr>ScryptObject := kdf, EncryptedKey := c\<rparr>) new False = Ret (Inr key, if False then h else [])"
    "DecryptMasterKeyWithScryptHash Pr (cf\<lparr>ScryptObject := kdf, EncryptedKey := c\<rparr>) h = Ret (Inr key)"
    "NewScryptKDF (LogN (ScryptObject cf)) (w_rng w) = (kdf, snd (RandBytes 32 (w_rng w)))"
    by (rule Encrypt_Decrypt_key [OF P key logN r])
  let ?cf = "cf\<lparr>ScryptObject := kdf, EncryptedKey := c\<rparr>"
  have fn': "cf_filename ?cf = p" using l(3) by simp
  obtain er s' where wf: "WriteFile J ?cf s1 = Ret (er, s')"
    "er \<noteq> None \<longrightarrow> file_bytes s' (cf_filename ?cf) = file_bytes s1 (cf_filename ?cf)"
    "er = None \<longrightarrow> Validate ?cf = None \<and>
       (\<exists>js. MarshalIndent J ?cf = Some js \<and> file_bytes s' (cf_filename ?cf) = Some (js @ [10]))"
    "quiet s1 \<and> Validate ?cf = None \<and> map_of es (path_Base (cf_filename ?cf) @ ''.tmp'') = None \<and>
       (\<exists>js. MarshalIndent J ?cf = Some js \<and> length (js @ [10]) \<le> maxbytes) \<longrightarrow> er = None"
    by (rule WriteFile_atomic [OF st [folded fn']])
  have "gcf_change_password Pr J root old gh new [] w
      = Ret ((er = None, wipe old, wipe gh, wipe new, []), w\<lparr>w_os := s1, w_rng := r'\<rparr>\<lparr>w_os := s'\<rparr>)"
    using l(1) g(1) e(1) wf(1) fn
    by (simp add: gcf_change_password_def bindw_def lift_os_def lift_go_def lift_rng_def return_hash_def)
  then show thesis
    by (rule that [of _ _ c kdf]) (use wf(2,3) fn' e(5) in \<open>simp_all add: GetMasterkey_simps return_hash_def\<close>)
qed

end
