(* ===== verification/ConfigClaims.thy ===== *)
theory ConfigClaims
  imports VolumeLife Toy
begin

text \<open>
  The properties of the configuration file and of the life of a volume: creating, opening,
  changing the password, and what happens with damaged configurations.
\<close>

section \<open>A concrete volume\<close>

definition toy_platform :: platform where
  "toy_platform = \<lparr>GOARCH = ''amd64'', GOOS = ''linux'', x86_HasAES = True, x86_HasPCLMULQDQ = True,
     arm64_HasAES = False, arm64_HasPMULL = False, s390x_HasAES = False, s390x_HasAESCBC = False,
     s390x_HasAESCTR = False, s390x_HasGHASH = False, s390x_HasAESGCM = False\<rparr>"

definition toy_args :: CreateArgs where
  "toy_args = create_args ''/v'' [1, 2] False False 0 ''me''"

lemma toy_args_simps [simp]:
  "ca_Creator toy_args = ''me''" "XChaCha20Poly1305 toy_args = False" "Masterkey toy_args = None"
  "ca_LogN toy_args = 0" "Password toy_args = [1, 2]" "PlaintextNames toy_args = False"
  by (simp_all add: toy_args_def create_args_def)

lemma toy_args_file: "Filename toy_args = ''/v/gocryptfs.conf''"
  by code_simp

lemma toy_scrypt_ok: "scrypt_ok toy_prims"
  by (simp add: scrypt_ok_def toy_scrypt)

definition toy_kdf :: ScryptKDF where
  "toy_kdf = \<lparr>Salt = zeros 32, N = 65536, R = 8, P = 1, KDF_KeyLen = 32\<rparr>"

lemma toy_kdf_valid: "validateParams toy_kdf = None"
  by (simp add: toy_kdf_def validateParams_def scryptMinLogN_def scryptMinR_def scryptMinP_def scryptMinSaltLen_def KeyLen_def)

lemma toy_conf_valid: "Validate (created_conf toy_args toy_kdf []) = None"
  by (rule created_valid [OF toy_kdf_valid]) simp

lemma toy_flags: "FeatureFlags (created_conf toy_args kdf c)
  = [''HKDF'', ''GCMIV128'', ''DirIV'', ''EMENames'', ''LongNames'', ''Raw64'']"
  by code_simp

lemma toy_json_fits: "json_fits toy_json toy_args"
proof -
  have "length js < maxbytes"
    if "length c \<le> 4136" "length (Salt kdf) = 32" "0 \<le> N kdf" "N kdf \<le> 2 ^ 52" "R kdf = 8" "P kdf = 1" "KDF_KeyLen kdf = 32"
      "MarshalIndent toy_json (created_conf toy_args kdf c) = Some js" for kdf c js
  proof -
    have v: "unat (cf_Version (created_conf toy_args kdf c)) \<le> 2 ^ 16" using unsigned_less [of "cf_Version (created_conf toy_args kdf c)", where ?'a = nat] by simp
    have n: "nat (abs (N kdf)) \<le> 2 ^ 52" using that(3,4) by (simp add: nat_le_iff)
    have "length js \<le> 2 * 2 + 1 + (2 * 4136 + 1) + 65 + (2 ^ 52 + 2) + 10 + 3 + 34 + (2 ^ 16 + 1) + 7 + 100 + 1"
      using that(1,2,5-8) v n by (auto simp: toy_json_def toy_flags)
    then show ?thesis by (simp add: maxbytes_def)
  qed
  then show ?thesis by (auto simp: json_fits_def split: option.splits)
qed

lemma toy_store: "store_ok (toy_os []) ''/v/gocryptfs.conf'' 1 [(''a'', 0)]"
  by code_simp

section \<open>Creating and opening\<close>

text \<open>C5: A configuration file that \<open>Create\<close> wrote opens. On a system without failures \<open>Create\<close>
  succeeds, and as long as the file stays as it is, \<open>gcf_init\<close> opens a volume with the
  password, or with the hash that \<open>Create\<close> returned, at a fresh number and with a usable
  cipher; the password is wiped in the process.\<close>

theorem create_then_init:
  assumes P: "prims_ok Pr" "scrypt_ok Pr" and J: "json_ok J" "json_fits J a"
    and fn: "Filename a = path_Join root ConfDefaultName" "name_ok (path_Base (Filename a))"
    and st: "store_ok s (Filename a) i es" "map_of es (path_Base (Filename a) @ ''.tmp'') = None" "quiet s"
    and a: "ascii (ca_Creator a)" "\<not> (XChaCha20Poly1305 a \<and> AESSIV a)" "Masterkey a = None"
    and logN: "ca_LogN a \<le> 0 \<or> 10 \<le> ca_LogN a \<and> ca_LogN a \<le> 52"
    and r: "nonces_ok 16 1 (snd (RandBytes 32 (snd (RandBytes 32 (snd (RandBytes 32 r))))))"
    and b: "buff = [] \<or> 32 \<le> length buff"
  shows "\<exists>h s' r'. Create Pr J a buff s r = Ret ((None, if buff = [] then [] else h @ drop 32 buff), s', r') \<and> length h = 32 \<and>
    (\<forall>w gh pw. quiet (w_os w) \<and> file_bytes (w_os w) (Filename a) = file_bytes s' (Filename a) \<and>
        (gh = [] \<and> pw = Password a \<or> gh = h) \<longrightarrow>
      (\<exists>sid v w'. gcf_init Pr J m root pw gh [] w = Ret ((sid, wipe pw, []), w') \<and> 0 \<le> sid \<and> volume_of w sid = None \<and>
         volume_of w' sid = Some v \<and> be_ok (contentEnc v) \<and> plainTextNames v = PlaintextNames a))"
proof -
  let ?key = "fst (RandBytes 32 (snd (RandBytes 32 r)))"
  obtain h kdf c js s' r' where C: "Create Pr J a buff s r = Ret ((None, if buff = [] then [] else h @ drop 32 buff), s', r')"
    "length h = 32" "file_bytes s' (Filename a) = Some (js @ [10])"
    "MarshalIndent J (created_conf a kdf c) = Some js" "validateParams kdf = None"
    "DecryptMasterKey Pr (created_conf a kdf c) (Password a) False = Ret (Inr ?key, [])"
    "DecryptMasterKeyWithScryptHash Pr (created_conf a kdf c) h = Ret (Inr ?key)"
    "N kdf = 2 ^ (if ca_LogN a \<le> 0 then 16 else nat (ca_LogN a))"
    by (rule Create_spec [OF P J st a logN r b])
  let ?cf = "created_conf a kdf c"
  have V: "Validate ?cf = None" by (rule created_valid [OF C(5) a(2)])
  have "\<exists>sid v w'. gcf_init Pr J m root pw gh [] w = Ret ((sid, wipe pw, []), w') \<and> 0 \<le> sid \<and> volume_of w sid = None \<and>
         volume_of w' sid = Some v \<and> be_ok (contentEnc v) \<and> plainTextNames v = PlaintextNames a"
    if w: "quiet (w_os w)" "file_bytes (w_os w) (Filename a) = file_bytes s' (Filename a)"
      and g: "gh = [] \<and> pw = Password a \<or> gh = h" for w gh pw
  proof -
    have fb: "file_bytes (w_os w) (cf_filename ?cf) = Some (js @ [10])" using w(2) C(3) by simp
    have nm: "name_ok (path_Base (cf_filename ?cf))" using fn(2) by simp
    obtain s1 where l: "Load J (path_Join root ConfDefaultName) (w_os w) = Ret (Inr ?cf, s1)"
      using Load_spec [OF J(1) created_ascii [OF a(1)] V C(4) w(1) fb nm] fn(1) by auto
    have k: "GetMasterkey Pr ?cf pw gh [] = Ret (Inr ?key, [])"
      using g C(2,6,7) by (auto simp: GetMasterkey_def return_hash_def)
    have "length ?key = 32" by simp
    then obtain sid v w' where "gcf_init Pr J m root pw gh [] w = Ret ((sid, wipe pw, []), w')" "0 \<le> sid"
      "volume_of w sid = None" "volume_of w' sid = Some v" "be_ok (contentEnc v)" "rootCipherDir v = root"
      "plainTextNames v = IsFeatureFlagSet ?cf FlagPlaintextNames" "fileHandles v = []"
      by (rule gcf_init_spec [OF P(1) l V k])
    moreover have "IsFeatureFlagSet ?cf FlagPlaintextNames = PlaintextNames a"
      by (simp add: created_flag create_flags_set empty_conf_def)
    ultimately show ?thesis by blast
  qed
  then show ?thesis using C(1,2) by blast
qed

theorem create_then_init_witness:
  "\<exists>(h :: bytes) s' r' sid v w'. Create toy_prims toy_json toy_args [] (toy_os []) toy_rng = Ret ((None, []), s', r') \<and> length h = 32 \<and>
    gcf_init toy_prims toy_json toy_platform ''/v'' [1, 2] [] [] \<lparr>w_os = s'\<lparr>faults := []\<rparr>, w_rng = r', OpenedVolumes = []\<rparr>
      = Ret ((sid, wipe [1, 2], []), w') \<and>
    volume_of w' sid = Some v \<and> be_ok (contentEnc v) \<and> \<not> plainTextNames v"
proof -
  have n: "nonces_ok 16 1 (snd (RandBytes 32 (snd (RandBytes 32 (snd (RandBytes 32 toy_rng))))))" by code_simp
  have f: "Filename toy_args = path_Join ''/v'' ConfDefaultName" "name_ok (path_Base (Filename toy_args))"
    "map_of [(''a'', 0 :: nat)] (path_Base (Filename toy_args) @ ''.tmp'') = None" "ascii (ca_Creator toy_args)"
    by code_simp+
  have st: "store_ok (toy_os []) (Filename toy_args) 1 [(''a'', 0)]" using toy_store by (simp only: toy_args_file)
  have q: "quiet (toy_os [])" by (simp add: toy_os_def)
  have a: "\<not> (XChaCha20Poly1305 toy_args \<and> AESSIV toy_args)" "Masterkey toy_args = None" "ca_LogN toy_args \<le> 0 \<or> 10 \<le> ca_LogN toy_args \<and> ca_LogN toy_args \<le> 52"
    "[] = ([] :: bytes) \<or> 32 \<le> length ([] :: bytes)" by simp_all
  obtain h s' r' where c: "Create toy_prims toy_json toy_args [] (toy_os []) toy_rng
      = Ret ((None, if ([] :: bytes) = [] then [] else h @ drop 32 []), s', r')" "length h = 32"
    and i: "\<forall>w gh pw. quiet (w_os w) \<and> file_bytes (w_os w) (Filename toy_args) = file_bytes s' (Filename toy_args) \<and>
        (gh = [] \<and> pw = Password toy_args \<or> gh = h) \<longrightarrow>
      (\<exists>sid v w'. gcf_init toy_prims toy_json toy_platform ''/v'' pw gh [] w = Ret ((sid, wipe pw, []), w') \<and> 0 \<le> sid \<and> volume_of w sid = None \<and>
         volume_of w' sid = Some v \<and> be_ok (contentEnc v) \<and> plainTextNames v = PlaintextNames toy_args)"
    using create_then_init [OF toy_prims_ok toy_scrypt_ok toy_json_ok toy_json_fits f(1,2) st f(3) q f(4) a(1-3) n a(4), of toy_platform]
    by (elim exE conjE) (rule that)
  let ?w = "\<lparr>w_os = s'\<lparr>faults := []\<rparr>, w_rng = r', OpenedVolumes = []\<rparr> :: world"
  have "quiet (w_os ?w)" "file_bytes (w_os ?w) (Filename toy_args) = file_bytes s' (Filename toy_args)"
    using same_files_bytes [of s' "w_os ?w"] by (simp_all add: same_files_def)
  then obtain sid v w' where "gcf_init toy_prims toy_json toy_platform ''/v'' [1, 2] [] [] ?w = Ret ((sid, wipe [1, 2], []), w')"
    "volume_of w' sid = Some v" "be_ok (contentEnc v)" "\<not> plainTextNames v"
    using i [rule_format, of ?w "[]" "[1, 2]"] by auto
  then show ?thesis using c by (intro exI [of _ h] exI conjI) simp_all
qed

text \<open>C6: \<open>WriteFile\<close> replaces the configuration file atomically: whichever system call fails,
  the file holds the complete old or the complete new content, and the result says which.\<close>

theorem config_write_atomic:
  assumes "store_ok s (cf_filename cf) i es"
  shows "\<exists>er s'. WriteFile J cf s = Ret (er, s') \<and>
    (er \<noteq> None \<longrightarrow> file_bytes s' (cf_filename cf) = file_bytes s (cf_filename cf)) \<and>
    (er = None \<longrightarrow> Validate cf = None \<and>
       (\<exists>js. MarshalIndent J cf = Some js \<and> file_bytes s' (cf_filename cf) = Some (js @ [10]))) \<and>
    (quiet s \<and> Validate cf = None \<and> map_of es (path_Base (cf_filename cf) @ ''.tmp'') = None \<and>
       (\<exists>js. MarshalIndent J cf = Some js \<and> length (js @ [10]) \<le> maxbytes) \<longrightarrow> er = None)"
  by (rule WriteFile_atomic [OF assms, where J = J]) blast

theorem config_write_atomic_witness:
  "\<exists>s' js. WriteFile toy_json (created_conf toy_args toy_kdf []) (toy_os []) = Ret (None, s') \<and>
    MarshalIndent toy_json (created_conf toy_args toy_kdf []) = Some js \<and> file_bytes s' ''/v/gocryptfs.conf'' = Some (js @ [10])"
proof -
  let ?cf = "created_conf toy_args toy_kdf []"
  have fn: "cf_filename ?cf = ''/v/gocryptfs.conf''" by (simp add: toy_args_file)
  obtain js where js: "MarshalIndent toy_json ?cf = Some js" by (simp add: toy_json_def)
  have "length (Salt toy_kdf) = 32 \<and> 0 \<le> N toy_kdf \<and> N toy_kdf \<le> 2 ^ 52 \<and> R toy_kdf = 8 \<and> P toy_kdf = 1 \<and> KDF_KeyLen toy_kdf = 32"
    by (simp add: toy_kdf_def)
  then have "length js < maxbytes"
    using toy_json_fits [unfolded json_fits_def, rule_format, of "[]" toy_kdf] js by simp
  then have "\<exists>js. MarshalIndent toy_json ?cf = Some js \<and> length (js @ [10]) \<le> maxbytes" using js by simp
  moreover have "map_of [(''a'', 0 :: nat)] (path_Base (cf_filename ?cf) @ ''.tmp'') = None" unfolding fn by code_simp
  moreover have "quiet (toy_os [])" by (simp add: toy_os_def)
  ultimately obtain s' where "WriteFile toy_json ?cf (toy_os []) = Ret (None, s')"
    "\<exists>js. MarshalIndent toy_json ?cf = Some js \<and> file_bytes s' (cf_filename ?cf) = Some (js @ [10])"
    using config_write_atomic [where J = toy_json, OF toy_store [folded fn]] toy_conf_valid by blast
  then show ?thesis unfolding fn by blast
qed

text \<open>C23: Changing the password encrypts the same master key again. When it reports success the
  configuration file on disk is the one that the new password unlocks, to the same key; when
  it fails, the file is unchanged. All secrets passed in are wiped.\<close>

theorem change_password_keeps_key:
  assumes "prims_ok Pr" "scrypt_ok Pr" "p = path_Join root ConfDefaultName"
    and "Load J p (w_os w) = Ret (Inr cf, s1)" "Validate cf = None" "cf_filename cf = p"
    and "GetMasterkey Pr cf old gh [] = Ret (Inr key, [])" "length key = 32"
    and "store_ok s1 p i es" "N (ScryptObject cf) = 2 ^ j" "10 \<le> j" "j \<le> 52"
    and "nonces_ok (if IsFeatureFlagSet cf FlagHKDF then 16 else 12) 1 (snd (RandBytes 32 (w_rng w)))"
  shows "\<exists>ok w' kdf c. gcf_change_password Pr J root old gh new [] w = Ret ((ok, wipe old, wipe gh, wipe new, []), w') \<and>
    (\<not> ok \<longrightarrow> file_bytes (w_os w') p = file_bytes s1 p) \<and>
    (ok \<longrightarrow> (\<exists>js. MarshalIndent J (cf\<lparr>ScryptObject := kdf, EncryptedKey := c\<rparr>) = Some js \<and>
       file_bytes (w_os w') p = Some (js @ [10]))) \<and>
    GetMasterkey Pr (cf\<lparr>ScryptObject := kdf, EncryptedKey := c\<rparr>) new [] [] = Ret (Inr key, [])"
  by (rule change_password_spec [OF assms, where new = new]) blast

text \<open>The state after the file was written, with the file as inode 0.\<close>

definition toy_conf_os :: "bytes \<Rightarrow> os" where
  "toy_conf_os c = \<lparr>inodes = [\<lparr>inode_node = RegF c, inode_perm = 0x180, inode_mtime = 0\<rparr>,
       \<lparr>inode_node = DirF [(''gocryptfs.conf'', 0)], inode_perm = 0x1C0, inode_mtime = 0\<rparr>],
     fds = [], host = [(''/v'', 1)], now = 1, faults = []\<rparr>"

lemma toy_conf_store: "store_ok (toy_conf_os c) ''/v/gocryptfs.conf'' 1 [(''gocryptfs.conf'', 0)]"
  "file_bytes (toy_conf_os c) ''/v/gocryptfs.conf'' = Some c"
  by code_simp+

text \<open>The configuration of a new volume.\<close>

lemma toy_created:
  obtains kdf c js key where "MarshalIndent toy_json (created_conf toy_args kdf c) = Some js" "validateParams kdf = None"
    "GetMasterkey toy_prims (created_conf toy_args kdf c) [1, 2] [] [] = Ret (Inr key, [])" "length key = 32" "N kdf = 2 ^ 16"
proof -
  have n: "nonces_ok 16 1 (snd (RandBytes 32 (snd (RandBytes 32 (snd (RandBytes 32 toy_rng))))))" by code_simp
  have f: "map_of [(''a'', 0 :: nat)] (path_Base (Filename toy_args) @ ''.tmp'') = None" "ascii (ca_Creator toy_args)"
    by code_simp+
  have a: "\<not> (XChaCha20Poly1305 toy_args \<and> AESSIV toy_args)" "Masterkey toy_args = None" "ca_LogN toy_args \<le> 0 \<or> 10 \<le> ca_LogN toy_args \<and> ca_LogN toy_args \<le> 52"
    "[] = ([] :: bytes) \<or> 32 \<le> length ([] :: bytes)" "quiet (toy_os [])" by (simp_all add: toy_os_def)
  let ?key = "fst (RandBytes 32 (snd (RandBytes 32 toy_rng)))"
  obtain h kdf c js s' r' where C: "Create toy_prims toy_json toy_args [] (toy_os []) toy_rng
      = Ret ((None, if ([] :: bytes) = [] then [] else h @ drop 32 []), s', r')"
    "length h = 32" "file_bytes s' (Filename toy_args) = Some (js @ [10])"
    "MarshalIndent toy_json (created_conf toy_args kdf c) = Some js" "validateParams kdf = None"
    "DecryptMasterKey toy_prims (created_conf toy_args kdf c) (Password toy_args) False = Ret (Inr ?key, [])"
    "DecryptMasterKeyWithScryptHash toy_prims (created_conf toy_args kdf c) h = Ret (Inr ?key)"
    "N kdf = 2 ^ (if ca_LogN toy_args \<le> 0 then 16 else nat (ca_LogN toy_args))"
    by (rule Create_spec [OF toy_prims_ok toy_scrypt_ok toy_json_ok toy_json_fits toy_store [folded toy_args_file]
          f(1) a(5) f(2) a(1-3) n a(4)])
  have "GetMasterkey toy_prims (created_conf toy_args kdf c) [1, 2] [] [] = Ret (Inr ?key, [])"
    using C(6) by (simp add: GetMasterkey_simps return_hash_def)
  then show thesis by (rule that [OF C(4,5)]) (use C(8) in simp_all)
qed

text \<open>A process on this system, where the file is the configuration of a new volume.\<close>

lemma toy_conf_loads:
  obtains w :: world and cf s1 key where "w_rng w = toy_rng" "OpenedVolumes w = []" "cf_filename cf = ''/v/gocryptfs.conf''" "Validate cf = None"
    "Load toy_json ''/v/gocryptfs.conf'' (w_os w) = Ret (Inr cf, s1)" "store_ok s1 ''/v/gocryptfs.conf'' 1 [(''gocryptfs.conf'', 0)]"
    "GetMasterkey toy_prims cf [1, 2] [] [] = Ret (Inr key, [])" "length key = 32" "N (ScryptObject cf) = 2 ^ 16"
proof -
  let ?p = "''/v/gocryptfs.conf''"
  obtain kdf c js key where C: "MarshalIndent toy_json (created_conf toy_args kdf c) = Some js" "validateParams kdf = None"
    "GetMasterkey toy_prims (created_conf toy_args kdf c) [1, 2] [] [] = Ret (Inr key, [])" "length key = 32" "N kdf = 2 ^ 16"
    by (rule toy_created)
  let ?cf = "created_conf toy_args kdf c"
  define w where "w = \<lparr>w_os = toy_conf_os (js @ [10]), w_rng = toy_rng, OpenedVolumes = []\<rparr>"
  have a: "\<not> (XChaCha20Poly1305 toy_args \<and> AESSIV toy_args)" "ascii (ca_Creator toy_args)" "name_ok (path_Base ?p)" by code_simp+
  have q: "quiet (toy_conf_os b)" for b by (simp add: toy_conf_os_def)
  have V: "Validate ?cf = None" by (rule created_valid [OF C(2) a(1)])
  have fn: "cf_filename ?cf = ?p" by (simp add: toy_args_file)
  obtain s1 where l: "Load toy_json ?p (w_os w) = Ret (Inr ?cf, s1)" "same_files (w_os w) s1"
    using Load_spec [OF toy_json_ok created_ascii [OF a(2)] V C(1), unfolded fn, OF q toy_conf_store(2) a(3)]
    by (auto simp: w_def)
  have st: "store_ok s1 ?p 1 [(''gocryptfs.conf'', 0)]"
    using toy_conf_store(1) same_files_store [OF l(2)] by (simp add: w_def)
  show thesis by (rule that [OF _ _ fn V l(1) st C(3,4)]) (use C(5) in \<open>simp_all add: w_def\<close>)
qed

theorem change_password_keeps_key_witness:
  "\<exists>w ok w'. gcf_change_password toy_prims toy_json ''/v'' [1, 2] [] [3] [] w
     = Ret ((ok, wipe [1, 2], wipe [], wipe [3], []), w')"
proof -
  obtain w :: world and cf :: ConfFile and s1 :: os and key where w: "w_rng w = toy_rng" "OpenedVolumes w = []" "cf_filename cf = ''/v/gocryptfs.conf''" "Validate cf = None"
    "Load toy_json ''/v/gocryptfs.conf'' (w_os w) = Ret (Inr cf, s1)" "store_ok s1 ''/v/gocryptfs.conf'' 1 [(''gocryptfs.conf'', 0)]"
    "GetMasterkey toy_prims cf [1, 2] [] [] = Ret (Inr key, [])" "length key = 32" "N (ScryptObject cf) = 2 ^ 16"
    by (rule toy_conf_loads)
  have p: "''/v/gocryptfs.conf'' = path_Join ''/v'' ConfDefaultName" by code_simp
  have "nonces_ok 16 1 (snd (RandBytes 32 toy_rng))" "nonces_ok 12 1 (snd (RandBytes 32 toy_rng))" by code_simp+
  then have r: "nonces_ok (if IsFeatureFlagSet cf FlagHKDF then 16 else 12) 1 (snd (RandBytes 32 (w_rng w)))"
    by (simp only: w(1) split: if_split) simp
  from change_password_keeps_key [OF toy_prims_ok toy_scrypt_ok p w(5,4,3,7,8,6,9) _ _ r, of "[3]"]
  show ?thesis by auto
qed

section \<open>Configurations\<close>

text \<open>Whatever options a volume is created with, the configuration is valid exactly when
  XChaCha20-Poly1305 and AES-SIV are not both asked for.\<close>

theorem created_config_valid:
  assumes "FeatureFlags cf0 = []" "LongNameMax cf0 = 0" "cf_Version cf0 = CurrentVersion" "validateParams kdf = None"
  shows "Validate ((create_flags a cf0)\<lparr>ScryptObject := kdf\<rparr>) = None \<longleftrightarrow> \<not> (XChaCha20Poly1305 a \<and> AESSIV a)"
  by (rule Validate_create [OF assms])

theorem created_config_valid_witness:
  "Validate ((create_flags (toy_args\<lparr>XChaCha20Poly1305 := True, AESSIV := True\<rparr>) ((empty_conf ''f'')\<lparr>cf_Version := CurrentVersion\<rparr>))
     \<lparr>ScryptObject := toy_kdf\<rparr>) \<noteq> None"
proof -
  show ?thesis
    using created_config_valid [OF _ _ _ toy_kdf_valid, of "(empty_conf ''f'')\<lparr>cf_Version := CurrentVersion\<rparr>"
        "toy_args\<lparr>XChaCha20Poly1305 := True, AESSIV := True\<rparr>"]
    by (simp add: empty_conf_def)
qed

text \<open>C30: Every valid configuration with a master key of 32 bytes opens, on every machine: the
  chosen cipher, nonce size and key derivation always fit together. The volume gets a fresh
  number and no other volume changes.\<close>

theorem valid_config_opens:
  assumes "prims_ok Pr" "length key = 32" "Validate cf = None"
  shows "\<exists>sid v w'. registerNewVolume Pr m root key cf w = Ret (sid, w') \<and> 0 \<le> sid \<and> volume_of w sid = None \<and>
    volume_of w' sid = Some v \<and> be_ok (contentEnc v) \<and> rootCipherDir v = root \<and>
    plainTextNames v = IsFeatureFlagSet cf FlagPlaintextNames \<and> fileHandles v = [] \<and>
    (\<forall>j. j \<noteq> sid \<longrightarrow> volume_of w' j = volume_of w j)"
  by (rule register_new [OF assms, of m root w]) blast

theorem valid_config_opens_witness:
  "\<exists>sid w'. registerNewVolume toy_prims toy_platform ''/v'' (zeros 32)
     (created_conf toy_args toy_kdf []) (toy_world (toy_os []) True [])
     = Ret (sid, w') \<and> 0 \<le> sid"
proof -
  show ?thesis
    using valid_config_opens [OF toy_prims_ok _ toy_conf_valid, of "zeros 32" toy_platform "''/v''" "toy_world (toy_os []) True []"] by simp blast
qed

text \<open>Unlocking with a hash of 32 bytes returns: the key, or the error with the exit code for
  a wrong password; it never panics.\<close>

theorem unlock_returns:
  assumes "prims_ok Pr" "length h = 32" "length (EncryptedKey cf) \<le> 2 ^ 37"
  shows "\<exists>r. DecryptMasterKeyWithScryptHash Pr cf h = Ret r \<and>
    (\<forall>e. r = Inl e \<longrightarrow> e = Coded ''Password incorrect.'' exit_PasswordIncorrect)"
  by (rule DecryptMasterKey_hash_total [OF assms]) (auto simp: exit_PasswordIncorrect_def)

theorem unlock_returns_witness:
  "\<exists>r. DecryptMasterKeyWithScryptHash toy_prims ((empty_conf ''f'')\<lparr>EncryptedKey := [1, 2, 3]\<rparr>) (zeros 32) = Ret r"
  using unlock_returns [OF toy_prims_ok, of "zeros 32" "(empty_conf ''f'')\<lparr>EncryptedKey := [1, 2, 3]\<rparr>"] by auto

text \<open>C36: A configuration file with an empty encrypted key unlocks with every hash, to an empty
  master key, and opening the volume then panics instead of reporting an error.\<close>

theorem empty_key_panics:
  assumes "prims_ok Pr" "length h = 32" "EncryptedKey cf = []" "Validate cf = None"
  shows "DecryptMasterKeyWithScryptHash Pr cf h = Ret (Inr []) \<and> \<not> returns (registerNewVolume Pr m root [] cf w)"
proof -
  obtain b where b: "ContentEncryption cf = Inr b"
    using assms(4) by (cases "ContentEncryption cf") (auto simp: ContentEncryption_def split: if_splits)
  have "\<not> returns (New_cryptocore Pr [] (choose_backend m b) (NonceSize (choose_backend m b) * 8) (IsFeatureFlagSet cf FlagHKDF))"
    using New_cryptocore_spec(1) [OF assms(1)] by simp
  then have "\<not> returns (registerNewVolume Pr m root [] cf w)"
    by (simp add: registerNewVolume_def b bindw_def lift_go_def newVolume_def Let_def)
      (auto simp: returns_iff go_bind_eq_Ret)
  then show ?thesis using empty_key_unlocks [OF assms(1-3)] by blast
qed

theorem empty_key_panics_witness:
  "\<not> returns (registerNewVolume toy_prims toy_platform ''/v'' []
     (created_conf toy_args toy_kdf []) (toy_world (toy_os []) True []))"
proof -
  show ?thesis using empty_key_panics [OF toy_prims_ok, of "zeros 32"] toy_conf_valid by simp
qed

text \<open>The cost parameter survives: \<open>LogN\<close> of a new key derivation object is the cost asked
  for, or the default.\<close>

theorem logN_roundtrip:
  assumes "NewScryptKDF logN r = (kdf, r')" "logN < 63"
  shows "LogN kdf = (if logN \<le> 0 then int ScryptDefaultLogN else logN)"
proof -
  have "N kdf = 2 ^ (if logN \<le> 0 then 16 else nat logN)" using NewScryptKDF_N [OF assms(1)] assms(2) by simp
  then show ?thesis using LogN_power [of kdf 16] LogN_power [of kdf "nat logN"] assms(2) by (cases "logN \<le> 0") (simp_all add: ScryptDefaultLogN_def)
qed

theorem logN_roundtrip_witness:
  "LogN (fst (NewScryptKDF 12 toy_rng)) = 12"
  using logN_roundtrip [of 12 toy_rng "fst (NewScryptKDF 12 toy_rng)" "snd (NewScryptKDF 12 toy_rng)"] by simp

end
