(* ===== verification/ReachClaims.thy ===== *)
theory ReachClaims
  imports Reachable ConfigClaims
begin

text \<open>
  The properties of every state that calls of the exported functions can lead to: the open
  volumes are in order, no lock is left behind, and closing files and volumes comes to an end.
\<close>

section \<open>A concrete history\<close>

text \<open>A volume is opened, and in it the root directory as a file.\<close>

lemma toy_open_root:
  "\<exists>d s1 fd s2. Open_dir ''/v'' (toy_conf_os []) = Ret (Inr d, s1) \<and> Openat d ''.'' (mangleOpenFlags 0) 0 s1 = Ret (Inr fd, s2)"
proof -
  define s where "s = (\<lambda>fs. (toy_conf_os [])\<lparr>fds := map Some fs\<rparr>)"
  have "Open_dir ''/v'' (toy_conf_os []) = Ret (Inr 0, s [\<lparr>of_ino = 1, of_pos = 0, of_wr = False\<rparr>])"
    "Openat 0 ''.'' (mangleOpenFlags 0) 0 (s [\<lparr>of_ino = 1, of_pos = 0, of_wr = False\<rparr>])
      = Ret (Inr 1, s [\<lparr>of_ino = 1, of_pos = 0, of_wr = False\<rparr>, \<lparr>of_ino = 1, of_pos = 0, of_wr = False\<rparr>])"
    unfolding s_def by code_simp+
  then show ?thesis by blast
qed

lemma toy_reachable:
  obtains w sid v f where "reachable toy_prims toy_json w" "volume_of w sid = Some v" "fileHandles v = [(0, f)]"
proof -
  obtain w :: world and cf :: ConfFile and s1 :: os and key where w: "w_rng w = toy_rng" "OpenedVolumes w = []" "cf_filename cf = ''/v/gocryptfs.conf''" "Validate cf = None"
    "Load toy_json ''/v/gocryptfs.conf'' (w_os w) = Ret (Inr cf, s1)" "store_ok s1 ''/v/gocryptfs.conf'' 1 [(''gocryptfs.conf'', 0)]"
    "GetMasterkey toy_prims cf [1, 2] [] [] = Ret (Inr key, [])" "length key = 32" "N (ScryptObject cf) = 2 ^ 16"
    by (rule toy_conf_loads)
  have p: "path_Join ''/v'' ConfDefaultName = ''/v/gocryptfs.conf''" by code_simp
  obtain sid w1 v where i: "gcf_init toy_prims toy_json toy_platform ''/v'' [1, 2] [] [] w = Ret ((sid, wipe [1, 2], []), w1)" "0 \<le> sid"
    "volume_of w sid = None" "volume_of w1 sid = Some v" "be_ok (contentEnc v)" "rootCipherDir v = ''/v''"
    "plainTextNames v = IsFeatureFlagSet cf FlagPlaintextNames" "fileHandles v = []"
    by (rule gcf_init_spec [OF toy_prims_ok _ w(4,7,8)]) (use w(5) p in auto)
  define w2 where "w2 = w1\<lparr>w_os := toy_conf_os [], w_rng := toy_rng\<rparr>"
  have "reachable toy_prims toy_json w" using w(2) by (rule reachable.start)
  then have "reachable toy_prims toy_json w1"
    by (rule reachable.call [where c = "Init toy_platform ''/v'' [1, 2] [] []"]) (use i(1) in \<open>simp add: bindw_def ret_def\<close>)
  then have r2: "reachable toy_prims toy_json w2" unfolding w2_def by (rule reachable.outside)
  have v2: "volume_of w2 sid = Some v" using i(4) by (simp add: w2_def volume_of_def)
  obtain d s1 fd s2 where os: "Open_dir ''/v'' (toy_conf_os []) = Ret (Inr d, s1)" "Openat d ''.'' (mangleOpenFlags 0) 0 s1 = Ret (Inr fd, s2)"
    using toy_open_root by blast
  obtain h w3 where o: "gcf_open_read_mode toy_prims sid ''/'' w2 = Ret (h, w3)"
    "volume_of w3 sid = Some (v\<lparr>fileHandles := [(0, \<lparr>file_fd = fd, file_path = ''/'', file_ID = None, fdReaders = 0\<rparr>)]\<rparr>)"
    using v2 i(6,8) os
    by (simp add: gcf_open_read_mode_def with_volume_def or_return_def defer_close_def close_fd_def call_os_def lift_os_def bindw_def
        ret_def depth_def open_root_def registerFileHandle_def w2_def free_id.simps Let_def)
  have "reachable toy_prims toy_json w3"
    by (rule reachable.call [OF r2, where c = "OpenRead sid ''/''"]) (use o(1) in \<open>simp add: bindw_def ret_def\<close>)
  then show thesis using o(2) by (rule that) simp
qed

section \<open>Every reachable state\<close>

text \<open>C12: Whatever calls were made before, every open volume can encrypt and decrypt: its content
  encryption and its name cipher are set up and fit together, its directory cache has the
  length of its directory IVs, and its wiping works. Its number field was never set, and no
  call has left the lock of a file behind.\<close>

theorem open_volumes_in_order:
  assumes "reachable Pr J w" "prims_ok Pr" "volume_of w sid = Some v"
  shows "be_ok (contentEnc v) \<and> emeCipher (nameTransform v) \<noteq> None \<and> badnamePatterns (nameTransform v) = [] \<and>
    ivLen (dirCache v) = (if plainTextNames v then 0 else DirIVLen) \<and> returns (wipe_volume v) \<and> volumeID v = 0 \<and>
    (\<forall>h f. table_lookup (fileHandles v) h = Some f \<longrightarrow> fdReaders f = 0)"
  using in_orderD [OF reachable_in_order [OF assms(1,2)] assms(3)]
  by (auto simp: volume_ok_def idle_def wipe_volume_def returns_iff)

theorem open_volumes_in_order_witness:
  "\<exists>w sid v f. reachable toy_prims toy_json w \<and> volume_of w sid = Some v \<and> table_lookup (fileHandles v) 0 = Some f \<and>
     be_ok (contentEnc v) \<and> fdReaders f = 0"
proof -
  obtain w sid v f where w: "reachable toy_prims toy_json w" "volume_of w sid = Some v" "fileHandles v = [(0, f)]"
    by (rule toy_reachable)
  have f: "table_lookup (fileHandles v) 0 = Some f" by (simp add: w(3) table_lookup_def)
  from open_volumes_in_order [OF w(1) toy_prims_ok w(2)] have "be_ok (contentEnc v)" "fdReaders f = 0"
    using f by blast+
  with w(1,2) f show ?thesis by blast
qed

text \<open>C14: Whatever calls were made before, closing an open file comes to an end, whether or not
  the system call fails. Its number is free afterwards, and no other open file of any volume
  changes.\<close>

theorem close_file_ends:
  assumes "reachable Pr J w" "prims_ok Pr" "handle_of w sid h = Some f"
  shows "\<exists>w'. gcf_close_file sid h w = Ret ((), w') \<and>
    (\<forall>sid' h'. handle_of w' sid' h' = (if sid' = sid \<and> h' = h then None else handle_of w sid' h'))"
proof -
  obtain v where v: "volume_of w sid = Some v" "table_lookup (fileHandles v) h = Some f"
    using assms(3) by (auto simp: handle_of_def split: option.splits)
  have i: "idle v" using in_orderD [OF reachable_in_order [OF assms(1,2)] v(1)] by simp
  obtain s where "gcf_close_file sid h w =
      Ret ((), set_volume sid (v\<lparr>fileHandles := AList.delete h (fileHandles v)\<rparr>) (w\<lparr>w_os := s\<rparr>))"
    by (rule close_file_run [OF v(1) i v(2)])
  then show ?thesis using v(1) by (auto simp: handle_of_def tbl.lookup_remove)
qed

theorem close_file_ends_witness:
  "\<exists>w sid w'. reachable toy_prims toy_json w \<and> handle_of w sid 0 \<noteq> None \<and>
     gcf_close_file sid 0 w = Ret ((), w') \<and> handle_of w' sid 0 = None"
proof -
  obtain w sid v f where w: "reachable toy_prims toy_json w" "volume_of w sid = Some v" "fileHandles v = [(0, f)]"
    by (rule toy_reachable)
  have f: "handle_of w sid 0 = Some f" by (simp add: w(2,3) handle_of_def table_lookup_def)
  from close_file_ends [OF w(1) toy_prims_ok f] obtain w' where "gcf_close_file sid 0 w = Ret ((), w')"
    "\<forall>sid' h'. handle_of w' sid' h' = (if sid' = sid \<and> h' = 0 then None else handle_of w sid' h')"
    by blast
  then show ?thesis using w(1) f by (intro exI [of _ w] exI [of _ sid] exI [of _ w']) simp
qed

text \<open>C13: Closing a volume takes the positions in the list of open handles for their numbers.
  Whatever calls were made before, it comes to an end exactly when the open handles are the
  numbers from 0 on without a gap, and then the volume is gone and no other volume changes;
  otherwise it panics.\<close>

theorem close_volume_ends:
  assumes "reachable Pr J w" "prims_ok Pr" "volume_of w sid = Some v"
  shows "if \<forall>i < length (fileHandles v). table_lookup (fileHandles v) (int i) \<noteq> None
    then \<exists>w'. gcf_close sid w = Ret ((), w') \<and> volume_of w' sid = None \<and> (\<forall>j. j \<noteq> sid \<longrightarrow> volume_of w' j = volume_of w j)
    else gcf_close sid w = Panic NilDeref"
  using close_volume_run [OF assms(3)] in_orderD [OF reachable_in_order [OF assms(1,2)] assms(3)] by blast

theorem close_volume_ends_witness:
  "\<exists>w sid w'. reachable toy_prims toy_json w \<and> volume_of w sid \<noteq> None \<and>
     gcf_close sid w = Ret ((), w') \<and> volume_of w' sid = None"
proof -
  obtain w sid v f where w: "reachable toy_prims toy_json w" "volume_of w sid = Some v" "fileHandles v = [(0, f)]"
    by (rule toy_reachable)
  have "\<forall>i < length (fileHandles v). table_lookup (fileHandles v) (int i) \<noteq> None" by (simp add: w(3) table_lookup_def)
  with close_volume_ends [OF w(1) toy_prims_ok w(2)] w(1,2) show ?thesis by auto
qed

end
