(* ===== verification/SyncClaims.thy ===== *)
theory SyncClaims
  imports CopyOut FileClaims NameClaims ReachClaims
begin

text \<open>
  The properties of the command line program: dry runs and commands that only look, what
  \<^verbatim>\<open>put\<close>, \<^verbatim>\<open>cat\<close> and the two copying loops of \<^verbatim>\<open>sync\<close> do to the data, and the paths and times that
  the two directions of \<^verbatim>\<open>sync\<close> compare.
\<close>

section \<open>Commands that change nothing\<close>

text \<open>C17: A synchronisation with \<open>-n\<close>, wherever the option stands, in either direction and with any
  other options, leaves every file, every directory and every attribute as it was: in the
  volume, in the plaintext directory and elsewhere. That holds for the runs that come to an
  end and for those that end early with an exit code.\<close>

theorem dry_run_changes_nothing:
  assumes "pull_passfile [] args = (pf, ''sync'' # rest)"
    and "\<And>opt dirs. parse_sync sync_defaults rest = Some (opt, dirs) \<Longrightarrow> dryRun opt"
  shows "case main n E args pr of Ret (_, pr') \<Rightarrow> disk (w_os (p_lib pr')) = disk (w_os (p_lib pr)) | _ \<Rightarrow> True"
proof (cases "main n E args pr")
  case (Ret r)
  obtain u pr' where r: "r = (u, pr')" by (cases r)
  have k: "keepc (main n E args)"
    using assms unfolding main_def
    by (auto split: option.splits intro!: keepc_bind keepc_basic dry_doSync)
  from keepcD [OF k Ret [unfolded r]] show ?thesis using Ret r by simp
qed simp_all

text \<open>
  A volume \<^verbatim>\<open>/v\<close> with nothing in it but its configuration and the IV of its root, and a
  directory \<^verbatim>\<open>/src\<close> with one file. Descriptor 0 is open, as it is in a process.
\<close>

definition toy_tree :: "bytes \<Rightarrow> open_file option list \<Rightarrow> os" where
  "toy_tree c fs = \<lparr>inodes = [\<lparr>inode_node = RegF c, inode_perm = 0x180, inode_mtime = 0\<rparr>,
       \<lparr>inode_node = DirF [(''gocryptfs.conf'', 0), (''gocryptfs.diriv'', 2)], inode_perm = 0x1C0, inode_mtime = 0\<rparr>,
       \<lparr>inode_node = RegF (replicate 16 5), inode_perm = 0x180, inode_mtime = 0\<rparr>,
       \<lparr>inode_node = DirF [(''f'', 4)], inode_perm = 0x1C0, inode_mtime = 0\<rparr>,
       \<lparr>inode_node = RegF [104, 105], inode_perm = 0x180, inode_mtime = 0\<rparr>],
     fds = Some \<lparr>of_ino = 4, of_pos = 0, of_wr = False\<rparr> # fs, host = [(''/v'', 1), (''/src'', 3)], now = 1, faults = []\<rparr>"

lemma toy_tree_calls:
  "os_ReadFile ''/v/gocryptfs.conf'' (toy_tree c []) = Ret (Inr c, toy_tree c [None])"
  "os_Stat ''/src/gocryptfs.conf'' (toy_tree c []) = Ret (Inl ENOENT, toy_tree c [])"
  "os_Stat ''/v/gocryptfs.conf'' (toy_tree c []) = Ret (Inr (stat_of (inodes (toy_tree c []) ! 0)), toy_tree c [])"
  "os_Lstat ''/src'' (toy_tree c [None]) = Ret (Inr (stat_of (inodes (toy_tree c []) ! 3)), toy_tree c [None])"
  "os_ReadDir ''/src'' (toy_tree c [None]) = Ret (([(''f'', S_IFREG)], None), toy_tree c [None])"
  "os_Lstat ''/src/f'' (toy_tree c [None]) = Ret (Inr (stat_of (inodes (toy_tree c []) ! 4)), toy_tree c [None])"
  "st_mode (stat_of (inodes (toy_tree c []) ! 3)) AND S_IFMT = S_IFDIR"
  by code_simp+

definition toy_opened :: "bytes \<Rightarrow> contentEnc \<Rightarrow> volume" where
  "toy_opened k be = \<lparr>volumeID = 0, rootCipherDir = ''/v'', plainTextNames = False,
     nameTransform = New_NameTransform (Some k) True 0 True [] False, contentEnc = be, dirCache = new_dirCache 16, fileHandles = []\<rparr>"

text \<open>The file is not in the volume.\<close>

lemma toy_absent:
  obtains mode sz mt w1 v where
    "gcf_get_attrs toy_prims 0 ''/f'' \<lparr>w_os = toy_tree c [None], w_rng = toy_rng, OpenedVolumes = [(0, toy_opened k be)]\<rparr>
      = Ret ((mode, sz, mt, False), w1)"
    "OpenedVolumes w1 = [(0, v)]" "fileHandles v = []"
proof -
  let ?ok = "\<lambda>r. case r of ((_, _, _, ok), w1 :: world) \<Rightarrow>
    \<not> ok \<and> map (\<lambda>(i, v). (i, fileHandles v)) (OpenedVolumes w1) = [(0, [])]"
  define m where "m = gcf_get_attrs toy_prims 0 ''/f'' \<lparr>w_os = toy_tree c [None], w_rng = toy_rng, OpenedVolumes = [(0, toy_opened k be)]\<rparr>"
  have "case m of Ret r \<Rightarrow> ?ok r | _ \<Rightarrow> False" unfolding m_def by code_simp
  then obtain r where "m = Ret r" "?ok r" by (cases m) auto
  then show thesis
    using that unfolding m_def by (cases r) auto
qed

text \<open>Opening the volume.\<close>

lemma toy_init:
  obtains c k be where
    "gcf_init toy_prims toy_json toy_platform ''/v'' [1, 2] [] [] \<lparr>w_os = toy_tree c [], w_rng = toy_rng, OpenedVolumes = []\<rparr>
      = Ret ((0, wipe [1, 2], []), \<lparr>w_os = toy_tree c [None], w_rng = toy_rng, OpenedVolumes = [(0, toy_opened k be)]\<rparr>)"
    "in_order \<lparr>w_os = toy_tree c [None], w_rng = toy_rng, OpenedVolumes = [(0, toy_opened k be)]\<rparr>"
proof -
  obtain kdf ek js key where C: "MarshalIndent toy_json (created_conf toy_args kdf ek) = Some js" "validateParams kdf = None"
    "GetMasterkey toy_prims (created_conf toy_args kdf ek) [1, 2] [] [] = Ret (Inr key, [])" "length key = 32" "N kdf = 2 ^ 16"
    by (rule toy_created)
  define cf where "cf = created_conf toy_args kdf ek"
  have a: "\<not> (XChaCha20Poly1305 toy_args \<and> AESSIV toy_args)" "ascii (ca_Creator toy_args)"
    "path_Join ''/v'' ConfDefaultName = ''/v/gocryptfs.conf''" by code_simp+
  have V: "Validate cf = None" unfolding cf_def by (rule created_valid [OF C(2) a(1)])
  have "Unmarshal toy_json (js @ [10]) (empty_conf (cf_filename cf)) = Some cf"
    using toy_json_ok created_ascii [OF a(2), of kdf ek] C(1) by (auto simp: json_ok_def cf_def split: option.splits)
  then have l: "Load toy_json ''/v/gocryptfs.conf'' (toy_tree (js @ [10]) []) = Ret (Inr cf, toy_tree (js @ [10]) [None])"
    using V by (simp add: Load_def toy_tree_calls cf_def toy_args_file)
  obtain b where b: "ContentEncryption cf = Inr b"
    using V by (cases "ContentEncryption cf") (auto simp: ContentEncryption_def split: if_splits)
  obtain v where v: "newVolume toy_prims toy_platform ''/v'' key cf b = Ret v" "emeCipher (nameTransform v) \<noteq> None"
    by (rule newVolume_spec [OF toy_prims_ok C(4) b])
  have f: "IsFeatureFlagSet cf FlagPlaintextNames = False" "IsFeatureFlagSet cf FlagRaw64 = True" "IsFeatureFlagSet cf FlagDirIV = True"
    "LongNameMax cf = 0"
    unfolding cf_def by code_simp+
  obtain k where k: "v = toy_opened k (contentEnc v)"
    using v(2) [unfolded not_None_eq] v(1) f
    by (auto simp: newVolume_def Let_def go_bind_eq_Ret toy_opened_def New_NameTransform_def DirIVLen_def)
  let ?w = "\<lambda>fs vs. \<lparr>w_os = toy_tree (js @ [10]) fs, w_rng = toy_rng, OpenedVolumes = vs\<rparr> :: world"
  have "gcf_init toy_prims toy_json toy_platform ''/v'' [1, 2] [] [] (?w [] []) = Ret ((0, wipe [1, 2], []), ?w [None] [(0, v)])"
    using l C(3) b v(1)
    by (simp add: gcf_init_def bindw_def lift_os_def lift_go_def a(3) cf_def registerNewVolume_def storeNewVolume_def free_id.simps ret_def)
  moreover have "in_order (?w [None] [(0, v)])"
    using newVolume_ok [OF toy_prims_ok v(1)] by (simp add: in_order_def volume_of_def table_lookup_def)
  ultimately show thesis using k that by metis
qed

definition toy_env :: sysenv where
  "toy_env = \<lparr>e_prims = toy_prims, e_json = toy_json, e_machine = toy_platform, e_order = (\<lambda>hs. hs),
     e_password = to_string [1, 2], e_date = (\<lambda>t. ''-'')\<rparr>"

lemma toy_env_simps [simp]:
  "e_prims toy_env = toy_prims" "e_json toy_env = toy_json" "e_machine toy_env = toy_platform" "e_password toy_env = to_string [1, 2]"
  by (simp_all add: toy_env_def)

text \<open>The dry run: the file is reported as new, and the program ends as it should.\<close>

lemma toy_dry_run:
  obtains c pr' where "main 9 toy_env [''sync'', ''/src'', ''-n'', ''/v'']
      \<lparr>p_lib = \<lparr>w_os = toy_tree c [], w_rng = toy_rng, OpenedVolumes = []\<rparr>, p_out = [], p_in = [], p_in_fails = False\<rparr> = Ret (Done (), pr')"
    "p_out pr' = ''+ f'' @ newline"
proof -
  obtain c k be where i:
    "gcf_init toy_prims toy_json toy_platform ''/v'' [1, 2] [] [] \<lparr>w_os = toy_tree c [], w_rng = toy_rng, OpenedVolumes = []\<rparr>
      = Ret ((0, wipe [1, 2], []), \<lparr>w_os = toy_tree c [None], w_rng = toy_rng, OpenedVolumes = [(0, toy_opened k be)]\<rparr>)"
    "in_order \<lparr>w_os = toy_tree c [None], w_rng = toy_rng, OpenedVolumes = [(0, toy_opened k be)]\<rparr>"
    by (rule toy_init)
  let ?w = "\<lparr>w_os = toy_tree c [None], w_rng = toy_rng, OpenedVolumes = [(0, toy_opened k be)]\<rparr>"
  obtain mode sz mt w1 v where g: "gcf_get_attrs toy_prims 0 ''/f'' ?w = Ret ((mode, sz, mt, False), w1)"
    "OpenedVolumes w1 = [(0, v)]" "fileHandles v = []"
    by (rule toy_absent)
  have v: "volume_of w1 0 = Some v" using g(2) by (simp add: volume_of_def table_lookup_def)
  have "tame ?w w1" using tm.alongD [OF tamed_attrs(1) g(1)] .
  then have "volume_ok v" "idle v" using in_orderD [OF tame_in_order [OF _ i(2)] v] by auto
  from close_volume_run [OF v this] g(3) obtain w2 where w2: "gcf_close 0 w1 = Ret ((), w2)" by auto
  let ?pr = "\<lambda>w t. \<lparr>p_lib = w, p_out = t, p_in = [], p_in_fails = False\<rparr> :: proc"
  let ?p0 = "?pr \<lparr>w_os = toy_tree c [], w_rng = toy_rng, OpenedVolumes = []\<rparr> []"
  define opt where "opt = sync_defaults\<lparr>dryRun := True, base := ''/''\<rparr>"
  have o: "base opt = ''/''" "dryRun opt" "\<not> verbose opt" "\<not> delete opt" by (simp_all add: opt_def sync_defaults_def)
  note rules = bindc_run on_lib_def on_os_def lift_os_def toy_tree_calls
  have p: "path_Join ''/src'' ''gocryptfs.conf'' = ''/src/gocryptfs.conf''" "path_Join ''/v'' ''gocryptfs.conf'' = ''/v/gocryptfs.conf''"
    "cleanVol [] = ''/''" "path_Rel ''/src'' ''/src'' = Some ''.''" "path_Join ''/src'' ''f'' = ''/src/f''"
    "path_Rel ''/src'' ''/src/f'' = Some ''f''" "cleanVol ''//f'' = ''/f''"
    "pull_passfile [] [''sync'', ''/src'', ''-n'', ''/v''] = ([], [''sync'', ''/src'', ''-n'', ''/v''])"
    "parse_sync sync_defaults [''/src'', ''-n'', ''/v''] = Some (sync_defaults\<lparr>dryRun := True\<rparr>, [''/src'', ''/v''])"
    by code_simp+
  have 1: "isVolume ''/src'' ?p0 = Ret (Done False, ?p0)" "isVolume ''/v'' ?p0 = Ret (Done True, ?p0)"
    by (simp_all add: isVolume_def p rules retc_def errToBool_def)
  have 2: "getPassword toy_env [] = retc [1, 2]" by (simp add: getPassword_def comp_def)
  have 3: "openVol toy_env ''/v'' [1, 2] ?p0 = Ret (Done 0, ?pr ?w [])"
    using i(1) by (simp add: openVol_def rules retc_def)
  have 4: "encrypt_entry toy_env opt 0 ''/src'' ''/src'' t False no_progress = retc no_progress" for t
    by (simp add: encrypt_entry_def p)
  obtain st where 5: "encrypt_entry toy_env opt 0 ''/src'' ''/src/f'' S_IFREG False no_progress (?pr ?w [])
      = Ret (Done st, ?pr w1 (''+ f'' @ newline))"
    using g(1) by (simp add: encrypt_entry_def Let_def encrypt_regular_def report_def unless_dry_def print_def p o rules retc_def S_IFREG_def S_IFDIR_def)
  have 6: "WalkDir (Suc (Suc m)) (encrypt_entry toy_env opt 0 ''/src'') ''/src'' no_progress (?pr ?w []) = Ret (Done st, ?pr w1 (''+ f'' @ newline))" for m
    using 5 by (simp add: WalkDir_def 4 p rules S_IFREG_def S_IFDIR_def) (simp add: retc_def bindc_def)
  have 7: "encryptSync 9 toy_env [] opt ''/src'' ''/v'' ?p0 = Ret (Done (st, 0), ?pr w2 (''+ f'' @ newline))"
    using w2 6 [of 7] by (simp add: encryptSync_def with_vol_def 2 3 o rules retc_def)
  have "main 9 toy_env [''sync'', ''/src'', ''-n'', ''/v''] ?p0 = Ret (Done (), ?pr w2 (''+ f'' @ newline))"
    using 1 7 by (simp add: main_def doSync_def Let_def p sync_defaults_def opt_def bindc_def retc_def)
  then show thesis by (rule that) simp
qed

theorem dry_run_changes_nothing_witness:
  "\<exists>c pr'. main 9 toy_env [''sync'', ''/src'', ''-n'', ''/v'']
      \<lparr>p_lib = \<lparr>w_os = toy_tree c [], w_rng = toy_rng, OpenedVolumes = []\<rparr>, p_out = [], p_in = [], p_in_fails = False\<rparr>
      = Ret (Done (), pr') \<and>
    p_out pr' = ''+ f'' @ newline \<and> disk (w_os (p_lib pr')) = disk (toy_tree c [])"
proof -
  obtain c pr' where r: "main 9 toy_env [''sync'', ''/src'', ''-n'', ''/v'']
      \<lparr>p_lib = \<lparr>w_os = toy_tree c [], w_rng = toy_rng, OpenedVolumes = []\<rparr>, p_out = [], p_in = [], p_in_fails = False\<rparr>
      = Ret (Done (), pr')" "p_out pr' = ''+ f'' @ newline"
    by (rule toy_dry_run)
  have a: "pull_passfile [] [''sync'', ''/src'', ''-n'', ''/v''] = ([], ''sync'' # [''/src'', ''-n'', ''/v''])"
    "parse_sync sync_defaults [''/src'', ''-n'', ''/v''] = Some (sync_defaults\<lparr>dryRun := True\<rparr>, [''/src'', ''/v''])"
    by code_simp+
  then have "dryRun opt" if "parse_sync sync_defaults [''/src'', ''-n'', ''/v''] = Some (opt, dirs)" for opt dirs
    using that by auto
  from dry_run_changes_nothing [OF a(1) this, where n = 9 and E = toy_env and pr =
      "\<lparr>p_lib = \<lparr>w_os = toy_tree c [], w_rng = toy_rng, OpenedVolumes = []\<rparr>, p_out = [], p_in = [], p_in_fails = False\<rparr>"]
  show ?thesis using r by (intro exI [of _ c] exI [of _ pr']) simp
qed

text \<open>C38: The commands that look at a volume, \<^verbatim>\<open>ls\<close>, \<^verbatim>\<open>stat\<close>, \<^verbatim>\<open>cat\<close> and \<^verbatim>\<open>find\<close>, change no file and no
  directory, whatever the volume holds and whatever call fails, also when they end early
  with an exit code.\<close>

theorem looking_changes_nothing:
  "let unchanged = (\<lambda>m. case m of Ret (_ :: unit ending, pr') \<Rightarrow> disk (w_os (p_lib pr')) = disk (w_os (p_lib pr)) | _ \<Rightarrow> True)
   in unchanged (cmd_ls E pf dir vpath pr) \<and> unchanged (cmd_stat E pf dir vpath pr) \<and>
      unchanged (cmd_cat E pf dir vpath pr) \<and> unchanged (doFind n E pf b dir pr)"
  unfolding Let_def by (intro conjI) (auto dest!: looking_keeps [THEN keepcD] split: go.splits)

section \<open>Reading back what was written\<close>

lemma holds_fresh:
  assumes "be_ok be" "holds Pr be fid c p"
  shows "holds Pr be None c p"
proof (cases fid)
  case (Some x)
  then have s: "stored Pr be x c p" using assms(2) by simp
  then show ?thesis
    using stored_length [OF assms(1) s] by (auto simp: holds_def body_len_def)
qed (use assms in simp)

lemma fine_nonzero:
  assumes "\<forall>i. stream r i \<noteq> 0" "0 \<notin> set (prefetched r)" "0 < n" "n \<le> prefetchN"
  shows "fine n r"
proof -
  have inv: "stream r' = stream r \<and> 0 \<notin> set (prefetched r')" if "later r r'" for r'
    using that assms(1,2)
  proof induction
    case (later_nonce r r' m b r'')
    then show ?case
      by (auto simp: nonce_Get_def prefetch_read_def RandBytes_def Let_def dest!: in_set_takeD in_set_dropD split: if_splits)
  qed simp_all
  have "nonces_ok n 1 r' \<and> fst (RandBytes headerIDLen r') \<noteq> allZeroFileID" if l: "later r r'" for r'
  proof -
    have s: "\<forall>i. stream r' i \<noteq> 0" "0 \<notin> set (prefetched r')" using inv [OF l] assms(1) by auto
    obtain b r'' where b: "nonce_Get n r' = Ret (b, r'')" "length b = n"
      using prefetch_read_returns [OF assms(4), of r'] by (auto simp: nonce_Get_def)
    have "0 \<notin> set b"
      using b(1) s by (auto simp: nonce_Get_def prefetch_read_def RandBytes_def Let_def dest!: in_set_takeD split: if_splits)
    then have "b \<noteq> zeros n" using assms(3) by auto
    moreover have "hd (fst (RandBytes headerIDLen r')) \<noteq> hd allZeroFileID"
      using s(1) by (simp add: RandBytes_def headerIDLen_def allZeroFileID_def hd_map)
    ultimately show ?thesis using b(1) by auto
  qed
  then show ?thesis by (simp add: fine_def)
qed

lemma toy_fine: "fine 16 toy_rng"
  by (rule fine_nonzero) (simp_all add: toy_rng_def prefetchN_def)

text \<open>Another handle, of this process or of another one, that has just been opened on inode \<open>i\<close>.\<close>

definition fresh_handle :: "contentEnc \<Rightarrow> int \<Rightarrow> int \<Rightarrow> File \<Rightarrow> nat \<Rightarrow> proc \<Rightarrow> bool" where
  "fresh_handle be vid fh f i pr \<longleftrightarrow>
     (\<exists>v. volume_of (p_lib pr) vid = Some v \<and> contentEnc v = be \<and> table_lookup (fileHandles v) fh = Some f) \<and>
     file_ID f = None \<and> quiet (w_os (p_lib pr)) \<and>
     (\<exists>e. get_fd (w_os (p_lib pr)) (file_fd f) = Some e \<and> of_ino e = i)"

lemma fresh_reading:
  assumes "be_ok be" "ready Pr be vid fh f i p pr" "fresh_handle be vid2 fh2 f2 i pr2"
    "length (inodes (w_os (p_lib pr))) \<le> length (inodes (w_os (p_lib pr2)))"
    "inodes (w_os (p_lib pr2)) ! i = inodes (w_os (p_lib pr)) ! i"
  shows "\<exists>c. reading Pr be vid2 fh2 f2 i c p pr2"
proof -
  obtain fid c where o: "opened Pr be (p_lib pr) vid fh (f\<lparr>file_ID := fid\<rparr>) i c p"
    using assms(2) by (auto simp: ready_def)
  note O = openedD [OF o]
  have h: "holds Pr be (file_ID f2) c p"
    using holds_fresh [OF assms(1) O(3)] assms(3) by (simp add: fresh_handle_def)
  have "opened Pr be (with_mode (file_fd f2) (p_lib pr2)) vid2 fh2 f2 i c p"
    by (rule openedI) (use assms(3-5) O(2) h in \<open>auto simp: fresh_handle_def file_at_def\<close>)
  then have "reads Pr be (p_lib pr2) vid2 fh2 (f2\<lparr>file_ID := file_ID f2\<rparr>) i c p" by (simp add: reads_def)
  moreover have "quiet (w_os (p_lib pr2))" using assms(3) by (simp add: fresh_handle_def)
  ultimately show ?thesis unfolding reading_def by blast
qed

text \<open>C16: What \<^verbatim>\<open>put\<close> writes is what \<^verbatim>\<open>cat\<close> prints, however long the input is, followed by what the
  file held behind that length: \<^verbatim>\<open>put\<close> does not cut an existing file. The reader may be another
  process.\<close>

theorem put_then_cat:
  assumes "prims_ok Pr" "be_ok be" "ready Pr be vid fh f i p pr"
    and "length (p_in pr) \<le> 2 ^ 56" "length p \<le> 2 ^ 56" "\<not> p_in_fails pr"
  shows "\<exists>pr1. put_file Pr vid fh pr = Ret (Done (of_nat (length (p_in pr))), pr1) \<and>
    only_handle vid fh (p_lib pr) (p_lib pr1) \<and> only_file i (w_os (p_lib pr)) (w_os (p_lib pr1)) \<and>
    (\<forall>vid2 fh2 f2 pr2. fresh_handle be vid2 fh2 f2 i pr2 \<and> disk (w_os (p_lib pr2)) = disk (w_os (p_lib pr1)) \<longrightarrow>
       (\<exists>pr3. cat_file Pr vid2 fh2 pr2 = Ret (Done (), pr3) \<and>
          p_out pr3 = p_out pr2 @ to_string (p_in pr @ drop (length (p_in pr)) p)))"
proof -
  let ?p = "p_in pr @ drop (length (p_in pr)) p"
  obtain pr1 where p1: "put_file Pr vid fh pr = Ret (Done (of_nat (length (p_in pr))), pr1)"
    "ready Pr be vid fh f i ?p pr1" "copied vid fh i pr pr1"
    using put_file_run [OF assms(1-4,6)] by blast
  have len: "length ?p \<le> 2 ^ 56" using assms(4,5) by simp
  have "\<exists>pr3. cat_file Pr vid2 fh2 pr2 = Ret (Done (), pr3) \<and> p_out pr3 = p_out pr2 @ to_string ?p"
    if a: "fresh_handle be vid2 fh2 f2 i pr2" "disk (w_os (p_lib pr2)) = disk (w_os (p_lib pr1))" for vid2 fh2 f2 pr2
  proof -
    have "inodes (w_os (p_lib pr2)) = inodes (w_os (p_lib pr1))" using a(2) by (simp add: disk_def)
    then obtain c where "reading Pr be vid2 fh2 f2 i c ?p pr2" using fresh_reading [OF assms(2) p1(2) a(1)] by auto
    from cat_file_run [OF assms(1,2) this len] show ?thesis by blast
  qed
  then show ?thesis using p1(1,3) by (auto simp: copied_def)
qed

abbreviation toy_proc :: "bytes \<Rightarrow> proc" where
  "toy_proc d \<equiv> \<lparr>p_lib = toy_new, p_out = [], p_in = d, p_in_fails = False\<rparr>"

lemma toy_ready: "ready toy_prims toy_be 0 0 (toy_file None) 0 [] (toy_proc d)"
proof -
  have f: "toy_file None\<lparr>file_ID := None\<rparr> = toy_file None" by (simp add: toy_file_def)
  have "opened toy_prims toy_be (p_lib (toy_proc d)) 0 0 (toy_file None\<lparr>file_ID := None\<rparr>) 0 [] []"
    unfolding f using toy_new(1) by simp
  moreover have "fine (IVLen (cryptoCore toy_be)) (w_rng (p_lib (toy_proc d)))"
    using toy_fine by (simp add: toy_world_def)
  ultimately show ?thesis by (auto simp: ready_def toy_world_def toy_os_def)
qed

lemma toy_fresh_handle:
  assumes "fds s = fds (toy_os [])" "quiet s"
  shows "fresh_handle toy_be 0 0 (toy_file None) 0 \<lparr>p_lib = toy_world s False [(0, toy_file None)], p_out = t, p_in = d, p_in_fails = b\<rparr>"
  using assms by (simp add: fresh_handle_def toy_world_def volume_of_def table_lookup_def toy_volume_def toy_file_def get_fd_def toy_os_def)

theorem put_then_cat_witness:
  "\<exists>pr1 pr3. put_file toy_prims 0 0 (toy_proc [72, 105, 33, 33, 33, 10]) = Ret (Done 6, pr1) \<and>
    cat_file toy_prims 0 0 \<lparr>p_lib = toy_world (w_os (p_lib pr1)) False [(0, toy_file None)], p_out = [], p_in = [], p_in_fails = False\<rparr>
      = Ret (Done (), pr3) \<and> p_out pr3 = to_string [72, 105, 33, 33, 33, 10]"
proof -
  let ?pr = "toy_proc [72, 105, 33, 33, 33, 10]"
  have d: "length (p_in ?pr) \<le> 2 ^ 56" "length ([] :: bytes) \<le> 2 ^ 56" "\<not> p_in_fails ?pr" by simp_all
  obtain pr1 where p1: "put_file toy_prims 0 0 ?pr = Ret (Done (of_nat (length (p_in ?pr))), pr1)"
    "only_file 0 (w_os (p_lib ?pr)) (w_os (p_lib pr1))"
    "\<forall>vid2 fh2 f2 pr2. fresh_handle toy_be vid2 fh2 f2 0 pr2 \<and> disk (w_os (p_lib pr2)) = disk (w_os (p_lib pr1)) \<longrightarrow>
       (\<exists>pr3. cat_file toy_prims vid2 fh2 pr2 = Ret (Done (), pr3) \<and>
          p_out pr3 = p_out pr2 @ to_string (p_in ?pr @ drop (length (p_in ?pr)) []))"
    using put_then_cat [OF toy_prims_ok toy_be_ok toy_ready d] by blast
  let ?q = "\<lparr>p_lib = toy_world (w_os (p_lib pr1)) False [(0, toy_file None)], p_out = [], p_in = [], p_in_fails = False\<rparr>"
  have "fresh_handle toy_be 0 0 (toy_file None) 0 ?q"
    by (rule toy_fresh_handle) (use p1(2) in \<open>auto simp: only_file_def toy_world_def toy_os_def\<close>)
  moreover have "disk (w_os (p_lib ?q)) = disk (w_os (p_lib pr1))" by (simp add: toy_world_def)
  ultimately obtain pr3 where "cat_file toy_prims 0 0 ?q = Ret (Done (), pr3)"
    "p_out pr3 = p_out ?q @ to_string (p_in ?pr @ drop (length (p_in ?pr)) [])"
    using p1(3) by blast
  then show ?thesis using p1(1) by (intro exI [of _ pr1] exI [of _ pr3]) simp
qed

text \<open>C15: The two copying loops of \<^verbatim>\<open>sync\<close> are inverse: what \<open>encryptFile\<close> copies from a plaintext
  file into an empty file of the volume is what \<open>decryptFileToDisk\<close> restores from it, whatever
  the length and content, and encrypting changes no other file.\<close>

theorem encrypt_then_decrypt:
  assumes "prims_ok Pr" "be_ok be" "ready Pr be vid fh f i [] pr" "source (w_os (p_lib pr)) fd i src 0"
    and "length src \<le> 2 ^ 56" "fd \<noteq> file_fd f" "0 \<le> file_fd f"
  shows "\<exists>pr1. copy_in Pr vid fh fd 0 pr = Ret (Done (), pr1) \<and> others_kept i (w_os (p_lib pr)) (w_os (p_lib pr1)) \<and>
    (\<forall>vid2 fh2 f2 out k pr2. fresh_handle be vid2 fh2 f2 i pr2 \<and> 0 \<le> file_fd f2 \<and>
       length (inodes (w_os (p_lib pr1))) \<le> length (inodes (w_os (p_lib pr2))) \<and>
       inodes (w_os (p_lib pr2)) ! i = inodes (w_os (p_lib pr1)) ! i \<and>
       target (w_os (p_lib pr2)) out k [] \<and> k \<noteq> i \<and> out \<noteq> file_fd f2 \<longrightarrow>
       (\<exists>pr3. read_loop (\<lambda>_. write_out out) Pr vid2 fh2 0 (zeros chunk) () pr2 = Ret (Done (), pr3) \<and>
          target (w_os (p_lib pr3)) out k src))"
proof -
  obtain pr1 where p1: "copy_in Pr vid fh fd (of_nat 0) pr = Ret (Done (), pr1)"
    "ready Pr be vid fh f i (overwrite 0 (drop 0 src) []) pr1" "others_kept i (w_os (p_lib pr)) (w_os (p_lib pr1))"
    using copy_in_run [OF assms(1-4) _ _ assms(5-7)] by auto
  have src: "overwrite 0 (drop 0 src) [] = src" by (simp add: overwrite_def)
  have "\<exists>pr3. read_loop (\<lambda>_. write_out out) Pr vid2 fh2 0 (zeros chunk) () pr2 = Ret (Done (), pr3) \<and>
      target (w_os (p_lib pr3)) out k src"
    if a: "fresh_handle be vid2 fh2 f2 i pr2" "0 \<le> file_fd f2"
      "length (inodes (w_os (p_lib pr1))) \<le> length (inodes (w_os (p_lib pr2)))"
      "inodes (w_os (p_lib pr2)) ! i = inodes (w_os (p_lib pr1)) ! i" "target (w_os (p_lib pr2)) out k []" "k \<noteq> i" "out \<noteq> file_fd f2"
    for vid2 fh2 f2 out k pr2
  proof -
    obtain c where "reading Pr be vid2 fh2 f2 i c src pr2"
      using fresh_reading [OF assms(2) p1(2) [unfolded src] a(1,3,4)] by blast
    from decrypt_loop_run [OF assms(1,2) this assms(5) a(5-7,2)] show ?thesis by blast
  qed
  then show ?thesis using p1(1,3) by auto
qed

text \<open>The file of the volume is inode 0, the plaintext file inode 2, the restored file inode 3.\<close>

definition toy_sync_os :: "bytes \<Rightarrow> os" where
  "toy_sync_os src = toy_os []\<lparr>inodes := inodes (toy_os []) @
       [\<lparr>inode_node = RegF src, inode_perm = 0x180, inode_mtime = 0\<rparr>, \<lparr>inode_node = RegF [], inode_perm = 0x180, inode_mtime = 0\<rparr>],
     fds := [Some \<lparr>of_ino = 0, of_pos = 0, of_wr = True\<rparr>, Some \<lparr>of_ino = 2, of_pos = 0, of_wr = False\<rparr>,
       Some \<lparr>of_ino = 3, of_pos = 0, of_wr = True\<rparr>]\<rparr>"

definition toy_sync :: "bytes \<Rightarrow> proc" where
  "toy_sync src = \<lparr>p_lib = toy_world (toy_sync_os src) False [(0, toy_file None)], p_out = [], p_in = [], p_in_fails = False\<rparr>"

theorem encrypt_then_decrypt_witness:
  "\<exists>pr1 pr3. copy_in toy_prims 0 0 1 0 (toy_sync [1, 2, 3, 4, 5, 6, 7]) = Ret (Done (), pr1) \<and>
    read_loop (\<lambda>_. write_out 2) toy_prims 0 0 0 (zeros chunk) ()
      ((toy_sync [])\<lparr>p_lib := toy_world ((toy_sync_os [])\<lparr>inodes := inodes (w_os (p_lib pr1))\<rparr>) False [(0, toy_file None)]\<rparr>) = Ret (Done (), pr3) \<and>
    inode_node (inodes (w_os (p_lib pr3)) ! 3) = RegF [1, 2, 3, 4, 5, 6, 7]"
proof -
  let ?src = "[1, 2, 3, 4, 5, 6, 7] :: bytes"
  let ?pr = "toy_sync ?src"
  have f: "toy_file None\<lparr>file_ID := None\<rparr> = toy_file None" "file_fd (toy_file None) = 0" by (simp_all add: toy_file_def)
  have "opened toy_prims toy_be (p_lib ?pr) 0 0 (toy_file None) 0 [] []"
    by (rule openedI) (simp_all add: toy_sync_def toy_world_def volume_of_def table_lookup_def toy_volume_def toy_file_def file_at_def
        toy_sync_os_def toy_os_def get_fd_def holds_def)
  then have r: "ready toy_prims toy_be 0 0 (toy_file None) 0 [] ?pr"
    using toy_fine f(1) by (auto simp: ready_def toy_sync_def toy_world_def toy_sync_os_def toy_os_def intro!: exI [of _ None])
  have s: "source (w_os (p_lib ?pr)) 1 0 ?src 0" "length ?src \<le> 2 ^ 56" "1 \<noteq> file_fd (toy_file None)" "0 \<le> file_fd (toy_file None)"
    by (simp_all add: source_def toy_sync_def toy_world_def toy_sync_os_def toy_os_def get_fd_def f)
  obtain pr1 where p1: "copy_in toy_prims 0 0 1 0 ?pr = Ret (Done (), pr1)" "others_kept 0 (w_os (p_lib ?pr)) (w_os (p_lib pr1))"
    "\<forall>vid2 fh2 f2 out k pr2. fresh_handle toy_be vid2 fh2 f2 0 pr2 \<and> 0 \<le> file_fd f2 \<and>
       length (inodes (w_os (p_lib pr1))) \<le> length (inodes (w_os (p_lib pr2))) \<and>
       inodes (w_os (p_lib pr2)) ! 0 = inodes (w_os (p_lib pr1)) ! 0 \<and>
       target (w_os (p_lib pr2)) out k [] \<and> k \<noteq> 0 \<and> out \<noteq> file_fd f2 \<longrightarrow>
       (\<exists>pr3. read_loop (\<lambda>_. write_out out) toy_prims vid2 fh2 0 (zeros chunk) () pr2 = Ret (Done (), pr3) \<and>
          target (w_os (p_lib pr3)) out k ?src)"
    using encrypt_then_decrypt [OF toy_prims_ok toy_be_ok r s] by blast
  define s1 where "s1 = (toy_sync_os [])\<lparr>inodes := inodes (w_os (p_lib pr1))\<rparr>"
  let ?q = "(toy_sync [])\<lparr>p_lib := toy_world s1 False [(0, toy_file None)]\<rparr>"
  have n: "length (inodes (w_os (p_lib pr1))) = 4" "inode_node (inodes (w_os (p_lib pr1)) ! 3) = RegF []"
    using p1(2) by (simp_all add: others_kept_def toy_sync_def toy_world_def toy_sync_os_def toy_os_def)
  have "fresh_handle toy_be 0 0 (toy_file None) 0 ?q"
    by (simp add: fresh_handle_def toy_sync_def toy_world_def volume_of_def table_lookup_def toy_volume_def toy_file_def get_fd_def
        toy_sync_os_def toy_os_def s1_def)
  moreover have "target (w_os (p_lib ?q)) 2 3 []"
    using n by (simp add: target_def toy_world_def toy_sync_os_def toy_os_def get_fd_def s1_def)
  ultimately obtain pr3 where "read_loop (\<lambda>_. write_out 2) toy_prims 0 0 0 (zeros chunk) () ?q = Ret (Done (), pr3)"
    "target (w_os (p_lib pr3)) 2 3 ?src"
    using p1(3) [rule_format, of 0 0 "toy_file None" ?q 2 3] f(2) by (auto simp: toy_world_def s1_def)
  then show ?thesis using p1(1) by (auto simp: target_def s1_def)
qed

text \<open>
  A handle that was just opened on a file with some content: the header is there, and more.
\<close>

lemma reads_fresh:
  assumes "be_ok be" "reads Pr be w vid fh f i c p" "file_ID f = None" "p \<noteq> []"
  obtains v e x where "volume_of w vid = Some v" "contentEnc v = be" "table_lookup (fileHandles v) fh = Some f"
    "get_fd (w_os w) (file_fd f) = Some e" "inode_node (inodes (w_os w) ! of_ino e) = RegF c" "has_header x c" "18 < length c"
proof -
  have o: "opened Pr be (with_mode (file_fd f) w) vid fh f i c p" using assms(2) by (simp add: reads_def)
  note O = openedD [OF o]
  obtain v where v: "volume_of w vid = Some v" "contentEnc v = be" "table_lookup (fileHandles v) fh = Some f"
    using O(1,4) by (auto simp: handle_of_def)
  obtain e where e: "get_fd (w_os w) (file_fd f) = Some e" "inode_node (inodes (w_os w) ! of_ino e) = RegF c"
    using O(2) by (auto simp: file_at_def split: option.splits if_splits)
  obtain x where x: "stored Pr be x c p" using O(3) assms(3,4) by (auto simp: holds_def)
  have "0 < body_len (BS be) (OH be) (length p)"
    using body_len_ge [of "length p" "BS be" "OH be"] assms(4) by (cases p) auto
  then have "18 < length c" using stored_length [OF assms(1) x] by simp
  then show thesis using that v e x by (auto simp: stored_def)
qed

lemma fresh_read_error:
  assumes "be_ok be" "reads Pr be (p_lib pr) vid fh f i c p" "file_ID f = None" "p \<noteq> []"
    and "next_fault (interrupted (w_os (p_lib pr))) = (r1, s1)" "r1 \<noteq> None \<or> fst (next_fault (interrupted s1)) \<noteq> None"
  shows "\<exists>pr2. read_loop emit Pr vid fh 0 (zeros chunk) acc pr = Ret (Done acc, pr2) \<and> p_out pr2 = p_out pr \<and>
    disk (w_os (p_lib pr2)) = disk (w_os (p_lib pr))"
proof -
  obtain v e x where v: "volume_of (p_lib pr) vid = Some v" "contentEnc v = be" "table_lookup (fileHandles v) fh = Some f"
    "get_fd (w_os (p_lib pr)) (file_fd f) = Some e" "inode_node (inodes (w_os (p_lib pr)) ! of_ino e) = RegF c" "has_header x c" "18 < length c"
    by (rule reads_fresh [OF assms(1-4)])
  show ?thesis by (rule read_loop_error [OF v(1) _ v(3) assms(3) v(4-7) assms(5,6)]) (simp add: v(2) assms(1))
qed

text \<open>C39: A file of a volume that cannot be read is taken for a shorter one. Whatever calls fail,
  \<^verbatim>\<open>cat\<close> of a file that was just opened ends as at the end of the file, without an error, after
  some chunks from the start of the content. When reading the header or the first data fails,
  it prints nothing, and likewise the loops of \<open>decryptFileToDisk\<close> and \<open>sha256Vol\<close> end with
  nothing passed on, whatever they do with the chunks.\<close>

theorem read_error_ends_copy:
  assumes "prims_ok Pr" "be_ok be" "reads Pr be (p_lib pr) vid fh f i c p" "file_ID f = None" "length p \<le> 2 ^ 56"
    and "next_fault (interrupted (w_os (p_lib pr))) = (r1, s1)"
  shows "\<exists>n pr1. cat_file Pr vid fh pr = Ret (Done (), pr1) \<and> p_out pr1 = p_out pr @ to_string (take (n * chunk) p) \<and>
    disk (w_os (p_lib pr1)) = disk (w_os (p_lib pr)) \<and>
    (p \<noteq> [] \<and> (r1 \<noteq> None \<or> fst (next_fault (interrupted s1)) \<noteq> None) \<longrightarrow> p_out pr1 = p_out pr \<and>
      (\<exists>pr2. read_loop emit Pr vid fh 0 (zeros chunk) acc pr = Ret (Done acc, pr2) \<and> p_out pr2 = p_out pr \<and>
         disk (w_os (p_lib pr2)) = disk (w_os (p_lib pr))))"
proof -
  have f: "f\<lparr>file_ID := None\<rparr> = f" using assms(4) by (cases f) simp
  have r: "reads Pr be (p_lib pr) vid fh (f\<lparr>file_ID := None\<rparr>) i c p" using assms(3) f by simp
  obtain n pr1 where c: "cat_file Pr vid fh pr = Ret (Done (), pr1)" "p_out pr1 = p_out pr @ to_string (take (n * chunk) p)"
    "disk (w_os (p_lib pr1)) = disk (w_os (p_lib pr))"
    using cat_loop_any [OF assms(1,2,5) r, of 0 "zeros chunk"] by (auto simp: cat_file_def)
  show ?thesis
  proof (rule exI [of _ n], rule exI [of _ pr1], intro conjI c impI)
    assume h: "p \<noteq> [] \<and> (r1 \<noteq> None \<or> fst (next_fault (interrupted s1)) \<noteq> None)"
    note e = fresh_read_error [OF assms(2-4) conjunct1 [OF h] assms(6) conjunct2 [OF h]]
    show "p_out pr1 = p_out pr"
      using e [of "\<lambda>_ d. print (to_string d)" "()"] c(1) by (auto simp: cat_file_def)
    show "\<exists>pr2. read_loop emit Pr vid fh 0 (zeros chunk) acc pr = Ret (Done acc, pr2) \<and> p_out pr2 = p_out pr \<and>
         disk (w_os (p_lib pr2)) = disk (w_os (p_lib pr))"
      by (rule e)
  qed
qed

text \<open>A file of six bytes that was just opened, in a system where the calls \<open>fs\<close> are going to fail.\<close>

abbreviation toy_again :: "world \<Rightarrow> (errno \<times> nat) option list \<Rightarrow> proc" where
  "toy_again w fs \<equiv> \<lparr>p_lib = w\<lparr>w_os := (w_os w)\<lparr>faults := fs\<rparr>\<rparr>, p_out = [], p_in = [], p_in_fails = False\<rparr>"

lemma toy_readable:
  obtains w :: world and c where
    "\<forall>fs. reads toy_prims toy_be (p_lib (toy_again w fs)) 0 0 (toy_file None) 0 c [72, 105, 33, 33, 33, 10]"
proof -
  let ?pr = "toy_proc [72, 105, 33, 33, 33, 10]" and ?f = "toy_file None"
  obtain pr1 where p1: "ready toy_prims toy_be 0 0 ?f 0 (p_in ?pr @ drop (length (p_in ?pr)) []) pr1" "copied 0 0 0 ?pr pr1"
    using put_file_run [OF toy_prims_ok toy_be_ok toy_ready, of "p_in ?pr"] by auto
  define w where "w = toy_world (w_os (p_lib pr1)) False [(0, ?f)]"
  have s: "fds (w_os (p_lib pr1)) = fds (toy_os [])" "quiet (w_os (p_lib pr1))"
    using p1 by (auto simp: copied_def only_file_def toy_world_def toy_os_def ready_def)
  have "fresh_handle toy_be 0 0 ?f 0 \<lparr>p_lib = w, p_out = [], p_in = [], p_in_fails = False\<rparr>"
    unfolding w_def by (rule toy_fresh_handle [OF s])
  from fresh_reading [OF toy_be_ok p1(1) this] obtain fid c where
    r: "reads toy_prims toy_be w 0 0 (?f\<lparr>file_ID := fid\<rparr>) 0 c [72, 105, 33, 33, 33, 10]"
    by (auto simp: reading_def w_def toy_world_def)
  have "volume_of w 0 = Some (toy_volume False [(0, ?f)])" by (simp add: w_def toy_world_def volume_of_def table_lookup_def)
  then have "fid = None" using r by (simp add: reads_def opened_def toy_volume_def table_lookup_def toy_file_def)
  then have r: "opened toy_prims toy_be (with_mode 0 w) 0 0 ?f 0 c [72, 105, 33, 33, 33, 10]" using r by (simp add: reads_def toy_file_def)
  have "reads toy_prims toy_be (p_lib (toy_again w fs)) 0 0 ?f 0 c [72, 105, 33, 33, 33, 10]" for fs
  proof -
    have "as_writable 0 ((w_os w)\<lparr>faults := fs\<rparr>) = (as_writable 0 (w_os w))\<lparr>faults := fs\<rparr>"
      by (cases "w_os w") (simp add: as_writable_def)
    moreover have "get_fd ((as_writable 0 (w_os w))\<lparr>faults := fs\<rparr>) k = get_fd (as_writable 0 (w_os w)) k" for k
      unfolding as_writable_def get_fd_def by simp
    moreover have "opened toy_prims toy_be ((with_mode 0 w)\<lparr>w_os := (as_writable 0 (w_os w))\<lparr>faults := fs\<rparr>\<rparr>) 0 0 ?f 0 c [72, 105, 33, 33, 33, 10]"
      by (rule opened_same_file [OF r]) (simp_all only: calculation(2) with_mode_simps, simp add: as_writable_def)
    ultimately show ?thesis by (simp add: reads_def with_mode_def toy_file_def)
  qed
  then show thesis using that by blast
qed

theorem read_error_ends_copy_witness:
  "\<exists>w pr1 pr2 pr3. cat_file toy_prims 0 0 (toy_again w []) = Ret (Done (), pr1) \<and> p_out pr1 = to_string [72, 105, 33, 33, 33, 10] \<and>
    cat_file toy_prims 0 0 (toy_again w [None, Some (EIO, 0)]) = Ret (Done (), pr2) \<and> p_out pr2 = [] \<and>
    read_loop (\<lambda>acc d. retc (acc @ d)) toy_prims 0 0 0 (zeros chunk) [] (toy_again w [None, Some (EIO, 0)]) = Ret (Done [], pr3)"
proof -
  obtain w :: world and c where
    "\<forall>fs. reads toy_prims toy_be (p_lib (toy_again w fs)) 0 0 (toy_file None) 0 c [72, 105, 33, 33, 33, 10]"
    by (rule toy_readable)
  then have r: "reads toy_prims toy_be (p_lib (toy_again w fs)) 0 0 (toy_file None) 0 c [72, 105, 33, 33, 33, 10]" for fs by blast
  have f: "file_ID (toy_file None) = None" "toy_file None\<lparr>file_ID := None\<rparr> = toy_file None" by (simp_all add: toy_file_def)
  have l: "length [72, 105, 33, 33, 33, 10 :: 8 word] \<le> 2 ^ 56" by simp
  have "reading toy_prims toy_be 0 0 (toy_file None) 0 c [72, 105, 33, 33, 33, 10] (toy_again w [])"
    using r [of "[]"] f(2) unfolding reading_def by (intro conjI exI [of _ None]) simp_all
  from cat_file_run [OF toy_prims_ok toy_be_ok this l] obtain pr1 where
    1: "cat_file toy_prims 0 0 (toy_again w []) = Ret (Done (), pr1)" "p_out pr1 = to_string [72, 105, 33, 33, 33, 10]" by auto
  let ?pr = "toy_again w [None, Some (EIO, 0)]"
  have "next_fault (interrupted (w_os (p_lib ?pr))) = (None, (w_os w)\<lparr>faults := [Some (EIO, 0)]\<rparr>)"
    by (simp add: next_fault_def interrupted_def)
  from read_error_ends_copy [OF toy_prims_ok toy_be_ok r f(1) l this, where emit = "\<lambda>acc d. retc (acc @ d)" and acc = "[]"]
  obtain pr2 pr3 where "cat_file toy_prims 0 0 ?pr = Ret (Done (), pr2)" "p_out pr2 = []"
    "read_loop (\<lambda>acc d. retc (acc @ d)) toy_prims 0 0 0 (zeros chunk) [] ?pr = Ret (Done [], pr3)"
    by (auto simp: next_fault_def interrupted_def)
  with 1 show ?thesis by blast
qed

section \<open>The paths that \<^verbatim>\<open>sync\<close> compares\<close>

text \<open>C18: The two directions of \<^verbatim>\<open>sync\<close> agree on which file of the volume belongs to which plaintext
  file. The base becomes a clean absolute path. For a file whose names below the source
  directory are \<open>rs\<close>, encrypting goes to the base extended by \<open>rs\<close>, the path that walking
  through the volume reaches; and from there decrypting comes back to the same relative
  path and the same plaintext path.\<close>

theorem sync_paths_agree:
  assumes "propers src" "propers rs" "rs \<noteq> []"
  shows "\<exists>bs. propers bs \<and> cleanVol b = abs_path bs \<and>
    (let p = foldl path_Join (abs_path src) rs; rel = join_slash rs; vpath = foldl vjoin (cleanVol b) rs in
       path_Rel (abs_path src) p = Some rel \<and> cleanVol (cleanVol b @ slash # rel) = vpath \<and>
       trimPrefix (trimPrefix vpath (cleanVol b)) ''/'' = rel \<and> path_Join (abs_path src) rel = p)"
proof -
  obtain bs where b: "propers bs" "cleanVol b = abs_path bs" using cleanVol_abs_path by blast
  show ?thesis
    unfolding Let_def path_Joins [OF assms(1,2)] b(2) vjoins [OF b(1) assms(2)]
    by (intro exI [of _ bs] conjI b(1) refl path_Rel_abs_path [OF assms] cleanVol_append [OF b(1) assms(2,3)]
        trim_base [OF b(1) assms(2,3)] path_Join_rel [OF assms])
qed

theorem sync_paths_agree_witness:
  "foldl path_Join ''/src'' [''d'', ''f''] = ''/src/d/f'' \<and>
    path_Rel ''/src'' (foldl path_Join ''/src'' [''d'', ''f'']) = Some ''d/f''"
proof -
  have a: "propers [''src'']" "propers [''d'', ''f'']" "[''d'', ''f''] \<noteq> []" "abs_path [''src''] = ''/src''"
    "join_slash [''d'', ''f''] = ''d/f''" "foldl path_Join ''/src'' [''d'', ''f''] = ''/src/d/f''"
    by code_simp+
  show ?thesis using sync_paths_agree [OF a(1-3)] unfolding Let_def a(4,5) using a(6) by blast
qed

section \<open>Times\<close>

text \<open>C40: Two times count as equal exactly when they are at most the window apart, for all times
  less than \<open>2^63\<close> seconds apart. At exactly \<open>2^63\<close> seconds the negation of the difference
  overflows and they count as equal under every window.\<close>

theorem window_exact:
  assumes "\<bar>sint a - sint b\<bar> < 2 ^ 63"
  shows "(withinWindow a b w \<longleftrightarrow> \<bar>sint a - sint b\<bar> \<le> sint w) \<and> withinWindow (b + push_bit 63 1) b w"
  using withinWindow_eq [OF assms] withinWindow_overflow [of "b + push_bit 63 1" b w] by auto

theorem window_exact_witness:
  "withinWindow 1700000000 1699999998 2 \<and> \<not> withinWindow 1700000000 1699999997 2 \<and> withinWindow (7 + push_bit 63 1) 7 2"
proof -
  have s: "\<bar>sint (1700000000 :: 64 word) - sint (1699999998 :: 64 word)\<bar> = 2" "\<bar>sint (1700000000 :: 64 word) - sint (1699999997 :: 64 word)\<bar> = 3"
    "\<bar>sint (7 :: 64 word) - sint (7 :: 64 word)\<bar> = 0" "sint (2 :: 64 word) = 2"
    by code_simp+
  have "withinWindow 1700000000 1699999998 2" using window_exact [of 1700000000 1699999998 2] s by simp
  moreover have "\<not> withinWindow 1700000000 1699999997 2" using window_exact [of 1700000000 1699999997 2] s by simp
  moreover have "withinWindow (7 + push_bit 63 1) 7 2" using window_exact [of 7 7 2] s by simp
  ultimately show ?thesis by blast
qed

end
