(* ===== verification/OpenNofollow.thy ===== *)
theory OpenNofollow
  imports Readonly NameLaws
begin

unbundle bit_operations_syntax

text \<open>
  Opening a directory below another one without following symbolic links
  (\<^verbatim>\<open>open_nofollow.go\<close>). A name \<open>..\<close> in the relative path would need the parents of directories,
  which the state does not have: such a name is not found here.
\<close>

section \<open>The code\<close>

text \<open>\<open>syscall.Open\<close> with \<open>O_DIRECTORY|O_PATH\<close>, which follows links.\<close>

definition raw_open_base :: "string \<Rightarrow> os \<Rightarrow> (errno + int) \<times> os" where
  "raw_open_base path s = (case lookup_path s True path of
     Inl e \<Rightarrow> (Inl e, s) | Inr i \<Rightarrow> raw_open_inode i (O_DIRECTORY OR O_PATH) s)"

fun open_parts :: "int \<Rightarrow> string list \<Rightarrow> os \<Rightarrow> ((int \<times> errno option) \<times> os) go" where
  "open_parts dirfd [] s = Ret ((dirfd, None), s)"
| "open_parts dirfd (name # parts) s =
     go_bind (Openat dirfd name (O_NOFOLLOW OR O_DIRECTORY OR O_PATH) 0 s) (\<lambda>(r, s1).
       let s2 = close_quietly dirfd s1
       in case r of Inl e \<Rightarrow> Ret ((- 1, Some e), s2) | Inr dirfd2 \<Rightarrow> open_parts dirfd2 parts s2)"

definition OpenDirNofollow :: "string \<Rightarrow> string \<Rightarrow> os \<Rightarrow> ((int \<times> errno option) \<times> os) go" where
  "OpenDirNofollow baseDir relPath s =
     (if \<not> is_abs baseDir then Ret ((- 1, Some EINVAL), s)
      else if is_abs relPath then Ret ((- 1, Some EINVAL), s)
      else go_bind (retryEINTR (sys (raw_open_base baseDir)) s) (\<lambda>(r, s1). case r of
          Inl e \<Rightarrow> Ret ((- 1, Some e), s1)
        | Inr dirfd \<Rightarrow> if relPath = [] then Ret ((dirfd, None), s1)
            else open_parts dirfd (split_slash relPath) s1))"

section \<open>Descriptors\<close>

text \<open>Between two states one descriptor was opened on inode \<open>j\<close>, or none.\<close>

definition same_fds :: "os \<Rightarrow> os \<Rightarrow> bool" where
  "same_fds s s' \<longleftrightarrow> disk s' = disk s \<and> (\<forall>k. get_fd s' k = get_fd s k)"

definition one_more :: "int \<Rightarrow> nat \<Rightarrow> os \<Rightarrow> os \<Rightarrow> bool" where
  "one_more fd j s s' \<longleftrightarrow> disk s' = disk s \<and> get_fd s fd = None \<and> (\<forall>k. k \<noteq> fd \<longrightarrow> get_fd s' k = get_fd s k) \<and>
     (\<exists>e. get_fd s' fd = Some e \<and> of_ino e = j)"

lemma alloc_one_more: "alloc_fd e s = (fd, s') \<Longrightarrow> one_more fd (of_ino e) s s'"
  using free_slot_free [of "fds s"] alloc_fd_disk' [of e s fd s']
  by (auto simp: one_more_def alloc_fd_def Let_def get_fd_def nth_list_update nth_append split: if_splits)

lemma close_fds: "get_fd (close_quietly fd s) k = (if k = fd then None else get_fd s k)" "disk (close_quietly fd s) = disk s"
  by (auto simp: close_quietly_def Close_def next_fault_def get_fd_def nth_list_update disk_def split: option.splits list.splits)

text \<open>The open file of a new descriptor is a directory, and no link.\<close>

definition is_dir :: "os \<Rightarrow> nat \<Rightarrow> bool" where
  "is_dir s i = (case inode_node (inodes s ! i) of DirF es \<Rightarrow> True | _ \<Rightarrow> False)"

lemma open_dir_inode:
  assumes "flag_set fl O_DIRECTORY" "raw_open_inode j fl s = (r, s')"
  shows "case r of Inl e \<Rightarrow> s' = s | Inr fd \<Rightarrow> is_dir s j \<and> one_more fd j s s'"
  using assms alloc_one_more
  by (fastforce simp: raw_open_inode_def Let_def is_dir_def split: node.splits if_splits prod.splits)

lemma same_fds_faults: "same_fds s (s\<lparr>faults := fs\<rparr>)"
  by (simp add: same_fds_def)

lemma retry_open:
  assumes "\<And>s. fst (f s) \<noteq> Inl EINTR"
    and "\<And>s r s'. f s = (r, s') \<Longrightarrow> case r of Inl e \<Rightarrow> s' = s | Inr fd \<Rightarrow> \<exists>j. Q s j \<and> one_more fd j s s'"
    and "\<And>s fs j. Q (s\<lparr>faults := fs\<rparr>) j = Q s j"
  obtains r s' where "retryEINTR (sys f) s = Ret (r, s')"
    "case r of Inl e \<Rightarrow> same_fds s s' | Inr fd \<Rightarrow> \<exists>j. Q s j \<and> one_more fd j s s'"
proof -
  obtain x s1 where x: "next_fault (interrupted s) = (x, s1)" by (cases "next_fault (interrupted s)")
  obtain fs where s1: "s1 = s\<lparr>faults := fs\<rparr>" using next_fault_interrupted(1) [OF x] by blast
  obtain r s' where f: "f s1 = (r, s')" by (cases "f s1")
  have st: "case r of Inl e \<Rightarrow> same_fds s s' | Inr fd \<Rightarrow> \<exists>j. Q s j \<and> one_more fd j s s'"
    using assms(2) [OF f] assms(3) same_fds_faults by (cases r) (auto simp: s1 one_more_def)
  have run: "retryEINTR (sys f) s = Ret (sys f (interrupted s))" by (rule retryEINTR_sys [OF assms(1)])
  show ?thesis
  proof (cases x)
    case None
    then show ?thesis using that [of r s'] st run x f by (simp add: sys_def)
  next
    case (Some ek)
    then show ?thesis
      using that [of "Inl (fst ek)" s1] run x same_fds_faults [of s fs] by (simp add: sys_def s1 case_prod_beta)
  qed
qed

section \<open>The walk stays in the tree\<close>

text \<open>From directory to directory by the entries alone; a link on the way has no result.\<close>

fun walks :: "os \<Rightarrow> nat \<Rightarrow> string list \<Rightarrow> nat option" where
  "walks s i [] = Some i"
| "walks s i (n # ns) =
     (case inode_node (inodes s ! i) of
        DirF es \<Rightarrow> (case entry s i es n of Inr j \<Rightarrow> if is_dir s j then walks s j ns else None | Inl e \<Rightarrow> None)
      | _ \<Rightarrow> None)"

lemma walks_disk: "disk s' = disk s \<Longrightarrow> walks s' i ns = walks s i ns"
proof (induction ns arbitrary: i)
  case (Cons n ns)
  then have "inodes s' = inodes s" by (simp add: disk_def)
  then show ?case using Cons by (auto simp: entry_def is_dir_def split: node.splits option.splits)
qed simp

definition in_dir :: "os \<Rightarrow> int \<Rightarrow> string \<Rightarrow> nat \<Rightarrow> bool" where
  "in_dir s d n j \<longleftrightarrow> resolve s d n = Inr j \<and> is_dir s j"

lemma Openat_dir:
  obtains r s' where "Openat d n (O_NOFOLLOW OR O_DIRECTORY OR O_PATH) 0 s = Ret (r, s')"
    "case r of Inl e \<Rightarrow> same_fds s s' | Inr fd \<Rightarrow> \<exists>j. in_dir s d n j \<and> one_more fd j s s'"
proof -
  define fl where "fl = ((O_NOFOLLOW OR O_DIRECTORY OR O_PATH) OR O_CLOEXEC)"
  have fl: "flag_set fl O_DIRECTORY" "\<not> flag_set fl O_CREAT" by (simp_all add: fl_def flag_set_def open_flags)
  have o: "Openat d n (O_NOFOLLOW OR O_DIRECTORY OR O_PATH) 0 s = retryEINTR (sys (raw_openat d n fl 0)) s"
    by (simp add: Openat_def fl_def open_flags)
  have step: "case r of Inl e \<Rightarrow> s' = s | Inr fd \<Rightarrow> \<exists>j. in_dir s d n j \<and> one_more fd j s s'"
    if "raw_openat d n fl 0 s = (r, s')" for s r s'
  proof -
    from that fl(2) consider e where "r = Inl e" "s' = s" | j where "resolve s d n = Inr j" "raw_open_inode j fl s = (r, s')"
      by (auto simp: raw_openat_def open_in_def resolve_def split: sum.splits)
    then show ?thesis
    proof cases
      case (2 j)
      from 2(1) open_dir_inode [OF fl(1) 2(2)] show ?thesis by (cases r) (auto simp: in_dir_def)
    qed simp
  qed
  show ?thesis
    by (rule retry_open [of "raw_openat d n fl 0" "\<lambda>s. in_dir s d n" s])
       (use lookup_no_EINTR step that o in \<open>auto simp: in_dir_def is_dir_def\<close>)
qed

lemma open_parts_walk:
  assumes "one_more d i s0 s"
  shows "\<exists>fd er s'. open_parts d ns s = Ret ((fd, er), s') \<and> (case er of
      None \<Rightarrow> \<exists>j. walks s0 i ns = Some j \<and> one_more fd j s0 s'
    | Some e \<Rightarrow> fd = - 1 \<and> same_fds s0 s')"
  using assms
proof (induction ns arbitrary: d i s)
  case Nil
  then show ?case by simp
next
  case (Cons n ns)
  obtain r s1 where o: "Openat d n (O_NOFOLLOW OR O_DIRECTORY OR O_PATH) 0 s = Ret (r, s1)"
    "case r of Inl e \<Rightarrow> same_fds s s1 | Inr fd \<Rightarrow> \<exists>j. in_dir s d n j \<and> one_more fd j s s1"
    by (rule Openat_dir)
  define s2 where "s2 = close_quietly d s1"
  have c: "get_fd s2 k = (if k = d then None else get_fd s1 k)" "disk s2 = disk s1" for k
    unfolding s2_def by (rule close_fds)+
  show ?case
  proof (cases r)
    case (Inl e)
    then have "same_fds s0 s2" using o(2) c Cons.prems by (auto simp: same_fds_def one_more_def)
    then show ?thesis using o(1) Inl by (simp add: s2_def)
  next
    case (Inr fd)
    then obtain j where j: "in_dir s d n j" "one_more fd j s s1" using o(2) by auto
    have ne: "fd \<noteq> d" using j(2) Cons.prems by (auto simp: one_more_def)
    have m: "one_more fd j s0 s2"
      using j(2) c Cons.prems ne unfolding one_more_def by (metis (mono_tags, lifting))
    have "inodes s = inodes s0" using Cons.prems by (simp add: one_more_def disk_def)
    then have w: "walks s0 i (n # ns) = walks s0 j ns"
      using j(1) Cons.prems by (auto simp: in_dir_def resolve_def dir_at_def one_more_def entry_def is_dir_def
          split: option.splits node.splits if_splits)
    have p: "open_parts d (n # ns) s = open_parts fd ns s2" using o(1) Inr by (simp add: s2_def)
    show ?thesis unfolding w p by (rule Cons.IH [OF m])
  qed
qed

lemma host_lookup_no_EINTR: "host_lookup k s b p \<noteq> Inl EINTR"
  by (induction k s b p rule: host_lookup.induct) (auto split: option.splits sum.splits node.splits simp: Let_def entry_errors)

lemma host_lookup_faults: "host_lookup k (s\<lparr>faults := fs\<rparr>) b p = host_lookup k s b p"
proof (induction k arbitrary: b p)
  case (Suc k)
  show ?case by (simp add: Suc.IH entry_def split: option.splits sum.splits node.splits)
qed simp

lemma OpenDirNofollow_safe:
  "\<exists>fd er s'. OpenDirNofollow b rel s = Ret ((fd, er), s') \<and> (case er of
      None \<Rightarrow> is_abs b \<and> \<not> is_abs rel \<and> (\<exists>i j. lookup_path s True b = Inr i \<and>
        walks s i (if rel = [] then [] else split_slash rel) = Some j \<and> one_more fd j s s')
    | Some e \<Rightarrow> fd = - 1 \<and> same_fds s s')"
proof (cases "is_abs b \<and> \<not> is_abs rel")
  case True
  have step: "case r of Inl e \<Rightarrow> s' = s | Inr fd \<Rightarrow> \<exists>j. (lookup_path s True b = Inr j) \<and> one_more fd j s s'"
    if "raw_open_base b s = (r, s')" for s r s'
    using that open_dir_inode [of "O_DIRECTORY OR O_PATH"]
    by (fastforce simp: raw_open_base_def flag_set_def open_flags split: sum.splits)
  have ne: "fst (raw_open_base b s) \<noteq> Inl EINTR" for s
    using host_lookup_no_EINTR by (auto simp: raw_open_base_def lookup_path_def raw_open_inode_def Let_def split: sum.splits node.splits prod.splits)
  have lf: "(lookup_path (s\<lparr>faults := fs\<rparr>) True b = Inr j) = (lookup_path s True b = Inr j)" for s fs j
    by (simp add: lookup_path_def host_lookup_faults)
  obtain r s1 where o: "retryEINTR (sys (raw_open_base b)) s = Ret (r, s1)"
    "case r of Inl e \<Rightarrow> same_fds s s1 | Inr fd \<Rightarrow> \<exists>j. lookup_path s True b = Inr j \<and> one_more fd j s s1"
    by (rule retry_open [of "raw_open_base b" "\<lambda>s j. lookup_path s True b = Inr j", OF ne step lf])
  show ?thesis
  proof (cases r)
    case (Inl e)
    then show ?thesis using o True by (simp add: OpenDirNofollow_def)
  next
    case (Inr d)
    then obtain i where i: "lookup_path s True b = Inr i" "one_more d i s s1" using o(2) by auto
    have run: "OpenDirNofollow b rel s = (if rel = [] then Ret ((d, None), s1) else open_parts d (split_slash rel) s1)"
      using True o(1) Inr by (simp add: OpenDirNofollow_def)
    show ?thesis
    proof (cases "rel = []")
      case True
      then show ?thesis using run i \<open>is_abs b \<and> \<not> is_abs rel\<close> by (intro exI [of _ d] exI [of _ None] exI [of _ s1]) auto
    next
      case False
      obtain fd er s' where w: "open_parts d (split_slash rel) s1 = Ret ((fd, er), s')"
        "case er of None \<Rightarrow> \<exists>j. walks s i (split_slash rel) = Some j \<and> one_more fd j s s' | Some e \<Rightarrow> fd = - 1 \<and> same_fds s s'"
        using open_parts_walk [OF i(2)] by blast
      then show ?thesis using run False i(1) \<open>is_abs b \<and> \<not> is_abs rel\<close>
        by (intro exI [of _ fd] exI [of _ er] exI [of _ s']) (cases er; auto)
    qed
  qed
qed (auto simp: OpenDirNofollow_def same_fds_def)

section \<open>Flushing\<close>

text \<open>\<open>Flush\<close> (\<^verbatim>\<open>eintr.go\<close>) closes a duplicate of the descriptor, again after an interruption of either call.\<close>

lemma Dup_EINTR: "Dup fd s = (Inl EINTR, s') \<Longrightarrow> length (faults s') < length (faults s)"
  by (auto simp: Dup_def sys_def next_fault_def raw_dup_def Let_def split: list.splits option.splits prod.splits)

lemma Dup_faults: "Dup fd s = (Inr k, s') \<Longrightarrow> length (faults s') \<le> length (faults s)"
  by (auto simp: Dup_def sys_def next_fault_def raw_dup_def Let_def dest!: alloc_fd_get(6) split: list.splits option.splits prod.splits)

lemma Close_EINTR: "Close fd s = (Inl EINTR, s') \<Longrightarrow> length (faults s') < length (faults s)"
  by (auto simp: Close_def next_fault_def split: list.splits option.splits)

function Flush :: "int \<Rightarrow> os \<Rightarrow> errno option \<times> os" where
  "Flush fd s =
     (case Dup fd s of
        (Inl e, s1) \<Rightarrow> if e = EINTR then Flush fd s1 else (Some e, s1)
      | (Inr newFd, s1) \<Rightarrow> (case Close newFd s1 of
          (Inl e, s2) \<Rightarrow> if e = EINTR then Flush fd s2 else (Some e, s2)
        | (Inr _, s2) \<Rightarrow> (None, s2)))"
  by pat_completeness auto
termination
  by (relation "measure (\<lambda>(fd, s). length (faults s))")
     (auto dest!: Dup_EINTR [OF sym] Dup_faults [OF sym] Close_EINTR [OF sym])

declare Flush.simps [simp del]

text \<open>Whatever fails, the duplicate is gone afterwards.\<close>

lemma same_fds_trans: "same_fds s s' \<Longrightarrow> same_fds s' s'' \<Longrightarrow> same_fds s s''"
  by (simp add: same_fds_def)

lemma Dup_fds: "Dup fd s = (r, s') \<Longrightarrow> case r of Inl e \<Rightarrow> same_fds s s' | Inr k \<Rightarrow> \<exists>j. one_more k j s s'"
  by (auto simp: Dup_def sys_def next_fault_def raw_dup_def Let_def same_fds_faults dest!: alloc_one_more
      split: list.splits option.splits prod.splits) (auto simp: one_more_def same_fds_def)

lemma Flush_fds: "same_fds s (snd (Flush fd s))"
proof (induction fd s rule: Flush.induct)
  case (1 fd s)
  obtain r s1 where d: "Dup fd s = (r, s1)" by (cases "Dup fd s")
  show ?case
  proof (cases r)
    case (Inl e)
    have s1: "same_fds s s1" using Dup_fds [OF d] Inl by simp
    then show ?thesis using 1(1) [OF d [symmetric] Inl] same_fds_trans [OF s1] d Inl by (subst Flush.simps) auto
  next
    case (Inr k)
    obtain q s2 where c: "Close k s1 = (q, s2)" by (cases "Close k s1")
    have k: "get_fd s2 x = (if x = k then None else get_fd s1 x)" "disk s2 = disk s1" for x
      using close_fds [of k s1] c by (simp_all add: close_quietly_def)
    have s2: "same_fds s s2" using Dup_fds [OF d] Inr k by (auto simp: one_more_def same_fds_def)
    then show ?thesis
      using 1(2) [OF d [symmetric] Inr c [symmetric]] same_fds_trans [OF s2] d Inr c
      by (subst Flush.simps) (auto split: sum.split)
  qed
qed

end
