(* ===== verification/ExitCodes.thy ===== *)
theory ExitCodes
  imports ConfigFile
begin

text \<open>
  The exit codes (\<^verbatim>\<open>internal/exitcodes\<close>) besides those that errors of the configuration carry, and
  the end of the program with the code of an error.
\<close>

definition exit_Usage :: nat where "exit_Usage = 1"
definition exit_CipherDir :: nat where "exit_CipherDir = 6"
definition exit_Init :: nat where "exit_Init = 7"
definition exit_LoadConf :: nat where "exit_LoadConf = 8"
definition exit_ReadPassword :: nat where "exit_ReadPassword = 9"
definition exit_MountPoint :: nat where "exit_MountPoint = 10"
definition exit_Other :: nat where "exit_Other = 11"
definition exit_MasterKey :: nat where "exit_MasterKey = 14"
definition exit_SigInt :: nat where "exit_SigInt = 15"
definition exit_PanicLogNotEmpty :: nat where "exit_PanicLogNotEmpty = 16"
definition exit_ForkChild :: nat where "exit_ForkChild = 17"
definition exit_OpenSSL :: nat where "exit_OpenSSL = 18"
definition exit_FuseNewServer :: nat where "exit_FuseNewServer = 19"
definition exit_CtlSock :: nat where "exit_CtlSock = 20"
definition exit_PasswordEmpty :: nat where "exit_PasswordEmpty = 22"
definition exit_OpenConf :: nat where "exit_OpenConf = 23"
definition exit_WriteConf :: nat where "exit_WriteConf = 24"
definition exit_Profiler :: nat where "exit_Profiler = 25"
definition exit_FsckErrors :: nat where "exit_FsckErrors = 26"
definition exit_ExcludeError :: nat where "exit_ExcludeError = 29"
definition exit_DevNull :: nat where "exit_DevNull = 30"
definition exit_FIDO2Error :: nat where "exit_FIDO2Error = 31"

lemmas exit_codes = exit_Usage_def exit_CipherDir_def exit_Init_def exit_LoadConf_def exit_ReadPassword_def
  exit_MountPoint_def exit_Other_def exit_PasswordIncorrect_def exit_ScryptParams_def exit_MasterKey_def
  exit_SigInt_def exit_PanicLogNotEmpty_def exit_ForkChild_def exit_OpenSSL_def exit_FuseNewServer_def
  exit_CtlSock_def exit_PasswordEmpty_def exit_OpenConf_def exit_WriteConf_def exit_Profiler_def
  exit_FsckErrors_def exit_DeprecatedFS_def exit_ExcludeError_def exit_DevNull_def exit_FIDO2Error_def

definition NewErr :: "string \<Rightarrow> nat \<Rightarrow> err" where
  "NewErr msg code = Coded msg code"

definition exit_with :: "err \<Rightarrow> 'a go" where
  "exit_with e = (case e of Coded msg code \<Rightarrow> Panic (Exit code) | _ \<Rightarrow> Panic (Exit exit_Other))"

lemma exit_with_new [simp]: "exit_with (NewErr msg code) = Panic (Exit code)"
  by (simp add: exit_with_def NewErr_def)

text \<open>No code is used twice, and 2, the code of a Go panic, is left free.\<close>

lemma exit_codes_distinct:
  "distinct [exit_Usage, exit_CipherDir, exit_Init, exit_LoadConf, exit_ReadPassword, exit_MountPoint, exit_Other,
     exit_PasswordIncorrect, exit_ScryptParams, exit_MasterKey, exit_SigInt, exit_PanicLogNotEmpty, exit_ForkChild,
     exit_OpenSSL, exit_FuseNewServer, exit_CtlSock, exit_PasswordEmpty, exit_OpenConf, exit_WriteConf, exit_Profiler,
     exit_FsckErrors, exit_DeprecatedFS, exit_ExcludeError, exit_DevNull, exit_FIDO2Error, 2]"
  by (simp add: exit_codes)

end
