(* ===== verification/SystemClaims.thy ===== *)
theory SystemClaims
  imports OpenNofollow NameClaims ExitCodes
begin

text \<open>The properties of the layer over the system calls: reading directories, and opening them without links.\<close>

section \<open>Reading directories\<close>

text \<open>C19: \<open>Getdents\<close> lists a directory completely: on a directory open at its start it returns every
  entry once, in the order of the kernel, with the type from the entry, and without \<open>.\<close> and \<open>..\<close>,
  however many calls the kernel needs; it fails only if a call fails. The directory is not changed.\<close>

theorem getdents_complete:
  assumes "dir_open s fd e es" "of_pos e = 0" "names_ok es"
  shows "\<exists>r s'. Getdents fd s = Ret (r, s') \<and> inodes s' = inodes s \<and>
    ((\<exists>er. r = Inl er) \<and> \<not> quiet s \<or> r = Inr (listed s es))"
  by (rule getdents_dir [OF assms]) blast

theorem getdents_complete_witness:
  "\<exists>s'. Getdents 1 toy_dir_os = Ret (Inr [(''gocryptfs.diriv'', S_IFREG), (''Dw8PDw8PDw8PDw8PDw8PYQ'', S_IFREG), (''l'', S_IFLNK)], s')"
proof -
  let ?es = "[(DirIVFilename, 2), (''Dw8PDw8PDw8PDw8PDw8PYQ'', 0), (''l'', 3)]"
  have d: "dir_open toy_dir_os 1 \<lparr>of_ino = 1, of_pos = 0, of_wr = False\<rparr> ?es" "names_ok ?es"
    "listed toy_dir_os ?es = [(''gocryptfs.diriv'', S_IFREG), (''Dw8PDw8PDw8PDw8PDw8PYQ'', S_IFREG), (''l'', S_IFLNK)]"
    "quiet toy_dir_os"
    by code_simp+
  from getdents_complete [OF d(1) _ d(2)] d(3,4) show ?thesis by auto
qed

section \<open>Opening below a directory\<close>

text \<open>C21: \<open>OpenDirNofollow\<close> ends with a directory or an error. The directory is the one that the
  names of the path lead to from entry to entry, each of them a directory itself: no symbolic
  link below the base is followed. Exactly one descriptor is new then, and none after an
  error, whichever call fails.\<close>

theorem open_dir_nofollow:
  "\<exists>fd er s'. OpenDirNofollow b rel s = Ret ((fd, er), s') \<and> disk s' = disk s \<and> (case er of
     None \<Rightarrow> is_abs b \<and> \<not> is_abs rel \<and> (\<exists>i j. lookup_path s True b = Inr i \<and>
       walks s i (if rel = [] then [] else split_slash rel) = Some j \<and> one_more fd j s s')
   | Some e \<Rightarrow> fd = - 1 \<and> (\<forall>k. get_fd s' k = get_fd s k))"
proof -
  obtain fd er s' where "OpenDirNofollow b rel s = Ret ((fd, er), s')"
    "case er of None \<Rightarrow> is_abs b \<and> \<not> is_abs rel \<and> (\<exists>i j. lookup_path s True b = Inr i \<and>
        walks s i (if rel = [] then [] else split_slash rel) = Some j \<and> one_more fd j s s')
      | Some e \<Rightarrow> fd = - 1 \<and> same_fds s s'"
    using OpenDirNofollow_safe by blast
  then show ?thesis
    by (intro exI [of _ fd] exI [of _ er] exI [of _ s']) (cases er; auto simp: one_more_def same_fds_def)
qed

text \<open>A directory in a directory, and a link to it: the path through the directory is opened, the
  path through the link is not.\<close>

definition toy_tree_os :: os where
  "toy_tree_os = \<lparr>inodes = [\<lparr>inode_node = DirF [(''d'', 1), (''l'', 2)], inode_perm = 0x1C0, inode_mtime = 0\<rparr>,
       \<lparr>inode_node = DirF [(''e'', 3)], inode_perm = 0x1C0, inode_mtime = 0\<rparr>,
       \<lparr>inode_node = LnkF [100], inode_perm = 0x1FF, inode_mtime = 0\<rparr>,
       \<lparr>inode_node = DirF [], inode_perm = 0x1C0, inode_mtime = 0\<rparr>],
     fds = [], host = [(''/v'', 0)], now = 1, faults = []\<rparr>"

theorem open_dir_nofollow_witness:
  "(\<exists>fd s'. OpenDirNofollow ''/v'' ''d/e'' toy_tree_os = Ret ((fd, None), s') \<and> one_more fd 3 toy_tree_os s') \<and>
   (\<exists>e s'. OpenDirNofollow ''/v'' ''l/e'' toy_tree_os = Ret ((- 1, Some e), s'))"
proof -
  have w: "lookup_path toy_tree_os True ''/v'' = Inr 0" "walks toy_tree_os 0 (split_slash ''d/e'') = Some 3"
    "walks toy_tree_os 0 (split_slash ''l/e'') = None" "''d/e'' \<noteq> []" "''l/e'' \<noteq> []"
    by code_simp+
  have r: "case OpenDirNofollow ''/v'' ''d/e'' toy_tree_os of Ret ((fd, er), s') \<Rightarrow> er = None | _ \<Rightarrow> False" by code_simp
  obtain fd er s' where o: "OpenDirNofollow ''/v'' ''d/e'' toy_tree_os = Ret ((fd, er), s')"
    "er = None \<Longrightarrow> \<exists>i j. lookup_path toy_tree_os True ''/v'' = Inr i \<and>
       walks toy_tree_os i (split_slash ''d/e'') = Some j \<and> one_more fd j toy_tree_os s'"
    using open_dir_nofollow [of "''/v''" "''d/e''" toy_tree_os] w(4) by (auto split: option.splits)
  have er: "er = None" using r o(1) by simp
  then have "one_more fd 3 toy_tree_os s'" using o(2) w(1,2) by auto
  moreover have "\<exists>e s'. OpenDirNofollow ''/v'' ''l/e'' toy_tree_os = Ret ((- 1, Some e), s')"
    using open_dir_nofollow [of "''/v''" "''l/e''" toy_tree_os] w by (auto split: option.splits)
  ultimately show ?thesis using o(1) er by blast
qed

end
