(* ===== verification/ContentClaims.thy ===== *)
theory ContentClaims
  imports HandleOps Toy
begin

text \<open>
  The properties of the content layer: sizes and block ranges, headers, blocks and their
  authentication, nonces, and the construction and end of a \<open>CryptoCore\<close>.
\<close>

section \<open>Sizes and ranges\<close>

text \<open>C22: The plaintext size of a file is recovered from its ciphertext size, without wrap-around
  for every size up to 2^57.\<close>

theorem size_roundtrip:
  assumes "be_ok be" "unat p < 2 ^ 57"
  shows "CipherSizeToPlainSize be (PlainSizeToCipherSize be p) = Ret p"
proof -
  note B = be_okD [OF assms(1)]
  define c where "c = PlainSizeToCipherSize be p"
  have c: "unat c = csize (BS be) (OH be) (unat p)"
    unfolding c_def by (rule unat_PlainSizeToCipherSize [OF assms])
  have "csize (BS be) (OH be) (unat p) \<le> 18 + unat p * 41" by (rule csize_bound [OF B(3,17)])
  then have "unat c < 2 ^ 63" using assms(2) c by simp
  then obtain q where q: "CipherSizeToPlainSize be c = Ret q" "unat q = psize (BS be) (OH be) (unat c)"
    using CipherSizeToPlainSize_spec [OF assms(1)] by blast
  have "unat q = unat p" using q(2) psize_csize [OF B(3)] unfolding c by simp
  then show ?thesis using q(1) by (simp add: c_def word_unat_eq_iff)
qed

theorem size_roundtrip_witness:
  "CipherSizeToPlainSize toy_be (PlainSizeToCipherSize toy_be 1000) = Ret 1000"
  using size_roundtrip [OF toy_be_ok, of 1000] by simp

text \<open>A plaintext range is split into the consecutive blocks it meets. The pieces are not
  empty, lie each within one block, follow each other from the offset on, and add up to the
  length.\<close>

theorem plain_range_split:
  assumes "plainBS be \<noteq> 0" "unat off + unat len < 2 ^ 64"
  shows "map (\<lambda>b. unat (BlockNo b)) (ExplodePlainRange be off len)
      = (if unat len = 0 then [] else [unat off div BS be ..< (unat off + unat len - 1) div BS be + 1]) \<and>
    (\<Sum>b\<leftarrow>ExplodePlainRange be off len. unat (Length b)) = unat len \<and>
    (\<forall>b \<in> set (ExplodePlainRange be off len). 0 < unat (Length b) \<and> unat (Skip b) + unat (Length b) \<le> BS be) \<and>
    (\<forall>i < length (ExplodePlainRange be off len). unat (BlockNo (ExplodePlainRange be off len ! i)) * BS be
        + unat (Skip (ExplodePlainRange be off len ! i))
      = unat off + (\<Sum>b\<leftarrow>take i (ExplodePlainRange be off len). unat (Length b)))"
proof -
  have B: "0 < BS be" using assms(1) by (simp add: unat_gt_0)
  define bs where "bs = ExplodePlainRange be off len"
  have e: "map ib_nat bs = explode (BS be) (unat off) (unat len)"
    unfolding bs_def by (rule ExplodePlainRange_nat [OF assms])
  have f: "fst \<circ> ib_nat = (\<lambda>b. unat (BlockNo b))" by (auto simp: ib_nat_def)
  have s: "(\<lambda>(b, s, l). l) \<circ> ib_nat = (\<lambda>b. unat (Length b))" by (auto simp: ib_nat_def)
  have "map (\<lambda>b. unat (BlockNo b)) bs = (if unat len = 0 then [] else [unat off div BS be ..< (unat off + unat len - 1) div BS be + 1])"
    using explode_blocks [OF B, of "unat off" "unat len"] unfolding e [symmetric] by (simp add: f)
  moreover have "(\<Sum>b\<leftarrow>bs. unat (Length b)) = unat len"
    using explode_lengths [OF B, of "unat off" "unat len"] unfolding e [symmetric] by (simp add: s)
  moreover have "0 < unat (Length b) \<and> unat (Skip b) + unat (Length b) \<le> BS be" if "b \<in> set bs" for b
  proof -
    have "ib_nat b \<in> set (explode (BS be) (unat off) (unat len))" using that unfolding e [symmetric] by simp
    then show ?thesis using explode_in_block [OF B, of "unat (BlockNo b)" "unat (Skip b)"] by (simp add: ib_nat_def)
  qed
  moreover have "unat (BlockNo (bs ! i)) * BS be + unat (Skip (bs ! i)) = unat off + (\<Sum>b\<leftarrow>take i bs. unat (Length b))"
    if "i < length bs" for i
    using explode_contiguous [OF B, of i "unat off" "unat len"] that unfolding e [symmetric]
    by (simp add: ib_nat_def take_map s)
  ultimately show ?thesis by (simp add: bs_def)
qed

theorem plain_range_split_witness:
  "map (\<lambda>b. unat (BlockNo b)) (ExplodePlainRange toy_be 6 7) = [1, 2, 3]"
proof -
  have "plainBS toy_be \<noteq> 0" "unat (6 :: uint64) + unat (7 :: uint64) < 2 ^ 64" by simp_all
  from plain_range_split [OF this] show ?thesis by (simp add: upt_rec)
qed

section \<open>Headers\<close>

text \<open>\<open>ParseHeader\<close> accepts exactly what \<open>Pack\<close> makes of the headers of the current
  version with an ID of 16 bytes that are not all zero, and gives that header back.\<close>

theorem header_roundtrip:
  "ParseHeader b = Inr h \<longleftrightarrow> header_ok h \<and> Pack h = Ret b"
  by (rule ParseHeader_iff)

section \<open>Blocks\<close>

lemma DecryptBlocks_sealed:
  assumes be: "be_ok be" and "sealed (Pr, be, i) b vs cs" "blocks_ok be vs"
    and "\<forall>v \<in> set (butlast vs). length v = BS be"
  shows "DecryptBlocks_loop Pr be (concat cs) b i acc = Ret (acc @ concat vs, None)"
  using assms(2-)
proof (induction vs arbitrary: b cs acc)
  case Nil
  then show ?case by (simp add: DecryptBlocks_loop.simps)
next
  case (Cons v vs)
  note B = be_okD [OF be]
  from Cons.prems(1) obtain c ds where cs: "cs = c # ds" by (cases cs) (auto simp: sealed_def)
  have c: "length c = length v + OH be" "DecryptBlock Pr be c b i = Ret (Inr v)"
    using Cons.prems(1) unfolding cs by (auto simp: sealed_def)
  have rest: "sealed (Pr, be, i) (b + 1) vs ds"
    using Cons.prems(1) unfolding cs by (fastforce simp: sealed_def algebra_simps)
  have v: "v \<noteq> []" "length v \<le> BS be" "blocks_ok be vs" using Cons.prems(2) by simp_all
  have cut: "take (CS be) (concat cs) = c \<and> drop (CS be) (concat cs) = concat ds"
  proof (cases "vs = []")
    case True
    then show ?thesis using rest c(1) v(2) by (simp add: cs)
  next
    case False
    then have "length v = BS be" using Cons.prems(3) by simp
    then show ?thesis using c(1) by (simp add: cs)
  qed
  have IH: "DecryptBlocks_loop Pr be (concat ds) (b + 1) i (acc @ v) = Ret ((acc @ v) @ concat vs, None)"
    by (rule Cons.IH [OF rest v(3)]) (use Cons.prems(3) in \<open>cases vs; simp\<close>)
  have "concat cs \<noteq> []" using c(1) v(1) by (cases c) (auto simp: cs)
  then show ?case
    using cut c(2) IH v(2) B(7,8,13) by (subst DecryptBlocks_loop.simps) (simp del: concat_eq_Nil_conv)
qed

text \<open>C26: Decrypting a run of blocks gives back what was encrypted, however the blocks were
  scheduled on the processors.\<close>

theorem blocks_roundtrip:
  assumes "prims_ok Pr" "be_ok be" "id_ok i" "blocks_ok be vs" "\<forall>v \<in> set (butlast vs). length v = BS be"
    and "nonces_ok (IVLen (cryptoCore be)) (length vs) r"
  shows "\<exists>c r'. EncryptBlocks Pr be vs b i r = Ret (c, r') \<and> DecryptBlocks Pr be c b i = Ret (concat vs, None)"
proof -
  have k: "codec_ok (Pr, be, i)" using assms(1-3) by (simp add: codec_ok_def)
  obtain cs where cs: "EncryptBlocks Pr be vs b i r = Ret (concat cs, rng_after (IVLen (cryptoCore be)) (length vs) r)"
    "sealed (Pr, be, i) b vs cs"
    using EncryptBlocks_spec [OF k assms(4,6)] by blast
  have "DecryptBlocks Pr be (concat cs) b i = Ret (concat vs, None)"
    using DecryptBlocks_sealed [OF assms(2) cs(2) assms(4,5), of "[]"] by (simp add: DecryptBlocks_def)
  then show ?thesis using cs(1) by blast
qed

theorem blocks_roundtrip_witness:
  "\<exists>c r'. EncryptBlocks toy_prims toy_be [[1, 2, 3, 4], [5]] 3 None toy_rng = Ret (c, r') \<and>
    DecryptBlocks toy_prims toy_be c 3 None = Ret ([1, 2, 3, 4, 5], None)"
proof -
  have n: "nonces_ok (IVLen (cryptoCore toy_be)) (length [[1, 2, 3, 4], [5 :: byte]]) toy_rng"
    by (simp only: toy_be_simps) code_simp
  show ?thesis
    using blocks_roundtrip [OF toy_prims_ok toy_be_ok, of None "[[1, 2, 3, 4], [5]]" toy_rng 3] n
    by (simp add: id_ok_def)
qed

text \<open>C27: Encrypting on two processors, under any schedule of the two, produces blocks of the same
  lengths that decrypt to the same plaintexts as encrypting one block after the other, and
  uses as much randomness.\<close>

theorem parallel_like_sequential:
  assumes "prims_ok Pr" "be_ok be" "id_ok i" "blocks_ok be vs" "0 < num_cpu Pr"
    and "nonces_ok (IVLen (cryptoCore be)) (length vs) r"
  shows "\<exists>cs ds r'. encryptBlocksParallel Pr be vs b i r = Ret (cs, r') \<and> doEncryptBlocks Pr be vs b i r = Ret (ds, r') \<and>
    map length cs = map length ds \<and>
    (\<forall>j < length vs. DecryptBlock Pr be (cs ! j) (b + of_nat j) i = Ret (Inr (vs ! j)) \<and>
       DecryptBlock Pr be (ds ! j) (b + of_nat j) i = Ret (Inr (vs ! j)))"
proof -
  have k: "codec_ok (Pr, be, i)" using assms(1-3) by (simp add: codec_ok_def)
  obtain cs ds where "encryptBlocksParallel Pr be vs b i r = Ret (cs, rng_after (IVLen (cryptoCore be)) (length vs) r)"
    "sealed (Pr, be, i) b vs cs"
    "doEncryptBlocks Pr be vs b i r = Ret (ds, rng_after (IVLen (cryptoCore be)) (length vs) r)"
    "sealed (Pr, be, i) b vs ds"
    using encryptBlocksParallel_spec [OF k assms(4-6)] doEncryptBlocks_spec [OF k assms(4,6)] by metis
  moreover from this have "map length cs = map length ds"
    by (intro nth_equalityI) (simp_all add: sealed_def)
  ultimately show ?thesis by (auto simp: sealed_def)
qed

theorem parallel_like_sequential_witness:
  "num_cpu mac_prims = 2 \<and> schedule mac_prims 0 = [True, False] \<and>
   (\<exists>cs ds r'. encryptBlocksParallel mac_prims toy_be [[1, 2, 3, 4], [5, 6, 7, 8], [9, 9, 9, 9], [5]] 3 None toy_rng = Ret (cs, r') \<and>
      doEncryptBlocks mac_prims toy_be [[1, 2, 3, 4], [5, 6, 7, 8], [9, 9, 9, 9], [5]] 3 None toy_rng = Ret (ds, r') \<and> map length cs = map length ds)"
proof -
  let ?vs = "[[1, 2, 3, 4], [5, 6, 7, 8], [9, 9, 9, 9], [5 :: byte]]"
  have n: "nonces_ok (IVLen (cryptoCore toy_be)) (length ?vs) toy_rng"
    by (simp only: toy_be_simps) code_simp
  have p: "0 < num_cpu mac_prims" "num_cpu mac_prims = 2" "schedule mac_prims 0 = [True, False]" by (simp_all add: mac_prims_def)
  have v: "blocks_ok toy_be ?vs" "id_ok None" by (simp_all add: id_ok_def)
  from parallel_like_sequential [OF mac_prims_ok toy_be_ok v(2,1) p(1) n, of 3] p(2,3) show ?thesis by blast
qed






text \<open>Overlaying new data on a block is overwriting the range, extending the block when it is
  shorter.\<close>

theorem merge_overwrites:
  assumes "length old \<le> BS be" "off + length new \<le> BS be" "new \<noteq> []"
  shows "MergeBlocks be old new (int off) = Ret (overwrite off new old)"
  by (rule MergeBlocks_overwrite [OF assms])

theorem merge_overwrites_witness:
  "MergeBlocks toy_be [1, 2, 3] [8, 9] (int 2) = Ret [1, 2, 8, 9]"
  using merge_overwrites [of "[1, 2, 3]" toy_be 2 "[8, 9]"] by (simp add: overwrite_def)

section \<open>Nonces\<close>

text \<open>C29: The nonces handed out one after the other are cut from different parts of the random
  stream: no random byte is used for two nonces, across the refills of the prefetch buffer
  too.\<close>

theorem nonces_disjoint:
  assumes "buf_at r p" "draw_nonces n k r = Ret (bs, r')"
  shows "\<exists>qs. length qs = k \<and> length bs = k \<and>
    (\<forall>j < k. bs ! j = map (\<lambda>i. stream r (qs ! j + i)) [0..<n] \<and> p \<le> qs ! j) \<and>
    (\<forall>i j. i < j \<and> j < k \<longrightarrow> qs ! i + n \<le> qs ! j)"
  by (rule draw_nonces_disjoint [OF assms])

theorem nonces_disjoint_witness:
  "\<exists>bs r' (qs :: nat list). draw_nonces 2 (Suc (Suc 0)) \<lparr>stream = of_nat, pos = 8, prefetched = [3, 4, 5, 6, 7]\<rparr> = Ret (bs, r') \<and>
     length qs = Suc (Suc 0) \<and> qs ! 0 + 2 \<le> qs ! Suc 0"
proof -
  let ?r = "\<lparr>stream = of_nat, pos = 8, prefetched = [3, 4, 5, 6, 7]\<rparr> :: rng"
  have b: "buf_at ?r 3" by (simp add: buf_at_def)
  have d: "draw_nonces 2 (Suc (Suc 0)) ?r = Ret ([[3, 4], [5, 6]], \<lparr>stream = of_nat, pos = 8, prefetched = [7]\<rparr>)"
    by (simp add: nonce_Get_def prefetch_read_def Let_def)
  from nonces_disjoint [OF b d] obtain qs :: "nat list" where q: "length qs = Suc (Suc 0)" "\<forall>i j. i < j \<and> j < Suc (Suc 0) \<longrightarrow> qs ! i + 2 \<le> qs ! j"
    by (elim exE conjE) (rule that, assumption+)
  have "qs ! 0 + 2 \<le> qs ! Suc 0" using q(2) by simp
  then show ?thesis using d q(1) by blast
qed

section \<open>The core\<close>

text \<open>C31: \<open>cryptocore.New\<close> returns exactly for a key of 32 bytes and a supported combination of
  backend, nonce size and key derivation; otherwise it panics. What it returns is usable and
  has the nonce size that was asked for.\<close>

theorem core_construction:
  assumes "prims_ok Pr"
  shows "(returns (New_cryptocore Pr key t bits h) \<longleftrightarrow> length key = 32 \<and> supported t bits h) \<and>
    (\<forall>cc. New_cryptocore Pr key t bits h = Ret cc \<longrightarrow>
       cc_ok cc \<and> IVLen cc * 8 = bits \<and> AEADBackend cc = t \<and> EMECipher cc \<noteq> None)"
  using New_cryptocore_spec [OF assms] by blast

theorem core_construction_witness:
  "\<not> returns (New_cryptocore toy_prims [1, 2, 3] BackendGoGCM 128 True)"
  using core_construction [OF toy_prims_ok, of "[1, 2, 3]" BackendGoGCM 128 True] by simp

text \<open>A wiped core neither encrypts nor decrypts: every use of it panics.\<close>

theorem wiped_unusable:
  assumes "cryptocore_Wipe cc = Ret (a, cc')"
  shows "cc_Seal Pr cc' dst n p ad = Panic NilDeref \<and> cc_Open Pr cc' dst n c ad = Panic NilDeref \<and> EMECipher cc' = None"
  using wiped_core_panics [OF assms] by blast

theorem wiped_unusable_witness:
  "\<exists>a cc'. cryptocore_Wipe toy_cc = Ret (a, cc') \<and> cc_Seal toy_prims cc' [] [1] [2] [3] = Panic NilDeref"
proof -
  obtain a cc' where "cryptocore_Wipe toy_cc = Ret (a, cc')"
    by (auto simp: cryptocore_Wipe_def toy_cc_def)
  then show ?thesis using wiped_unusable by blast
qed

end
