(* ===== verification/Spec2Isabelle.thy ===== *)
theory Spec2Isabelle
  imports SyncClaims SystemClaims ContentClaims ReachClaims
begin

unbundle bit_operations_syntax

text \<open>
  A development of the library at the core of \<^verbatim>\<open>gcfs\<close>, a version of gocryptfs without FUSE: volumes
  are directories of encrypted files with encrypted names that a process opens and works on
  through exported functions \<^verbatim>\<open>gcf_*\<close>.

  \<^bold>\<open>The program and its parts.\<close> An exported function (\<^verbatim>\<open>file.go\<close>, \<^verbatim>\<open>directory.go\<close>,
  \<^verbatim>\<open>common_ops.go\<close>, \<^verbatim>\<open>volume.go\<close>) takes the number of a volume and a plaintext path. The walk
  along the path (\<^verbatim>\<open>helpers.go\<close>, with the cache of \<^verbatim>\<open>dircache.go\<close>) delivers the descriptor of
  the parent directory and the encrypted name of the child, for which it uses
  \<^verbatim>\<open>internal/nametransform\<close>. Files are opened relative to that descriptor and get a handle.
  Reading and writing through a handle splits the request into blocks and encrypts and
  decrypts them (\<^verbatim>\<open>internal/contentenc\<close>) with the ciphers of \<^verbatim>\<open>internal/cryptocore\<close>,
  \<^verbatim>\<open>internal/stupidgcm\<close> and \<^verbatim>\<open>internal/siv_aead\<close>. The master key comes from the configuration
  file (\<^verbatim>\<open>internal/configfile\<close>). All system calls go through \<^verbatim>\<open>internal/syscallcompat\<close> or the
  package \<^verbatim>\<open>os\<close>. The command line program (\<^verbatim>\<open>cli.go\<close>, \<^verbatim>\<open>sync.go\<close>, \<^verbatim>\<open>find.go\<close>) is a client of the
  exported functions: it opens a volume, looks at it or copies files in and out, and mirrors
  directories between the volume and the plaintext file system.

  \<^bold>\<open>The theories.\<close> Each models its part in the order of the code and proves its laws.
  \<^item> \<open>GcPrelude\<close>: outcomes of Go code (\<open>Ret\<close>, \<open>Panic\<close>, \<open>Hang\<close>), errors, byte ranges.
  \<^item> \<open>Randomness\<close>: \<^verbatim>\<open>nonce.go\<close> and \<^verbatim>\<open>randprefetch.go\<close>; a random stream is part of the state.
  \<^item> \<open>CryptoCore\<close>: backends, key derivation, \<open>New\<close> and \<open>Wipe\<close>; the locale \<open>aead_scheme\<close> is what
    the rest relies on, and every backend provides it.
  \<^item> \<open>Blocks\<close>: \<^verbatim>\<open>offsets.go\<close> and \<^verbatim>\<open>intrablock.go\<close>, on 64-bit words, with their values as
    naturals. \<open>FileHeader\<close>: \<^verbatim>\<open>file_header.go\<close>.
  \<^item> \<open>BlockFile\<close>: the abstract file, a locale \<open>block_codec\<close> with what overwriting and resizing do to
    the plaintext. \<open>ContentEnc\<close>: \<^verbatim>\<open>content.go\<close>, which provides that codec.
  \<^item> \<open>PosixOS\<close>, \<open>PosixDir\<close>: inodes, descriptors and system calls, each of which may fail as the
    list \<open>faults\<close> of the state says; the wrappers of \<^verbatim>\<open>syscallcompat\<close>.
  \<^item> \<open>FileContent\<close>, \<open>FileWrite\<close>: \<open>doRead\<close>, \<open>doWrite\<close> and truncation on one open file.
  \<^item> \<open>Names\<close>, \<open>NameFiles\<close>, \<open>GoPath\<close>: names as compositions of codecs (locale \<open>codec\<close>), IV and long-name files,
    \<^verbatim>\<open>path/filepath\<close>.
  \<^item> \<open>DirCache\<close>, \<open>World\<close>, \<open>Paths\<close>: the cache (locale \<open>path_cache\<close>), the tables of volumes and handles
    (locale \<open>id_table\<close>), \<open>prepareAtSyscall\<close>.
  \<^item> \<open>Directory\<close>, \<open>CommonOps\<close>, \<open>FileOps\<close>, \<open>Volume\<close>, \<open>ConfigFile\<close>: the exported functions and the configuration.
  \<^item> \<open>HandleOps\<close>, \<open>FileLaws\<close>, \<open>NameLaws\<close>, \<open>VolumeLaws\<close>, \<open>ConfigStore\<close>, \<open>VolumeLife\<close>: laws of the
    operations in the state of the process.
  \<^item> \<open>Getdents\<close>: \<^verbatim>\<open>getdents_linux.go\<close>, the bytes that the kernel delivers for a directory and the
    loops that take them apart. \<open>OpenNofollow\<close>: \<^verbatim>\<open>open_nofollow.go\<close> and \<open>Flush\<close>. \<open>ExitCodes\<close>:
    \<^verbatim>\<open>internal/exitcodes\<close>.
  \<^item> \<open>Host\<close>: the calls of the package \<^verbatim>\<open>os\<close> on absolute paths outside the volumes. \<open>Cli\<close>: \<^verbatim>\<open>cli.go\<close>, with
    the state \<open>proc\<close> of the process around a \<open>world\<close>. \<open>Sync\<close>: \<^verbatim>\<open>sync.go\<close>, \<^verbatim>\<open>find.go\<close> and \<open>main\<close>.
  \<^item> \<open>SyncPaths\<close>: clean paths as lists of names. \<open>Readonly\<close>: which operations leave the disk alone.
    \<open>Copying\<close>, \<open>CopyOut\<close>: the loops that copy into a volume and out of it.
  \<^item> \<open>IoRules\<close>: relations between the states before and after an operation, as locales (\<open>io_relation\<close>,
    \<open>table_relation\<close>); leaving the disk alone (\<open>Readonly\<close>) is one. \<open>Reachable\<close>: the calls of the exported
    functions as a datatype, the states that sequences of them lead to, and their invariant.
  \<^item> \<open>Toy\<close>: one instance of the parameters, on which the properties are applied.
  \<^item> \<open>FileClaims\<close>, \<open>ContentClaims\<close>, \<open>ConfigClaims\<close>, \<open>NameClaims\<close>, \<open>SyncClaims\<close>, \<open>SystemClaims\<close>,
    \<open>ReachClaims\<close> and this theory: the properties.

  \<^bold>\<open>State.\<close> The record \<open>world\<close> holds the operating system, the random source and the table
  \<open>OpenedVolumes\<close>; a \<open>volume\<close> holds its name transformation, content encryption, cache and
  handles, a \<open>File\<close> its descriptor, path, cached ID and the number of readers of its lock. An
  exported function is a state transformer \<open>world \<Rightarrow> ('a \<times> world) go\<close>. The primitives of the
  Go and C libraries (AES-GCM, ChaCha20, SIV, EME, HKDF, scrypt, SHA-2, the number of
  processors and the schedule of goroutines) are the record \<open>prims\<close> with the laws \<open>prims_ok\<close>;
  JSON is the record \<open>json\<close> with \<open>json_ok\<close>; what the CPU offers is the record \<open>platform\<close>.

  \<^bold>\<open>What is shown.\<close> The plaintext behind a handle is read, overwritten and resized as an
  ordinary file would be, and a failed write leaves everything outside its blocks alone
  (\<open>FileClaims\<close>). Sizes, block ranges, headers and blocks survive the round trip, blocks are bound
  to their position and file, and no randomness is used twice (\<open>ContentClaims\<close>). A created volume
  opens, the configuration file is replaced atomically, a change of password keeps the key
  (\<open>ConfigClaims\<close>). Names encrypt without confusion, the walk along an absolute path ends, the cache
  answers with an IV that was stored for the path, and as long as no path is stored twice with the
  last one, listings show valid names (\<open>NameClaims\<close>). Directories are read
  completely and opened without following links (\<open>SystemClaims\<close>). A dry run and the commands that
  look change nothing; what is put into a volume or encrypted into it comes out again; both
  directions of the mirror agree on the paths, and a file that is unchanged is not copied
  again (\<open>SyncClaims\<close>, here). After any sequence of calls the open volumes are in order and no file is
  left locked, so that closing a file ends; when closing a volume does is settled
  exactly (\<open>ReachClaims\<close>). Where the code does not
  do what it means to, a property says what it does: empty requests, a full disk at the
  first write, truncation to zero, closing of handles, an empty encrypted key, relative
  paths, failing reads in the copying loops.

  \<^bold>\<open>Bounds and fuel.\<close> Offsets and sizes are words of 64 bits; the properties hold up to 2^56 or
  2^57 bytes, below which nothing wraps around. The recursion of \<open>prepareAtSyscall\<close> has the depth
  \<open>Suc (length path)\<close>: the parents of an absolute path get shorter, and any larger depth gives
  the same result. The walks over directory trees (\<open>walk_dir\<close>, \<open>pruneVolume\<close>, \<open>decrypt_walk\<close>,
  \<open>pruneDisk\<close>, \<open>find_walk\<close>) take the depth of the stack as a number, and overflow below it; the
  properties hold for every number. \<^verbatim>\<open>put\<close> gets one round more than the input has bytes, and
  each round but the last takes at least one. Paths of the host are looked up with the length of
  the path plus 40 links. All other loops are functions with a termination proof.

  \<^bold>\<open>Not modelled.\<close> \<^verbatim>\<open>allocator\<close> (memory for C callers) and \<^verbatim>\<open>locking.go\<close> (thread locks of old
  OpenSSL versions); \<^verbatim>\<open>main.go\<close> has no code; log output and messages on standard error, which are
  all that \<open>dryTag\<close> and \<open>baseTag\<close> are for; the text of \<^verbatim>\<open>Unix2syscall\<close>, which copies fields. The
  buffers of the pools are values: that they are used again is not seen. Exported functions run one
  after the other; the lock of a file is modelled as far as an operation can block itself.
  A command that calls \<open>die\<close> ends with the state it leaves (\<open>Exited\<close>); a panic of Go ends without one.
  The kernel of the model always knows the type of a directory entry: it never reports \<open>DT_UNKNOWN\<close>.
  Modification and change times of directories, the entries \<open>..\<close>, and permissions of the caller are
  not part of the file system.
\<close>

section \<open>The size of a file\<close>

text \<open>C37: The size that \<open>gcf_get_attrs\<close> reports for a regular file is the length of the plaintext
  behind it.\<close>

theorem reported_size:
  assumes "be_ok (contentEnc v)" "holds Pr (contentEnc v) None c p" "length p \<le> 2 ^ 57"
    and "volume_of w sid = Some v" "prepareAtSyscall (depth path) Pr sid v path w = Ret (Inr (d, n), w1)"
    and "quiet (w_os w1)" "resolve (w_os w1) d n = Inr j" "inode_node (inodes (w_os w1) ! j) = RegF c"
    and "inode_perm (inodes (w_os w1) ! j) AND S_IFMT = 0"
  shows "\<exists>w2. gcf_get_attrs Pr sid path w = Ret ((S_IFREG OR inode_perm (inodes (w_os w1) ! j), of_nat (length p),
      of_int (inode_mtime (inodes (w_os w1) ! j)), True), w2)"
  by (rule get_attrs_regular [OF assms])

definition toy_vol :: "contentEnc \<Rightarrow> volume" where
  "toy_vol be = \<lparr>volumeID = 0, rootCipherDir = ''/v'', plainTextNames = True, nameTransform = toy_nt,
     contentEnc = be, dirCache = new_dirCache 0, fileHandles = []\<rparr>"

lemma toy_walk:
  "case prepareAtSyscall (depth ''/a'') toy_prims 0 (toy_vol be) ''/a'' \<lparr>w_os = toy_os [], w_rng = toy_rng, OpenedVolumes = [(0, toy_vol be)]\<rparr> of
     Ret (Inr (d, n), w1) \<Rightarrow> faults (w_os w1) = [] \<and> resolve (w_os w1) d n = Inr 0 \<and> inode_node (inodes (w_os w1) ! 0) = RegF [] \<and>
       inode_perm (inodes (w_os w1) ! 0) = 0x180 \<and> inode_mtime (inodes (w_os w1) ! 0) = 0
   | _ \<Rightarrow> False"
  by code_simp

lemma toy_walked:
  obtains d n w1 where "prepareAtSyscall (depth ''/a'') toy_prims 0 (toy_volume True []) ''/a'' (toy_world (toy_os []) True []) = Ret (Inr (d, n), w1)"
    "quiet (w_os w1)" "resolve (w_os w1) d n = Inr 0" "inode_node (inodes (w_os w1) ! 0) = RegF []"
    "inode_perm (inodes (w_os w1) ! 0) = 0x180" "inode_mtime (inodes (w_os w1) ! 0) = 0"
proof -
  let ?v = "toy_volume True []" and ?w = "toy_world (toy_os []) True []"
  have v: "?v = toy_vol toy_be" by (simp add: toy_volume_def toy_vol_def)
  have w: "?w = \<lparr>w_os = toy_os [], w_rng = toy_rng, OpenedVolumes = [(0, toy_vol toy_be)]\<rparr>"
    by (simp add: toy_world_def v)
  obtain a w1 where a: "prepareAtSyscall (depth ''/a'') toy_prims 0 ?v ''/a'' ?w = Ret (a, w1)"
    "case a of Inl e \<Rightarrow> False | Inr (d, n) \<Rightarrow> faults (w_os w1) = [] \<and> resolve (w_os w1) d n = Inr 0 \<and>
      inode_node (inodes (w_os w1) ! 0) = RegF [] \<and> inode_perm (inodes (w_os w1) ! 0) = 0x180 \<and> inode_mtime (inodes (w_os w1) ! 0) = 0"
    using toy_walk [of toy_be] unfolding v w by (auto simp: sum_case_eq split: go.splits)
  then show ?thesis by (cases a) (auto intro!: that)
qed

lemma toy_empty_file:
  "be_ok (contentEnc (toy_volume True []))" "holds toy_prims (contentEnc (toy_volume True [])) None [] []"
  "volume_of (toy_world (toy_os []) True []) 0 = Some (toy_volume True [])"
  using toy_be_ok by (simp_all add: toy_volume_def holds_def toy_world_def volume_of_def table_lookup_def)

theorem reported_size_witness:
  "\<exists>w2. gcf_get_attrs toy_prims 0 ''/a'' (toy_world (toy_os []) True []) = Ret ((0x8180, 0, 0, True), w2)"
proof -
  obtain d n w1 where w1: "prepareAtSyscall (depth ''/a'') toy_prims 0 (toy_volume True []) ''/a'' (toy_world (toy_os []) True []) = Ret (Inr (d, n), w1)"
    "quiet (w_os w1)" "resolve (w_os w1) d n = Inr 0" "inode_node (inodes (w_os w1) ! 0) = RegF []"
    "inode_perm (inodes (w_os w1) ! 0) = 0x180" "inode_mtime (inodes (w_os w1) ! 0) = 0"
    by (rule toy_walked)
  have l: "length ([] :: bytes) \<le> 2 ^ 57" "inode_perm (inodes (w_os w1) ! 0) AND S_IFMT = 0" using w1(5) by (simp_all add: S_IFMT_def)
  have m: "S_IFREG OR 0x180 = (0x8180 :: uint32)" by (simp add: S_IFREG_def)
  from reported_size [OF toy_empty_file(1,2) l(1) toy_empty_file(3) w1(1-4) l(2)] show ?thesis by (simp add: w1(5,6) m)
qed

section \<open>Incremental synchronisation\<close>

text \<open>C20: \<^verbatim>\<open>sync\<close> does not copy a file again whose copy in the volume has its length and, within the
  window, its time: the length of the plaintext, worked out from the encrypted file, is what
  is compared. The file only counts as unchanged; nothing is printed and nothing on the
  disk changes.\<close>

theorem unchanged_file_skipped:
  assumes "be_ok (contentEnc v)" "holds (e_prims E) (contentEnc v) None c p" "length p \<le> 2 ^ 57"
    and "volume_of (p_lib pr) vid = Some v"
    and "prepareAtSyscall (depth vpath) (e_prims E) vid v vpath (p_lib pr) = Ret (Inr (d, n), w1)"
    and "quiet (w_os w1)" "resolve (w_os w1) d n = Inr j" "inode_node (inodes (w_os w1) ! j) = RegF c"
    and "inode_perm (inodes (w_os w1) ! j) AND S_IFMT = 0"
    and "st_size info = of_nat (length p)" "\<bar>inode_mtime (inodes (w_os w1) ! j) - st_mtime info\<bar> \<le> sint (window opt)"
    and "\<bar>inode_mtime (inodes (w_os w1) ! j)\<bar> < 2 ^ 62" "\<bar>st_mtime info\<bar> < 2 ^ 62"
    and "\<not> checksum opt" "\<not> verbose opt"
  shows "\<exists>pr'. encrypt_regular E opt vid q rel vpath info st pr = Ret (Done (st\<lparr>nSkip := nSkip st + 1\<rparr>), pr') \<and>
    p_out pr' = p_out pr \<and> disk (w_os (p_lib pr')) = disk (w_os (p_lib pr))"
proof -
  let ?m = "inode_mtime (inodes (w_os w1) ! j)"
  obtain w2 where w2: "gcf_get_attrs (e_prims E) vid vpath (p_lib pr)
      = Ret ((S_IFREG OR inode_perm (inodes (w_os w1) ! j), of_nat (length p), of_int ?m, True), w2)"
    using get_attrs_regular [OF assms(1-9)] by blast
  have s: "sint (of_int ?m :: 64 word) = ?m" "sint (of_int (st_mtime info) :: 64 word) = st_mtime info"
    using assms(12,13) by (simp_all add: signed_of_int signed_take_bit_int_eq_self)
  have "\<bar>?m - st_mtime info\<bar> < 2 ^ 63" using assms(12,13) by simp
  then have win: "withinWindow (of_int ?m) (of_int (st_mtime info)) (window opt)"
    using withinWindow_eq [of "of_int ?m" "of_int (st_mtime info)" "window opt"] assms(11) unfolding s by blast
  have "encrypt_regular E opt vid q rel vpath info st pr = Ret (Done (st\<lparr>nSkip := nSkip st + 1\<rparr>), pr\<lparr>p_lib := w2\<rparr>)"
    using assms(10,14,15) win by (simp add: encrypt_regular_def bindc_def on_lib_def w2 differs_def retc_def)
  then show ?thesis using keepsD [OF keeps_get_attrs w2] by simp
qed

theorem unchanged_file_skipped_witness:
  "\<exists>pr'. encrypt_regular toy_env sync_defaults 0 ''/src/a'' ''a'' ''/a''
      \<lparr>st_mode = 0x8180, st_size = 0, st_mtime = 2\<rparr> no_progress
      \<lparr>p_lib = toy_world (toy_os []) True [], p_out = [], p_in = [], p_in_fails = False\<rparr> = Ret (Done (no_progress\<lparr>nSkip := 1\<rparr>), pr') \<and>
    disk (w_os (p_lib pr')) = disk (toy_os [])"
proof -
  let ?pr = "\<lparr>p_lib = toy_world (toy_os []) True [], p_out = [], p_in = [], p_in_fails = False\<rparr>"
  let ?i = "\<lparr>st_mode = 0x8180, st_size = 0, st_mtime = 2\<rparr> :: stat"
  have E: "e_prims toy_env = toy_prims" "p_lib ?pr = toy_world (toy_os []) True []" by (simp_all add: toy_env_def)
  obtain d n w1 where w1: "prepareAtSyscall (depth ''/a'') toy_prims 0 (toy_volume True []) ''/a'' (toy_world (toy_os []) True []) = Ret (Inr (d, n), w1)"
    "quiet (w_os w1)" "resolve (w_os w1) d n = Inr 0" "inode_node (inodes (w_os w1) ! 0) = RegF []"
    "inode_perm (inodes (w_os w1) ! 0) = 0x180" "inode_mtime (inodes (w_os w1) ! 0) = 0"
    by (rule toy_walked)
  have l: "length ([] :: bytes) \<le> 2 ^ 57" "inode_perm (inodes (w_os w1) ! 0) AND S_IFMT = 0" using w1(5) by (simp_all add: S_IFMT_def)
  have o: "st_size ?i = of_nat (length ([] :: bytes))" "\<bar>inode_mtime (inodes (w_os w1) ! 0) - st_mtime ?i\<bar> \<le> sint (window sync_defaults)"
    "\<bar>inode_mtime (inodes (w_os w1) ! 0)\<bar> < 2 ^ 62" "\<bar>st_mtime ?i\<bar> < 2 ^ 62" "\<not> checksum sync_defaults" "\<not> verbose sync_defaults"
    using w1(6) by (simp_all add: sync_defaults_def)
  have z: "no_progress\<lparr>nSkip := nSkip no_progress + 1\<rparr> = no_progress\<lparr>nSkip := 1\<rparr>" by (simp add: no_progress_def)
  from unchanged_file_skipped [where E = toy_env and pr = ?pr, unfolded E, OF toy_empty_file(1,2) l(1) toy_empty_file(3) w1(1-4) l(2) o,
      of "''/src/a''" "''a''" no_progress]
  obtain pr' where "encrypt_regular toy_env sync_defaults 0 ''/src/a'' ''a'' ''/a'' ?i no_progress ?pr = Ret (Done (no_progress\<lparr>nSkip := 1\<rparr>), pr')"
    "disk (w_os (p_lib pr')) = disk (w_os (toy_world (toy_os []) True []))"
    unfolding z E by blast
  then show ?thesis by (auto simp: toy_world_def)
qed

end
